(* ===== verification/KS_Prelude.thy ===== *)
theory KS_Prelude
  imports Main "HOL-Library.AList" "HOL-Library.Multiset" "HOL-Library.Char_ord"
    "HOL-Library.List_Lexorder"
begin

text \<open>
  The prelude of the development: the shapes every component shares.

  \<^item> Go maps are association lists with distinct keys. The list order is the order in which
    a \<^verbatim>\<open>range\<close> loop happens to visit the entries, which the language leaves open: a theorem
    about every association list is a theorem about every iteration order.
  \<^item> A Go pointer or nil-able value is an option, a call that may fail returns a sum whose
    left side is the error.
  \<^item> A component with state is a step function; the locale \<open>machine\<close> carries the
    induction that lifts a preserved predicate to every run.
  \<^item> Strings are byte lists ordered lexicographically, as Go compares them.
\<close>

section \<open>Collections of simplification rules\<close>

named_theorems cache_simps \<open>unfolding rules of the webhook caches\<close>
named_theorems tracker_simps \<open>unfolding rules of the incident tracker\<close>
named_theorems link_simps \<open>unfolding rules of the operator's link queues\<close>
named_theorems reconcile_simps \<open>unfolding rules of the reconcilers\<close>

section \<open>Types shared by the components\<close>

type_synonym 'v smap = "(string \<times> 'v) list"
type_synonym labels = "string smap"

text \<open>Time is counted in nanoseconds from Go's zero time, so that \<open>IsZero\<close> is \<open>t = 0\<close>.\<close>

type_synonym time = int
type_synonym duration = int

abbreviation (input) second :: duration where "second \<equiv> 1000000000"
abbreviation (input) minute :: duration where "minute \<equiv> 60 * 1000000000"
abbreviation (input) hour :: duration where "hour \<equiv> 3600 * 1000000000"

definition max_duration :: duration where
  "max_duration = 2 ^ 63 - 1"

definition min_duration :: duration where
  "min_duration = - (2 ^ 63)"

text \<open>Go's \<open>Time.Sub\<close> saturates at the ends of the 64-bit duration range.\<close>

definition time_sub :: "time \<Rightarrow> time \<Rightarrow> duration" where
  "time_sub a b = max min_duration (min max_duration (a - b))"

lemma time_sub_gt_iff: "0 \<le> d \<Longrightarrow> d < max_duration \<Longrightarrow> time_sub a b > d \<longleftrightarrow> a - b > d"
  by (auto simp: time_sub_def max_duration_def min_duration_def)

lemma time_sub_le_iff: "0 \<le> d \<Longrightarrow> d < max_duration \<Longrightarrow> time_sub a b \<le> d \<longleftrightarrow> a - b \<le> d"
  by (auto simp: time_sub_def max_duration_def min_duration_def)

lemma time_sub_pos: "b < a \<Longrightarrow> 0 < time_sub a b"
  by (auto simp: time_sub_def max_duration_def min_duration_def)

section \<open>Association lists as Go maps\<close>

abbreviation wf_map :: "('k \<times> 'v) list \<Rightarrow> bool" where
  "wf_map m \<equiv> distinct (map fst m)"

lemma map_of_update [simp]: "map_of (AList.update k v m) = (map_of m)(k \<mapsto> v)"
  by (rule update_conv')

lemma map_of_delete [simp]: "map_of (AList.delete k m) = (map_of m)(k := None)"
  by (rule delete_conv')

lemma wf_map_update [simp, intro]: "wf_map m \<Longrightarrow> wf_map (AList.update k v m)"
  by (rule distinct_update)

lemma wf_map_delete [simp, intro]: "wf_map m \<Longrightarrow> wf_map (AList.delete k m)"
  by (rule distinct_delete)

lemma keys_update [simp]: "fst ` set (AList.update k v m) = insert k (fst ` set m)"
  by (simp add: dom_update)

lemma keys_delete [simp]: "fst ` set (AList.delete k m) = fst ` set m - {k}"
  by (auto simp: delete_keys AList.delete_eq)

lemma set_delete_subset: "set (AList.delete k m) \<subseteq> set m"
  by (auto simp: AList.delete_eq)

lemma mem_delete_iff: "(a, b) \<in> set (AList.delete k m) \<longleftrightarrow> (a, b) \<in> set m \<and> a \<noteq> k"
  by (auto simp: AList.delete_eq)

lemma mem_update_iff:
  "wf_map m \<Longrightarrow> (a, b) \<in> set (AList.update k v m)
     \<longleftrightarrow> (if a = k then b = v else (a, b) \<in> set m)"
  using map_of_eq_Some_iff [of "AList.update k v m" a b] map_of_eq_Some_iff [of m a b]
  by (auto split: if_splits)

lemma map_of_None_iff: "map_of m k = None \<longleftrightarrow> k \<notin> fst ` set m"
  by (simp add: map_of_eq_None_iff)

lemma map_of_all_true: "list_all snd m \<Longrightarrow> map_of m k = Some True \<longleftrightarrow> k \<in> fst ` set m"
  by (induction m) auto

lemma map_of_in_set: "map_of m k = Some v \<Longrightarrow> (k, v) \<in> set m"
  by (rule map_of_SomeD)

lemma length_update: "length (AList.update k v m) =
    (if k \<in> fst ` set m then length m else Suc (length m))"
  by (induction m) auto

lemma update_fresh: "k \<notin> fst ` set m \<Longrightarrow> AList.update k v m = m @ [(k, v)]"
  by (induction m) auto

lemma length_delete:
  "wf_map m \<Longrightarrow> length (AList.delete k m) = (if k \<in> fst ` set m then length m - 1 else length m)"
proof (induction m)
  case (Cons p m)
  then show ?case
    by (cases "fst p = k") (auto simp: delete_simps image_iff Suc_pred length_greater_0_conv
        intro!: Suc_pred dest: length_pos_if_in_set)
qed simp

lemma length_delete_le: "length (AList.delete k m) \<le> length m"
  by (simp add: length_delete_le)

text \<open>A map written by a loop \<^verbatim>\<open>m[key(x)] = val(x)\<close>: the last writer wins.\<close>

definition index_by :: "('a \<Rightarrow> string) \<Rightarrow> ('a \<Rightarrow> 'b) \<Rightarrow> 'a list \<Rightarrow> 'b smap" where
  "index_by key val xs = fold (\<lambda>x m. AList.update (key x) (val x) m) xs []"

lemma fold_update_map_of:
  "map_of (fold (\<lambda>x m. AList.update (key x) (val x) m) xs m0) =
     map_of m0 ++ map_of (rev (map (\<lambda>x. (key x, val x)) xs))"
  by (induction xs arbitrary: m0) (auto simp: map_add_def fun_eq_iff split: option.splits)

lemma map_of_index_by: "map_of (index_by key val xs) = map_of (rev (map (\<lambda>x. (key x, val x)) xs))"
  by (simp add: index_by_def fold_update_map_of)

lemma fold_update_wf: "wf_map m0 \<Longrightarrow> wf_map (fold (\<lambda>x m. AList.update (key x) (val x) m) xs m0)"
  by (induction xs arbitrary: m0) auto

lemma index_by_wf [simp]: "wf_map (index_by key val xs)"
  by (simp add: index_by_def fold_update_wf)

lemma index_by_Some:
  assumes "map_of (index_by key val xs) k = Some v"
  shows "\<exists>x \<in> set xs. key x = k \<and> val x = v"
  using map_of_in_set [OF assms [unfolded map_of_index_by]] by auto

lemma index_by_None_iff: "map_of (index_by key val xs) k = None \<longleftrightarrow> k \<notin> key ` set xs"
  by (simp add: map_of_index_by map_of_eq_None_iff image_image)

lemma index_by_unique:
  assumes "distinct (map key xs)" and "x \<in> set xs"
  shows "map_of (index_by key val xs) (key x) = Some (val x)"
proof -
  have "distinct (map fst (rev (map (\<lambda>x. (key x, val x)) xs)))"
    using assms(1) by (simp add: o_def flip: rev_map)
  moreover have "(key x, val x) \<in> set (rev (map (\<lambda>x. (key x, val x)) xs))"
    using assms(2) by auto
  ultimately show ?thesis
    unfolding map_of_index_by by (rule map_of_is_SomeI)
qed

section \<open>Lists\<close>

text \<open>The first-occurrence order in which a loop with a \<^verbatim>\<open>seen\<close> set keeps its values.\<close>

fun dedup :: "'a list \<Rightarrow> 'a list" where
  "dedup [] = []"
| "dedup (x # xs) = x # filter (\<lambda>y. y \<noteq> x) (dedup xs)"

lemma set_dedup [simp]: "set (dedup xs) = set xs"
  by (induction xs) auto

lemma distinct_dedup [simp]: "distinct (dedup xs)"
  by (induction xs) auto

lemma filter_dedup: "filter P (dedup xs) = dedup (filter P xs)"
proof (induction xs)
  case (Cons x xs)
  then show ?case
    by (auto simp: filter_filter simp flip: Cons intro!: filter_cong)
qed simp

lemma in_set_map_filter: "y \<in> set (List.map_filter f xs) \<longleftrightarrow> (\<exists>x \<in> set xs. f x = Some y)"
  by (induction xs) (auto simp: map_filter_simps split: option.splits)

lemma map_filter_map_filter:
  "List.map_filter f (map h (filter P xs)) = List.map_filter (\<lambda>x. if P x then f (h x) else None) xs"
  by (induction xs) (auto simp: map_filter_simps split: option.splits)

lemma map_filter_cong: "(\<And>x. x \<in> set xs \<Longrightarrow> f x = g x) \<Longrightarrow> List.map_filter f xs = List.map_filter g xs"
  by (induction xs) (simp_all add: map_filter_simps split: option.split)

lemma mset_map_filter: "mset (List.map_filter f xs) =
    image_mset (\<lambda>x. the (f x)) (filter_mset (\<lambda>x. f x \<noteq> None) (mset xs))"
  by (induction xs) (auto simp: map_filter_simps split: option.splits)

lemma map_filter_map_of:
  assumes "wf_map m" "distinct ks" "set ks = fst ` set m"
  shows "mset (List.map_filter (map_of m) ks) = mset (map snd m)"
proof -
  have "mset ks = mset (map fst m)"
    using assms by (simp add: set_eq_iff_mset_eq_distinct flip: set_map)
  then have "mset (List.map_filter (map_of m) ks) = mset (List.map_filter (map_of m) (map fst m))"
    unfolding mset_map_filter by simp
  also have "List.map_filter (map_of m) (map fst m) = map snd m"
    using assms(1)
  proof (induction m)
    case (Cons p m)
    have "List.map_filter (map_of (p # m)) (map fst m) = List.map_filter (map_of m) (map fst m)"
      using Cons.prems by (intro map_filter_cong) (auto simp: image_iff)
    then show ?case using Cons by (simp add: map_filter_simps fun_upd_def)
  qed (simp add: map_filter_simps)
  finally show ?thesis .
qed

lemma mset_concat_cong: "mset xss = mset yss \<Longrightarrow> mset (concat xss) = mset (concat yss)"
  by (metis mset_concat mset_map sum_mset_sum_list)

section \<open>State machines\<close>

text \<open>
  A component whose operations are the inputs of one step function. What the initial state
  satisfies and every step on an admissible input keeps, holds after any sequence of admissible
  operations.
\<close>

locale machine =
  fixes init :: 's
    and step :: "'s \<Rightarrow> 'i \<Rightarrow> 's"
    and admissible :: "'i \<Rightarrow> bool"
    and inv :: "'s \<Rightarrow> bool"
  assumes inv_init: "inv init"
    and inv_step: "inv s \<Longrightarrow> admissible i \<Longrightarrow> inv (step s i)"
begin

lemma inv_foldl: "inv s \<Longrightarrow> list_all admissible is \<Longrightarrow> inv (foldl step s is)"
  by (induction "is" arbitrary: s) (auto intro: inv_step)

lemma inv_run: "list_all admissible is \<Longrightarrow> inv (foldl step init is)"
  by (rule inv_foldl [OF inv_init])

end

end
