(* ===== verification/Go_Strings.thy ===== *)
theory Go_Strings
  imports KS_Prelude
begin

text \<open>
  The operations of Go's \<^verbatim>\<open>strings\<close> package that the program uses, on byte lists.

  \<open>TrimSpace\<close> removes leading and trailing runes of Unicode's White Space class; a rune is
  recognised by its UTF-8 encoding, so the definition works on the bytes as the library does.
  The lemmas give the facts the components rely on: trimming is idempotent and leaves a string
  with clean ends alone, splitting and joining on a separator that does not occur are inverse.
\<close>

section \<open>Prefixes, suffixes, search\<close>

definition HasPrefix :: "string \<Rightarrow> string \<Rightarrow> bool" where
  "HasPrefix s p \<longleftrightarrow> take (length p) s = p"

definition HasSuffix :: "string \<Rightarrow> string \<Rightarrow> bool" where
  "HasSuffix s p \<longleftrightarrow> HasPrefix (rev s) (rev p)"

definition TrimPrefix :: "string \<Rightarrow> string \<Rightarrow> string" where
  "TrimPrefix s p = (if HasPrefix s p then drop (length p) s else s)"

fun Index :: "string \<Rightarrow> string \<Rightarrow> nat option" where
  "Index [] p = (if p = [] then Some 0 else None)"
| "Index (c # s) p = (if HasPrefix (c # s) p then Some 0 else map_option Suc (Index s p))"

definition Contains :: "string \<Rightarrow> string \<Rightarrow> bool" where
  "Contains s p \<longleftrightarrow> Index s p \<noteq> None"

definition Cut :: "string \<Rightarrow> string \<Rightarrow> string \<times> string \<times> bool" where
  "Cut s sep = (case Index s sep of
      None \<Rightarrow> (s, [], False)
    | Some i \<Rightarrow> (take i s, drop (i + length sep) s, True))"

section \<open>Split and Join\<close>

text \<open>\<open>Split\<close> for a separator of one byte, the only kind the program splits on.\<close>

fun Split :: "string \<Rightarrow> char \<Rightarrow> string list" where
  "Split [] c = [[]]"
| "Split (x # xs) c = (if x = c then [] # Split xs c
     else (case Split xs c of [] \<Rightarrow> [[x]] | y # ys \<Rightarrow> (x # y) # ys))"

fun Join :: "string list \<Rightarrow> string \<Rightarrow> string" where
  "Join [] sep = []"
| "Join [x] sep = x"
| "Join (x # y # ys) sep = x @ sep @ Join (y # ys) sep"

section \<open>TrimSpace\<close>

definition space_encodings :: "string list" where
  "space_encodings =
    [[CHR 0x09], [CHR 0x0A], [CHR 0x0B], [CHR 0x0C], [CHR 0x0D], [CHR 0x20],
     [CHR 0xC2, CHR 0x85], [CHR 0xC2, CHR 0xA0], [CHR 0xE1, CHR 0x9A, CHR 0x80],
     [CHR 0xE2, CHR 0x80, CHR 0x80], [CHR 0xE2, CHR 0x80, CHR 0x81],
     [CHR 0xE2, CHR 0x80, CHR 0x82], [CHR 0xE2, CHR 0x80, CHR 0x83],
     [CHR 0xE2, CHR 0x80, CHR 0x84], [CHR 0xE2, CHR 0x80, CHR 0x85],
     [CHR 0xE2, CHR 0x80, CHR 0x86], [CHR 0xE2, CHR 0x80, CHR 0x87],
     [CHR 0xE2, CHR 0x80, CHR 0x88], [CHR 0xE2, CHR 0x80, CHR 0x89],
     [CHR 0xE2, CHR 0x80, CHR 0x8A], [CHR 0xE2, CHR 0x80, CHR 0xA8],
     [CHR 0xE2, CHR 0x80, CHR 0xA9], [CHR 0xE2, CHR 0x80, CHR 0xAF],
     [CHR 0xE2, CHR 0x81, CHR 0x9F], [CHR 0xE3, CHR 0x80, CHR 0x80]]"

definition space_len :: "string \<Rightarrow> nat" where
  "space_len s = (case filter (HasPrefix s) space_encodings of [] \<Rightarrow> 0 | e # _ \<Rightarrow> length e)"

definition space_len_end :: "string \<Rightarrow> nat" where
  "space_len_end s = (case filter (HasSuffix s) space_encodings of [] \<Rightarrow> 0 | e # _ \<Rightarrow> length e)"

lemma space_len_Nil [simp]: "space_len [] = 0"
  by (simp add: space_len_def space_encodings_def HasPrefix_def)

lemma space_len_end_Nil [simp]: "space_len_end [] = 0"
  by (simp add: space_len_end_def space_encodings_def HasPrefix_def HasSuffix_def)

lemma diff_less_iff_nonempty: "n - k < n \<longleftrightarrow> 0 < n \<and> 0 < (k::nat)"
  by auto

function trim_left :: "string \<Rightarrow> string" where
  "trim_left s = (if space_len s = 0 then s else trim_left (drop (space_len s) s))"
  by auto
termination
  by (relation "measure length") (auto simp: diff_less_iff_nonempty intro: Nat.gr0I)

function trim_right :: "string \<Rightarrow> string" where
  "trim_right s = (if space_len_end s = 0 then s
     else trim_right (take (length s - space_len_end s) s))"
  by auto
termination
  by (relation "measure length") (auto simp: diff_less_iff_nonempty intro: Nat.gr0I)

declare trim_left.simps [simp del] trim_right.simps [simp del]

definition TrimSpace :: "string \<Rightarrow> string" where
  "TrimSpace s = trim_right (trim_left s)"

section \<open>Facts about trimming\<close>

lemma trim_left_clean: "space_len (trim_left s) = 0"
  by (induction s rule: trim_left.induct) (metis trim_left.simps)

lemma trim_right_clean: "space_len_end (trim_right s) = 0"
  by (induction s rule: trim_right.induct) (metis trim_right.simps)

lemma trim_left_id [simp]: "space_len s = 0 \<Longrightarrow> trim_left s = s"
  by (simp add: trim_left.simps)

lemma trim_right_id [simp]: "space_len_end s = 0 \<Longrightarrow> trim_right s = s"
  by (simp add: trim_right.simps)

lemma TrimSpace_id: "space_len s = 0 \<Longrightarrow> space_len_end s = 0 \<Longrightarrow> TrimSpace s = s"
  by (simp add: TrimSpace_def)

lemma trim_right_prefix: "\<exists>n. trim_right s = take n s"
proof (induction s rule: trim_right.induct)
  case (1 s)
  show ?case
  proof (cases "space_len_end s = 0")
    case True
    then show ?thesis by (auto intro: exI [of _ "length s"])
  next
    case False
    then obtain n where "trim_right (take (length s - space_len_end s) s) =
        take n (take (length s - space_len_end s) s)"
      using 1 by blast
    then show ?thesis using False by (auto simp: trim_right.simps [of s] take_take)
  qed
qed

lemma first_length_0_iff:
  "\<forall>e \<in> set es. e \<noteq> [] \<Longrightarrow>
     (case filter P es of [] \<Rightarrow> 0 | e # _ \<Rightarrow> length e) = 0 \<longleftrightarrow> (\<forall>e \<in> set es. \<not> P e)"
  by (induction es) auto

lemma space_encodings_nonempty: "\<forall>e \<in> set space_encodings. e \<noteq> []"
  by (simp add: space_encodings_def)

lemma space_len_0_iff: "space_len s = 0 \<longleftrightarrow> (\<forall>e \<in> set space_encodings. \<not> HasPrefix s e)"
  unfolding space_len_def by (rule first_length_0_iff [OF space_encodings_nonempty])

lemma space_len_end_0_iff: "space_len_end s = 0 \<longleftrightarrow> (\<forall>e \<in> set space_encodings. \<not> HasSuffix s e)"
  unfolding space_len_end_def by (rule first_length_0_iff [OF space_encodings_nonempty])

lemma HasPrefix_take_mono: "HasPrefix (take n s) p \<Longrightarrow> HasPrefix s p"
  by (auto simp: HasPrefix_def take_take min_def split: if_splits)

lemma TrimSpace_idem: "TrimSpace (TrimSpace s) = TrimSpace s"
proof (rule TrimSpace_id)
  obtain n where n: "TrimSpace s = take n (trim_left s)"
    unfolding TrimSpace_def using trim_right_prefix by blast
  show "space_len (TrimSpace s) = 0"
    using trim_left_clean [of s] HasPrefix_take_mono unfolding n space_len_0_iff by blast
  show "space_len_end (TrimSpace s) = 0"
    by (simp add: TrimSpace_def trim_right_clean)
qed

text \<open>A string whose first and last bytes cannot belong to a space is its own trim.\<close>

definition space_byte :: "char \<Rightarrow> bool" where
  "space_byte c \<longleftrightarrow> c \<in> set (map hd space_encodings) \<or> c \<in> set (map last space_encodings)"

lemma space_len_hd: "s \<noteq> [] \<Longrightarrow> \<not> space_byte (hd s) \<Longrightarrow> space_len s = 0"
  unfolding space_len_0_iff
  by (cases s) (auto simp: space_encodings_def HasPrefix_def space_byte_def)

lemma space_len_end_last: "s \<noteq> [] \<Longrightarrow> \<not> space_byte (last s) \<Longrightarrow> space_len_end s = 0"
  unfolding space_len_end_0_iff
  by (cases s rule: rev_cases)
    (auto simp: space_encodings_def HasSuffix_def HasPrefix_def space_byte_def)

definition clean_ends :: "string \<Rightarrow> bool" where
  "clean_ends s \<longleftrightarrow> s = [] \<or> \<not> space_byte (hd s) \<and> \<not> space_byte (last s)"

lemma TrimSpace_clean: "clean_ends s \<Longrightarrow> TrimSpace s = s"
  by (cases "s = []") (auto simp: clean_ends_def space_len_hd space_len_end_last intro: TrimSpace_id)

section \<open>Facts about splitting and joining\<close>

lemma Split_not_Nil [simp]: "Split s c \<noteq> []"
  by (induction s) (auto split: list.splits)

lemma Split_no_sep: "c \<notin> set s \<Longrightarrow> Split s c = [s]"
  by (induction s) auto

lemma Split_append: "c \<notin> set a \<Longrightarrow> Split (a @ c # b) c = a # Split b c"
  by (induction a) auto

lemma Split_append_gen: "Split (a @ c # b) c = Split a c @ Split b c"
  by (induction a) (auto split: list.splits)

lemma Split_Join:
  "xs \<noteq> [] \<Longrightarrow> \<forall>x \<in> set xs. c \<notin> set x \<Longrightarrow> Split (Join xs [c]) c = xs"
  by (induction xs "[c]" rule: Join.induct) (auto simp: Split_no_sep Split_append)

lemma Split_Join_concat:
  "xs \<noteq> [] \<Longrightarrow> Split (Join xs [c]) c = concat (map (\<lambda>x. Split x c) xs)"
  by (induction xs "[c]" rule: Join.induct) (auto simp: Split_append_gen)

lemma Join_Split: "Join (Split s c) [c] = s"
proof (induction s)
  case (Cons x s)
  obtain y ys where "Split s c = y # ys"
    using Split_not_Nil by (cases "Split s c") auto
  then show ?case using Cons by (cases ys) auto
qed simp

lemma Index_append:
  assumes "p \<noteq> []" and "hd p \<notin> set a"
  shows "Index (a @ b) p = map_option (\<lambda>i. i + length a) (Index b p)"
  using assms
proof (induction a)
  case Nil
  then show ?case by (cases "Index b p") auto
next
  case (Cons x a)
  then have "\<not> HasPrefix (x # a @ b) p"
    by (cases p) (auto simp: HasPrefix_def)
  then show ?case using Cons by (cases "Index b p") auto
qed

lemma Index_hit: "HasPrefix s p \<Longrightarrow> Index s p = Some 0"
  by (cases s) (auto simp: HasPrefix_def)

lemma HasPrefix_append [simp]: "HasPrefix (p @ s) p"
  by (simp add: HasPrefix_def)

lemma TrimPrefix_append [simp]: "TrimPrefix (p @ s) p = s"
  by (simp add: TrimPrefix_def)

end
