(* ===== verification/Storage_Policy.thy ===== *)
theory Storage_Policy
  imports Go_Strings
begin

text \<open>
  The storage rules of admission events, \<^verbatim>\<open>internal/admission/policy/policy.go\<close>: one matcher
  that the gateway applies before it stores an event and the operator before it forwards one.

  The theorems reduce \<open>MatchIndex\<close> to the first rule whose conditions hold and \<open>ShouldStore\<close>
  to the statement its documentation makes: an empty rule set stores everything, any other one is
  an unordered allow-list.
\<close>

definition MatchModeInclude :: string where "MatchModeInclude = ''include''"
definition MatchModeExclude :: string where "MatchModeExclude = ''exclude''"

record Rule =
  rl_MatchMode :: string
  rl_Verdicts :: "string list"
  rl_Clusters :: "string list"
  rl_GVKs :: "string list"
  rl_Namespaces :: "string list"

record Event =
  ev_Verdict :: string
  ev_ClusterName :: string
  ev_APIGroup :: string
  ev_Resource :: string
  ev_Namespace :: string

definition NormalizedGVR :: "string \<Rightarrow> string \<Rightarrow> string" where
  "NormalizedGVR apiGroup resource =
     (if apiGroup = '''' then resource else apiGroup @ ''/'' @ resource)"

fun matches_candidate :: "string list \<Rightarrow> string \<Rightarrow> bool" where
  "matches_candidate [] value = False"
| "matches_candidate (candidate # values) value =
     (if TrimSpace candidate = value then True else matches_candidate values value)"

definition matchesAny :: "string list \<Rightarrow> string \<Rightarrow> bool" where
  "matchesAny values value = (if length values = 0 then True else matches_candidate values value)"

definition rule_matches :: "Rule \<Rightarrow> Event \<Rightarrow> bool" where
  "rule_matches rule event =
    (let gvr = NormalizedGVR (ev_APIGroup event) (ev_Resource event);
         conditionsMatch = matchesAny (rl_Verdicts rule) (ev_Verdict event) \<and>
           matchesAny (rl_Clusters rule) (ev_ClusterName event) \<and>
           matchesAny (rl_GVKs rule) gvr \<and>
           matchesAny (rl_Namespaces rule) (ev_Namespace event)
     in if rl_MatchMode rule = MatchModeExclude then \<not> conditionsMatch else conditionsMatch)"

fun match_from :: "int \<Rightarrow> Rule list \<Rightarrow> Event \<Rightarrow> int" where
  "match_from i [] event = -1"
| "match_from i (rule # rules) event =
     (if rule_matches rule event then i else match_from (i + 1) rules event)"

definition MatchIndex :: "Rule list \<Rightarrow> Event \<Rightarrow> int" where
  "MatchIndex rules event = match_from 0 rules event"

definition ShouldStore :: "Rule list \<Rightarrow> Event \<Rightarrow> bool" where
  "ShouldStore rules event = (if length rules = 0 then True else MatchIndex rules event \<ge> 0)"

section \<open>The matcher's meaning\<close>

lemma matches_candidate_iff: "matches_candidate values value \<longleftrightarrow> value \<in> TrimSpace ` set values"
  by (induction "values") auto

lemma matchesAny_iff: "matchesAny values value \<longleftrightarrow> values = [] \<or> value \<in> TrimSpace ` set values"
  by (auto simp: matchesAny_def matches_candidate_iff)

lemma match_from_cases:
  assumes "0 \<le> i"
  shows "match_from i rules event = -1 \<and> (\<forall>r \<in> set rules. \<not> rule_matches r event)
    \<or> (\<exists>k < length rules. match_from i rules event = i + int k \<and> rule_matches (rules ! k) event
        \<and> (\<forall>j < k. \<not> rule_matches (rules ! j) event))"
  using assms
proof (induction i rules event rule: match_from.induct)
  case (2 i rule rules event)
  show ?case
  proof (cases "rule_matches rule event")
    case False
    then have "0 \<le> i + 1" using 2 by simp
    then consider "match_from (i + 1) rules event = -1" "\<forall>r \<in> set rules. \<not> rule_matches r event"
      | k where "k < length rules" "match_from (i + 1) rules event = i + 1 + int k"
          "rule_matches (rules ! k) event" "\<forall>j < k. \<not> rule_matches (rules ! j) event"
      using 2 False by blast
    then show ?thesis
    proof cases
      case 1
      then show ?thesis using False by simp
    next
      case 2
      then have "\<forall>j < Suc k. \<not> rule_matches ((rule # rules) ! j) event"
        using False by (auto simp: less_Suc_eq_0_disj)
      then show ?thesis using 2 False by (intro disjI2 exI [of _ "Suc k"]) auto
    qed
  qed (auto intro!: exI [of _ 0])
qed simp

lemma MatchIndex_nonneg_iff: "MatchIndex rules event \<ge> 0 \<longleftrightarrow> (\<exists>r \<in> set rules. rule_matches r event)"
  using match_from_cases [of 0 rules event] by (auto simp: MatchIndex_def)

lemma ShouldStore_iff: "ShouldStore rules event \<longleftrightarrow> rules = [] \<or> (\<exists>r \<in> set rules. rule_matches r event)"
  by (simp add: ShouldStore_def MatchIndex_nonneg_iff)

lemma rule_matches_iff: "rule_matches r e \<longleftrightarrow>
  (rl_MatchMode r = MatchModeExclude) \<noteq>
  ((rl_Verdicts r = [] \<or> ev_Verdict e \<in> TrimSpace ` set (rl_Verdicts r)) \<and>
   (rl_Clusters r = [] \<or> ev_ClusterName e \<in> TrimSpace ` set (rl_Clusters r)) \<and>
   (rl_GVKs r = [] \<or> NormalizedGVR (ev_APIGroup e) (ev_Resource e) \<in> TrimSpace ` set (rl_GVKs r)) \<and>
   (rl_Namespaces r = [] \<or> ev_Namespace e \<in> TrimSpace ` set (rl_Namespaces r)))"
  by (auto simp: rule_matches_def Let_def matchesAny_iff)

section \<open>Properties\<close>

text \<open>C7: \<open>ShouldStore\<close> decides what its documentation states: an empty rule set stores every
  event; any other stores an event exactly when some rule matches it, where a rule matches when all
  its non-empty conditions list the event's value (after trimming), or, in exclude mode, when they
  do not. In particular the order and multiplicity of the rules are irrelevant.\<close>

theorem ShouldStore_spec:
  "ShouldStore rules e \<longleftrightarrow> set rules = {} \<or> (\<exists>r \<in> set rules.
    (rl_MatchMode r = MatchModeExclude) \<noteq>
    ((rl_Verdicts r = [] \<or> ev_Verdict e \<in> TrimSpace ` set (rl_Verdicts r)) \<and>
     (rl_Clusters r = [] \<or> ev_ClusterName e \<in> TrimSpace ` set (rl_Clusters r)) \<and>
     (rl_GVKs r = [] \<or> NormalizedGVR (ev_APIGroup e) (ev_Resource e) \<in> TrimSpace ` set (rl_GVKs r)) \<and>
     (rl_Namespaces r = [] \<or> ev_Namespace e \<in> TrimSpace ` set (rl_Namespaces r))))"
  by (simp add: ShouldStore_iff rule_matches_iff)

section \<open>Witnesses\<close>

definition ex_event :: Event where
  "ex_event = \<lparr>ev_Verdict = ''deny'', ev_ClusterName = ''east'', ev_APIGroup = ''apps'',
     ev_Resource = ''deployments'', ev_Namespace = ''default''\<rparr>"

definition ex_rule :: "string \<Rightarrow> Rule" where
  "ex_rule mode = \<lparr>rl_MatchMode = mode, rl_Verdicts = [], rl_Clusters = [],
     rl_GVKs = ['' apps/deployments ''], rl_Namespaces = [''default'']\<rparr>"

theorem ShouldStore_spec_witness:
  "ShouldStore [ex_rule ''include''] ex_event \<and> \<not> ShouldStore [ex_rule ''exclude''] ex_event \<and>
   ev_Namespace ex_event \<in> TrimSpace ` set (rl_Namespaces (ex_rule ''include''))"
proof -
  have "ShouldStore [ex_rule ''include''] ex_event"
    by (subst ShouldStore_spec) code_simp
  moreover have "\<not> ShouldStore [ex_rule ''exclude''] ex_event" by code_simp
  moreover have "ev_Namespace ex_event \<in> TrimSpace ` set (rl_Namespaces (ex_rule ''include''))" by code_simp
  ultimately show ?thesis by simp
qed

end
