(* ===== verification/Api_Types.thy ===== *)
theory Api_Types
  imports Go_Strings
begin

text \<open>
  The custom resources of \<^verbatim>\<open>api/kubesentry/v1alpha1\<close> as records, one per struct and with the
  struct's fields, each field prefixed by a short form of its struct's name. The Kubernetes types
  they embed (\<open>ObjectMeta\<close>, \<open>Condition\<close>, \<open>LabelSelector\<close>) carry the fields the
  program reads or writes. A nil-able map or pointer is an option.

  The meaning of a label selector belongs to the Kubernetes library: every definition that
  evaluates one takes the conversion \<open>asSelector\<close> (\<^verbatim>\<open>metav1.LabelSelectorAsSelector\<close>) as
  an argument, of type \<open>as_selector\<close>.
\<close>

section \<open>Kubernetes types\<close>

record OwnerReference =
  or_APIVersion :: string
  or_Kind :: string
  or_Name :: string
  or_UID :: string

record ObjectMeta =
  om_Name :: string
  om_UID :: string
  om_Labels :: "labels option"
  om_Annotations :: "labels option"
  om_Generation :: int
  om_CreationTimestamp :: time
  om_DeletionTimestamp :: "time option"
  om_Finalizers :: "string list"
  om_ResourceVersion :: string
  om_OwnerReferences :: "OwnerReference list"

record Requirement =
  rq_Key :: string
  rq_Operator :: string
  rq_Values :: "string list"

record LabelSelector =
  ls_MatchLabels :: labels
  ls_MatchExpressions :: "Requirement list"

record Condition =
  cond_Type :: string
  cond_Status :: string
  cond_Reason :: string
  cond_Message :: string
  cond_LastTransitionTime :: time

type_synonym selector = "labels \<Rightarrow> bool"
type_synonym as_selector = "LabelSelector \<Rightarrow> string + selector"

text \<open>\<^verbatim>\<open>labels.Set(m)\<close>: a nil map has no labels.\<close>

definition label_set :: "labels option \<Rightarrow> labels" where
  "label_set m = (case m of None \<Rightarrow> [] | Some l \<Rightarrow> l)"

lemma label_set_simps [simp]: "label_set None = []" "label_set (Some l) = l"
  by (simp_all add: label_set_def)

section \<open>Constants\<close>

definition PhaseReady :: string where "PhaseReady = ''Ready''"
definition PhaseInvalid :: string where "PhaseInvalid = ''Invalid''"
definition PhaseSyncing :: string where "PhaseSyncing = ''Syncing''"
definition PhaseDisabled :: string where "PhaseDisabled = ''Disabled''"
definition PhaseDegraded :: string where "PhaseDegraded = ''Degraded''"
definition PhaseActive :: string where "PhaseActive = ''Active''"
definition PhaseExpired :: string where "PhaseExpired = ''Expired''"

definition ModeEnforce :: string where "ModeEnforce = ''enforce''"
definition ModeAudit :: string where "ModeAudit = ''audit''"

definition SourceByName :: string where "SourceByName = ''byName''"
definition SourceBySelector :: string where "SourceBySelector = ''bySelector''"

definition ManagedByLabel :: string where "ManagedByLabel = ''kubesentry.io/managed-by''"
definition ManagedByPlatform :: string where "ManagedByPlatform = ''platform''"
definition LastTraceIDAnnotation :: string where
  "LastTraceIDAnnotation = ''kubesentry.io/last-trace-id''"

lemmas phase_defs = PhaseReady_def PhaseInvalid_def PhaseSyncing_def PhaseDisabled_def
  PhaseDegraded_def PhaseActive_def PhaseExpired_def

lemmas mode_defs = ModeEnforce_def ModeAudit_def

lemma mode_neq [simp]: "ModeEnforce \<noteq> ModeAudit" "ModeAudit \<noteq> ModeEnforce"
  by (simp_all add: mode_defs)

lemma phase_neq [simp]:
  "PhaseActive \<noteq> PhaseExpired" "PhaseExpired \<noteq> PhaseActive"
  "PhaseActive \<noteq> PhaseInvalid" "PhaseInvalid \<noteq> PhaseActive"
  "PhaseExpired \<noteq> PhaseInvalid" "PhaseInvalid \<noteq> PhaseExpired"
  "PhaseReady \<noteq> PhaseInvalid" "PhaseInvalid \<noteq> PhaseReady"
  "PhaseActive \<noteq> []" "PhaseExpired \<noteq> []" "PhaseInvalid \<noteq> []"
  by (simp_all add: phase_defs)

section \<open>Policies and their versions\<close>

record MatchResource =
  mr_APIGroups :: "string list"
  mr_APIVersions :: "string list"
  mr_Resources :: "string list"

record PolicyMatch =
  pm_Operations :: "string list"
  pm_Resources :: "MatchResource list"

record PolicySpec =
  ps_Match :: PolicyMatch
  ps_EnforcementMode :: string
  ps_Rego :: string
  ps_Description :: string
  ps_RollbackTo :: "int option"

record PolicyVersionSummary =
  pvs_Version :: int
  pvs_CreatedAt :: time
  pvs_Phase :: string

record PolicyStatus =
  pst_Phase :: string
  pst_Message :: string
  pst_CurrentVersion :: int
  pst_ObservedGeneration :: int
  pst_LastSyncTime :: "time option"
  pst_VersionHistory :: "PolicyVersionSummary list"
  pst_ReferencedBy :: "string list"

record Policy =
  pol_Meta :: ObjectMeta
  pol_Spec :: PolicySpec
  pol_Status :: PolicyStatus

definition pol_Name :: "Policy \<Rightarrow> string" where "pol_Name x = om_Name (pol_Meta x)"

lemma pol_Name_simps [simp]:
  "pol_Name \<lparr>pol_Meta = m, pol_Spec = s, pol_Status = t\<rparr> = om_Name m"
  "pol_Name (x\<lparr>pol_Spec := yc\<rparr>) = pol_Name x"
  "pol_Name (x\<lparr>pol_Status := ys\<rparr>) = pol_Name x"
  "pol_Name (x\<lparr>pol_Meta := m\<rparr>) = om_Name m"
  by (simp_all add: pol_Name_def)

definition pol_Labels :: "Policy \<Rightarrow> labels option" where "pol_Labels x = om_Labels (pol_Meta x)"

lemma pol_Labels_simps [simp]:
  "pol_Labels \<lparr>pol_Meta = m, pol_Spec = s, pol_Status = t\<rparr> = om_Labels m"
  "pol_Labels (x\<lparr>pol_Spec := yc\<rparr>) = pol_Labels x"
  "pol_Labels (x\<lparr>pol_Status := ys\<rparr>) = pol_Labels x"
  "pol_Labels (x\<lparr>pol_Meta := m\<rparr>) = om_Labels m"
  by (simp_all add: pol_Labels_def)

record PolicyVersionSpec =
  pv_PolicyRef :: string
  pv_Version :: int
  pv_Rego :: string
  pv_Match :: PolicyMatch
  pv_EnforcementMode :: string
  pv_CreatedAt :: time
  pv_CreatedBy :: string

record PolicyVersion =
  pver_Meta :: ObjectMeta
  pver_Spec :: PolicyVersionSpec

section \<open>Policy groups\<close>

record PolicyRef =
  ref_Name :: string
  ref_EnforcementMode :: string

record PolicyGroupPolicies =
  pgp_ByName :: "PolicyRef list"
  pgp_BySelector :: "LabelSelector option"
  pgp_Exclude :: "string list"

record PolicyGroupSpec =
  gs_DisplayName :: string
  gs_Description :: string
  gs_Enabled :: bool
  gs_NamespaceSelector :: "LabelSelector option"
  gs_Policies :: PolicyGroupPolicies
  gs_SelectorEnforcementMode :: string

record EffectiveMember =
  em_Name :: string
  em_EnforcementMode :: string
  em_Source :: string

record PolicyGroupStatus =
  gst_Phase :: string
  gst_ObservedGeneration :: int
  gst_ResolvedCount :: int
  gst_ResolvedPolicies :: "EffectiveMember list"
  gst_Conditions :: "Condition list"

record PolicyGroup =
  grp_Meta :: ObjectMeta
  grp_Spec :: PolicyGroupSpec
  grp_Status :: PolicyGroupStatus

definition grp_Name :: "PolicyGroup \<Rightarrow> string" where "grp_Name x = om_Name (grp_Meta x)"

lemma grp_Name_simps [simp]:
  "grp_Name \<lparr>grp_Meta = m, grp_Spec = s, grp_Status = t\<rparr> = om_Name m"
  "grp_Name (x\<lparr>grp_Spec := yc\<rparr>) = grp_Name x"
  "grp_Name (x\<lparr>grp_Status := ys\<rparr>) = grp_Name x"
  "grp_Name (x\<lparr>grp_Meta := m\<rparr>) = om_Name m"
  by (simp_all add: grp_Name_def)

section \<open>Policy exceptions\<close>

record PolicyExceptionMatch =
  xm_Namespaces :: "string list"
  xm_NamespaceSelector :: "LabelSelector option"
  xm_ResourceSelector :: "LabelSelector option"

record PolicyExceptionSpec =
  xs_PolicyRefs :: "string list"
  xs_PolicyGroupRefs :: "string list"
  xs_AllPolicies :: bool
  xs_Match :: PolicyExceptionMatch
  xs_Duration :: string
  xs_RetainAfterExpiry :: string
  xs_Reason :: string

record PolicyExceptionStatus =
  xst_Phase :: string
  xst_Message :: string
  xst_EffectiveAt :: "time option"
  xst_ExpiresAt :: "time option"
  xst_ObservedGeneration :: int

record PolicyException =
  pex_Meta :: ObjectMeta
  pex_Spec :: PolicyExceptionSpec
  pex_Status :: PolicyExceptionStatus

definition pex_Name :: "PolicyException \<Rightarrow> string" where "pex_Name x = om_Name (pex_Meta x)"

lemma pex_Name_simps [simp]:
  "pex_Name \<lparr>pex_Meta = m, pex_Spec = s, pex_Status = t\<rparr> = om_Name m"
  "pex_Name (x\<lparr>pex_Spec := yc\<rparr>) = pex_Name x"
  "pex_Name (x\<lparr>pex_Status := ys\<rparr>) = pex_Name x"
  "pex_Name (x\<lparr>pex_Meta := m\<rparr>) = om_Name m"
  by (simp_all add: pex_Name_def)

end
