(* ===== verification/Group_Resolve.thy ===== *)
theory Group_Resolve
  imports Api_Types
begin

text \<open>
  The effective members of a policy group, \<^verbatim>\<open>internal/groupresolve/resolve.go\<close>. The operator
  and the gateway run the same function on lists they obtain in different orders.

  \<open>member_spec\<close> says for one name what the group's specification promises of it; the refinement
  lemma reads the result of \<open>Resolve\<close> through it.
\<close>

definition CondTypeMissingMember :: string where
  "CondTypeMissingMember = ''MissingMember''"

definition CondTypeInvalidSelector :: string where
  "CondTypeInvalidSelector = ''InvalidSelector''"

text \<open>The state of the loops: the map \<open>resolved\<close> and the conditions appended so far.\<close>

type_synonym resolve_state = "EffectiveMember smap \<times> Condition list"

definition or_default :: "string \<Rightarrow> string \<Rightarrow> string" where
  "or_default mode dflt = (if mode = '''' then dflt else mode)"

definition resolve_by_name :: "time \<Rightarrow> Policy smap \<Rightarrow> PolicyRef \<Rightarrow> resolve_state \<Rightarrow> resolve_state" where
  "resolve_by_name now byName ref st = (case st of (resolved, conditions) \<Rightarrow>
    (case map_of byName (ref_Name ref) of
      None \<Rightarrow> (resolved, conditions @
        [\<lparr>cond_Type = CondTypeMissingMember, cond_Status = ''True'', cond_Reason = ''PolicyNotFound'',
          cond_Message = ref_Name ref, cond_LastTransitionTime = now\<rparr>])
    | Some pol \<Rightarrow>
        (AList.update (ref_Name ref)
          \<lparr>em_Name = ref_Name ref,
           em_EnforcementMode = or_default (ref_EnforcementMode ref) (ps_EnforcementMode (pol_Spec pol)),
           em_Source = SourceByName\<rparr> resolved, conditions)))"

definition resolve_by_selector ::
  "selector \<Rightarrow> string \<Rightarrow> Policy \<Rightarrow> EffectiveMember smap \<Rightarrow> EffectiveMember smap" where
  "resolve_by_selector sel mode pol resolved =
    (if \<not> sel (label_set (pol_Labels pol)) then resolved
     else if map_of resolved (pol_Name pol) \<noteq> None then resolved
     else AList.update (pol_Name pol)
       \<lparr>em_Name = pol_Name pol,
        em_EnforcementMode = or_default mode (ps_EnforcementMode (pol_Spec pol)),
        em_Source = SourceBySelector\<rparr> resolved)"

definition resolve_selector_step ::
  "as_selector \<Rightarrow> time \<Rightarrow> PolicyGroupSpec \<Rightarrow> Policy list \<Rightarrow> resolve_state \<Rightarrow> resolve_state" where
  "resolve_selector_step asSelector now spec policies st = (case st of (resolved, conditions) \<Rightarrow>
    (case pgp_BySelector (gs_Policies spec) of
      None \<Rightarrow> (resolved, conditions)
    | Some ls \<Rightarrow> (case asSelector ls of
        Inl err \<Rightarrow> (resolved, conditions @
          [\<lparr>cond_Type = CondTypeInvalidSelector, cond_Status = ''True'', cond_Reason = ''MalformedSelector'',
            cond_Message = err, cond_LastTransitionTime = now\<rparr>])
      | Inr sel \<Rightarrow>
          (fold (resolve_by_selector sel (gs_SelectorEnforcementMode spec)) policies resolved, conditions))))"

definition Resolve ::
  "as_selector \<Rightarrow> time \<Rightarrow> PolicyGroupSpec \<Rightarrow> Policy list \<Rightarrow> EffectiveMember list \<times> Condition list" where
  "Resolve asSelector now spec policies =
    (let byName = index_by pol_Name id policies;
         st = fold (resolve_by_name now byName) (pgp_ByName (gs_Policies spec)) ([], []);
         (resolved, conditions) = resolve_selector_step asSelector now spec policies st;
         resolved = fold AList.delete (pgp_Exclude (gs_Policies spec)) resolved
     in (sort_key em_Name (map snd resolved), conditions))"

section \<open>What a group promises of one name\<close>

definition policy_named :: "Policy list \<Rightarrow> string \<Rightarrow> Policy option" where
  "policy_named policies n = find (\<lambda>p. pol_Name p = n) policies"

definition selected :: "as_selector \<Rightarrow> PolicyGroupSpec \<Rightarrow> Policy \<Rightarrow> bool" where
  "selected asSelector spec p = (case pgp_BySelector (gs_Policies spec) of
      None \<Rightarrow> False
    | Some ls \<Rightarrow> (case asSelector ls of Inl _ \<Rightarrow> False | Inr sel \<Rightarrow> sel (label_set (pol_Labels p))))"

definition member_spec ::
  "as_selector \<Rightarrow> PolicyGroupSpec \<Rightarrow> Policy list \<Rightarrow> string \<Rightarrow> EffectiveMember option" where
  "member_spec asSelector spec policies n =
    (if n \<in> set (pgp_Exclude (gs_Policies spec)) then None
     else case policy_named policies n of
       None \<Rightarrow> None
     | Some p \<Rightarrow>
         (case find (\<lambda>r. ref_Name r = n) (rev (pgp_ByName (gs_Policies spec))) of
           Some r \<Rightarrow> Some \<lparr>em_Name = n,
             em_EnforcementMode = or_default (ref_EnforcementMode r) (ps_EnforcementMode (pol_Spec p)),
             em_Source = SourceByName\<rparr>
         | None \<Rightarrow> if selected asSelector spec p
             then Some \<lparr>em_Name = n,
               em_EnforcementMode = or_default (gs_SelectorEnforcementMode spec)
                 (ps_EnforcementMode (pol_Spec p)),
               em_Source = SourceBySelector\<rparr>
             else None))"

section \<open>Lemmas on the loops\<close>

definition member_keys :: "EffectiveMember smap \<Rightarrow> bool" where
  "member_keys m \<longleftrightarrow> wf_map m \<and> (\<forall>(k, e) \<in> set m. em_Name e = k)"

lemma member_keys_Nil [simp]: "member_keys []"
  by (simp add: member_keys_def)

lemma member_keys_update [simp]: "member_keys m \<Longrightarrow> em_Name e = k \<Longrightarrow> member_keys (AList.update k e m)"
  by (auto simp: member_keys_def mem_update_iff split: if_splits)

lemma member_keys_delete: "member_keys m \<Longrightarrow> member_keys (AList.delete k m)"
  by (auto simp: member_keys_def mem_delete_iff)

lemma member_keys_deletes: "member_keys m \<Longrightarrow> member_keys (fold AList.delete ks m)"
  by (induction ks arbitrary: m) (auto simp: member_keys_delete)

lemma map_of_deletes: "map_of (fold AList.delete ks m) n = (if n \<in> set ks then None else map_of m n)"
  by (induction ks arbitrary: m) auto

lemma policy_named_Cons:
  "policy_named (p # ps) n = (if pol_Name p = n then Some p else policy_named ps n)"
  by (simp add: policy_named_def)

lemma map_of_index_named:
  assumes "distinct (map pol_Name policies)"
  shows "map_of (index_by pol_Name id policies) n = policy_named policies n"
proof (cases "n \<in> pol_Name ` set policies")
  case True
  then obtain p where "p \<in> set policies" "pol_Name p = n" by auto
  moreover have "find (\<lambda>q. pol_Name q = n) policies = Some p"
    using assms calculation by (induction policies) auto
  ultimately show ?thesis
    using index_by_unique [OF assms, of p id] by (simp add: policy_named_def)
next
  case False
  then have "policy_named policies n = None"
    by (auto simp: policy_named_def find_None_iff)
  then show ?thesis using False index_by_None_iff [of pol_Name id policies n] by simp
qed

lemma by_name_keys:
  "member_keys (fst st) \<Longrightarrow> member_keys (fst (fold (resolve_by_name now byName) refs st))"
  by (induction refs arbitrary: st)
    (auto simp: resolve_by_name_def split: prod.splits option.splits)

lemma by_name_map_of:
  "map_of (fst (fold (resolve_by_name now byName) refs st)) n =
    (case map_of byName n of
      None \<Rightarrow> map_of (fst st) n
    | Some p \<Rightarrow> (case find (\<lambda>r. ref_Name r = n) (rev refs) of
        None \<Rightarrow> map_of (fst st) n
      | Some r \<Rightarrow> Some \<lparr>em_Name = n,
          em_EnforcementMode = or_default (ref_EnforcementMode r) (ps_EnforcementMode (pol_Spec p)),
          em_Source = SourceByName\<rparr>))"
proof (induction refs rule: rev_induct)
  case (snoc r refs)
  then show ?case
    by (auto simp: resolve_by_name_def split: prod.splits option.splits)
qed (simp split: option.split)

lemma by_selector_keys:
  "member_keys m \<Longrightarrow> member_keys (fold (resolve_by_selector sel mode) policies m)"
  by (induction policies arbitrary: m) (auto simp: resolve_by_selector_def)

lemma by_selector_step:
  "map_of (resolve_by_selector sel mode p m) =
    (if sel (label_set (pol_Labels p)) \<and> map_of m (pol_Name p) = None
     then (map_of m)(pol_Name p \<mapsto> \<lparr>em_Name = pol_Name p,
       em_EnforcementMode = or_default mode (ps_EnforcementMode (pol_Spec p)),
       em_Source = SourceBySelector\<rparr>) else map_of m)"
  by (simp add: resolve_by_selector_def)

lemma by_selector_map_of:
  assumes "distinct (map pol_Name policies)"
  shows "map_of (fold (resolve_by_selector sel mode) policies m) n =
    (case map_of m n of
      Some e \<Rightarrow> Some e
    | None \<Rightarrow> (case policy_named policies n of
        None \<Rightarrow> None
      | Some p \<Rightarrow> if sel (label_set (pol_Labels p)) then Some \<lparr>em_Name = n,
          em_EnforcementMode = or_default mode (ps_EnforcementMode (pol_Spec p)),
          em_Source = SourceBySelector\<rparr> else None))"
  using assms
proof (induction policies arbitrary: m)
  case (Cons p policies)
  have "policy_named policies (pol_Name p) = None"
    using Cons.prems unfolding policy_named_def find_None_iff by (metis distinct.simps(2) image_eqI list.simps(9) set_map)
  then show ?case
    using Cons.prems by (cases "pol_Name p = n"; cases "map_of m n")
      (simp_all add: Cons.IH by_selector_step policy_named_Cons)
qed (simp add: policy_named_def split: option.split)

section \<open>The resolved map refines the promise\<close>

definition resolved_map ::
  "as_selector \<Rightarrow> time \<Rightarrow> PolicyGroupSpec \<Rightarrow> Policy list \<Rightarrow> EffectiveMember smap" where
  "resolved_map asSelector now spec policies =
     fold AList.delete (pgp_Exclude (gs_Policies spec))
       (fst (resolve_selector_step asSelector now spec policies
         (fold (resolve_by_name now (index_by pol_Name id policies)) (pgp_ByName (gs_Policies spec)) ([], []))))"

lemma Resolve_members: "fst (Resolve asSelector now spec policies) =
    sort_key em_Name (map snd (resolved_map asSelector now spec policies))"
  by (simp add: Resolve_def resolved_map_def Let_def split: prod.splits)

lemma resolved_map_keys: "member_keys (resolved_map asSelector now spec policies)"
proof -
  let ?st = "fold (resolve_by_name now (index_by pol_Name id policies)) (pgp_ByName (gs_Policies spec)) ([], [])"
  have "member_keys (fst ?st)" by (rule by_name_keys) simp
  then have "member_keys (fst (resolve_selector_step asSelector now spec policies ?st))"
    by (auto simp: resolve_selector_step_def by_selector_keys split: prod.splits option.splits sum.splits)
  then show ?thesis unfolding resolved_map_def by (rule member_keys_deletes)
qed

lemma resolved_map_spec:
  assumes "distinct (map pol_Name policies)"
  shows "map_of (resolved_map asSelector now spec policies) n = member_spec asSelector spec policies n"
proof -
  define st where "st = fold (resolve_by_name now (index_by pol_Name id policies))
    (pgp_ByName (gs_Policies spec)) ([], [])"
  have 1: "map_of (fst st) n = (case policy_named policies n of None \<Rightarrow> None
    | Some p \<Rightarrow> (case find (\<lambda>r. ref_Name r = n) (rev (pgp_ByName (gs_Policies spec))) of None \<Rightarrow> None
      | Some r \<Rightarrow> Some \<lparr>em_Name = n,
          em_EnforcementMode = or_default (ref_EnforcementMode r) (ps_EnforcementMode (pol_Spec p)),
          em_Source = SourceByName\<rparr>))"
    unfolding st_def by_name_map_of map_of_index_named [OF assms] by (simp split: option.split)
  show ?thesis
    unfolding resolved_map_def map_of_deletes member_spec_def st_def [symmetric]
    by (cases st) (use 1 in \<open>auto simp: resolve_selector_step_def selected_def
        by_selector_map_of [OF assms] split: option.splits sum.splits\<close>)
qed

lemma sort_key_map_snd_strict:
  assumes "member_keys m"
  shows "distinct (map em_Name (sort_key em_Name (map snd m)))"
    "sorted (map em_Name (sort_key em_Name (map snd m)))"
proof -
  have "map em_Name (map snd m) = map fst m"
    using assms by (auto simp: member_keys_def)
  then have "mset (map em_Name (sort_key em_Name (map snd m))) = mset (map fst m)"
    by (metis mset_map mset_sort)
  then show "distinct (map em_Name (sort_key em_Name (map snd m)))"
    using assms unfolding member_keys_def by (metis mset_eq_imp_distinct_iff)
qed simp

lemma in_Resolve_iff:
  assumes "distinct (map pol_Name policies)"
  shows "e \<in> set (fst (Resolve asSelector now spec policies))
    \<longleftrightarrow> member_spec asSelector spec policies (em_Name e) = Some e"
proof -
  let ?m = "resolved_map asSelector now spec policies"
  have keys: "wf_map ?m" "\<And>k v. (k, v) \<in> set ?m \<Longrightarrow> em_Name v = k"
    using resolved_map_keys [of asSelector now spec policies] by (auto simp: member_keys_def)
  have "e \<in> set (fst (Resolve asSelector now spec policies)) \<longleftrightarrow> (\<exists>k. (k, e) \<in> set ?m)"
    by (auto simp: Resolve_members intro: rev_image_eqI)
  also have "\<dots> \<longleftrightarrow> (em_Name e, e) \<in> set ?m"
    using keys(2) by blast
  also have "\<dots> \<longleftrightarrow> map_of ?m (em_Name e) = Some e"
    using keys(1) by simp
  finally show ?thesis unfolding resolved_map_spec [OF assms] .
qed

lemma member_spec_name: "member_spec asSelector spec policies n = Some e \<Longrightarrow> em_Name e = n"
  by (auto simp: member_spec_def split: if_splits option.splits)

lemma strict_sorted_key_unique:
  assumes "sorted (map f xs)" "distinct (map f xs)" "sorted (map f ys)" "distinct (map f ys)"
    and "set xs = set ys"
  shows "xs = ys"
proof -
  have "map f xs = map f ys"
    by (rule sorted_distinct_set_unique) (use assms in auto)
  moreover have "inj_on f (set xs \<union> set ys)"
    using assms(2,5) by (simp add: distinct_map)
  ultimately show ?thesis by (rule map_inj_on)
qed

lemma policy_named_perm:
  assumes "distinct (map pol_Name ps)" "distinct (map pol_Name qs)" "set ps = set qs"
  shows "policy_named ps n = policy_named qs n"
proof -
  have "policy_named xs n = Some p \<longleftrightarrow> p \<in> set xs \<and> pol_Name p = n"
    if "distinct (map pol_Name xs)" for xs p
    using that unfolding policy_named_def by (induction xs) auto
  then show ?thesis using assms by (metis not_Some_eq)
qed

lemma member_spec_perm:
  assumes "distinct (map pol_Name ps)" "distinct (map pol_Name qs)" "set ps = set qs"
  shows "member_spec asSelector spec ps n = member_spec asSelector spec qs n"
  unfolding member_spec_def policy_named_perm [OF assms] by simp

lemma Resolve_sorted: "sorted_wrt (<) (map em_Name (fst (Resolve asSelector now spec policies)))"
  using sort_key_map_snd_strict [OF resolved_map_keys [of asSelector now spec policies]]
  by (simp add: Resolve_members strict_sorted_iff)

section \<open>Properties\<close>


text \<open>The members do not depend on the order in which the policies are listed, so the operator
  (which lists them through the API server) and the gateway (which reads its database) agree.\<close>

theorem Resolve_order_independent:
  assumes "distinct (map pol_Name ps)" and "mset ps = mset qs"
  shows "fst (Resolve asSelector now spec ps) = fst (Resolve asSelector now' spec qs)"
proof (rule strict_sorted_key_unique [where f = em_Name])
  have qs: "distinct (map pol_Name qs)" "set ps = set qs"
    using assms by (metis mset_map mset_eq_imp_distinct_iff) (rule mset_eq_setD [OF assms(2)])
  show "set (fst (Resolve asSelector now spec ps)) = set (fst (Resolve asSelector now' spec qs))"
    by (simp add: set_eq_iff in_Resolve_iff assms(1) qs member_spec_perm [OF assms(1) qs])
qed (use Resolve_sorted in \<open>simp_all add: strict_sorted_iff\<close>)

section \<open>Witnesses\<close>

definition ex_meta :: "string \<Rightarrow> labels \<Rightarrow> ObjectMeta" where
  "ex_meta n l = \<lparr>om_Name = n, om_UID = ''u'', om_Labels = Some l, om_Annotations = None, om_Generation = 1,
     om_CreationTimestamp = 0, om_DeletionTimestamp = None, om_Finalizers = [], om_ResourceVersion = ''1'', om_OwnerReferences = []\<rparr>"

definition ex_status :: PolicyStatus where
  "ex_status = \<lparr>pst_Phase = '''', pst_Message = '''', pst_CurrentVersion = 0, pst_ObservedGeneration = 0,
     pst_LastSyncTime = None, pst_VersionHistory = [], pst_ReferencedBy = []\<rparr>"

definition ex_policy :: "string \<Rightarrow> labels \<Rightarrow> string \<Rightarrow> Policy" where
  "ex_policy n l mode = \<lparr>pol_Meta = ex_meta n l,
     pol_Spec = \<lparr>ps_Match = \<lparr>pm_Operations = [''CREATE''], pm_Resources =
         [\<lparr>mr_APIGroups = [''''], mr_APIVersions = [''v1''], mr_Resources = [''pods'']\<rparr>]\<rparr>,
       ps_EnforcementMode = mode, ps_Rego = '''', ps_Description = '''', ps_RollbackTo = None\<rparr>,
     pol_Status = ex_status\<rparr>"

definition ex_policies :: "Policy list" where
  "ex_policies = [ex_policy ''no-root'' [(''tier'', ''base'')] ''enforce'',
     ex_policy ''limits'' [(''tier'', ''base'')] ''audit'', ex_policy ''probes'' [] ''audit'']"

definition ex_group_spec :: PolicyGroupSpec where
  "ex_group_spec = \<lparr>gs_DisplayName = '''', gs_Description = '''', gs_Enabled = True,
     gs_NamespaceSelector = None,
     gs_Policies = \<lparr>pgp_ByName = [\<lparr>ref_Name = ''probes'', ref_EnforcementMode = ''enforce''\<rparr>],
       pgp_BySelector = Some \<lparr>ls_MatchLabels = [(''tier'', ''base'')], ls_MatchExpressions = []\<rparr>,
       pgp_Exclude = [''no-root'']\<rparr>,
     gs_SelectorEnforcementMode = ''''\<rparr>"

text \<open>A conversion that honours \<open>matchLabels\<close> and rejects expressions, for the examples.\<close>

definition ex_asSelector :: as_selector where
  "ex_asSelector ls = (if ls_MatchExpressions ls = []
     then Inr (\<lambda>l. list_all (\<lambda>(k, v). map_of l k = Some v) (ls_MatchLabels ls))
     else Inl ''unsupported operator'')"

lemmas ex_group_defs = ex_meta_def ex_status_def ex_policy_def ex_policies_def ex_group_spec_def
  ex_asSelector_def


theorem Resolve_order_independent_witness:
  "fst (Resolve ex_asSelector 0 ex_group_spec ex_policies) =
   fst (Resolve ex_asSelector 7 ex_group_spec (rev ex_policies))"
proof (rule Resolve_order_independent)
  show "distinct (map pol_Name ex_policies)" by (simp add: ex_group_defs)
qed simp

end
