(* ===== verification/Policy_Cache.thy ===== *)
theory Policy_Cache
  imports Group_Resolve
begin

text \<open>
  The webhook's cache of compiled policies and groups, \<^verbatim>\<open>internal/webhook/cache.go\<close>. The compiled
  Rego query is the type parameter \<open>'q\<close>.

  The lemmas show that \<open>MatchingForRequest\<close> computes, for each policy, what one would say without
  its two loops: the groups that apply to the request and list the policy, and the strictest of
  their modes.
\<close>

section \<open>Data\<close>

record 'q CompiledPolicy =
  cp_Name :: string
  cp_Description :: string
  cp_DefaultMode :: string
  cp_Match :: PolicyMatch
  cp_Query :: 'q
  cp_ReferencedBy :: "string list"

record CompiledGroup =
  cg_Name :: string
  cg_Enabled :: bool
  cg_NamespaceSelector :: "selector option"
  cg_Members :: "string smap"

record 'q PolicyCache =
  pc_policies :: "'q CompiledPolicy smap"
  pc_groups :: "CompiledGroup smap"
  pc_ready :: bool

record 'q Resolved =
  rs_Policy :: "'q CompiledPolicy"
  rs_Mode :: string
  rs_Groups :: "string list"

section \<open>Operations\<close>

definition NewPolicyCache :: "'q PolicyCache" where
  "NewPolicyCache = \<lparr>pc_policies = [], pc_groups = [], pc_ready = False\<rparr>"

definition SetPolicy :: "string \<Rightarrow> 'q CompiledPolicy \<Rightarrow> 'q PolicyCache \<Rightarrow> 'q PolicyCache" where
  "SetPolicy name p c = c\<lparr>pc_policies := AList.update name p (pc_policies c)\<rparr>"

definition DeletePolicy :: "string \<Rightarrow> 'q PolicyCache \<Rightarrow> 'q PolicyCache" where
  "DeletePolicy name c = c\<lparr>pc_policies := AList.delete name (pc_policies c)\<rparr>"

definition SetGroup :: "string \<Rightarrow> CompiledGroup \<Rightarrow> 'q PolicyCache \<Rightarrow> 'q PolicyCache" where
  "SetGroup name g c = c\<lparr>pc_groups := AList.update name g (pc_groups c)\<rparr>"

definition DeleteGroup :: "string \<Rightarrow> 'q PolicyCache \<Rightarrow> 'q PolicyCache" where
  "DeleteGroup name c = c\<lparr>pc_groups := AList.delete name (pc_groups c)\<rparr>"

definition PolicyCache_SetReady :: "'q PolicyCache \<Rightarrow> 'q PolicyCache" where
  "PolicyCache_SetReady c = c\<lparr>pc_ready := True\<rparr>"

definition PolicyCache_IsReady :: "'q PolicyCache \<Rightarrow> bool" where
  "PolicyCache_IsReady c = pc_ready c"

lemmas policy_cache_ops [cache_simps] = NewPolicyCache_def SetPolicy_def DeletePolicy_def
  SetGroup_def DeleteGroup_def PolicyCache_SetReady_def PolicyCache_IsReady_def

definition containsStr :: "string list \<Rightarrow> string \<Rightarrow> bool" where
  "containsStr ss s = list_ex (\<lambda>v. v = s) ss"

definition matchesResource :: "MatchResource \<Rightarrow> string \<Rightarrow> string \<Rightarrow> bool" where
  "matchesResource r resource apiGroup \<longleftrightarrow>
    (containsStr (mr_Resources r) resource \<or> containsStr (mr_Resources r) ''*'') \<and>
    (containsStr (mr_APIGroups r) apiGroup \<or> containsStr (mr_APIGroups r) ''*'')"

definition matchesPolicy :: "PolicyMatch \<Rightarrow> string \<Rightarrow> string \<Rightarrow> string \<Rightarrow> bool" where
  "matchesPolicy m resource apiGroup operation =
    (if \<not> containsStr (pm_Operations m) operation \<and> \<not> containsStr (pm_Operations m) ''*'' then False
     else list_ex (\<lambda>r. matchesResource r resource apiGroup) (pm_Resources m))"

definition strictestOf :: "string \<Rightarrow> string \<Rightarrow> string" where
  "strictestOf a b = (if a = ModeEnforce \<or> b = ModeEnforce then ModeEnforce else ModeAudit)"

text \<open>Step 1 of \<open>MatchingForRequest\<close>: the groups that apply. \<open>None\<close> is the nil label map.\<close>

definition group_applies :: "labels option \<Rightarrow> CompiledGroup \<Rightarrow> bool" where
  "group_applies namespaceLabels g =
    (if \<not> cg_Enabled g then False
     else case cg_NamespaceSelector g of
       None \<Rightarrow> True
     | Some sel \<Rightarrow> (case namespaceLabels of None \<Rightarrow> False | Some l \<Rightarrow> sel l))"

definition matchingGroups :: "labels option \<Rightarrow> 'q PolicyCache \<Rightarrow> (string \<times> string smap) list" where
  "matchingGroups namespaceLabels c =
    map (\<lambda>g. (cg_Name g, cg_Members g)) (filter (group_applies namespaceLabels) (map snd (pc_groups c)))"

text \<open>Step 2: the accumulators, a mode and the contributing groups per policy.\<close>

type_synonym accum = "string \<times> string list"

definition accumulate_member ::
  "(string \<Rightarrow> bool) \<Rightarrow> string \<Rightarrow> string \<times> string \<Rightarrow> accum smap \<Rightarrow> accum smap" where
  "accumulate_member eligible gname pm byPolicy = (case pm of (polName, mode) \<Rightarrow>
    (if \<not> eligible polName then byPolicy
     else case map_of byPolicy polName of
       None \<Rightarrow> AList.update polName (mode, [gname]) byPolicy
     | Some (m, gs) \<Rightarrow> AList.update polName (strictestOf m mode, gs @ [gname]) byPolicy))"

definition accumulate_group ::
  "(string \<Rightarrow> bool) \<Rightarrow> string \<times> string smap \<Rightarrow> accum smap \<Rightarrow> accum smap" where
  "accumulate_group eligible g byPolicy = fold (accumulate_member eligible (fst g)) (snd g) byPolicy"

definition eligible_policy :: "'q PolicyCache \<Rightarrow> string \<Rightarrow> string \<Rightarrow> string \<Rightarrow> string \<Rightarrow> bool" where
  "eligible_policy c resource apiGroup operation polName = (case map_of (pc_policies c) polName of
      None \<Rightarrow> False
    | Some pol \<Rightarrow> matchesPolicy (cp_Match pol) resource apiGroup operation)"

definition MatchingForRequest ::
  "'q PolicyCache \<Rightarrow> string \<Rightarrow> string \<Rightarrow> string \<Rightarrow> string \<Rightarrow> labels option \<Rightarrow> 'q Resolved list" where
  "MatchingForRequest c resource apiGroup operation namespace namespaceLabels =
    (let mg = matchingGroups namespaceLabels c in
     if length mg = 0 then []
     else let byPolicy = fold (accumulate_group (eligible_policy c resource apiGroup operation)) mg []
       in map (\<lambda>(polName, a). \<lparr>rs_Policy = the (map_of (pc_policies c) polName),
                               rs_Mode = fst a, rs_Groups = snd a\<rparr>) byPolicy)"

definition CompileGroup :: "as_selector \<Rightarrow> PolicyGroup \<Rightarrow> string + CompiledGroup" where
  "CompileGroup asSelector g =
    (let build = (\<lambda>sel. Inr \<lparr>cg_Name = grp_Name g, cg_Enabled = gs_Enabled (grp_Spec g),
           cg_NamespaceSelector = sel,
           cg_Members = index_by em_Name em_EnforcementMode (gst_ResolvedPolicies (grp_Status g))\<rparr>)
     in case gs_NamespaceSelector (grp_Spec g) of
       None \<Rightarrow> build None
     | Some ls \<Rightarrow> (case asSelector ls of Inl err \<Rightarrow> Inl err | Inr sel \<Rightarrow> build (Some sel)))"

section \<open>The cache as a state machine\<close>

datatype 'q cache_op =
    OpSetPolicy string "'q CompiledPolicy"
  | OpDeletePolicy string
  | OpSetGroup string CompiledGroup
  | OpDeleteGroup string
  | OpSetReady

fun cache_step :: "'q PolicyCache \<Rightarrow> 'q cache_op \<Rightarrow> 'q PolicyCache" where
  "cache_step c (OpSetPolicy n p) = SetPolicy n p c"
| "cache_step c (OpDeletePolicy n) = DeletePolicy n c"
| "cache_step c (OpSetGroup n g) = SetGroup n g c"
| "cache_step c (OpDeleteGroup n) = DeleteGroup n c"
| "cache_step c OpSetReady = PolicyCache_SetReady c"

text \<open>Callers pass an object under its own name, and a Go map has no duplicate keys.\<close>

fun cache_op_ok :: "'q cache_op \<Rightarrow> bool" where
  "cache_op_ok (OpSetPolicy n p) = (cp_Name p = n)"
| "cache_op_ok (OpSetGroup n g) = (cg_Name g = n \<and> wf_map (cg_Members g))"
| "cache_op_ok _ = True"

definition cache_inv :: "'q PolicyCache \<Rightarrow> bool" where
  "cache_inv c \<longleftrightarrow> wf_map (pc_policies c) \<and> wf_map (pc_groups c) \<and>
     (\<forall>(n, p) \<in> set (pc_policies c). cp_Name p = n) \<and>
     (\<forall>(n, g) \<in> set (pc_groups c). cg_Name g = n \<and> wf_map (cg_Members g))"

interpretation policy_cache: machine NewPolicyCache cache_step cache_op_ok cache_inv
proof
  show "cache_inv NewPolicyCache" by (simp add: cache_inv_def cache_simps)
next
  fix c :: "'q PolicyCache" and i :: "'q cache_op"
  assume "cache_inv c" and "cache_op_ok i"
  then show "cache_inv (cache_step c i)"
    by (cases i) (auto simp: cache_inv_def cache_simps mem_update_iff mem_delete_iff split: if_splits)
qed

section \<open>What a request resolves to\<close>

definition combine_modes :: "string list \<Rightarrow> string" where
  "combine_modes ms = (case ms of [] \<Rightarrow> '''' | m # ms \<Rightarrow> foldl strictestOf m ms)"

definition contributions :: "labels option \<Rightarrow> 'q PolicyCache \<Rightarrow> string \<Rightarrow> (string \<times> string) list" where
  "contributions namespaceLabels c polName =
    List.map_filter (\<lambda>(g, members). map_option (\<lambda>mode. (g, mode)) (map_of members polName))
      (matchingGroups namespaceLabels c)"

definition resolved_spec ::
  "'q PolicyCache \<Rightarrow> string \<Rightarrow> string \<Rightarrow> string \<Rightarrow> labels option \<Rightarrow> string \<Rightarrow> 'q Resolved option" where
  "resolved_spec c resource apiGroup operation nsl polName =
    (let con = contributions nsl c polName in
     case map_of (pc_policies c) polName of
       None \<Rightarrow> None
     | Some p \<Rightarrow> if matchesPolicy (cp_Match p) resource apiGroup operation \<and> con \<noteq> []
         then Some \<lparr>rs_Policy = p, rs_Mode = combine_modes (map snd con), rs_Groups = map fst con\<rparr>
         else None)"

section \<open>Lemmas on the accumulation\<close>

definition extend_accum :: "accum option \<Rightarrow> string \<Rightarrow> string \<Rightarrow> accum option" where
  "extend_accum a g mode = (case a of None \<Rightarrow> Some (mode, [g])
     | Some (m, gs) \<Rightarrow> Some (strictestOf m mode, gs @ [g]))"

definition accum_of :: "(string \<times> string) list \<Rightarrow> accum option" where
  "accum_of con = (if con = [] then None else Some (combine_modes (map snd con), map fst con))"

lemma accum_of_Nil [simp]: "accum_of [] = None"
  by (simp add: accum_of_def)

lemma accum_of_snoc: "accum_of (con @ [(g, mode)]) = extend_accum (accum_of con) g mode"
  by (cases con) (simp_all add: accum_of_def extend_accum_def combine_modes_def)

lemma accumulate_member_step:
  "map_of (accumulate_member el g (k, mode) acc) =
    (if el k then (map_of acc)(k := extend_accum (map_of acc k) g mode) else map_of acc)"
  by (cases "map_of acc k") (auto simp: accumulate_member_def extend_accum_def)

lemma accumulate_member_wf: "wf_map acc \<Longrightarrow> wf_map (accumulate_member el g pm acc)"
  by (auto simp: accumulate_member_def split: prod.split option.split)

lemma accumulate_members:
  "wf_map members \<Longrightarrow> map_of (fold (accumulate_member el g) members acc) n =
    (case map_of members n of None \<Rightarrow> map_of acc n
     | Some mode \<Rightarrow> if el n then extend_accum (map_of acc n) g mode else map_of acc n)"
proof (induction members arbitrary: acc)
  case (Cons pm members)
  obtain k mode where "pm = (k, mode)" by (cases pm)
  moreover have "map_of members k = None"
    using Cons.prems calculation by (simp add: map_of_None_iff)
  ultimately show ?case
    using Cons.prems by (cases "k = n") (auto simp: Cons.IH accumulate_member_step split: option.splits)
qed simp

lemma accumulate_members_wf: "wf_map acc \<Longrightarrow> wf_map (fold (accumulate_member el g) ms acc)"
  by (induction ms arbitrary: acc) (auto simp: accumulate_member_wf)

lemma accumulate_groups_wf: "wf_map acc \<Longrightarrow> wf_map (fold (accumulate_group el) mg acc)"
  by (induction mg arbitrary: acc) (auto simp: accumulate_group_def accumulate_members_wf)

definition contrib :: "(string \<times> string smap) list \<Rightarrow> string \<Rightarrow> (string \<times> string) list" where
  "contrib mg n = List.map_filter (\<lambda>(g, members). map_option (\<lambda>mode. (g, mode)) (map_of members n)) mg"

lemma contrib_snoc: "contrib (mg @ [(g, members)]) n =
    contrib mg n @ (case map_of members n of None \<Rightarrow> [] | Some mode \<Rightarrow> [(g, mode)])"
  by (simp add: contrib_def map_filter_def split: option.split)

lemma accumulate_groups:
  "\<forall>(g, members) \<in> set mg. wf_map members \<Longrightarrow>
   map_of (fold (accumulate_group el) mg []) n = (if el n then accum_of (contrib mg n) else None)"
proof (induction mg rule: rev_induct)
  case Nil
  then show ?case by (simp add: contrib_def map_filter_def)
next
  case (snoc gm mg)
  obtain g members where gm: "gm = (g, members)" by (cases gm)
  have IH: "map_of (fold (accumulate_group el) mg []) n = (if el n then accum_of (contrib mg n) else None)"
    using snoc by auto
  have "wf_map members" using snoc.prems gm by auto
  then show ?case
    by (simp add: gm accumulate_group_def accumulate_members IH [unfolded accumulate_group_def]
        contrib_snoc accum_of_snoc split: option.split)
qed

section \<open>\<open>MatchingForRequest\<close> refines the specification\<close>

lemma matchingGroups_wf:
  assumes "cache_inv c"
  shows "\<forall>(g, members) \<in> set (matchingGroups nsl c). wf_map members"
  using assms by (fastforce simp: matchingGroups_def cache_inv_def)

definition by_policy ::
  "'q PolicyCache \<Rightarrow> string \<Rightarrow> string \<Rightarrow> string \<Rightarrow> labels option \<Rightarrow> accum smap" where
  "by_policy c resource apiGroup operation nsl =
     fold (accumulate_group (eligible_policy c resource apiGroup operation)) (matchingGroups nsl c) []"

lemma MatchingForRequest_by_policy:
  "MatchingForRequest c resource apiGroup operation namespace nsl =
    map (\<lambda>(n, a). \<lparr>rs_Policy = the (map_of (pc_policies c) n), rs_Mode = fst a, rs_Groups = snd a\<rparr>)
      (by_policy c resource apiGroup operation nsl)"
  by (simp add: MatchingForRequest_def by_policy_def Let_def)

lemma by_policy_wf: "wf_map (by_policy c resource apiGroup operation nsl)"
  unfolding by_policy_def by (rule accumulate_groups_wf) simp

lemma by_policy_map_of:
  assumes "cache_inv c"
  shows "map_of (by_policy c resource apiGroup operation nsl) n =
    (if eligible_policy c resource apiGroup operation n then accum_of (contributions nsl c n) else None)"
  unfolding by_policy_def
  by (simp add: accumulate_groups [OF matchingGroups_wf [OF assms]] contributions_def contrib_def)

lemma by_policy_Some_iff:
  assumes "cache_inv c"
  shows "(n, a) \<in> set (by_policy c resource apiGroup operation nsl) \<longleftrightarrow>
    (\<exists>p. map_of (pc_policies c) n = Some p \<and> matchesPolicy (cp_Match p) resource apiGroup operation \<and>
       accum_of (contributions nsl c n) = Some a)"
proof -
  have "(n, a) \<in> set (by_policy c resource apiGroup operation nsl) \<longleftrightarrow>
      map_of (by_policy c resource apiGroup operation nsl) n = Some a"
    by (simp add: by_policy_wf)
  also have "\<dots> \<longleftrightarrow> (\<exists>p. map_of (pc_policies c) n = Some p \<and>
      matchesPolicy (cp_Match p) resource apiGroup operation \<and> accum_of (contributions nsl c n) = Some a)"
    by (auto simp: by_policy_map_of [OF assms] eligible_policy_def split: option.splits)
  finally show ?thesis .
qed

lemma cache_policy_name:
  "cache_inv c \<Longrightarrow> map_of (pc_policies c) n = Some p \<Longrightarrow> cp_Name p = n"
  using map_of_in_set by (fastforce simp: cache_inv_def)

lemma in_Matching_iff:
  assumes "cache_inv c"
  shows "r \<in> set (MatchingForRequest c resource apiGroup operation namespace nsl) \<longleftrightarrow>
    resolved_spec c resource apiGroup operation nsl (cp_Name (rs_Policy r)) = Some r"
proof -
  have "r \<in> set (MatchingForRequest c resource apiGroup operation namespace nsl) \<longleftrightarrow>
    (\<exists>n p. map_of (pc_policies c) n = Some p \<and> matchesPolicy (cp_Match p) resource apiGroup operation \<and>
       contributions nsl c n \<noteq> [] \<and>
       r = \<lparr>rs_Policy = p, rs_Mode = combine_modes (map snd (contributions nsl c n)),
            rs_Groups = map fst (contributions nsl c n)\<rparr>)"
    unfolding MatchingForRequest_by_policy
    by (auto simp: by_policy_Some_iff [OF assms] accum_of_def image_iff Bex_def split: if_splits)
  also have "\<dots> \<longleftrightarrow> resolved_spec c resource apiGroup operation nsl (cp_Name (rs_Policy r)) = Some r"
    using cache_policy_name [OF assms]
    by (auto simp: resolved_spec_def Let_def split: option.splits if_splits) metis
  finally show ?thesis .
qed

lemma Matching_distinct:
  assumes "cache_inv c"
  shows "distinct (map (cp_Name \<circ> rs_Policy) (MatchingForRequest c resource apiGroup operation namespace nsl))"
proof -
  have "map (cp_Name \<circ> rs_Policy) (MatchingForRequest c resource apiGroup operation namespace nsl) =
      map fst (by_policy c resource apiGroup operation nsl)"
    unfolding MatchingForRequest_by_policy
    using cache_policy_name [OF assms] by (auto simp: by_policy_Some_iff [OF assms])
  then show ?thesis by (simp only: by_policy_wf)
qed

section \<open>Modes and iteration orders\<close>

lemma foldl_strictest:
  "ms \<noteq> [] \<Longrightarrow> foldl strictestOf m ms = (if ModeEnforce \<in> set (m # ms) then ModeEnforce else ModeAudit)"
proof (induction ms arbitrary: m)
  case (Cons a ms)
  then show ?case by (cases "ms = []") (auto simp: strictestOf_def)
qed simp

lemma combine_modes_eq:
  "combine_modes ms = (if length ms \<le> 1 then (case ms of [] \<Rightarrow> '''' | m # _ \<Rightarrow> m)
     else if ModeEnforce \<in> set ms then ModeEnforce else ModeAudit)"
proof (cases ms)
  case (Cons m rest)
  then show ?thesis by (cases "rest = []") (simp_all add: combine_modes_def foldl_strictest)
qed (simp add: combine_modes_def)

lemma combine_modes_enforce_iff: "combine_modes ms = ModeEnforce \<longleftrightarrow> ModeEnforce \<in> set ms"
proof (cases ms)
  case Nil
  then show ?thesis by (simp add: combine_modes_def mode_defs)
next
  case (Cons m rest)
  then show ?thesis by (cases "rest = []") (auto simp: combine_modes_eq)
qed

lemma combine_modes_mset:
  assumes "mset ms = mset ns"
  shows "combine_modes ms = combine_modes ns"
proof -
  consider "ms = []" | m where "ms = [m]" | "\<not> length ms \<le> 1"
    by (cases ms rule: remdups_adj.cases) auto
  then show ?thesis
  proof cases
    case 3
    then show ?thesis
      unfolding combine_modes_eq [of ms] combine_modes_eq [of ns]
      by (simp only: mset_eq_length [OF assms] mset_eq_setD [OF assms] if_False)
  qed (use assms [symmetric] in simp_all)
qed


text \<open>Two association lists present the same Go cache when they differ in iteration order only.\<close>

definition group_equiv :: "CompiledGroup \<Rightarrow> CompiledGroup \<Rightarrow> bool" where
  "group_equiv g h \<longleftrightarrow> cg_Name g = cg_Name h \<and> cg_Enabled g = cg_Enabled h \<and>
     cg_NamespaceSelector g = cg_NamespaceSelector h \<and> map_of (cg_Members g) = map_of (cg_Members h)"

definition cache_equiv :: "'q PolicyCache \<Rightarrow> 'q PolicyCache \<Rightarrow> bool" where
  "cache_equiv c d \<longleftrightarrow> map_of (pc_policies c) = map_of (pc_policies d) \<and>
     rel_mset group_equiv (mset (map snd (pc_groups c))) (mset (map snd (pc_groups d)))"

lemma contributions_list:
  "contributions nsl c n = List.map_filter (\<lambda>g. if group_applies nsl g
     then map_option (\<lambda>mode. (cg_Name g, mode)) (map_of (cg_Members g) n) else None) (map snd (pc_groups c))"
  by (simp add: contributions_def matchingGroups_def map_filter_map_filter cong: if_cong)


lemma contributions_mem:
  "(g, mode) \<in> set (contributions nsl c n) \<longleftrightarrow>
    (\<exists>cg \<in> snd ` set (pc_groups c).
       group_applies nsl cg \<and> cg_Name cg = g \<and> map_of (cg_Members cg) n = Some mode)"
  by (auto simp: contributions_list in_set_map_filter split: if_splits)

lemma contributions_equiv:
  assumes "cache_equiv c d"
  shows "mset (contributions nsl c n) = mset (contributions nsl d n)"
proof -
  let ?f = "\<lambda>g. if group_applies nsl g
     then map_option (\<lambda>mode. (cg_Name g, mode)) (map_of (cg_Members g) n) else None"
  obtain gs hs where gs: "mset gs = mset (map snd (pc_groups c))" "mset hs = mset (map snd (pc_groups d))"
    "list_all2 group_equiv gs hs"
    using assms unfolding cache_equiv_def rel_mset_def by blast
  have "List.map_filter ?f gs = List.map_filter ?f hs"
    using gs(3)
  proof (induction rule: list_all2_induct)
    case (Cons g gs h hs)
    then have "?f g = ?f h" by (auto simp: group_equiv_def group_applies_def split: option.split)
    then show ?case using Cons by (simp add: map_filter_simps split: option.split)
  qed simp
  then have "mset (List.map_filter ?f gs) = mset (List.map_filter ?f hs)" by (rule arg_cong)
  then show ?thesis unfolding contributions_list mset_map_filter gs(1,2) .
qed

lemma resolved_spec_Some:
  assumes "resolved_spec c resource apiGroup operation nsl n = Some r"
  shows "map_of (pc_policies c) n = Some (rs_Policy r)"
    "matchesPolicy (cp_Match (rs_Policy r)) resource apiGroup operation"
    "contributions nsl c n \<noteq> []"
    "rs_Mode r = combine_modes (map snd (contributions nsl c n))"
    "rs_Groups r = map fst (contributions nsl c n)"
  using assms by (cases r; force simp: resolved_spec_def Let_def split: option.splits if_splits)+

definition verdict_key :: "'q Resolved \<Rightarrow> 'q CompiledPolicy \<times> string \<times> string multiset" where
  "verdict_key r = (rs_Policy r, rs_Mode r, mset (rs_Groups r))"

lemma resolved_spec_equiv:
  assumes "cache_equiv c d"
  shows "map_option verdict_key (resolved_spec c resource apiGroup operation nsl n) =
    map_option verdict_key (resolved_spec d resource apiGroup operation nsl n)"
proof -
  have con: "mset (contributions nsl c n) = mset (contributions nsl d n)"
    by (rule contributions_equiv [OF assms])
  then have "mset (map snd (contributions nsl c n)) = mset (map snd (contributions nsl d n))"
    "mset (map fst (contributions nsl c n)) = mset (map fst (contributions nsl d n))"
    by simp_all
  moreover have "contributions nsl c n = [] \<longleftrightarrow> contributions nsl d n = []"
    using con by (metis mset_zero_iff)
  ultimately show ?thesis
    using assms
    by (auto simp: resolved_spec_def Let_def verdict_key_def cache_equiv_def
        combine_modes_mset split: option.split)
qed

lemma Matching_verdict_keys:
  assumes "cache_inv c"
  shows "verdict_key ` set (MatchingForRequest c resource apiGroup operation namespace nsl) =
    {k. \<exists>n. map_option verdict_key (resolved_spec c resource apiGroup operation nsl n) = Some k}"
proof -
  have "cp_Name (rs_Policy r) = n"
    if "resolved_spec c resource apiGroup operation nsl n = Some r" for r n
    using resolved_spec_Some(1) [OF that] cache_policy_name [OF assms, of n] by blast
  then show ?thesis
    unfolding image_def Bex_def in_Matching_iff [OF assms] map_option_eq_Some by fastforce
qed

section \<open>Properties\<close>

text \<open>C3: On every cache the informers can build, a request resolves to each policy at most once,
  and exactly to the policies that are cached, match the request's resource, group and operation and
  are listed by an enabled group whose selector accepts the namespace labels, with those groups.\<close>

theorem MatchingForRequest_refines:
  assumes "list_all cache_op_ok ops"
  shows "let c = foldl cache_step NewPolicyCache ops;
             out = MatchingForRequest c resource apiGroup operation namespace nsl
         in distinct (map (cp_Name \<circ> rs_Policy) out) \<and>
            (\<forall>r. r \<in> set out \<longleftrightarrow>
              resolved_spec c resource apiGroup operation nsl (cp_Name (rs_Policy r)) = Some r)"
  using policy_cache.inv_run [OF assms] by (simp add: Let_def Matching_distinct in_Matching_iff)

text \<open>C4: The effective mode of a resolved policy is enforce exactly when some enabled group that
  applies to the request lists the policy in mode enforce: the strictest mode wins, whatever order
  the groups are visited in.\<close>

theorem strictest_mode_wins:
  assumes "list_all cache_op_ok ops"
    and "r \<in> set (MatchingForRequest (foldl cache_step NewPolicyCache ops) resource apiGroup operation namespace nsl)"
  shows "rs_Mode r = ModeEnforce \<longleftrightarrow>
    (\<exists>g \<in> snd ` set (pc_groups (foldl cache_step NewPolicyCache ops)). group_applies nsl g \<and>
       map_of (cg_Members g) (cp_Name (rs_Policy r)) = Some ModeEnforce)"
proof -
  let ?c = "foldl cache_step NewPolicyCache ops"
  have "resolved_spec ?c resource apiGroup operation nsl (cp_Name (rs_Policy r)) = Some r"
    using assms in_Matching_iff [OF policy_cache.inv_run [OF assms(1)]] by blast
  note resolved_spec_Some(4) [OF this]
  then show ?thesis
    by (auto simp: combine_modes_enforce_iff image_iff contributions_mem Bex_def)
qed

text \<open>The resolved policies, their modes and their groups do not depend on the order in which
  the runtime iterates over the group, member and policy maps.\<close>

theorem Matching_order_independent:
  assumes "cache_inv c" and "cache_inv d" and "cache_equiv c d"
  shows "verdict_key ` set (MatchingForRequest c resource apiGroup operation namespace nsl) =
    verdict_key ` set (MatchingForRequest d resource apiGroup operation namespace nsl)"
  by (simp add: Matching_verdict_keys assms resolved_spec_equiv [OF assms(3)])

section \<open>Witnesses\<close>

definition ex_cpolicy :: "string \<Rightarrow> nat CompiledPolicy" where
  "ex_cpolicy n = \<lparr>cp_Name = n, cp_Description = '''', cp_DefaultMode = ''audit'',
     cp_Match = \<lparr>pm_Operations = [''CREATE''], pm_Resources =
       [\<lparr>mr_APIGroups = [''''], mr_APIVersions = [''v1''], mr_Resources = [''pods'']\<rparr>]\<rparr>,
     cp_Query = length n, cp_ReferencedBy = [''base'']\<rparr>"

definition ex_cgroup :: "string \<Rightarrow> selector option \<Rightarrow> string smap \<Rightarrow> CompiledGroup" where
  "ex_cgroup n sel ms = \<lparr>cg_Name = n, cg_Enabled = True, cg_NamespaceSelector = sel, cg_Members = ms\<rparr>"

definition ex_ops :: "nat cache_op list" where
  "ex_ops = [OpSetPolicy ''no-root'' (ex_cpolicy ''no-root''),
     OpSetPolicy ''limits'' (ex_cpolicy ''limits''),
     OpSetGroup ''base'' (ex_cgroup ''base'' None [(''no-root'', ''audit''), (''limits'', ''audit'')]),
     OpSetGroup ''prod'' (ex_cgroup ''prod'' (Some (\<lambda>l. map_of l ''env'' = Some ''prod''))
       [(''no-root'', ''enforce''), (''gone'', ''enforce'')]),
     OpSetReady]"

definition ex_cache :: "nat PolicyCache" where
  "ex_cache = foldl cache_step NewPolicyCache ex_ops"

lemmas ex_cache_defs = ex_cpolicy_def ex_cgroup_def ex_ops_def ex_cache_def

lemma ex_ops_ok: "list_all cache_op_ok ex_ops"
  by (simp add: ex_cache_defs)

abbreviation ex_matching :: "labels option \<Rightarrow> nat Resolved list" where
  "ex_matching nsl \<equiv> MatchingForRequest ex_cache ''pods'' '''' ''CREATE'' ''web'' nsl"

theorem MatchingForRequest_refines_witness:
  "map (\<lambda>r. (cp_Name (rs_Policy r), rs_Mode r, rs_Groups r)) (ex_matching (Some [(''env'', ''prod'')])) =
     [(''no-root'', ''enforce'', [''base'', ''prod'']), (''limits'', ''audit'', [''base''])] \<and>
   distinct (map (cp_Name \<circ> rs_Policy) (ex_matching (Some [(''env'', ''prod'')])))"
proof -
  have "map (\<lambda>r. (cp_Name (rs_Policy r), rs_Mode r, rs_Groups r)) (ex_matching (Some [(''env'', ''prod'')])) =
     [(''no-root'', ''enforce'', [''base'', ''prod'']), (''limits'', ''audit'', [''base''])]"
    by code_simp
  then show ?thesis
    using MatchingForRequest_refines [OF ex_ops_ok, of "''pods''" "''''" "''CREATE''" "''web''"
        "Some [(''env'', ''prod'')]"]
    by (simp add: Let_def ex_cache_def)
qed

theorem strictest_mode_wins_witness:
  "\<exists>r \<in> set (ex_matching (Some [(''env'', ''prod'')])). cp_Name (rs_Policy r) = ''no-root'' \<and>
     rs_Mode r = ModeEnforce \<and>
     (\<exists>g \<in> snd ` set (pc_groups ex_cache). group_applies (Some [(''env'', ''prod'')]) g \<and>
        map_of (cg_Members g) ''no-root'' = Some ModeEnforce)"
proof -
  let ?r = "\<lparr>rs_Policy = ex_cpolicy ''no-root'', rs_Mode = ''enforce'', rs_Groups = [''base'', ''prod'']\<rparr>"
  have "hd (ex_matching (Some [(''env'', ''prod'')])) = ?r" by code_simp
  moreover have "ex_matching (Some [(''env'', ''prod'')]) \<noteq> []" by code_simp
  ultimately have r: "?r \<in> set (ex_matching (Some [(''env'', ''prod'')]))"
    by (metis list.set_sel(1))
  show ?thesis
    by (rule bexI [OF _ r])
      (use strictest_mode_wins [OF ex_ops_ok r [unfolded ex_cache_def]]
        in \<open>simp add: ex_cache_def ModeEnforce_def ex_cpolicy_def\<close>)
qed

definition ex_cache_swapped :: "nat PolicyCache" where
  "ex_cache_swapped = ex_cache\<lparr>pc_groups := rev (pc_groups ex_cache)\<rparr>"

theorem Matching_order_independent_witness:
  "verdict_key ` set (ex_matching None) =
   verdict_key ` set (MatchingForRequest ex_cache_swapped ''pods'' '''' ''CREATE'' ''web'' None)"
proof (rule Matching_order_independent)
  show inv: "cache_inv ex_cache"
    unfolding ex_cache_def by (rule policy_cache.inv_run [OF ex_ops_ok])
  show "cache_inv ex_cache_swapped"
    using inv by (auto simp: cache_inv_def ex_cache_swapped_def simp flip: rev_map)
  have "rel_mset group_equiv (mset (map snd (pc_groups ex_cache))) (mset (map snd (pc_groups ex_cache)))"
    by (rule multiset.rel_refl) (simp add: group_equiv_def)
  then show "cache_equiv ex_cache ex_cache_swapped"
    by (simp add: cache_equiv_def ex_cache_swapped_def)
qed

end
