(* ===== verification/Exception_Cache.thy ===== *)
theory Exception_Cache
  imports Policy_Cache
begin

text \<open>
  The webhook's cache of active exceptions, \<^verbatim>\<open>internal/webhook/exception_cache.go\<close>. Entries are
  heap objects that \<open>removeEntry\<close> compares by address, so an entry carries the address
  \<open>ee_ptr\<close> it was allocated at and the cache counts allocations.

  The namespace index and the global list are derived data; \<open>exc_inv\<close> says how they follow from
  the map \<open>all\<close>, every operation keeps it, and \<open>ExemptedKeys\<close>, which reads only the derived
  data, is shown equal to a search through \<open>all\<close>.
\<close>

section \<open>Data\<close>

text \<open>
  \<open>namespaceSel\<close>/\<open>hasNsSelector\<close> are set together, as are \<open>resourceSel\<close>/\<open>hasResourceSel\<close>:
  each pair is one option. Go's string sets are lists without duplicates.
\<close>

record exemptEntry =
  ee_ptr :: nat
  ee_name :: string
  ee_policyRefs :: "string list"
  ee_policyGroupRefs :: "string list"
  ee_allPolicies :: bool
  ee_namespaces :: "string list"
  ee_namespaceSel :: "selector option"
  ee_resourceSel :: "selector option"

record ExceptionCache =
  xc_all :: "exemptEntry smap"
  xc_nsIndex :: "exemptEntry list smap"
  xc_global :: "exemptEntry list"
  xc_ready :: bool
  xc_next :: nat

section \<open>Operations\<close>

definition NewExceptionCache :: ExceptionCache where
  "NewExceptionCache = \<lparr>xc_all = [], xc_nsIndex = [], xc_global = [], xc_ready = False, xc_next = 0\<rparr>"

definition ExceptionCache_SetReady :: "ExceptionCache \<Rightarrow> ExceptionCache" where
  "ExceptionCache_SetReady c = c\<lparr>xc_ready := True\<rparr>"

definition ExceptionCache_IsReady :: "ExceptionCache \<Rightarrow> bool" where
  "ExceptionCache_IsReady c = xc_ready c"

definition stringSliceToSet :: "string list \<Rightarrow> string list" where
  "stringSliceToSet s = (if length s = 0 then [] else remdups s)"

definition compile_selector :: "as_selector \<Rightarrow> LabelSelector option \<Rightarrow> selector option" where
  "compile_selector asSelector ls = (case ls of
      None \<Rightarrow> None
    | Some l \<Rightarrow> (case asSelector l of Inl _ \<Rightarrow> None | Inr sel \<Rightarrow> Some sel))"

definition compile :: "as_selector \<Rightarrow> nat \<Rightarrow> PolicyException \<Rightarrow> exemptEntry" where
  "compile asSelector ptr pex =
    \<lparr>ee_ptr = ptr, ee_name = pex_Name pex,
     ee_policyRefs = stringSliceToSet (xs_PolicyRefs (pex_Spec pex)),
     ee_policyGroupRefs = stringSliceToSet (xs_PolicyGroupRefs (pex_Spec pex)),
     ee_allPolicies = xs_AllPolicies (pex_Spec pex),
     ee_namespaces = stringSliceToSet (xm_Namespaces (xs_Match (pex_Spec pex))),
     ee_namespaceSel = compile_selector asSelector (xm_NamespaceSelector (xs_Match (pex_Spec pex))),
     ee_resourceSel = compile_selector asSelector (xm_ResourceSelector (xs_Match (pex_Spec pex)))\<rparr>"

definition removeEntry :: "exemptEntry list \<Rightarrow> exemptEntry \<Rightarrow> exemptEntry list" where
  "removeEntry list target = filter (\<lambda>e. ee_ptr e \<noteq> ee_ptr target) list"

text \<open>Reading a missing key of a Go map of slices gives the nil slice.\<close>

definition slice_at :: "'a list smap \<Rightarrow> string \<Rightarrow> 'a list" where
  "slice_at m k = (case map_of m k of None \<Rightarrow> [] | Some v \<Rightarrow> v)"

definition unindex :: "exemptEntry \<Rightarrow> string \<Rightarrow> exemptEntry list smap \<Rightarrow> exemptEntry list smap" where
  "unindex old ns idx =
    (let l = removeEntry (slice_at idx ns) old; idx = AList.update ns l idx
     in if length l = 0 then AList.delete ns idx else idx)"

definition removeUnlocked :: "string \<Rightarrow> ExceptionCache \<Rightarrow> ExceptionCache" where
  "removeUnlocked name c = (case map_of (xc_all c) name of
      None \<Rightarrow> c
    | Some old \<Rightarrow>
        (let c = c\<lparr>xc_all := AList.delete name (xc_all c)\<rparr>
         in if length (ee_namespaces old) = 0
            then c\<lparr>xc_global := removeEntry (xc_global c) old\<rparr>
            else c\<lparr>xc_nsIndex := fold (unindex old) (ee_namespaces old) (xc_nsIndex c)\<rparr>))"

definition ExceptionCache_Delete :: "string \<Rightarrow> ExceptionCache \<Rightarrow> ExceptionCache" where
  "ExceptionCache_Delete name c = removeUnlocked name c"

definition index_entry :: "exemptEntry \<Rightarrow> string \<Rightarrow> exemptEntry list smap \<Rightarrow> exemptEntry list smap" where
  "index_entry entry ns idx = AList.update ns (slice_at idx ns @ [entry]) idx"

definition ExceptionCache_Upsert :: "as_selector \<Rightarrow> PolicyException \<Rightarrow> ExceptionCache \<Rightarrow> ExceptionCache" where
  "ExceptionCache_Upsert asSelector pex c =
    (if xst_Phase (pex_Status pex) \<noteq> PhaseActive then ExceptionCache_Delete (pex_Name pex) c
     else let entry = compile asSelector (xc_next c) pex;
              c = removeUnlocked (pex_Name pex) (c\<lparr>xc_next := Suc (xc_next c)\<rparr>);
              c = c\<lparr>xc_all := AList.update (pex_Name pex) entry (xc_all c)\<rparr>
          in if length (ee_namespaces entry) = 0
             then c\<lparr>xc_global := xc_global c @ [entry]\<rparr>
             else c\<lparr>xc_nsIndex := fold (index_entry entry) (ee_namespaces entry) (xc_nsIndex c)\<rparr>)"

text \<open>The guards of the loop over the candidates, and the exemption of one policy by one entry.\<close>

definition entry_applies :: "labels option \<Rightarrow> labels option \<Rightarrow> exemptEntry \<Rightarrow> bool" where
  "entry_applies namespaceLabels resourceLabels entry =
    (if (case ee_resourceSel entry of None \<Rightarrow> False | Some sel \<Rightarrow> \<not> sel (label_set resourceLabels)) then False
     else case ee_namespaceSel entry of
       None \<Rightarrow> True
     | Some sel \<Rightarrow> (case namespaceLabels of None \<Rightarrow> False | Some l \<Rightarrow> sel l))"

definition exempt_policy :: "exemptEntry \<Rightarrow> 'q CompiledPolicy \<Rightarrow> bool smap \<Rightarrow> bool smap" where
  "exempt_policy entry p out =
    (if cp_Name p \<in> set (ee_policyRefs entry) then AList.update (cp_Name p) True out
     else if list_ex (\<lambda>group. group \<in> set (ee_policyGroupRefs entry)) (cp_ReferencedBy p)
       then AList.update (cp_Name p) True out
     else out)"

definition exempt_entry ::
  "labels option \<Rightarrow> labels option \<Rightarrow> 'q CompiledPolicy list \<Rightarrow> exemptEntry \<Rightarrow> bool smap \<Rightarrow> bool smap" where
  "exempt_entry namespaceLabels resourceLabels policies entry out =
    (if \<not> entry_applies namespaceLabels resourceLabels entry then out
     else if ee_allPolicies entry then fold (\<lambda>p. AList.update (cp_Name p) True) policies out
     else fold (exempt_policy entry) policies out)"

definition ExemptedKeys ::
  "ExceptionCache \<Rightarrow> string \<Rightarrow> labels option \<Rightarrow> labels option \<Rightarrow> 'q CompiledPolicy list \<Rightarrow> bool smap" where
  "ExemptedKeys c namespace namespaceLabels resourceLabels policies =
    (let candidates = xc_global c @ slice_at (xc_nsIndex c) namespace
     in if length candidates = 0 then []
        else fold (exempt_entry namespaceLabels resourceLabels policies) candidates [])"

lemmas exception_cache_ops [cache_simps] = NewExceptionCache_def ExceptionCache_SetReady_def
  ExceptionCache_IsReady_def ExceptionCache_Delete_def

section \<open>The cache as a state machine\<close>

datatype exc_op =
    OpUpsert PolicyException
  | OpDelete string
  | OpExcReady

fun exc_step :: "as_selector \<Rightarrow> ExceptionCache \<Rightarrow> exc_op \<Rightarrow> ExceptionCache" where
  "exc_step asSelector c (OpUpsert pex) = ExceptionCache_Upsert asSelector pex c"
| "exc_step asSelector c (OpDelete n) = ExceptionCache_Delete n c"
| "exc_step asSelector c OpExcReady = ExceptionCache_SetReady c"

text \<open>
  The derived data: the global list holds the entries of \<open>all\<close> without namespaces, the index
  holds under each namespace the entries that list it; addresses identify entries.
\<close>

definition entries :: "ExceptionCache \<Rightarrow> exemptEntry set" where
  "entries c = snd ` set (xc_all c)"

definition exc_inv :: "ExceptionCache \<Rightarrow> bool" where
  "exc_inv c \<longleftrightarrow> wf_map (xc_all c) \<and>
     (\<forall>(n, e) \<in> set (xc_all c). ee_name e = n) \<and>
     inj_on ee_ptr (entries c) \<and> (\<forall>e \<in> entries c. ee_ptr e < xc_next c) \<and>
     set (xc_global c) = {e \<in> entries c. ee_namespaces e = []} \<and>
     (\<forall>ns. set (slice_at (xc_nsIndex c) ns) = {e \<in> entries c. ns \<in> set (ee_namespaces e)})"

section \<open>Lemmas on the index\<close>

lemma slice_at_update [simp]: "slice_at (AList.update k v m) ns = (if ns = k then v else slice_at m ns)"
  by (simp add: slice_at_def)

lemma slice_at_delete [simp]: "slice_at (AList.delete k m) ns = (if ns = k then [] else slice_at m ns)"
  by (simp add: slice_at_def)

lemma unindex_at: "slice_at (unindex old k idx) ns =
    (if ns = k then removeEntry (slice_at idx ns) old else slice_at idx ns)"
  by (auto simp: unindex_def Let_def)

lemma removeEntry_idem [simp]: "removeEntry (removeEntry l old) old = removeEntry l old"
  by (simp add: removeEntry_def)

lemma unindex_all: "slice_at (fold (unindex old) nss idx) ns =
    (if ns \<in> set nss then removeEntry (slice_at idx ns) old else slice_at idx ns)"
  by (induction nss arbitrary: idx) (auto simp: unindex_at)

lemma index_entry_at: "slice_at (index_entry e k idx) ns =
    (if ns = k then slice_at idx ns @ [e] else slice_at idx ns)"
  by (simp add: index_entry_def)

lemma index_all: "distinct nss \<Longrightarrow> slice_at (fold (index_entry e) nss idx) ns =
    (if ns \<in> set nss then slice_at idx ns @ [e] else slice_at idx ns)"
  by (induction nss arbitrary: idx) (auto simp: index_entry_at)

lemma stringSliceToSet_simps [simp]:
  "set (stringSliceToSet s) = set s" "distinct (stringSliceToSet s)"
  "stringSliceToSet s = [] \<longleftrightarrow> s = []"
  by (auto simp: stringSliceToSet_def)

lemma exc_invD:
  assumes "exc_inv c"
  shows "wf_map (xc_all c)" "\<And>n e. (n, e) \<in> set (xc_all c) \<Longrightarrow> ee_name e = n"
    "inj_on ee_ptr (entries c)" "\<And>e. e \<in> entries c \<Longrightarrow> ee_ptr e < xc_next c"
    "set (xc_global c) = {e \<in> entries c. ee_namespaces e = []}"
    "\<And>ns. set (slice_at (xc_nsIndex c) ns) = {e \<in> entries c. ns \<in> set (ee_namespaces e)}"
  using assms by (auto simp: exc_inv_def)

lemma removeUnlocked_all: "xc_all (removeUnlocked n c) = AList.delete n (xc_all c)"
  by (auto simp: removeUnlocked_def Let_def map_of_eq_None_iff split: option.split)

lemma removeUnlocked_next [simp]: "xc_next (removeUnlocked n c) = xc_next c"
  by (simp add: removeUnlocked_def Let_def split: option.split)

lemma entries_removeUnlocked:
  assumes "exc_inv c"
  shows "entries (removeUnlocked n c) = {e \<in> entries c. ee_name e \<noteq> n}"
  using exc_invD(2) [OF assms] by (force simp: entries_def removeUnlocked_all mem_delete_iff)

lemma removeEntry_set:
  assumes "exc_inv c" and "old \<in> entries c" and "set l \<subseteq> entries c"
  shows "set (removeEntry l old) = set l - {old}"
  using assms(2,3) exc_invD(3) [OF assms(1)] by (auto simp: removeEntry_def dest: inj_onD)

lemma entry_named:
  assumes "exc_inv c" and "(n, old) \<in> set (xc_all c)" and "e \<in> entries c"
  shows "ee_name e = n \<longleftrightarrow> e = old"
  using assms exc_invD(1,2) [OF assms(1)]
  by (force simp: entries_def dest: eq_key_imp_eq_value)

lemma exc_inv_removeUnlocked:
  assumes "exc_inv c"
  shows "exc_inv (removeUnlocked n c)"
proof (cases "map_of (xc_all c) n")
  case None
  then show ?thesis using assms by (simp add: removeUnlocked_def)
next
  case (Some old)
  note inv = exc_invD [OF assms]
  have mem: "(n, old) \<in> set (xc_all c)" by (rule map_of_in_set [OF Some])
  then have old: "old \<in> entries c" by (force simp: entries_def)
  have E: "entries (removeUnlocked n c) = entries c - {old}"
    using entries_removeUnlocked [OF assms] entry_named [OF assms mem] by auto
  have "set (xc_global (removeUnlocked n c)) = {e \<in> entries c - {old}. ee_namespaces e = []}"
    using inv(5) removeEntry_set [OF assms old, of "xc_global c"]
    by (auto simp: removeUnlocked_def Some Let_def)
  moreover have "set (slice_at (xc_nsIndex (removeUnlocked n c)) ns) =
      {e \<in> entries c - {old}. ns \<in> set (ee_namespaces e)}" for ns
    using inv(6) [of ns] removeEntry_set [OF assms old, of "slice_at (xc_nsIndex c) ns"]
    by (auto simp: removeUnlocked_def Some Let_def unindex_all)
  moreover have "\<forall>(m, e) \<in> set (xc_all (removeUnlocked n c)). ee_name e = m"
    using inv(2) by (auto simp: removeUnlocked_all mem_delete_iff)
  ultimately show ?thesis
    using inv(1,3,4) by (auto simp: exc_inv_def E removeUnlocked_all intro: inj_on_diff)
qed

lemma exc_inv_alloc: "exc_inv c \<Longrightarrow> exc_inv (c\<lparr>xc_next := Suc (xc_next c)\<rparr>)"
  by (auto simp: exc_inv_def entries_def less_Suc_eq)

lemma compile_sel [simp]:
  "ee_ptr (compile asSelector ptr pex) = ptr" "ee_name (compile asSelector ptr pex) = pex_Name pex"
  "distinct (ee_namespaces (compile asSelector ptr pex))"
  by (simp_all add: compile_def)

lemma exc_inv_insert:
  assumes inv: "exc_inv c" and fresh: "n \<notin> fst ` set (xc_all c)"
    and e: "ee_ptr e < xc_next c" "\<forall>x \<in> entries c. ee_ptr x \<noteq> ee_ptr e" "ee_name e = n"
      "distinct (ee_namespaces e)"
    and d: "d = (if ee_namespaces e = []
       then c\<lparr>xc_all := AList.update n e (xc_all c), xc_global := xc_global c @ [e]\<rparr>
       else c\<lparr>xc_all := AList.update n e (xc_all c),
              xc_nsIndex := fold (index_entry e) (ee_namespaces e) (xc_nsIndex c)\<rparr>)"
  shows "exc_inv d"
proof -
  note I = exc_invD [OF inv]
  have all: "xc_all d = xc_all c @ [(n, e)]" "xc_next d = xc_next c"
    by (simp_all add: d update_fresh [OF fresh])
  have E: "entries d = insert e (entries c)"
    by (simp add: entries_def all)
  have "set (xc_global d) = {x \<in> entries d. ee_namespaces x = []}"
    using I(5) unfolding E by (auto simp: d)
  moreover have "set (slice_at (xc_nsIndex d) ns) = {x \<in> entries d. ns \<in> set (ee_namespaces x)}" for ns
    using I(6) [of ns] unfolding E by (auto simp: d index_all [OF e(4)])
  moreover have "inj_on ee_ptr (entries d)"
    using I(3) e(2) unfolding E by (auto simp: inj_on_def)
  moreover have "wf_map (xc_all d)" "\<forall>(n, x) \<in> set (xc_all d). ee_name x = n"
    using I(1,2) e(3) fresh by (auto simp: all)
  ultimately show ?thesis
    using I(4) e(1) by (auto simp: exc_inv_def all(2) E)
qed

lemma exc_inv_Upsert:
  assumes "exc_inv c"
  shows "exc_inv (ExceptionCache_Upsert asSelector pex c)"
proof (cases "xst_Phase (pex_Status pex) = PhaseActive")
  case False
  then show ?thesis
    using exc_inv_removeUnlocked [OF assms] by (simp add: ExceptionCache_Upsert_def cache_simps)
next
  case True
  let ?c = "removeUnlocked (pex_Name pex) (c\<lparr>xc_next := Suc (xc_next c)\<rparr>)"
  let ?e = "compile asSelector (xc_next c) pex"
  have inv: "exc_inv ?c" by (intro exc_inv_removeUnlocked exc_inv_alloc assms)
  have "entries ?c \<subseteq> entries c"
    using entries_removeUnlocked [OF exc_inv_alloc [OF assms]] by (auto simp: entries_def)
  then have "\<forall>x \<in> entries ?c. ee_ptr x \<noteq> ee_ptr ?e"
    using exc_invD(4) [OF assms] by fastforce
  moreover have "pex_Name pex \<notin> fst ` set (xc_all ?c)"
    by (simp add: removeUnlocked_all)
  ultimately show ?thesis
    by (intro exc_inv_insert [OF inv, of "pex_Name pex" ?e]) (simp_all add: True ExceptionCache_Upsert_def Let_def)
qed

lemma exc_inv_ready: "exc_inv (c\<lparr>xc_ready := b\<rparr>) \<longleftrightarrow> exc_inv c"
  by (simp add: exc_inv_def entries_def)

interpretation exception_cache: machine NewExceptionCache "exc_step asSelector" "\<lambda>_. True" exc_inv
  for asSelector
proof
  show "exc_inv NewExceptionCache"
    by (simp add: exc_inv_def cache_simps entries_def slice_at_def)
next
  fix c i
  assume "exc_inv c"
  then show "exc_inv (exc_step asSelector c i)"
    by (cases i) (simp_all add: exc_inv_Upsert cache_simps exc_inv_removeUnlocked exc_inv_ready)
qed

section \<open>\<open>ExemptedKeys\<close> searches all entries\<close>

text \<open>What an exception says of a policy, without the index: the reference definition.\<close>

definition exempts :: "exemptEntry \<Rightarrow> 'q CompiledPolicy \<Rightarrow> bool" where
  "exempts e p \<longleftrightarrow> ee_allPolicies e \<or> cp_Name p \<in> set (ee_policyRefs e) \<or>
     (\<exists>g \<in> set (cp_ReferencedBy p). g \<in> set (ee_policyGroupRefs e))"

definition in_scope :: "string \<Rightarrow> exemptEntry \<Rightarrow> bool" where
  "in_scope namespace e \<longleftrightarrow> ee_namespaces e = [] \<or> namespace \<in> set (ee_namespaces e)"

lemma exempt_policies_keys:
  "n \<in> fst ` set (fold (exempt_policy e) ps out) \<longleftrightarrow> n \<in> fst ` set out \<or>
    (\<exists>p \<in> set ps. cp_Name p = n \<and> (cp_Name p \<in> set (ee_policyRefs e) \<or>
      (\<exists>g \<in> set (cp_ReferencedBy p). g \<in> set (ee_policyGroupRefs e))))"
  by (induction ps arbitrary: out) (auto simp: exempt_policy_def list_ex_iff)

lemma exempt_all_keys:
  "n \<in> fst ` set (fold (\<lambda>p. AList.update (cp_Name p) True) ps out) \<longleftrightarrow>
    n \<in> fst ` set out \<or> (\<exists>p \<in> set ps. cp_Name p = n)"
  by (induction ps arbitrary: out) auto

lemma exempt_entry_keys:
  "n \<in> fst ` set (exempt_entry nsl resl ps e out) \<longleftrightarrow> n \<in> fst ` set out \<or>
    (\<exists>p \<in> set ps. cp_Name p = n \<and> entry_applies nsl resl e \<and> exempts e p)"
  unfolding exempt_entry_def exempts_def
  by (simp only: exempt_policies_keys exempt_all_keys split: if_split) blast

lemma exempt_entries_keys:
  "n \<in> fst ` set (fold (exempt_entry nsl resl ps) es out) \<longleftrightarrow> n \<in> fst ` set out \<or>
    (\<exists>p \<in> set ps. cp_Name p = n \<and> (\<exists>e \<in> set es. entry_applies nsl resl e \<and> exempts e p))"
proof (induction es arbitrary: out)
  case (Cons e es)
  then show ?case unfolding fold_Cons o_apply Cons.IH exempt_entry_keys by auto
qed simp

lemma all_true_update: "list_all snd out \<Longrightarrow> list_all snd (AList.update n True out)"
  by (induction out) auto

lemma all_true_policies: "list_all snd out \<Longrightarrow> list_all snd (fold (exempt_policy e) ps out)"
  by (induction ps arbitrary: out) (simp_all add: exempt_policy_def all_true_update)

lemma all_true_all:
  "list_all snd out \<Longrightarrow> list_all snd (fold (\<lambda>p. AList.update (cp_Name p) True) ps out)"
  by (induction ps arbitrary: out) (simp_all add: all_true_update)

lemma all_true_entries:
  "list_all snd out \<Longrightarrow> list_all snd (fold (exempt_entry nsl resl ps) es out)"
  by (induction es arbitrary: out) (simp_all add: exempt_entry_def all_true_policies all_true_all)

lemma ExemptedKeys_keys:
  assumes "exc_inv c"
  shows "n \<in> fst ` set (ExemptedKeys c namespace nsl resl ps) \<longleftrightarrow>
    (\<exists>p \<in> set ps. cp_Name p = n \<and>
      (\<exists>e \<in> entries c. in_scope namespace e \<and> entry_applies nsl resl e \<and> exempts e p))"
proof -
  have 1: "e \<in> set (xc_global c @ slice_at (xc_nsIndex c) namespace) \<longleftrightarrow>
      e \<in> entries c \<and> in_scope namespace e" for e
    using exc_invD(5,6) [OF assms] by (auto simp: in_scope_def)
  have 2: "ExemptedKeys c namespace nsl resl ps =
      fold (exempt_entry nsl resl ps) (xc_global c @ slice_at (xc_nsIndex c) namespace) []"
    by (auto simp: ExemptedKeys_def Let_def)
  show ?thesis unfolding 2 exempt_entries_keys Bex_def 1 by auto
qed

lemma ExemptedKeys_true: "list_all snd (ExemptedKeys c namespace nsl resl ps)"
  by (simp add: ExemptedKeys_def Let_def all_true_entries)

text \<open>The active exceptions after a sequence of operations: the last word on each name.\<close>

fun active_exceptions :: "exc_op list \<Rightarrow> string \<Rightarrow> PolicyException option" where
  "active_exceptions [] n = None"
| "active_exceptions (OpUpsert pex # ops) n =
    (if pex_Name pex = n
     then (if xst_Phase (pex_Status pex) = PhaseActive then Some pex else None)
     else active_exceptions ops n)"
| "active_exceptions (OpDelete m # ops) n = (if m = n then None else active_exceptions ops n)"
| "active_exceptions (OpExcReady # ops) n = active_exceptions ops n"

text \<open>
  What an exception resource says of a request. A selector that the library rejects is dropped by
  \<open>compile\<close> and so accepts everything.
\<close>

definition selector_accepts :: "as_selector \<Rightarrow> LabelSelector option \<Rightarrow> labels option \<Rightarrow> bool" where
  "selector_accepts asSelector ls l = (case compile_selector asSelector ls of
      None \<Rightarrow> True
    | Some sel \<Rightarrow> (case l of None \<Rightarrow> False | Some labels \<Rightarrow> sel labels))"

definition pex_exempts ::
  "as_selector \<Rightarrow> string \<Rightarrow> labels option \<Rightarrow> labels option \<Rightarrow> PolicyException \<Rightarrow> 'q CompiledPolicy \<Rightarrow> bool" where
  "pex_exempts asSelector namespace nsl resl pex p \<longleftrightarrow>
    (let s = pex_Spec pex; m = xs_Match s in
     (xm_Namespaces m = [] \<or> namespace \<in> set (xm_Namespaces m)) \<and>
     selector_accepts asSelector (xm_NamespaceSelector m) nsl \<and>
     selector_accepts asSelector (xm_ResourceSelector m) (Some (label_set resl)) \<and>
     (xs_AllPolicies s \<or> cp_Name p \<in> set (xs_PolicyRefs s) \<or>
      (\<exists>g \<in> set (cp_ReferencedBy p). g \<in> set (xs_PolicyGroupRefs s))))"

lemma compile_exempts:
  "in_scope namespace (compile asSelector ptr pex) \<and> entry_applies nsl resl (compile asSelector ptr pex) \<and>
     exempts (compile asSelector ptr pex) p \<longleftrightarrow> pex_exempts asSelector namespace nsl resl pex p"
  by (auto simp: in_scope_def entry_applies_def exempts_def compile_def pex_exempts_def Let_def
      selector_accepts_def split: option.splits)

lemma Upsert_all: "map_of (xc_all (ExceptionCache_Upsert asSelector pex c)) =
    (map_of (xc_all c))(pex_Name pex :=
      (if xst_Phase (pex_Status pex) = PhaseActive then Some (compile asSelector (xc_next c) pex) else None))"
  by (auto simp: ExceptionCache_Upsert_def cache_simps Let_def removeUnlocked_all)

lemma cached_active:
  "case active_exceptions (rev ops) n of
     None \<Rightarrow> map_of (xc_all (foldl (exc_step asSelector) NewExceptionCache ops)) n = None
   | Some pex \<Rightarrow> \<exists>ptr. map_of (xc_all (foldl (exc_step asSelector) NewExceptionCache ops)) n =
       Some (compile asSelector ptr pex)"
proof (induction ops rule: rev_induct)
  case (snoc op ops)
  then show ?case
    by (cases op) (auto simp: Upsert_all cache_simps removeUnlocked_all split: option.splits)
qed (simp add: cache_simps)

lemma cached_entries:
  "e \<in> entries (foldl (exc_step asSelector) NewExceptionCache ops) \<longleftrightarrow>
    (\<exists>n. map_of (xc_all (foldl (exc_step asSelector) NewExceptionCache ops)) n = Some e)"
  using exc_invD(1) [OF exception_cache.inv_run [of ops asSelector]]
  by (force simp: entries_def list_all_iff)

lemma cached_iff:
  "map_of (xc_all (foldl (exc_step asSelector) NewExceptionCache ops)) n = Some e \<longleftrightarrow>
    (\<exists>pex. active_exceptions (rev ops) n = Some pex \<and>
      map_of (xc_all (foldl (exc_step asSelector) NewExceptionCache ops)) n = Some e \<and>
      e = compile asSelector (ee_ptr e) pex)"
  using cached_active [where ops = ops and n = n and asSelector = asSelector]
  by (cases "active_exceptions (rev ops) n") auto

lemma cached_exempts:
  "(\<exists>e \<in> entries (foldl (exc_step asSelector) NewExceptionCache ops).
      in_scope namespace e \<and> entry_applies nsl resl e \<and> exempts e p) \<longleftrightarrow>
   (\<exists>n pex. active_exceptions (rev ops) n = Some pex \<and> pex_exempts asSelector namespace nsl resl pex p)"
  (is "?l \<longleftrightarrow> ?r")
proof
  assume ?l
  then obtain n e where "map_of (xc_all (foldl (exc_step asSelector) NewExceptionCache ops)) n = Some e"
    and ok: "in_scope namespace e \<and> entry_applies nsl resl e \<and> exempts e p"
    unfolding Bex_def cached_entries by blast
  then obtain pex where "active_exceptions (rev ops) n = Some pex" "e = compile asSelector (ee_ptr e) pex"
    using cached_iff by blast
  then show ?r using ok compile_exempts by metis
next
  assume ?r
  then obtain n pex where "active_exceptions (rev ops) n = Some pex"
    and ok: "pex_exempts asSelector namespace nsl resl pex p" by blast
  then obtain ptr where "map_of (xc_all (foldl (exc_step asSelector) NewExceptionCache ops)) n =
      Some (compile asSelector ptr pex)"
    using cached_active [where ops = ops and n = n and asSelector = asSelector] by auto
  then show ?l
    using ok compile_exempts [of namespace asSelector ptr pex nsl resl p] cached_entries by blast
qed

lemma reachable_exc_inv: "exc_inv (foldl (exc_step asSelector) NewExceptionCache ops)"
  by (rule exception_cache.inv_run) (simp add: list_all_iff)

section \<open>Properties\<close>

text \<open>C2: After any sequence of informer events, the policies exempted for a request are exactly
  those some currently active exception names (directly, through a group, or all), whose namespace
  list and selectors accept the request. An unresolved namespace (nil labels) is never exempted by
  an exception with a namespace selector. The namespace index never loses or resurrects an entry.\<close>

theorem ExemptedKeys_refines:
  "k \<in> fst ` set (ExemptedKeys (foldl (exc_step asSelector) NewExceptionCache ops) namespace nsl resl ps) \<longleftrightarrow>
    (\<exists>p \<in> set ps. cp_Name p = k \<and> (\<exists>n pex. active_exceptions (rev ops) n = Some pex \<and>
       pex_exempts asSelector namespace nsl resl pex p))"
  unfolding ExemptedKeys_keys [OF reachable_exc_inv] cached_exempts ..


section \<open>Witnesses\<close>

definition ex_pex :: "string \<Rightarrow> string list \<Rightarrow> LabelSelector option \<Rightarrow> PolicyException" where
  "ex_pex phase nss sel = \<lparr>pex_Meta = ex_meta ''waiver'' [],
     pex_Spec = \<lparr>xs_PolicyRefs = [''no-root''], xs_PolicyGroupRefs = [], xs_AllPolicies = False,
       xs_Match = \<lparr>xm_Namespaces = nss, xm_NamespaceSelector = sel, xm_ResourceSelector = None\<rparr>,
       xs_Duration = ''1h'', xs_RetainAfterExpiry = [], xs_Reason = ''migration''\<rparr>,
     pex_Status = \<lparr>xst_Phase = phase, xst_Message = [], xst_EffectiveAt = Some 0,
       xst_ExpiresAt = Some 3600, xst_ObservedGeneration = 1\<rparr>\<rparr>"

definition ex_exc_ops :: "exc_op list" where
  "ex_exc_ops = [OpUpsert (ex_pex ''Active'' [''web'', ''api''] None),
     OpUpsert (ex_pex ''Active'' [''web''] None), OpExcReady]"

theorem ExemptedKeys_refines_witness:
  "''no-root'' \<in> fst ` set (ExemptedKeys (foldl (exc_step ex_asSelector) NewExceptionCache ex_exc_ops)
      ''web'' None None [ex_cpolicy ''no-root'', ex_cpolicy ''limits'']) \<and>
   ExemptedKeys (foldl (exc_step ex_asSelector) NewExceptionCache ex_exc_ops)
      ''api'' None None [ex_cpolicy ''no-root''] = []"
proof
  show "''no-root'' \<in> fst ` set (ExemptedKeys (foldl (exc_step ex_asSelector) NewExceptionCache ex_exc_ops)
      ''web'' None None [ex_cpolicy ''no-root'', ex_cpolicy ''limits''])"
    unfolding ExemptedKeys_refines
    by (rule bexI [of _ "ex_cpolicy ''no-root''"],
        intro conjI exI [of _ "''waiver''"] exI [of _ "ex_pex ''Active'' [''web''] None"]) code_simp+
  show "ExemptedKeys (foldl (exc_step ex_asSelector) NewExceptionCache ex_exc_ops)
      ''api'' None None [ex_cpolicy ''no-root''] = []"
    by code_simp
qed

definition ex_bad_selector :: LabelSelector where
  "ex_bad_selector = \<lparr>ls_MatchLabels = [], ls_MatchExpressions =
     [\<lparr>rq_Key = ''env'', rq_Operator = ''Equals'', rq_Values = [''dev'']\<rparr>]\<rparr>"

definition ex_bad_pex :: PolicyException where
  "ex_bad_pex = (let p = ex_pex ''Active'' [] (Some ex_bad_selector)
     in p\<lparr>pex_Spec := (pex_Spec p)\<lparr>xs_AllPolicies := True\<rparr>\<rparr>)"


end
