(* ===== verification/Namespace_Cache.thy ===== *)
theory Namespace_Cache
  imports Api_Types
begin

text \<open>
  The webhook's cache of namespace labels, \<^verbatim>\<open>internal/webhook/namespace_cache.go\<close>. A lookup may
  ask the API server (the installed fetcher) and remembers the answer, so it returns the new cache.
  The labels a lookup resolves are a fresh map, never nil.

  The contract the admission handler relies on is the locale \<open>namespace_lister\<close>; it is interpreted
  on this cache here and on the handler's stand-in \<open>noNamespaceLister\<close> in \<open>Admission_Handler\<close>.
\<close>

section \<open>Data and operations\<close>

type_synonym namespace_fetcher = "string \<Rightarrow> string + labels option"

record NamespaceCache =
  nc_store :: "labels smap"
  nc_ready :: bool
  nc_fetcher :: "namespace_fetcher option"

definition NewNamespaceCache :: NamespaceCache where
  "NewNamespaceCache = \<lparr>nc_store = [], nc_ready = False, nc_fetcher = None\<rparr>"

definition SetFetcher :: "namespace_fetcher \<Rightarrow> NamespaceCache \<Rightarrow> NamespaceCache" where
  "SetFetcher f c = c\<lparr>nc_fetcher := Some f\<rparr>"

text \<open>A namespace object is its name and its labels; \<open>None\<close> is the nil pointer.\<close>

definition NamespaceCache_Upsert :: "(string \<times> labels option) option \<Rightarrow> NamespaceCache \<Rightarrow> NamespaceCache" where
  "NamespaceCache_Upsert ns c = (case ns of
      None \<Rightarrow> c
    | Some (name, labels) \<Rightarrow> c\<lparr>nc_store := AList.update name (label_set labels) (nc_store c)\<rparr>)"

definition NamespaceCache_Delete :: "string \<Rightarrow> NamespaceCache \<Rightarrow> NamespaceCache" where
  "NamespaceCache_Delete name c = c\<lparr>nc_store := AList.delete name (nc_store c)\<rparr>"

definition GetLabels :: "NamespaceCache \<Rightarrow> string \<Rightarrow> (labels option \<times> bool) \<times> NamespaceCache" where
  "GetLabels c name = (case map_of (nc_store c) name of
      Some labels \<Rightarrow> ((Some labels, True), c)
    | None \<Rightarrow> (case nc_fetcher c of
        None \<Rightarrow> ((None, False), c)
      | Some fetcher \<Rightarrow> (case fetcher name of
          Inl err \<Rightarrow> ((None, False), c)
        | Inr labels \<Rightarrow>
            (let out = label_set labels
             in ((Some out, True), c\<lparr>nc_store := AList.update name out (nc_store c)\<rparr>)))))"

definition NamespaceCache_SetReady :: "NamespaceCache \<Rightarrow> NamespaceCache" where
  "NamespaceCache_SetReady c = c\<lparr>nc_ready := True\<rparr>"

definition NamespaceCache_IsReady :: "NamespaceCache \<Rightarrow> bool" where
  "NamespaceCache_IsReady c = nc_ready c"

section \<open>The contract\<close>

text \<open>
  What the handler relies on: an unresolved name comes with nil labels, and a resolved answer is
  stable until somebody else changes the cache.
\<close>

locale namespace_lister =
  fixes get :: "'n \<Rightarrow> string \<Rightarrow> (labels option \<times> bool) \<times> 'n"
  assumes unresolved_nil: "get c n = ((l, False), c') \<Longrightarrow> l = None"
    and resolved_stable: "get c n = ((l, True), c') \<Longrightarrow> get c' n = ((l, True), c')"
begin

lemma lookup_idempotent: "snd (fst (get c n)) \<Longrightarrow> fst (get (snd (get c n)) n) = fst (get c n)"
  using resolved_stable [of c n "fst (fst (get c n))" "snd (get c n)"] by (cases "get c n") auto

end

lemma GetLabels_branches:
  "map_of (nc_store c) n = Some l \<Longrightarrow> GetLabels c n = ((Some l, True), c)"
  "map_of (nc_store c) n = None \<Longrightarrow> nc_fetcher c = None \<Longrightarrow> GetLabels c n = ((None, False), c)"
  "map_of (nc_store c) n = None \<Longrightarrow> nc_fetcher c = Some f \<Longrightarrow> f n = Inl err \<Longrightarrow>
     GetLabels c n = ((None, False), c)"
  "map_of (nc_store c) n = None \<Longrightarrow> nc_fetcher c = Some f \<Longrightarrow> f n = Inr r \<Longrightarrow>
     GetLabels c n = ((Some (label_set r), True), c\<lparr>nc_store := AList.update n (label_set r) (nc_store c)\<rparr>)"
  by (simp_all add: GetLabels_def Let_def)

lemma GetLabels_cases:
  obtains (hit) l where "map_of (nc_store c) n = Some l" "GetLabels c n = ((Some l, True), c)"
  | (miss) "map_of (nc_store c) n = None" "GetLabels c n = ((None, False), c)"
      "\<And>f r. nc_fetcher c = Some f \<Longrightarrow> f n \<noteq> Inr r"
  | (fetched) f r where "map_of (nc_store c) n = None" "nc_fetcher c = Some f" "f n = Inr r"
      "GetLabels c n = ((Some (label_set r), True), c\<lparr>nc_store := AList.update n (label_set r) (nc_store c)\<rparr>)"
proof (cases "map_of (nc_store c) n")
  case None
  note n = this
  show ?thesis
  proof (cases "nc_fetcher c")
    case None
    then show ?thesis using n GetLabels_branches(2) miss by simp
  next
    case (Some f)
    show ?thesis
    proof (cases "f n")
      case (Inl err)
      show ?thesis
        by (rule miss) (use n Some Inl GetLabels_branches(3) in auto)
    next
      case (Inr r)
      show ?thesis
        by (rule fetched [of f r]) (use n Some Inr GetLabels_branches(4) in auto)
    qed
  qed
qed (use GetLabels_branches(1) hit in blast)

interpretation ns_cache: namespace_lister GetLabels
proof
  fix c n l c'
  show "GetLabels c n = ((l, False), c') \<Longrightarrow> l = None"
    by (cases rule: GetLabels_cases [of c n]) auto
  show "GetLabels c n = ((l, True), c') \<Longrightarrow> GetLabels c' n = ((l, True), c')"
    by (cases rule: GetLabels_cases [of c n]) (auto intro!: GetLabels_branches(1))
qed

section \<open>Properties\<close>


text \<open>A namespace lookup resolves exactly when the name is cached or the installed fetcher
  finds it; the labels are then non-nil and the next lookup of the name is answered from the cache
  with the same labels, whatever the fetcher would say; other names are untouched, and an
  unresolved lookup returns nil labels and changes nothing.\<close>

theorem GetLabels_contract:
  assumes "GetLabels c n = ((l, ok), c')"
  shows "(ok \<longleftrightarrow> map_of (nc_store c) n \<noteq> None \<or> (\<exists>f r. nc_fetcher c = Some f \<and> f n = Inr r)) \<and>
    (ok \<longrightarrow> l \<noteq> None \<and> (\<forall>f. GetLabels (c'\<lparr>nc_fetcher := f\<rparr>) n = ((l, True), c'\<lparr>nc_fetcher := f\<rparr>))) \<and>
    (\<not> ok \<longrightarrow> l = None \<and> c' = c) \<and>
    (\<forall>m. m \<noteq> n \<longrightarrow> map_of (nc_store c') m = map_of (nc_store c) m)"
proof (cases rule: GetLabels_cases [of c n])
  case (fetched f r)
  then show ?thesis using assms by (auto intro!: GetLabels_branches(1))
qed (use assms in \<open>auto intro!: GetLabels_branches(1)\<close>)

section \<open>Witnesses\<close>

definition ex_fetcher :: namespace_fetcher where
  "ex_fetcher n = (if n = ''web'' then Inr None else Inl ''not found'')"

theorem GetLabels_contract_witness:
  "\<exists>c'. GetLabels (SetFetcher ex_fetcher NewNamespaceCache) ''web'' = ((Some [], True), c') \<and>
     GetLabels (c'\<lparr>nc_fetcher := None\<rparr>) ''web'' = ((Some [], True), c'\<lparr>nc_fetcher := None\<rparr>)"
proof -
  obtain c' where c': "GetLabels (SetFetcher ex_fetcher NewNamespaceCache) ''web'' = ((Some [], True), c')"
    by (simp add: GetLabels_def SetFetcher_def NewNamespaceCache_def ex_fetcher_def Let_def)
  then show ?thesis using GetLabels_contract [OF c'] by blast
qed

end
