(* ===== verification/Admission_Handler.thy ===== *)
theory Admission_Handler
  imports Exception_Cache Namespace_Cache
begin

text \<open>
  The admission handler, \<^verbatim>\<open>internal/webhook/handler.go\<close> and \<^verbatim>\<open>evaluator.go\<close>: from a request body
  to the response. The handler sees its three stores through interfaces; each interface is a record
  of operations here, and the laws the handler needs are the locales \<open>policy_store\<close> and
  \<open>exception_store\<close>, interpreted on the caches.

  What the code does not contain is a parameter: the decoding of the request and of the object's
  JSON (\<open>decode\<close>, \<open>unmarshalLabels\<close>, \<open>unmarshalAny\<close>), the evaluation of a compiled Rego
  query (\<open>eval\<close>), and the order \<open>sched\<close> in which the evaluation goroutines append their
  results, any permutation of the resolved policies.
\<close>

section \<open>Requests and responses\<close>

record AdmissionRequest =
  rq_UID :: string
  rq_Group :: string
  rq_Version :: string
  rq_Resource :: string
  rq_Name :: string
  rq_Namespace :: string
  rq_Operation :: string
  rq_Username :: string
  rq_UserGroups :: "string list"
  rq_ObjectRaw :: string

record AdmissionResponse =
  rp_UID :: string
  rp_Allowed :: bool
  rp_Result :: "(int \<times> string) option"
  rp_Warnings :: "string list"

record 'j RegoInput =
  in_uid :: string
  in_namespace :: string
  in_operation :: string
  in_group :: string
  in_version :: string
  in_resource :: string
  in_object :: "'j option"
  in_userInfo :: "string \<times> string list"

datatype rego_value = RString string | RArray "rego_value list" | ROther

text \<open>A result set: for each result the values of its expressions.\<close>

type_synonym rego_results = "rego_value list list"
type_synonym ('q, 'j) rego_eval = "'q \<Rightarrow> 'j RegoInput \<Rightarrow> string + rego_results"

section \<open>Interfaces\<close>

record 'q PolicyStore =
  st_MatchingForRequest :: "string \<Rightarrow> string \<Rightarrow> string \<Rightarrow> string \<Rightarrow> labels option \<Rightarrow> 'q Resolved list"
  st_IsReady :: bool

record 'q ExceptionStore =
  es_ExemptedKeys :: "string \<Rightarrow> labels option \<Rightarrow> labels option \<Rightarrow> 'q CompiledPolicy list \<Rightarrow> bool smap"
  es_IsReady :: bool

type_synonym 'n NamespaceLister = "'n \<Rightarrow> string \<Rightarrow> (labels option \<times> bool) \<times> 'n"

definition noExemptions :: "'q ExceptionStore" where
  "noExemptions = \<lparr>es_ExemptedKeys = (\<lambda>_ _ _ _. []), es_IsReady = True\<rparr>"

definition noNamespaceLister :: "'n NamespaceLister" where
  "noNamespaceLister c name = ((None, False), c)"

definition PolicyCache_store :: "'q PolicyCache \<Rightarrow> 'q PolicyStore" where
  "PolicyCache_store c = \<lparr>st_MatchingForRequest = MatchingForRequest c, st_IsReady = PolicyCache_IsReady c\<rparr>"

definition ExceptionCache_store :: "ExceptionCache \<Rightarrow> 'q ExceptionStore" where
  "ExceptionCache_store c = \<lparr>es_ExemptedKeys = ExemptedKeys c, es_IsReady = ExceptionCache_IsReady c\<rparr>"

record ('q, 'n) Handler =
  h_store :: "'q PolicyStore"
  h_exceptions :: "'q ExceptionStore"
  h_nsLister :: "'n NamespaceLister"
  h_reporter :: bool

definition NewHandler :: "'q PolicyStore \<Rightarrow> ('q, 'n) Handler" where
  "NewHandler store = \<lparr>h_store = store, h_exceptions = noExemptions, h_nsLister = noNamespaceLister,
     h_reporter = False\<rparr>"

definition NewHandlerWithExceptions ::
  "'q PolicyStore \<Rightarrow> 'q ExceptionStore option \<Rightarrow> 'n NamespaceLister option \<Rightarrow> ('q, 'n) Handler" where
  "NewHandlerWithExceptions store exceptions nsLister =
    \<lparr>h_store = store,
     h_exceptions = (case exceptions of None \<Rightarrow> noExemptions | Some e \<Rightarrow> e),
     h_nsLister = (case nsLister of None \<Rightarrow> noNamespaceLister | Some l \<Rightarrow> l),
     h_reporter = False\<rparr>"

definition SetAdmissionEventReporter :: "('q, 'n) Handler \<Rightarrow> ('q, 'n) Handler" where
  "SetAdmissionEventReporter h = h\<lparr>h_reporter := True\<rparr>"

section \<open>Evaluation\<close>

fun deny_messages :: "rego_value list \<Rightarrow> string list" where
  "deny_messages [] = []"
| "deny_messages (RString msg # vs) = msg # deny_messages vs"
| "deny_messages (_ # vs) = deny_messages vs"

definition EvaluatePolicy :: "('q, 'j) rego_eval \<Rightarrow> 'q \<Rightarrow> 'j RegoInput \<Rightarrow> string + string list" where
  "EvaluatePolicy eval q input = (case eval q input of
      Inl err \<Rightarrow> Inl (''opa eval: '' @ err)
    | Inr rs \<Rightarrow> (case rs of
        [] \<Rightarrow> Inr []
      | expressions # _ \<Rightarrow> (case expressions of
          [] \<Rightarrow> Inr []
        | v # _ \<Rightarrow> (case v of RArray raw \<Rightarrow> Inr (deny_messages raw) | _ \<Rightarrow> Inr []))))"

definition description_prefix :: string where
  "description_prefix = [CHR 0x0A, CHR 0x20, CHR 0x20, CHR 0xE6, CHR 0x8F, CHR 0x8F,
     CHR 0xE8, CHR 0xBF, CHR 0xB0, CHR 0xEF, CHR 0xBC, CHR 0x9A]"

definition formatViolation :: "'q Resolved \<Rightarrow> string \<Rightarrow> string" where
  "formatViolation r msg =
    (let via = (if length (rs_Groups r) > 0 then '' via '' @ Join (rs_Groups r) '','' else []);
         s = ''['' @ cp_Name (rs_Policy r) @ via @ ''] '' @ msg
     in if cp_Description (rs_Policy r) \<noteq> []
        then s @ description_prefix @ cp_Description (rs_Policy r) else s)"

definition buildInput :: "(string \<Rightarrow> 'j option) \<Rightarrow> AdmissionRequest \<Rightarrow> 'j RegoInput" where
  "buildInput unmarshalAny req =
    \<lparr>in_uid = rq_UID req, in_namespace = rq_Namespace req, in_operation = rq_Operation req,
     in_group = rq_Group req, in_version = rq_Version req, in_resource = rq_Resource req,
     in_object = (if length (rq_ObjectRaw req) > 0 then unmarshalAny (rq_ObjectRaw req) else None),
     in_userInfo = (rq_Username req, rq_UserGroups req)\<rparr>"

definition extractObjectLabels :: "(string \<Rightarrow> labels option option) \<Rightarrow> AdmissionRequest \<Rightarrow> labels option" where
  "extractObjectLabels unmarshalLabels req =
    (if length (rq_ObjectRaw req) = 0 then None
     else case unmarshalLabels (rq_ObjectRaw req) of None \<Rightarrow> None | Some l \<Rightarrow> l)"

text \<open>The two result slices the goroutines append to, enforce first.\<close>

type_synonym 'q eval_results = "('q Resolved \<times> string list) list"

definition eval_one ::
  "('q, 'j) rego_eval \<Rightarrow> 'j RegoInput \<Rightarrow> 'q Resolved \<Rightarrow> 'q eval_results \<times> 'q eval_results
     \<Rightarrow> 'q eval_results \<times> 'q eval_results" where
  "eval_one eval input r st = (case st of (enforceResults, auditResults) \<Rightarrow>
    (case EvaluatePolicy eval (cp_Query (rs_Policy r)) input of
      Inl err \<Rightarrow> if rs_Mode r = ModeEnforce
        then (enforceResults @ [(r, [''policy evaluation error: '' @ cp_Name (rs_Policy r)])], auditResults)
        else st
    | Inr msgs \<Rightarrow> if length msgs = 0 then st
        else if rs_Mode r = ModeAudit then (enforceResults, auditResults @ [(r, msgs)])
        else (enforceResults @ [(r, msgs)], auditResults)))"

definition violation_parts :: "'q eval_results \<Rightarrow> string list" where
  "violation_parts results = concat (map (\<lambda>(r, msgs). map (formatViolation r) msgs) results)"

definition evaluate ::
  "('q Resolved list \<Rightarrow> 'q Resolved list) \<Rightarrow> ('q, 'j) rego_eval \<Rightarrow> (string \<Rightarrow> 'j option) \<Rightarrow>
     AdmissionRequest \<Rightarrow> 'q Resolved list \<Rightarrow> AdmissionResponse" where
  "evaluate sched eval unmarshalAny req resolved =
    (let allow = \<lparr>rp_UID = rq_UID req, rp_Allowed = True, rp_Result = None, rp_Warnings = []\<rparr> in
     if length resolved = 0 then allow
     else let input = buildInput unmarshalAny req;
              (enforceResults, auditResults) = fold (eval_one eval input) (sched resolved) ([], [])
          in if length enforceResults > 0
             then allow\<lparr>rp_Allowed := False, rp_Result := Some (403,
               Join (violation_parts enforceResults @ violation_parts auditResults) [CHR 0x0A, CHR 0x0A])\<rparr>
             else if length auditResults > 0
             then allow\<lparr>rp_Warnings := violation_parts auditResults\<rparr>
             else allow)"

section \<open>The HTTP handler\<close>

datatype http_reply = HttpError int string | HttpReview AdmissionResponse

text \<open>Decoding a body gives no review, or a review whose request may be absent.\<close>

type_synonym review_decoder = "string \<Rightarrow> AdmissionRequest option option"

definition namespace_labels ::
  "'n NamespaceLister \<Rightarrow> 'n \<Rightarrow> AdmissionRequest \<Rightarrow> labels option \<times> 'n" where
  "namespace_labels getLabels ns req =
    (if rq_Namespace req \<noteq> '''' then
       (case getLabels ns (rq_Namespace req) of ((l, ok), ns') \<Rightarrow>
         if ok then (Some (label_set l), ns') else (None, ns'))
     else (Some [], ns))"

definition remove_exempt ::
  "'q ExceptionStore \<Rightarrow> string \<Rightarrow> labels option \<Rightarrow> labels option \<Rightarrow> 'q Resolved list \<Rightarrow> 'q Resolved list" where
  "remove_exempt exceptions namespace nsLabels objLabels resolved =
    (let exempt = es_ExemptedKeys exceptions namespace nsLabels objLabels (map rs_Policy resolved)
     in if length exempt > 0
        then filter (\<lambda>r. map_of exempt (cp_Name (rs_Policy r)) \<noteq> Some True) resolved
        else resolved)"

definition resolve_request ::
  "('q, 'n) Handler \<Rightarrow> (string \<Rightarrow> labels option option) \<Rightarrow> AdmissionRequest \<Rightarrow> labels option \<Rightarrow> 'q Resolved list" where
  "resolve_request h unmarshalLabels req nsLabels =
    (let resolved = st_MatchingForRequest (h_store h) (rq_Resource req) (rq_Group req) (rq_Operation req)
           (rq_Namespace req) nsLabels
     in if length resolved > 0
        then remove_exempt (h_exceptions h) (rq_Namespace req) nsLabels
               (extractObjectLabels unmarshalLabels req) resolved
        else resolved)"

text \<open>The reply, the event handed to the reporter if there is one, and the lister's new state.\<close>

definition ServeHTTP ::
  "('q, 'n) Handler \<Rightarrow> review_decoder \<Rightarrow> (string \<Rightarrow> labels option option) \<Rightarrow> (string \<Rightarrow> 'j option) \<Rightarrow>
     ('q, 'j) rego_eval \<Rightarrow> ('q Resolved list \<Rightarrow> 'q Resolved list) \<Rightarrow> 'n \<Rightarrow> string \<Rightarrow>
     http_reply \<times> (AdmissionRequest \<times> AdmissionResponse) option \<times> 'n" where
  "ServeHTTP h decode unmarshalLabels unmarshalAny eval sched ns body =
    (if \<not> st_IsReady (h_store h) \<or> \<not> es_IsReady (h_exceptions h)
     then (HttpError 503 ''cache not ready'', None, ns)
     else case decode body of
       None \<Rightarrow> (HttpError 400 ''invalid request body'', None, ns)
     | Some None \<Rightarrow> (HttpError 400 ''missing admission request'', None, ns)
     | Some (Some req) \<Rightarrow>
         (let (nsLabels, ns') = namespace_labels (h_nsLister h) ns req;
              resp = evaluate sched eval unmarshalAny req (resolve_request h unmarshalLabels req nsLabels)
          in (HttpReview resp, if h_reporter h then Some (req, resp) else None, ns')))"

section \<open>The outcome of one evaluation\<close>

definition enforce_result ::
  "('q, 'j) rego_eval \<Rightarrow> 'j RegoInput \<Rightarrow> 'q Resolved \<Rightarrow> ('q Resolved \<times> string list) option" where
  "enforce_result eval input r = (case EvaluatePolicy eval (cp_Query (rs_Policy r)) input of
      Inl _ \<Rightarrow> if rs_Mode r = ModeEnforce
        then Some (r, [''policy evaluation error: '' @ cp_Name (rs_Policy r)]) else None
    | Inr msgs \<Rightarrow> if msgs \<noteq> [] \<and> rs_Mode r \<noteq> ModeAudit then Some (r, msgs) else None)"

definition audit_result ::
  "('q, 'j) rego_eval \<Rightarrow> 'j RegoInput \<Rightarrow> 'q Resolved \<Rightarrow> ('q Resolved \<times> string list) option" where
  "audit_result eval input r = (case EvaluatePolicy eval (cp_Query (rs_Policy r)) input of
      Inl _ \<Rightarrow> None
    | Inr msgs \<Rightarrow> if msgs \<noteq> [] \<and> rs_Mode r = ModeAudit then Some (r, msgs) else None)"

definition blocks :: "('q, 'j) rego_eval \<Rightarrow> 'j RegoInput \<Rightarrow> 'q Resolved \<Rightarrow> bool" where
  "blocks eval input r \<longleftrightarrow> (case EvaluatePolicy eval (cp_Query (rs_Policy r)) input of
      Inl _ \<Rightarrow> rs_Mode r = ModeEnforce
    | Inr msgs \<Rightarrow> msgs \<noteq> [] \<and> rs_Mode r \<noteq> ModeAudit)"

lemma enforce_result_blocks: "enforce_result eval input r \<noteq> None \<longleftrightarrow> blocks eval input r"
  by (auto simp: enforce_result_def blocks_def split: sum.splits)

lemma eval_one_results:
  "eval_one eval input r (E, A) =
    (E @ (case enforce_result eval input r of None \<Rightarrow> [] | Some x \<Rightarrow> [x]),
     A @ (case audit_result eval input r of None \<Rightarrow> [] | Some x \<Rightarrow> [x]))"
  by (auto simp: eval_one_def enforce_result_def audit_result_def split: sum.splits)

lemma eval_all:
  "fold (eval_one eval input) rs (E, A) =
    (E @ List.map_filter (enforce_result eval input) rs, A @ List.map_filter (audit_result eval input) rs)"
  by (induction rs arbitrary: E A)
    (auto simp: eval_one_results map_filter_simps split: option.splits)

text \<open>A schedule is a permutation of the goroutines.\<close>

definition schedule :: "('q Resolved list \<Rightarrow> 'q Resolved list) \<Rightarrow> bool" where
  "schedule sched \<longleftrightarrow> (\<forall>rs. mset (sched rs) = mset rs)"

lemma schedule_set: "schedule sched \<Longrightarrow> set (sched rs) = set rs"
  by (metis schedule_def mset_eq_setD)

lemma map_filter_empty_iff: "List.map_filter f xs = [] \<longleftrightarrow> (\<forall>x \<in> set xs. f x = None)"
  by (induction xs) (auto simp: map_filter_simps split: option.splits)

lemma evaluate_eq:
  "evaluate sched eval unmarshalAny req rs =
    (let input = buildInput unmarshalAny req;
         E = List.map_filter (enforce_result eval input) (sched rs);
         A = List.map_filter (audit_result eval input) (sched rs);
         allow = \<lparr>rp_UID = rq_UID req, rp_Allowed = True, rp_Result = None, rp_Warnings = []\<rparr>
     in if rs = [] then allow
        else if E \<noteq> [] then allow\<lparr>rp_Allowed := False, rp_Result := Some (403,
          Join (violation_parts E @ violation_parts A) [CHR 0x0A, CHR 0x0A])\<rparr>
        else if A \<noteq> [] then allow\<lparr>rp_Warnings := violation_parts A\<rparr>
        else allow)"
  by (simp add: evaluate_def eval_all Let_def)

lemma evaluate_denies_iff:
  assumes "schedule sched"
  shows "\<not> rp_Allowed (evaluate sched eval unmarshalAny req rs) \<longleftrightarrow>
    (\<exists>r \<in> set rs. blocks eval (buildInput unmarshalAny req) r)"
proof -
  have "List.map_filter (enforce_result eval (buildInput unmarshalAny req)) (sched rs) \<noteq> [] \<longleftrightarrow>
      (\<exists>r \<in> set rs. blocks eval (buildInput unmarshalAny req) r)"
    unfolding map_filter_empty_iff schedule_set [OF assms]
    using enforce_result_blocks [of eval "buildInput unmarshalAny req"] by blast
  then show ?thesis by (auto simp: evaluate_eq Let_def)
qed

lemma evaluate_UID [simp]: "rp_UID (evaluate sched eval unmarshalAny req rs) = rq_UID req"
  by (simp add: evaluate_eq Let_def)

section \<open>The contracts of the stores\<close>

text \<open>
  The handler needs of its policy store that a request resolves to each policy name once, and of
  its exception store that exemptions are decided policy by policy. Then filtering by name removes
  exactly the exempted policies.
\<close>

locale policy_store =
  fixes matching :: "'s \<Rightarrow> string \<Rightarrow> string \<Rightarrow> string \<Rightarrow> string \<Rightarrow> labels option \<Rightarrow> 'q Resolved list"
    and store_inv :: "'s \<Rightarrow> bool"
  assumes matching_distinct:
    "store_inv s \<Longrightarrow> distinct (map (cp_Name \<circ> rs_Policy) (matching s resource apiGroup operation namespace nsl))"
begin

lemma matching_name_inj:
  assumes "store_inv s" "r \<in> set (matching s resource apiGroup operation namespace nsl)"
    "r' \<in> set (matching s resource apiGroup operation namespace nsl)"
    "cp_Name (rs_Policy r) = cp_Name (rs_Policy r')"
  shows "r = r'"
  using matching_distinct [OF assms(1), of resource apiGroup operation namespace nsl] assms(2-4)
  unfolding distinct_map inj_on_def comp_def by blast

end

locale exception_store =
  fixes exempted :: "'e \<Rightarrow> string \<Rightarrow> labels option \<Rightarrow> labels option \<Rightarrow> 'q CompiledPolicy list \<Rightarrow> bool smap"
    and exc_store_inv :: "'e \<Rightarrow> bool"
  assumes exempted_true: "list_all snd (exempted e namespace nsl resl ps)"
    and exempted_pointwise: "exc_store_inv e \<Longrightarrow> k \<in> fst ` set (exempted e namespace nsl resl ps) \<longleftrightarrow>
      (\<exists>p \<in> set ps. cp_Name p = k \<and> cp_Name p \<in> fst ` set (exempted e namespace nsl resl [p]))"
begin

definition exempt :: "'e \<Rightarrow> string \<Rightarrow> labels option \<Rightarrow> labels option \<Rightarrow> 'q CompiledPolicy \<Rightarrow> bool" where
  "exempt e namespace nsl resl p \<longleftrightarrow> cp_Name p \<in> fst ` set (exempted e namespace nsl resl [p])"

lemma exempted_lookup:
  "map_of (exempted e namespace nsl resl ps) k = Some True \<longleftrightarrow> k \<in> fst ` set (exempted e namespace nsl resl ps)"
  by (rule map_of_all_true [OF exempted_true])

end

locale admission = policy_store matching store_inv + exception_store exempted exc_store_inv
  for matching :: "'s \<Rightarrow> string \<Rightarrow> string \<Rightarrow> string \<Rightarrow> string \<Rightarrow> labels option \<Rightarrow> 'q Resolved list"
    and store_inv :: "'s \<Rightarrow> bool"
    and exempted :: "'e \<Rightarrow> string \<Rightarrow> labels option \<Rightarrow> labels option \<Rightarrow> 'q CompiledPolicy list \<Rightarrow> bool smap"
    and exc_store_inv :: "'e \<Rightarrow> bool"
begin

lemma remaining_iff:
  assumes "store_inv s" and "exc_store_inv e"
  shows "r \<in> set (remove_exempt \<lparr>es_ExemptedKeys = exempted e, es_IsReady = b\<rparr> namespace nsl resl
      (matching s resource apiGroup operation namespace nsl)) \<longleftrightarrow>
    r \<in> set (matching s resource apiGroup operation namespace nsl) \<and> \<not> exempt e namespace nsl resl (rs_Policy r)"
proof -
  let ?rs = "matching s resource apiGroup operation namespace nsl"
  have keys: "cp_Name (rs_Policy r) \<in> fst ` set (exempted e namespace nsl resl (map rs_Policy ?rs)) \<longleftrightarrow>
      exempt e namespace nsl resl (rs_Policy r)" if r: "r \<in> set ?rs" for r
  proof -
    have "cp_Name (rs_Policy r) \<in> fst ` set (exempted e namespace nsl resl (map rs_Policy ?rs)) \<longleftrightarrow>
        (\<exists>r' \<in> set ?rs. cp_Name (rs_Policy r') = cp_Name (rs_Policy r) \<and>
          exempt e namespace nsl resl (rs_Policy r'))"
      unfolding exempted_pointwise [OF assms(2), of _ _ _ _ "map rs_Policy ?rs"] exempt_def
      by (simp only: set_map bex_simps)
    then show ?thesis using matching_name_inj [OF assms(1) r] r by metis
  qed
  have "r \<in> set (remove_exempt \<lparr>es_ExemptedKeys = exempted e, es_IsReady = b\<rparr> namespace nsl resl ?rs) \<longleftrightarrow>
      r \<in> set ?rs \<and> cp_Name (rs_Policy r) \<notin> fst ` set (exempted e namespace nsl resl (map rs_Policy ?rs))"
    by (simp add: remove_exempt_def Let_def exempted_lookup)
  then show ?thesis using keys [of r] by blast
qed

lemma verdict_iff:
  assumes "store_inv s" and "exc_store_inv e" and "schedule sched"
    and h: "st_MatchingForRequest (h_store h) = matching s" "es_ExemptedKeys (h_exceptions h) = exempted e"
  shows "\<not> rp_Allowed (evaluate sched eval unmarshalAny req (resolve_request h unmarshalLabels req nsl)) \<longleftrightarrow>
    (\<exists>r \<in> set (matching s (rq_Resource req) (rq_Group req) (rq_Operation req) (rq_Namespace req) nsl).
       \<not> exempt e (rq_Namespace req) nsl (extractObjectLabels unmarshalLabels req) (rs_Policy r) \<and>
       blocks eval (buildInput unmarshalAny req) r)"
proof -
  have "h_exceptions h = \<lparr>es_ExemptedKeys = exempted e, es_IsReady = es_IsReady (h_exceptions h)\<rparr>"
    using h(2) by (cases "h_exceptions h") simp
  then have "r \<in> set (resolve_request h unmarshalLabels req nsl) \<longleftrightarrow>
      r \<in> set (matching s (rq_Resource req) (rq_Group req) (rq_Operation req) (rq_Namespace req) nsl) \<and>
      \<not> exempt e (rq_Namespace req) nsl (extractObjectLabels unmarshalLabels req) (rs_Policy r)" for r
    using remaining_iff [OF assms(1,2), of r "es_IsReady (h_exceptions h)" "rq_Namespace req" nsl
        "extractObjectLabels unmarshalLabels req" "rq_Resource req" "rq_Group req" "rq_Operation req"]
    by (simp add: resolve_request_def Let_def h(1))
  then show ?thesis unfolding evaluate_denies_iff [OF assms(3)] by blast
qed

end

section \<open>The caches keep the contracts\<close>

interpretation webhook: admission MatchingForRequest cache_inv ExemptedKeys exc_inv
  by unfold_locales (auto simp: Matching_distinct ExemptedKeys_true ExemptedKeys_keys)

interpretation no_exceptions: exception_store "\<lambda>_::unit. es_ExemptedKeys noExemptions" "\<lambda>_. True"
  by unfold_locales (simp_all add: noExemptions_def)

interpretation no_lister: namespace_lister noNamespaceLister
  by unfold_locales (simp_all add: noNamespaceLister_def)

lemma webhook_exempt_iff:
  "webhook.exempt (foldl (exc_step asSelector) NewExceptionCache xops) namespace nsl resl p \<longleftrightarrow>
    (\<exists>m pex. active_exceptions (rev xops) m = Some pex \<and> pex_exempts asSelector namespace nsl resl pex p)"
  unfolding webhook.exempt_def ExemptedKeys_keys [OF reachable_exc_inv] cached_exempts by simp

lemma bex_Matching_iff:
  assumes "cache_inv c"
  shows "(\<exists>r \<in> set (MatchingForRequest c resource apiGroup operation namespace nsl). P r) \<longleftrightarrow>
    (\<exists>n r. resolved_spec c resource apiGroup operation nsl n = Some r \<and> P r)"
proof -
  have "resolved_spec c resource apiGroup operation nsl (cp_Name (rs_Policy r)) = Some r"
    if "resolved_spec c resource apiGroup operation nsl n = Some r" for n r
    using cache_policy_name [OF assms resolved_spec_Some(1) [OF that]] that by simp
  then show ?thesis unfolding Bex_def in_Matching_iff [OF assms] by blast
qed

text \<open>The handler the webhook's main program builds: its caches after some informer events.\<close>

definition webhook_handler ::
  "'q cache_op list \<Rightarrow> as_selector \<Rightarrow> exc_op list \<Rightarrow> 'n NamespaceLister \<Rightarrow> ('q, 'n) Handler" where
  "webhook_handler pops asSelector xops lister = SetAdmissionEventReporter (NewHandlerWithExceptions
     (PolicyCache_store (foldl cache_step NewPolicyCache pops))
     (Some (ExceptionCache_store (foldl (exc_step asSelector) NewExceptionCache xops))) (Some lister))"

lemma webhook_handler_simps [simp]:
  "st_MatchingForRequest (h_store (webhook_handler pops asSelector xops lister)) =
     MatchingForRequest (foldl cache_step NewPolicyCache pops)"
  "es_ExemptedKeys (h_exceptions (webhook_handler pops asSelector xops lister)) =
     ExemptedKeys (foldl (exc_step asSelector) NewExceptionCache xops)"
  "st_IsReady (h_store (webhook_handler pops asSelector xops lister)) =
     pc_ready (foldl cache_step NewPolicyCache pops)"
  "es_IsReady (h_exceptions (webhook_handler pops asSelector xops lister)) =
     xc_ready (foldl (exc_step asSelector) NewExceptionCache xops)"
  "h_nsLister (webhook_handler pops asSelector xops lister) = lister"
  "h_reporter (webhook_handler pops asSelector xops lister)"
  by (simp_all add: webhook_handler_def SetAdmissionEventReporter_def NewHandlerWithExceptions_def
      PolicyCache_store_def ExceptionCache_store_def cache_simps)

lemma webhook_verdict_iff:
  assumes "list_all cache_op_ok pops" and "schedule sched"
  shows "\<not> rp_Allowed (evaluate sched eval unmarshalAny req
      (resolve_request (webhook_handler pops asSelector xops lister) unmarshalLabels req nsl)) \<longleftrightarrow>
    (\<exists>n r. resolved_spec (foldl cache_step NewPolicyCache pops) (rq_Resource req) (rq_Group req)
             (rq_Operation req) nsl n = Some r \<and>
       \<not> (\<exists>m pex. active_exceptions (rev xops) m = Some pex \<and>
            pex_exempts asSelector (rq_Namespace req) nsl (extractObjectLabels unmarshalLabels req) pex (rs_Policy r)) \<and>
       blocks eval (buildInput unmarshalAny req) r)"
proof -
  note inv = policy_cache.inv_run [OF assms(1)]
  show ?thesis
    unfolding webhook.verdict_iff [OF inv reachable_exc_inv assms(2) webhook_handler_simps(1,2)]
      bex_Matching_iff [OF inv] webhook_exempt_iff ..
qed

lemma ServeHTTP_review:
  assumes "st_IsReady (h_store h)" "es_IsReady (h_exceptions h)" "decode body = Some (Some req)"
    and "namespace_labels (h_nsLister h) ns req = (nsl, ns')"
  shows "ServeHTTP h decode unmarshalLabels unmarshalAny eval sched ns body =
    (let resp = evaluate sched eval unmarshalAny req (resolve_request h unmarshalLabels req nsl)
     in (HttpReview resp, if h_reporter h then Some (req, resp) else None, ns'))"
  using assms by (simp add: ServeHTTP_def Let_def)

section \<open>Properties\<close>

text \<open>C1: The admission verdict, from informer events to response. With both caches ready and a
  decodable request, the webhook answers with the request's UID, hands exactly that response to the
  event reporter, and denies exactly when some policy that the enabled, applicable groups resolve
  for this request, and that no active exception exempts, blocks: its query fails to evaluate in
  mode enforce, or reports violations in a mode other than audit. The order in which the goroutines
  finish and the maps are iterated does not matter.\<close>

theorem webhook_verdict:
  assumes "list_all cache_op_ok pops" and "schedule sched"
    and "pc_ready (foldl cache_step NewPolicyCache pops)"
    and "xc_ready (foldl (exc_step asSelector) NewExceptionCache xops)"
    and "decode body = Some (Some req)" and "namespace_labels lister ns req = (nsl, ns')"
  shows "\<exists>resp. ServeHTTP (webhook_handler pops asSelector xops lister) decode unmarshalLabels unmarshalAny
           eval sched ns body = (HttpReview resp, Some (req, resp), ns') \<and>
    rp_UID resp = rq_UID req \<and>
    (\<not> rp_Allowed resp \<longleftrightarrow>
      (\<exists>n r. resolved_spec (foldl cache_step NewPolicyCache pops) (rq_Resource req) (rq_Group req)
               (rq_Operation req) nsl n = Some r \<and>
         \<not> (\<exists>m pex. active_exceptions (rev xops) m = Some pex \<and>
              pex_exempts asSelector (rq_Namespace req) nsl (extractObjectLabels unmarshalLabels req) pex (rs_Policy r)) \<and>
         blocks eval (buildInput unmarshalAny req) r))"
  using assms(3-6) webhook_verdict_iff [OF assms(1,2)]
  by (simp add: ServeHTTP_review Let_def)

text \<open>Policies that are only audited never deny: if every group lists every member in mode audit,
  every decodable request is allowed, even when queries fail or report violations.\<close>

theorem audit_never_denies:
  assumes "list_all cache_op_ok pops" and "schedule sched"
    and "pc_ready (foldl cache_step NewPolicyCache pops)"
    and "xc_ready (foldl (exc_step asSelector) NewExceptionCache xops)"
    and "decode body = Some (Some req)"
    and "\<forall>g \<in> snd ` set (pc_groups (foldl cache_step NewPolicyCache pops)).
           \<forall>mode \<in> snd ` set (cg_Members g). mode = ModeAudit"
  shows "\<exists>resp ns'. ServeHTTP (webhook_handler pops asSelector xops lister) decode unmarshalLabels unmarshalAny
           eval sched ns body = (HttpReview resp, Some (req, resp), ns') \<and> rp_Allowed resp"
proof -
  obtain nsl ns' where ns: "namespace_labels lister ns req = (nsl, ns')" by (cases "namespace_labels lister ns req")
  have "rs_Mode r = ModeAudit"
    if "resolved_spec (foldl cache_step NewPolicyCache pops) (rq_Resource req) (rq_Group req)
          (rq_Operation req) nsl n = Some r" for n r
  proof -
    let ?ms = "map snd (contributions nsl (foldl cache_step NewPolicyCache pops) n)"
    have "set ?ms \<subseteq> {ModeAudit}"
      using assms(6) by (force simp: contributions_mem dest: map_of_in_set)
    moreover have "?ms \<noteq> []" using resolved_spec_Some(3) [OF that] by simp
    ultimately have "combine_modes ?ms = ModeAudit"
      by (cases ?ms) (auto simp: combine_modes_eq)
    then show ?thesis using resolved_spec_Some(4) [OF that] by simp
  qed
  then have "rp_Allowed (evaluate sched eval unmarshalAny req
      (resolve_request (webhook_handler pops asSelector xops lister) unmarshalLabels req nsl))"
    using webhook_verdict_iff [OF assms(1,2), where req = req and nsl = nsl]
    by (fastforce simp: blocks_def split: sum.splits)
  then show ?thesis using assms(3-5) ns by (simp add: ServeHTTP_review Let_def)
qed

text \<open>A handler whose caches have not synced answers 503, a body that does not decode 400; in
  neither case is an event reported or a namespace looked up, and these are the only error replies.\<close>

theorem ServeHTTP_errors:
  "(\<not> (st_IsReady (h_store h) \<and> es_IsReady (h_exceptions h)) \<longrightarrow>
      ServeHTTP h decode unmarshalLabels unmarshalAny eval sched ns body = (HttpError 503 ''cache not ready'', None, ns)) \<and>
   (st_IsReady (h_store h) \<and> es_IsReady (h_exceptions h) \<longrightarrow>
     (decode body = None \<longrightarrow> ServeHTTP h decode unmarshalLabels unmarshalAny eval sched ns body =
        (HttpError 400 ''invalid request body'', None, ns)) \<and>
     (decode body = Some None \<longrightarrow> ServeHTTP h decode unmarshalLabels unmarshalAny eval sched ns body =
        (HttpError 400 ''missing admission request'', None, ns)) \<and>
     (\<forall>req. decode body = Some (Some req) \<longrightarrow> (\<exists>resp. fst (ServeHTTP h decode unmarshalLabels unmarshalAny
        eval sched ns body) = HttpReview resp \<and> rp_UID resp = rq_UID req)))"
  by (auto simp: ServeHTTP_def Let_def split: prod.split)

text \<open>The order in which the evaluation goroutines finish can only permute the reported
  violations: verdict, status code and the multiset of warnings are the same for all schedules.\<close>

theorem schedule_irrelevant:
  assumes "schedule sched" and "schedule sched'"
  shows "rp_Allowed (evaluate sched eval unmarshalAny req rs) = rp_Allowed (evaluate sched' eval unmarshalAny req rs) \<and>
    map_option fst (rp_Result (evaluate sched eval unmarshalAny req rs)) =
      map_option fst (rp_Result (evaluate sched' eval unmarshalAny req rs)) \<and>
    mset (rp_Warnings (evaluate sched eval unmarshalAny req rs)) =
      mset (rp_Warnings (evaluate sched' eval unmarshalAny req rs))"
proof -
  have eq: "mset (sched rs) = mset (sched' rs)" using assms by (simp add: schedule_def)
  have E: "mset (List.map_filter f (sched rs)) = mset (List.map_filter f (sched' rs))"
    for f :: "'a Resolved \<Rightarrow> ('a Resolved \<times> string list) option"
    unfolding mset_map_filter eq ..
  have parts: "mset (violation_parts xs) = mset (violation_parts ys)" if "mset xs = mset ys"
    for xs ys :: "'a eval_results"
  proof -
    have "mset (map (\<lambda>(r, msgs). map (formatViolation r) msgs) xs) =
        mset (map (\<lambda>(r, msgs). map (formatViolation r) msgs) ys)"
      using that by simp
    then show ?thesis unfolding violation_parts_def by (rule mset_concat_cong)
  qed
  have "List.map_filter f (sched rs) = [] \<longleftrightarrow> List.map_filter f (sched' rs) = []"
    for f :: "'a Resolved \<Rightarrow> ('a Resolved \<times> string list) option"
    using E [of f] by (metis mset_zero_iff)
  then show ?thesis using parts [OF E] by (simp add: evaluate_eq Let_def)
qed

section \<open>Witnesses\<close>

definition ex_req :: AdmissionRequest where
  "ex_req = \<lparr>rq_UID = ''u1'', rq_Group = '''', rq_Version = ''v1'', rq_Resource = ''pods'', rq_Name = ''nginx'',
     rq_Namespace = ''web'', rq_Operation = ''CREATE'', rq_Username = ''dev'', rq_UserGroups = [],
     rq_ObjectRaw = ''{}''\<rparr>"

definition ex_decode :: review_decoder where
  "ex_decode body = (if body = ''review'' then Some (Some ex_req) else if body = ''{}'' then Some None else None)"

definition ex_eval :: "(nat, unit) rego_eval" where
  "ex_eval q input = (if q = 7 then Inr [[RArray [RString ''runs as root'', ROther]]] else Inl ''timeout'')"

definition ex_lister :: "NamespaceCache NamespaceLister" where
  "ex_lister = GetLabels"

definition ex_ns :: NamespaceCache where
  "ex_ns = NamespaceCache_Upsert (Some (''web'', Some [(''env'', ''prod'')])) NewNamespaceCache"

definition ex_exc_ready :: "exc_op list" where
  "ex_exc_ready = [OpUpsert (ex_pex ''Active'' [''api''] None), OpExcReady]"

definition ex_handler :: "(nat, NamespaceCache) Handler" where
  "ex_handler = webhook_handler ex_ops ex_asSelector ex_exc_ready ex_lister"

definition ex_serve :: "string \<Rightarrow> http_reply \<times> (AdmissionRequest \<times> AdmissionResponse) option \<times> NamespaceCache" where
  "ex_serve body = ServeHTTP ex_handler ex_decode (\<lambda>_. Some None) (\<lambda>_. Some ()) ex_eval rev ex_ns body"

lemma schedule_rev: "schedule rev"
  by (simp add: schedule_def)

lemma ex_ready:
  "pc_ready (foldl cache_step NewPolicyCache ex_ops)"
  "xc_ready (foldl (exc_step ex_asSelector) NewExceptionCache ex_exc_ready)"
  "ex_decode ''review'' = Some (Some ex_req)"
  "namespace_labels ex_lister ex_ns ex_req = (Some [(''env'', ''prod'')], ex_ns)"
  by (code_simp, code_simp, code_simp,
      simp add: namespace_labels_def ex_lister_def ex_ns_def ex_req_def GetLabels_def NamespaceCache_Upsert_def)

theorem webhook_verdict_witness:
  "\<exists>resp. ex_serve ''review'' = (HttpReview resp, Some (ex_req, resp), ex_ns) \<and> \<not> rp_Allowed resp \<and>
     (\<exists>r. resolved_spec ex_cache ''pods'' '''' ''CREATE'' (Some [(''env'', ''prod'')]) ''no-root'' = Some r \<and>
        rs_Mode r = ''enforce'' \<and> rs_Groups r = [''base'', ''prod''])"
proof -
  have "map_option (\<lambda>r. (rs_Mode r, rs_Groups r))
      (resolved_spec ex_cache ''pods'' '''' ''CREATE'' (Some [(''env'', ''prod'')]) ''no-root'') =
      Some (''enforce'', [''base'', ''prod''])"
    by code_simp
  moreover have "case fst (ex_serve ''review'') of HttpError _ _ \<Rightarrow> False | HttpReview resp \<Rightarrow> \<not> rp_Allowed resp"
    by code_simp
  ultimately show ?thesis
    using webhook_verdict [where decode = ex_decode and body = "''review''", OF ex_ops_ok schedule_rev ex_ready,
        of "\<lambda>_. Some None" "\<lambda>_. Some ()" ex_eval]
    by (auto simp: ex_handler_def ex_serve_def)
qed

definition ex_audit_ops :: "nat cache_op list" where
  "ex_audit_ops = [OpSetPolicy ''no-root'' (ex_cpolicy ''no-root''),
     OpSetGroup ''base'' (ex_cgroup ''base'' None [(''no-root'', ''audit'')]), OpSetReady]"

theorem audit_never_denies_witness:
  "\<exists>resp ns'. ServeHTTP (webhook_handler ex_audit_ops ex_asSelector ex_exc_ready ex_lister) ex_decode
      (\<lambda>_. Some None) (\<lambda>_. Some ()) ex_eval rev ex_ns ''review'' = (HttpReview resp, Some (ex_req, resp), ns') \<and>
    rp_Allowed resp"
proof (rule audit_never_denies [where decode = ex_decode and body = "''review''", OF _ schedule_rev _ ex_ready(2,3)])
  show "list_all cache_op_ok ex_audit_ops" by (simp add: ex_audit_ops_def ex_cache_defs)
  show "pc_ready (foldl cache_step NewPolicyCache ex_audit_ops)" by code_simp
  show "\<forall>g \<in> snd ` set (pc_groups (foldl cache_step NewPolicyCache ex_audit_ops)).
      \<forall>mode \<in> snd ` set (cg_Members g). mode = ModeAudit"
    by (simp add: ex_audit_ops_def ex_cache_defs cache_simps ModeAudit_def)
qed

theorem ServeHTTP_errors_witness:
  "ex_serve ''garbage'' = (HttpError 400 ''invalid request body'', None, ex_ns) \<and>
   ServeHTTP (webhook_handler ([] :: nat cache_op list) ex_asSelector [] ex_lister) ex_decode (\<lambda>_. Some None) (\<lambda>_. Some ())
     ex_eval rev ex_ns ''review'' = (HttpError 503 ''cache not ready'', None, ex_ns)"
proof
  show "ex_serve ''garbage'' = (HttpError 400 ''invalid request body'', None, ex_ns)"
    using ServeHTTP_errors [of ex_handler ex_decode "\<lambda>_. Some None" "\<lambda>_. Some ()" ex_eval rev ex_ns "''garbage''"]
      ex_ready(1,2) by (simp add: ex_serve_def ex_handler_def ex_decode_def)
  show "ServeHTTP (webhook_handler ([] :: nat cache_op list) ex_asSelector [] ex_lister) ex_decode (\<lambda>_. Some None)
      (\<lambda>_. Some ()) ex_eval rev ex_ns ''review'' = (HttpError 503 ''cache not ready'', None, ex_ns)"
    by (rule ServeHTTP_errors [THEN conjunct1, THEN mp]) (simp add: NewPolicyCache_def)
qed

theorem schedule_irrelevant_witness:
  "rp_Allowed (evaluate rev ex_eval (\<lambda>_. Some ()) ex_req (ex_matching None)) =
   rp_Allowed (evaluate id ex_eval (\<lambda>_. Some ()) ex_req (ex_matching None))"
  using schedule_irrelevant [OF schedule_rev, of id ex_eval "\<lambda>_. Some ()" ex_req "ex_matching None"]
  by (simp add: schedule_def)

text \<open>
  A failed namespace lookup does not amount to evaluating no rules: a group without a namespace
  selector still applies, and here denies.
\<close>

definition ex_enforce_ops :: "nat cache_op list" where
  "ex_enforce_ops = [OpSetPolicy ''no-root'' (ex_cpolicy ''no-root''),
     OpSetGroup ''base'' (ex_cgroup ''base'' None [(''no-root'', ''enforce'')]), OpSetReady]"

lemma lookup_failure_still_denies:
  "fst (namespace_labels ex_lister NewNamespaceCache ex_req) = None \<and>
   \<not> rp_Allowed (evaluate id ex_eval (\<lambda>_. Some ()) ex_req
     (resolve_request (webhook_handler ex_enforce_ops ex_asSelector [] ex_lister) (\<lambda>_. Some None) ex_req None))"
  by code_simp

end
