(* ===== verification/Event_References.thy ===== *)
theory Event_References
  imports Admission_Handler
begin

text \<open>
  The references an admission event carries, \<^verbatim>\<open>AdmissionEventReferences\<close> of
  \<^verbatim>\<open>internal/webhook/admission_events.go\<close>: the policy and group names are read back from the text
  that \<open>formatViolation\<close> wrote. The round trip holds for Kubernetes object names and for messages
  and descriptions none of whose lines starts with a bracket; the last lemma shows why the second
  condition is needed.
\<close>

section \<open>Parsing\<close>

text \<open>
  \<open>add\<close> of the source: the set of seen values always holds the values of the list, so membership
  in the list decides.
\<close>

definition add_ref :: "string \<Rightarrow> string list \<Rightarrow> string list" where
  "add_ref value vs = (let value = TrimSpace value in
     if value = [] then vs else if value \<in> set vs then vs else vs @ [value])"

definition parse_line :: "string \<Rightarrow> string list \<times> string list \<Rightarrow> string list \<times> string list" where
  "parse_line line st = (case st of (policies, groups) \<Rightarrow>
    (let line = TrimSpace line in
     if \<not> HasPrefix line ''['' then st
     else case Index line '']'' of
       None \<Rightarrow> st
     | Some end \<Rightarrow>
         if end \<le> 1 then st
         else (case Cut (take (end - 1) (drop 1 line)) '' via '' of (policy, rawGroups, hasGroups) \<Rightarrow>
           (add_ref policy policies,
            if \<not> hasGroups then groups else fold add_ref (Split rawGroups (CHR '','')) groups))))"

definition parse_violation :: "string \<Rightarrow> string list \<times> string list \<Rightarrow> string list \<times> string list" where
  "parse_violation violation st = fold parse_line (Split violation (CHR 0x0A)) st"

definition AdmissionEventReferences :: "string list \<Rightarrow> string list \<times> string list" where
  "AdmissionEventReferences violations = fold parse_violation violations ([], [])"

section \<open>Trimming a line that starts with a bracket\<close>

definition in_space :: "char \<Rightarrow> bool" where
  "in_space c \<longleftrightarrow> c \<in> set (concat space_encodings)"

lemma not_in_space_suffix:
  assumes "e \<in> set space_encodings" "HasSuffix (a @ [c] @ b) e" "\<not> in_space c"
  shows "length e \<le> length b"
proof (rule ccontr)
  assume "\<not> length e \<le> length b"
  then have len: "length (rev b) < length (rev e)" by simp
  have "take (length e) (rev b @ [c] @ rev a) = rev e"
    using assms(2) by (simp add: HasSuffix_def HasPrefix_def)
  then have "rev e ! length b = (rev b @ [c] @ rev a) ! length b"
    using len by (metis length_rev nth_take)
  then have "c \<in> set e"
    using len by (metis append_Cons length_rev nth_append_length nth_mem set_rev)
  then show False using assms(1,3) by (auto simp: in_space_def)
qed

lemma space_len_end_bound:
  assumes "\<not> in_space c"
  shows "space_len_end (a @ [c] @ b) \<le> length b"
proof (cases "filter (HasSuffix (a @ [c] @ b)) space_encodings")
  case (Cons e es)
  then have "e \<in> set (filter (HasSuffix (a @ [c] @ b)) space_encodings)" by simp
  then have "e \<in> set space_encodings" "HasSuffix (a @ [c] @ b) e" by simp_all
  then show ?thesis using not_in_space_suffix [OF _ _ assms] Cons by (simp add: space_len_end_def)
qed (simp add: space_len_end_def)

lemma trim_right_keeps:
  assumes "\<not> in_space c"
  shows "\<exists>n. trim_right (a @ [c] @ b) = a @ [c] @ take n b"
proof (induction b rule: measure_induct_rule [where f = length])
  case (less b)
  let ?k = "space_len_end (a @ [c] @ b)"
  show ?case
  proof (cases "?k = 0")
    case True
    then show ?thesis by (intro exI [of _ "length b"]) simp
  next
    case False
    have k: "?k \<le> length b" by (rule space_len_end_bound [OF assms])
    then have t: "take (length (a @ [c] @ b) - ?k) (a @ [c] @ b) = a @ [c] @ take (length b - ?k) b"
      by (simp add: Suc_diff_le)
    have "length (take (length b - ?k) b) < length b" using False k by simp
    from less [OF this] obtain n where
      "trim_right (a @ [c] @ take (length b - ?k) b) = a @ [c] @ take n (take (length b - ?k) b)" by blast
    then have "trim_right (a @ [c] @ b) = a @ [c] @ take (min n (length b - ?k)) b"
      using False t by (simp add: trim_right.simps [of "a @ c # b"] take_take)
    then show ?thesis by blast
  qed
qed

lemma TrimSpace_bracket:
  assumes "\<not> space_byte (hd (a @ [c]))" and "\<not> in_space c"
  shows "\<exists>n. TrimSpace (a @ [c] @ b) = a @ [c] @ take n b"
proof -
  have "space_len (a @ [c] @ b) = 0"
    using assms(1) by (intro space_len_hd) (auto simp: hd_append)
  then show ?thesis unfolding TrimSpace_def using trim_right_keeps [OF assms(2)] by simp
qed

section \<open>Lines that carry no reference\<close>

text \<open>A line is quiet when, trimmed, it does not start with a bracket.\<close>

definition quiet_line :: "string \<Rightarrow> bool" where
  "quiet_line line \<longleftrightarrow> \<not> HasPrefix (TrimSpace line) ''[''"

definition quiet :: "string \<Rightarrow> bool" where
  "quiet s \<longleftrightarrow> (\<forall>line \<in> set (Split s (CHR 0x0A)). quiet_line line)"

lemma parse_quiet_line: "quiet_line line \<Longrightarrow> parse_line line st = st"
  by (simp add: parse_line_def quiet_line_def Let_def split: prod.split)

lemma parse_quiet_lines: "\<forall>line \<in> set ls. quiet_line line \<Longrightarrow> fold parse_line ls st = st"
  by (induction ls arbitrary: st) (simp_all add: parse_quiet_line)

lemma quiet_empty_line: "quiet_line []"
  by (simp add: quiet_line_def TrimSpace_def HasPrefix_def)

text \<open>Joining the parts of a denial with blank lines does not change the references.\<close>

lemma Split_Join_blank:
  assumes "parts \<noteq> []"
  shows "fold parse_line (Split (Join parts [CHR 0x0A, CHR 0x0A]) (CHR 0x0A)) st = fold parse_violation parts st"
  using assms
proof (induction parts arbitrary: st rule: induct_list012)
  case (3 x y ys)
  have "Split (Join (x # y # ys) [CHR 0x0A, CHR 0x0A]) (CHR 0x0A) =
      Split x (CHR 0x0A) @ [] # Split (Join (y # ys) [CHR 0x0A, CHR 0x0A]) (CHR 0x0A)"
    using Split_append_gen [of x "CHR 0x0A" "CHR 0x0A # Join (y # ys) [CHR 0x0A, CHR 0x0A]"] by simp
  then show ?case
    using 3(2) by (simp add: parse_violation_def parse_quiet_line [OF quiet_empty_line])
qed (simp_all add: parse_violation_def)

lemma references_joined:
  "AdmissionEventReferences [Join parts [CHR 0x0A, CHR 0x0A]] = AdmissionEventReferences parts"
proof (cases "parts = []")
  case True
  then show ?thesis
    by (simp add: AdmissionEventReferences_def parse_violation_def parse_quiet_line [OF quiet_empty_line])
next
  case False
  then show ?thesis
    using Split_Join_blank [OF False] by (simp add: AdmissionEventReferences_def parse_violation_def)
qed

section \<open>The header line\<close>

text \<open>The alphabet of Kubernetes object names.\<close>

definition name_char :: "char \<Rightarrow> bool" where
  "name_char c \<longleftrightarrow> c \<in> set ''abcdefghijklmnopqrstuvwxyz0123456789-.''"

definition object_name :: "string \<Rightarrow> bool" where
  "object_name s \<longleftrightarrow> s \<noteq> [] \<and> list_all name_char s"

lemma name_char_excludes:
  "name_char c \<Longrightarrow> c \<noteq> CHR 0x0A \<and> c \<noteq> CHR '']'' \<and> c \<noteq> CHR '','' \<and> c \<noteq> CHR '' '' \<and> \<not> space_byte c"
  by (auto simp: name_char_def space_byte_def space_encodings_def)

lemma object_name_chars:
  assumes "object_name s"
  shows "CHR 0x0A \<notin> set s" "CHR '']'' \<notin> set s" "CHR '','' \<notin> set s" "CHR '' '' \<notin> set s" "TrimSpace s = s"
proof -
  have "\<forall>c \<in> set s. name_char c" using assms by (simp add: object_name_def list_all_iff)
  then show "CHR 0x0A \<notin> set s" "CHR '']'' \<notin> set s" "CHR '','' \<notin> set s" "CHR '' '' \<notin> set s"
    using name_char_excludes by blast+
  have "s \<noteq> []" using assms by (simp add: object_name_def)
  then show "TrimSpace s = s"
    using \<open>\<forall>c \<in> set s. name_char c\<close> name_char_excludes
    by (intro TrimSpace_clean) (auto simp: clean_ends_def)
qed

definition add_names :: "string list \<Rightarrow> string list \<Rightarrow> string list" where
  "add_names ns vs = fold (\<lambda>n vs. if n \<in> set vs then vs else vs @ [n]) ns vs"

lemma add_ref_name: "object_name n \<Longrightarrow> add_ref n vs = add_names [n] vs"
  by (simp add: add_ref_def Let_def object_name_chars(5) add_names_def object_name_def)

lemma add_refs_names: "list_all object_name ns \<Longrightarrow> fold add_ref ns vs = add_names ns vs"
  by (induction ns arbitrary: vs) (simp_all add: add_ref_name add_names_def)

definition via_text :: "string list \<Rightarrow> string" where
  "via_text groups = (if length groups > 0 then '' via '' @ Join groups '','' else [])"

lemma Join_chars: "set (Join xs sep) \<subseteq> \<Union> (set ` set xs) \<union> set sep"
  by (induction xs sep rule: Join.induct) auto

lemma via_text_chars:
  assumes "list_all object_name groups" and "c \<in> set (via_text groups)"
  shows "c \<noteq> CHR 0x0A \<and> c \<noteq> CHR '']''"
proof -
  have "\<forall>g \<in> set groups. CHR 0x0A \<notin> set g \<and> CHR '']'' \<notin> set g"
    using assms(1) object_name_chars by (auto simp: list_all_iff)
  then show ?thesis
    using assms(2) Join_chars [of groups "'',''"] by (auto simp: via_text_def split: if_splits)
qed

lemma Cut_header:
  assumes "object_name name"
  shows "Cut (name @ via_text groups) '' via '' = (name, Join groups '','', groups \<noteq> [])"
proof (cases "groups = []")
  case True
  have "Index (name @ []) '' via '' = None"
    using Index_append [of "'' via ''" name "[]"] object_name_chars(4) [OF assms] by simp
  then show ?thesis using True by (simp add: via_text_def Cut_def)
next
  case False
  have "Index (name @ '' via '' @ Join groups '','') '' via '' = Some (length name)"
    using Index_append [of "'' via ''" name "'' via '' @ Join groups '',''"]
      object_name_chars(4) [OF assms]
    by (simp add: HasPrefix_def)
  then show ?thesis using False by (simp add: via_text_def Cut_def)
qed

lemma parse_header:
  assumes "object_name name" and "list_all object_name groups"
  shows "parse_line (''['' @ name @ via_text groups @ '']'' @ rest) (ps, gs) =
    (add_names [name] ps, add_names groups gs)"
proof -
  let ?h = "''['' @ name @ via_text groups"
  obtain n where trim: "TrimSpace (?h @ [CHR '']''] @ rest) = ?h @ [CHR '']''] @ take n rest"
    using TrimSpace_bracket [of ?h "CHR '']''" rest]
    by (auto simp: space_byte_def in_space_def space_encodings_def)
  have "CHR '']'' \<notin> set ?h"
    using object_name_chars(2) [OF assms(1)] via_text_chars [OF assms(2)] by auto
  then have idx: "Index (?h @ [CHR '']''] @ take n rest) '']'' = Some (length ?h)"
    using Index_append [of "'']''" ?h "'']'' @ take n rest"] Index_hit [OF HasPrefix_append, of "'']''"]
    by simp
  have "name \<noteq> []" using assms(1) by (simp add: object_name_def)
  moreover have "Split (Join groups '','') (CHR '','') = groups" if "groups \<noteq> []"
    using that assms(2) object_name_chars(3) by (intro Split_Join) (auto simp: list_all_iff)
  ultimately show ?thesis
    using trim idx Cut_header [OF assms(1), of groups] assms
    by (cases "groups = []")
      (simp_all add: parse_line_def Let_def HasPrefix_def add_ref_name add_refs_names, simp add: add_names_def)
qed

section \<open>A formatted violation\<close>

text \<open>The lines of a text after its first are quiet.\<close>

definition quiet_tail :: "string \<Rightarrow> bool" where
  "quiet_tail s \<longleftrightarrow> (\<forall>line \<in> set (tl (Split s (CHR 0x0A))). quiet_line line)"

lemma Split_prepend: "c \<notin> set a \<Longrightarrow> Split (a @ s) c = (a @ hd (Split s c)) # tl (Split s c)"
  by (induction a) (auto simp: neq_Nil_conv split: list.split)

lemma quiet_tail_append_line:
  assumes "quiet_tail a" and "quiet b"
  shows "quiet_tail (a @ CHR 0x0A # b)"
  using assms by (auto simp: quiet_tail_def quiet_def Split_append_gen)

lemma quiet_description:
  assumes "quiet_tail d"
  shows "quiet (drop 1 description_prefix @ d)"
proof -
  have l: "Split (drop 1 description_prefix @ d) (CHR 0x0A) =
      (drop 1 description_prefix @ hd (Split d (CHR 0x0A))) # tl (Split d (CHR 0x0A))"
    by (rule Split_prepend) (simp add: description_prefix_def)
  have "quiet_line (drop 1 description_prefix @ t)" for t
  proof -
    let ?t = "[CHR 0x8F, CHR 0x8F, CHR 0xE8, CHR 0xBF, CHR 0xB0, CHR 0xEF, CHR 0xBC, CHR 0x9A] @ t"
    have "space_len (CHR 0x20 # s) = 1" for s
      by (simp add: space_len_def space_encodings_def HasPrefix_def)
    then have "trim_left (drop 1 description_prefix @ t) = trim_left ([CHR 0xE6] @ ?t)"
      by (simp add: description_prefix_def trim_left.simps [of "CHR 0x20 # _"])
    also have "\<dots> = [CHR 0xE6] @ ?t"
      by (intro trim_left_id space_len_hd) (simp_all add: space_byte_def space_encodings_def)
    finally have "trim_left (drop 1 description_prefix @ t) = [] @ [CHR 0xE6] @ ?t" by simp
    then obtain n where "TrimSpace (drop 1 description_prefix @ t) = [CHR 0xE6] @ take n ?t"
      unfolding TrimSpace_def
      using trim_right_keeps [of "CHR 0xE6" "[]" ?t] by (auto simp: in_space_def space_encodings_def)
    then show ?thesis by (simp add: quiet_line_def HasPrefix_def)
  qed
  then show ?thesis using assms unfolding quiet_def l by (simp add: quiet_tail_def)
qed

definition referable :: "'q Resolved \<Rightarrow> bool" where
  "referable r \<longleftrightarrow> object_name (cp_Name (rs_Policy r)) \<and> list_all object_name (rs_Groups r) \<and>
     quiet_tail (cp_Description (rs_Policy r))"

lemma formatViolation_text:
  "formatViolation r msg = (''['' @ cp_Name (rs_Policy r) @ via_text (rs_Groups r) @ '']'') @ CHR '' '' # msg @
     (if cp_Description (rs_Policy r) = [] then [] else description_prefix @ cp_Description (rs_Policy r))"
  by (simp add: formatViolation_def via_text_def Let_def)

lemma parse_formatViolation:
  assumes "referable r" and "quiet_tail msg"
  shows "parse_violation (formatViolation r msg) (ps, gs) =
    (add_names [cp_Name (rs_Policy r)] ps, add_names (rs_Groups r) gs)"
proof -
  let ?h = "''['' @ cp_Name (rs_Policy r) @ via_text (rs_Groups r) @ '']''"
  let ?d = "if cp_Description (rs_Policy r) = [] then [] else description_prefix @ cp_Description (rs_Policy r)"
  have names: "object_name (cp_Name (rs_Policy r))" "list_all object_name (rs_Groups r)"
    using assms(1) by (simp_all add: referable_def)
  have "quiet_tail (msg @ ?d)"
  proof (cases "cp_Description (rs_Policy r) = []")
    case False
    have eq: "msg @ ?d = msg @ CHR 0x0A # (drop 1 description_prefix @ cp_Description (rs_Policy r))"
      by (simp add: False description_prefix_def)
    show ?thesis
      unfolding eq
      by (rule quiet_tail_append_line [OF assms(2) quiet_description]) (use assms(1) in \<open>simp add: referable_def\<close>)
  qed (use assms(2) in simp)
  then have "\<forall>line \<in> set (tl (Split (CHR '' '' # msg @ ?d) (CHR 0x0A))). quiet_line line"
    using Split_prepend [of "CHR 0x0A" "'' ''" "msg @ ?d"] by (simp add: quiet_tail_def)
  note tail = parse_quiet_lines [OF this]
  have "CHR 0x0A \<notin> set ?h"
    using object_name_chars(1) [OF names(1)] via_text_chars [OF names(2)] by auto
  note lines = Split_prepend [OF this, of "CHR '' '' # msg @ ?d"]
  have head: "parse_line (?h @ rest) (ps, gs) = (add_names [cp_Name (rs_Policy r)] ps, add_names (rs_Groups r) gs)"
    for rest using parse_header [OF names, of rest ps gs] by (simp only: append_assoc)
  show ?thesis
    unfolding formatViolation_text parse_violation_def lines
    by (simp only: fold_Cons o_apply head tail)
qed

lemma add_names_snoc: "add_names (ms @ ns) vs = add_names ns (add_names ms vs)"
  by (simp add: add_names_def)

lemma parse_all:
  assumes "\<forall>(r, msg) \<in> set xs. referable r \<and> quiet_tail msg"
  shows "fold parse_violation (map (\<lambda>(r, msg). formatViolation r msg) xs) (ps, gs) =
    (add_names (map (\<lambda>(r, _). cp_Name (rs_Policy r)) xs) ps,
     add_names (concat (map (\<lambda>(r, _). rs_Groups r) xs)) gs)"
  using assms
proof (induction xs arbitrary: ps gs)
  case (Cons x xs)
  obtain r msg where "x = (r, msg)" by (cases x)
  then show ?case
    using Cons by (simp add: parse_formatViolation) (simp add: add_names_def)
qed (simp add: add_names_def)

lemma add_names_dedup: "add_names ns vs = vs @ filter (\<lambda>n. n \<notin> set vs) (dedup ns)"
proof (induction ns arbitrary: vs)
  case (Cons n ns)
  have "add_names (n # ns) vs = add_names ns (if n \<in> set vs then vs else vs @ [n])"
    by (simp add: add_names_def)
  then show ?case
    using Cons by (auto simp: filter_filter intro: filter_cong)
qed (simp add: add_names_def)

definition result_lines :: "'q eval_results \<Rightarrow> ('q Resolved \<times> string) list" where
  "result_lines results = concat (map (\<lambda>(r, msgs). map (\<lambda>m. (r, m)) msgs) results)"

lemma violation_parts_lines: "violation_parts results = map (\<lambda>(r, m). formatViolation r m) (result_lines results)"
  by (induction results) (auto simp: violation_parts_def result_lines_def)

section \<open>Properties\<close>

text \<open>C26: The references read back from a response are the ones written into it: for policies and
  groups named like Kubernetes objects and messages whose continuation lines do not start with a
  bracket, the parsed policy and group names are the reported ones, each once, in the order of
  first appearance, whether the violations come as warnings or joined into one denial message.\<close>

theorem references_roundtrip:
  assumes "\<forall>(r, msg) \<in> set (result_lines results). referable r \<and> quiet_tail msg"
  shows "AdmissionEventReferences (violation_parts results) =
      (dedup (map (\<lambda>(r, _). cp_Name (rs_Policy r)) (result_lines results)),
       dedup (concat (map (\<lambda>(r, _). rs_Groups r) (result_lines results)))) \<and>
    AdmissionEventReferences [Join (violation_parts results) [CHR 0x0A, CHR 0x0A]] =
      AdmissionEventReferences (violation_parts results)"
  unfolding references_joined
  by (simp add: AdmissionEventReferences_def violation_parts_lines parse_all [OF assms] add_names_dedup)

section \<open>Witnesses\<close>

definition ex_result :: "string \<Rightarrow> nat Resolved" where
  "ex_result n = \<lparr>rs_Policy = (ex_cpolicy n)\<lparr>cp_Description := ''pods must not be root''\<rparr>,
     rs_Mode = ''enforce'', rs_Groups = [''base'', ''prod'']\<rparr>"

definition ex_results :: "nat eval_results" where
  "ex_results = [(ex_result ''no-root'', [''runs as root'', ''and privileged'']), (ex_result ''limits'', [''[x] none''])]"

theorem references_roundtrip_witness:
  "AdmissionEventReferences (violation_parts ex_results) = ([''no-root'', ''limits''], [''base'', ''prod'']) \<and>
   AdmissionEventReferences [Join (violation_parts ex_results) [CHR 0x0A, CHR 0x0A]] =
     ([''no-root'', ''limits''], [''base'', ''prod''])"
proof -
  have "\<forall>(r, msg) \<in> set (result_lines ex_results). referable r \<and> quiet_tail msg"
    by code_simp
  from references_roundtrip [OF this] show ?thesis
    by (simp add: result_lines_def ex_results_def ex_result_def ex_cpolicy_def)
qed

text \<open>A message with a line of its own that starts with a bracket forges a reference.\<close>

lemma message_forges_reference:
  "''forged'' \<in> set (fst (AdmissionEventReferences
     [formatViolation (ex_result ''no-root'') (''x'' @ [CHR 0x0A] @ ''[forged via g] y'')]))"
  by code_simp

end
