(* ===== verification/Go_Runes.thy ===== *)
theory Go_Runes
  imports Go_Strings
begin

text \<open>
  Go's conversion between strings and slices of runes: UTF-8 decoding in which every byte that does
  not start a valid sequence becomes the replacement character, and encoding. Runes are code points.
\<close>

abbreviation byte :: "char \<Rightarrow> int" where
  "byte c \<equiv> of_char c"

definition is_cont :: "char \<Rightarrow> bool" where
  "is_cont c \<longleftrightarrow> 0x80 \<le> byte c \<and> byte c \<le> 0xBF"

definition rune_error :: int where "rune_error = 0xFFFD"

text \<open>The rune at the front of a non-empty string and its width.\<close>

fun decode_rune :: "string \<Rightarrow> int \<times> nat" where
  "decode_rune [] = (rune_error, 0)"
| "decode_rune (a # s) =
    (let x = byte a in
     if x < 0x80 then (x, 1)
     else if 0xC2 \<le> x \<and> x \<le> 0xDF then
       (case s of b # _ \<Rightarrow> if is_cont b then ((x - 0xC0) * 64 + (byte b - 0x80), 2) else (rune_error, 1)
        | _ \<Rightarrow> (rune_error, 1))
     else if 0xE0 \<le> x \<and> x \<le> 0xEF then
       (case s of b # c # _ \<Rightarrow>
          if is_cont b \<and> is_cont c \<and> (x = 0xE0 \<longrightarrow> 0xA0 \<le> byte b) \<and> (x = 0xED \<longrightarrow> byte b \<le> 0x9F)
          then ((x - 0xE0) * 4096 + (byte b - 0x80) * 64 + (byte c - 0x80), 3) else (rune_error, 1)
        | _ \<Rightarrow> (rune_error, 1))
     else if 0xF0 \<le> x \<and> x \<le> 0xF4 then
       (case s of b # c # d # _ \<Rightarrow>
          if is_cont b \<and> is_cont c \<and> is_cont d \<and> (x = 0xF0 \<longrightarrow> 0x90 \<le> byte b) \<and> (x = 0xF4 \<longrightarrow> byte b \<le> 0x8F)
          then ((x - 0xF0) * 262144 + (byte b - 0x80) * 4096 + (byte c - 0x80) * 64 + (byte d - 0x80), 4)
          else (rune_error, 1)
        | _ \<Rightarrow> (rune_error, 1))
     else (rune_error, 1))"

declare decode_rune.simps [simp del]

lemma decode_rune_width: "s \<noteq> [] \<Longrightarrow> 1 \<le> snd (decode_rune s) \<and> snd (decode_rune s) \<le> length s"
  by (cases s) (auto simp: decode_rune.simps Let_def split: list.splits)

function runes :: "string \<Rightarrow> int list" where
  "runes s = (if s = [] then [] else fst (decode_rune s) # runes (drop (snd (decode_rune s)) s))"
  by auto
termination
  by (relation "measure length") (auto dest!: decode_rune_width simp: diff_less_iff_nonempty)

declare runes.simps [simp del]

definition encode_rune :: "int \<Rightarrow> string" where
  "encode_rune r = map char_of
    (if r < 0x80 then [r]
     else if r < 0x800 then [0xC0 + r div 64, 0x80 + r mod 64]
     else if r > 0x10FFFF \<or> (0xD800 \<le> r \<and> r \<le> 0xDFFF) then [0xEF, 0xBF, 0xBD]
     else if r < 0x10000 then [0xE0 + r div 4096, 0x80 + r div 64 mod 64, 0x80 + r mod 64]
     else [0xF0 + r div 262144, 0x80 + r div 4096 mod 64, 0x80 + r div 64 mod 64, 0x80 + r mod 64])"

definition runes_to_string :: "int list \<Rightarrow> string" where
  "runes_to_string rs = concat (map encode_rune rs)"

section \<open>ASCII strings\<close>

definition ascii :: "string \<Rightarrow> bool" where
  "ascii s \<longleftrightarrow> list_all (\<lambda>c. byte c < 0x80) s"

lemma runes_ascii: "ascii s \<Longrightarrow> runes s = map of_char s"
proof (induction s)
  case (Cons a s)
  then show ?case by (simp add: runes.simps [of "a # s"] decode_rune.simps ascii_def)
qed (simp add: runes.simps)

lemma encode_ascii: "byte c < 0x80 \<Longrightarrow> encode_rune (of_char c) = [c]"
  by (simp add: encode_rune_def)

lemma runes_to_string_ascii: "ascii s \<Longrightarrow> runes_to_string (map of_char s) = s"
  by (induction s) (simp_all add: runes_to_string_def ascii_def encode_ascii)

lemma length_runes_le: "length (runes s) \<le> length s"
proof (induction s rule: runes.induct)
  case (1 s)
  show ?case
  proof (cases "s = []")
    case False
    have "length (runes (drop (snd (decode_rune s)) s)) \<le> length s - snd (decode_rune s)"
      using 1 [OF False] by simp
    then show ?thesis
      using decode_rune_width [OF False] False by (simp add: runes.simps [of s], arith)
  qed (simp add: runes.simps)
qed

end
