(* ===== verification/Incident_Tracker.thy ===== *)
theory Incident_Tracker
  imports Go_Runes "HOL-Library.Product_Lexorder"
begin

text \<open>
  Incidents of the event link and their tracker, \<^verbatim>\<open>internal/admission/observability/observation.go\<close>.

  A tracker keeps one open incident per reason and a bounded queue of closed ones awaiting
  acknowledgement. Go's index out of range panic in \<open>closeLocked\<close> is the value \<open>None\<close>; it is
  shown unreachable. Random identities come from \<open>fresh\<close>: the \<open>i\<close>-th call of \<open>NewIdentity\<close>
  returns \<open>fresh i\<close>, \<open>None\<close> when the random source fails.
\<close>

section \<open>Constants\<close>

definition DefaultSilencePeriod :: duration where "DefaultSilencePeriod = 60 * second"
definition DefaultPendingLimit :: nat where "DefaultPendingLimit = 256"
definition MaxBatchSize :: nat where "MaxBatchSize = 256"
definition MaxSampleEventIDs :: nat where "MaxSampleEventIDs = 5"
definition MaxDetailLength :: nat where "MaxDetailLength = 200"
definition MaxIdentityLength :: nat where "MaxIdentityLength = 128"

definition ComponentWebhook :: string where "ComponentWebhook = ''webhook''"
definition ComponentOperator :: string where "ComponentOperator = ''operator''"
definition ComponentGateway :: string where "ComponentGateway = ''gateway''"

definition Component_Valid :: "string \<Rightarrow> bool" where
  "Component_Valid c \<longleftrightarrow> c = ComponentWebhook \<or> c = ComponentOperator \<or> c = ComponentGateway"

definition Component_ValidMember :: "string \<Rightarrow> bool" where
  "Component_ValidMember c \<longleftrightarrow> c = ComponentWebhook \<or> c = ComponentOperator"

definition ReasonQueueFull :: string where "ReasonQueueFull = ''queue_full''"
definition ReasonRetryExhausted :: string where "ReasonRetryExhausted = ''retry_exhausted''"
definition ReasonACKTimeout :: string where "ReasonACKTimeout = ''ack_timeout''"
definition ReasonAuthFailure :: string where "ReasonAuthFailure = ''auth_failure''"
definition ReasonBatchFailure :: string where "ReasonBatchFailure = ''batch_failure''"
definition ReasonWriteFailed :: string where "ReasonWriteFailed = ''write_failed''"
definition ReasonReportDropped :: string where "ReasonReportDropped = ''report_dropped''"

definition HTTPFailureReason :: "int \<Rightarrow> string" where
  "HTTPFailureReason status =
    (if status \<ge> 400 \<and> status < 500 then ''http_4xx''
     else if status \<ge> 500 \<and> status < 600 then ''http_5xx''
     else ''unknown'')"

definition validReasons :: "string list" where
  "validReasons = [ReasonQueueFull, ReasonRetryExhausted, ReasonACKTimeout, ReasonAuthFailure,
     ReasonBatchFailure, ReasonWriteFailed, ReasonReportDropped]"

definition ValidReason :: "string \<Rightarrow> bool" where
  "ValidReason reason \<longleftrightarrow> reason \<in> set validReasons"

lemma ValidReason_dropped [simp]: "ValidReason ReasonReportDropped"
  by (simp add: ValidReason_def validReasons_def)

section \<open>Incidents\<close>

record Incident =
  ic_IncidentKey :: string
  ic_ReporterInstanceID :: string
  ic_Revision :: nat
  ic_Component :: string
  ic_Reason :: string
  ic_StartedAt :: time
  ic_LastSeenAt :: time
  ic_AffectedCount :: int
  ic_SampleEventIDs :: "string list"
  ic_Detail :: string
  ic_Closed :: bool

text \<open>\<open>None\<close> is success.\<close>

definition Incident_Validate :: "Incident \<Rightarrow> string option" where
  "Incident_Validate i =
    (if ic_IncidentKey i = '''' \<or> length (ic_IncidentKey i) > MaxIdentityLength
       then Some ''incident key is required and must not exceed 128 characters''
     else if ic_ReporterInstanceID i = '''' \<or> length (ic_ReporterInstanceID i) > MaxIdentityLength
       then Some ''reporter instance id is required and must not exceed 128 characters''
     else if ic_Revision i = 0 then Some ''revision must be positive''
     else if \<not> Component_Valid (ic_Component i) then Some (''invalid component '' @ ic_Component i)
     else if \<not> ValidReason (ic_Reason i) then Some (''invalid reason '' @ ic_Reason i)
     else if ic_StartedAt i = 0 \<or> ic_LastSeenAt i = 0 then Some ''incident timestamps are required''
     else if ic_LastSeenAt i < ic_StartedAt i then Some ''last_seen_at must not precede started_at''
     else if ic_AffectedCount i \<le> 0 then Some ''affected_count must be positive''
     else if length (ic_SampleEventIDs i) > MaxSampleEventIDs then Some ''too many sample event ids''
     else if length (ic_Detail i) > MaxDetailLength then Some ''detail is too long''
     else None)"

definition truncate_runes :: "string \<Rightarrow> nat \<Rightarrow> string" where
  "truncate_runes value limit = (let rs = runes value in
     if length rs \<le> limit then value else runes_to_string (take limit rs))"

definition appendSample :: "string list \<Rightarrow> string \<Rightarrow> string list" where
  "appendSample vals value = (let value = TrimSpace value in
     if value = '''' \<or> length vals \<ge> MaxSampleEventIDs then vals
     else if value \<in> set vals then vals
     else vals @ [value])"

definition MergeSampleEventIDs :: "string list \<Rightarrow> string list \<Rightarrow> string list" where
  "MergeSampleEventIDs oldValues newValues = fold (\<lambda>v r. appendSample r v) newValues oldValues"

section \<open>The tracker\<close>

record Tracker =
  tr_component :: string
  tr_instanceID :: string
  tr_silence :: duration
  tr_limit :: nat
  tr_active :: "Incident smap"
  tr_pending :: "Incident smap"
  tr_order :: "string list"
  tr_ids :: nat

type_synonym fresh_ids = "nat \<Rightarrow> string option"

text \<open>\<open>NewTracker\<close> panics on an invalid component or a failing random source.\<close>

definition NewTracker :: "fresh_ids \<Rightarrow> string \<Rightarrow> string \<Rightarrow> Tracker option" where
  "NewTracker fresh component instanceID =
    (if \<not> Component_Valid component then None
     else let mk = (\<lambda>ident n. \<lparr>tr_component = component, tr_instanceID = truncate_runes ident MaxIdentityLength,
            tr_silence = DefaultSilencePeriod, tr_limit = DefaultPendingLimit, tr_active = [],
            tr_pending = [], tr_order = [], tr_ids = n\<rparr>)
          in if instanceID = '''' then map_option (\<lambda>i. mk i 1) (fresh 0) else Some (mk instanceID 0))"

definition NewIdentity :: "fresh_ids \<Rightarrow> Tracker \<Rightarrow> string option \<times> Tracker" where
  "NewIdentity fresh t = (fresh (tr_ids t), t\<lparr>tr_ids := Suc (tr_ids t)\<rparr>)"

definition recordDropLocked :: "fresh_ids \<Rightarrow> time \<Rightarrow> Tracker \<Rightarrow> Tracker" where
  "recordDropLocked fresh now t = (case map_of (tr_active t) ReasonReportDropped of
      None \<Rightarrow> (case NewIdentity fresh t of
          (None, t) \<Rightarrow> t
        | (Some key, t) \<Rightarrow> t\<lparr>tr_active := AList.update ReasonReportDropped
            \<lparr>ic_IncidentKey = key, ic_ReporterInstanceID = tr_instanceID t, ic_Revision = 1,
             ic_Component = tr_component t, ic_Reason = ReasonReportDropped, ic_StartedAt = now,
             ic_LastSeenAt = now, ic_AffectedCount = 1, ic_SampleEventIDs = [],
             ic_Detail = ''pending incident queue reached capacity'', ic_Closed = False\<rparr> (tr_active t)\<rparr>)
    | Some current \<Rightarrow> t\<lparr>tr_active := AList.update ReasonReportDropped
        (current\<lparr>ic_Revision := ic_Revision current + 1, ic_LastSeenAt := now,
                 ic_AffectedCount := ic_AffectedCount current + 1\<rparr>) (tr_active t)\<rparr>)"

text \<open>The eviction of the oldest pending incident when the queue is full.\<close>

definition evictOldest :: "fresh_ids \<Rightarrow> string \<Rightarrow> time \<Rightarrow> Tracker \<Rightarrow> Tracker option" where
  "evictOldest fresh reason now t = (if length (tr_pending t) \<ge> tr_limit t
     then (case tr_order t of
         [] \<Rightarrow> None
       | droppedKey # rest \<Rightarrow>
           (let dropped = map_of (tr_pending t) droppedKey;
                t = t\<lparr>tr_pending := AList.delete droppedKey (tr_pending t), tr_order := rest\<rparr>
            in case dropped of
                 None \<Rightarrow> Some t
               | Some d \<Rightarrow> if ic_Reason d \<noteq> ReasonReportDropped \<and> reason \<noteq> ReasonReportDropped
                   then Some (recordDropLocked fresh now t) else Some t))
     else Some t)"

definition closeLocked :: "fresh_ids \<Rightarrow> string \<Rightarrow> Incident \<Rightarrow> time \<Rightarrow> Tracker \<Rightarrow> Tracker option" where
  "closeLocked fresh reason incident now t =
    (let t = t\<lparr>tr_active := AList.delete reason (tr_active t)\<rparr>;
         incident = incident\<lparr>ic_Closed := True, ic_Revision := ic_Revision incident + 1\<rparr>
     in map_option (\<lambda>t. t\<lparr>tr_pending := AList.update (ic_IncidentKey incident) incident (tr_pending t),
                         tr_order := tr_order t @ [ic_IncidentKey incident]\<rparr>)
          (evictOldest fresh reason now t))"

definition put_active :: "string \<Rightarrow> Incident \<Rightarrow> Tracker \<Rightarrow> Tracker" where
  "put_active reason i t = t\<lparr>tr_active := AList.update reason i (tr_active t)\<rparr>"

definition Record ::
  "fresh_ids \<Rightarrow> string \<Rightarrow> int \<Rightarrow> string \<Rightarrow> string \<Rightarrow> time \<Rightarrow> Tracker \<Rightarrow> Tracker option" where
  "Record fresh reason affected sampleEventID detail now t =
    (if \<not> ValidReason reason then Some t
     else let affected = (if affected \<le> 0 then 1 else affected);
              open_new = (\<lambda>t. case NewIdentity fresh t of
                  (None, t) \<Rightarrow> t
                | (Some key, t) \<Rightarrow> put_active reason
                    \<lparr>ic_IncidentKey = key, ic_ReporterInstanceID = tr_instanceID t, ic_Revision = 1,
                     ic_Component = tr_component t, ic_Reason = reason, ic_StartedAt = now,
                     ic_LastSeenAt = now, ic_AffectedCount = affected,
                     ic_SampleEventIDs = appendSample [] sampleEventID,
                     ic_Detail = truncate_runes detail MaxDetailLength, ic_Closed = False\<rparr> t)
          in case map_of (tr_active t) reason of
               None \<Rightarrow> Some (open_new t)
             | Some current \<Rightarrow>
                 if time_sub now (ic_LastSeenAt current) > tr_silence t
                 then map_option open_new (closeLocked fresh reason current now t)
                 else Some (put_active reason
                   (current\<lparr>ic_Revision := ic_Revision current + 1, ic_LastSeenAt := now,
                     ic_AffectedCount := ic_AffectedCount current + affected,
                     ic_Detail := truncate_runes detail MaxDetailLength,
                     ic_SampleEventIDs := appendSample (ic_SampleEventIDs current) sampleEventID\<rparr>) t))"

fun close_all :: "fresh_ids \<Rightarrow> time \<Rightarrow> string list \<Rightarrow> Tracker \<Rightarrow> Tracker option" where
  "close_all fresh now [] t = Some t"
| "close_all fresh now (reason # rs) t = (case map_of (tr_active t) reason of
      None \<Rightarrow> None
    | Some i \<Rightarrow> Option.bind (closeLocked fresh reason i now t) (close_all fresh now rs))"

definition expired_reasons :: "time \<Rightarrow> Tracker \<Rightarrow> string list" where
  "expired_reasons now t =
    map fst (filter (\<lambda>(_, i). time_sub now (ic_LastSeenAt i) > tr_silence t) (tr_active t))"

definition snapshot_key :: "Incident \<Rightarrow> int \<times> string" where
  "snapshot_key i = (ic_StartedAt i, ic_IncidentKey i)"

definition snapshot_list :: "Tracker \<Rightarrow> Incident list" where
  "snapshot_list t = map snd (tr_active t) @ List.map_filter (map_of (tr_pending t)) (tr_order t)"

definition Snapshot :: "fresh_ids \<Rightarrow> time \<Rightarrow> Tracker \<Rightarrow> (Incident list \<times> Tracker) option" where
  "Snapshot fresh now t = map_option
     (\<lambda>t. (sort_key snapshot_key (snapshot_list t), t))
     (close_all fresh now (expired_reasons now t) t)"

definition Acknowledge :: "string \<Rightarrow> nat \<Rightarrow> bool \<Rightarrow> Tracker \<Rightarrow> Tracker" where
  "Acknowledge key revision terminal t =
    (if \<not> terminal then t
     else case map_of (tr_pending t) key of
       None \<Rightarrow> t
     | Some incident \<Rightarrow> if ic_Revision incident > revision then t
         else t\<lparr>tr_pending := AList.delete key (tr_pending t), tr_order := remove1 key (tr_order t)\<rparr>)"

definition Reset :: "Tracker \<Rightarrow> Tracker" where
  "Reset t = t\<lparr>tr_active := [], tr_pending := [], tr_order := []\<rparr>"

definition PendingCount :: "Tracker \<Rightarrow> nat" where
  "PendingCount t = length (tr_pending t)"

section \<open>The tracker as a state machine\<close>

datatype tracker_op =
    TRecord string int string string time
  | TSnapshot time
  | TAcknowledge string nat bool
  | TReset

fun tracker_step :: "fresh_ids \<Rightarrow> Tracker option \<Rightarrow> tracker_op \<Rightarrow> Tracker option" where
  "tracker_step fresh None op = None"
| "tracker_step fresh (Some t) (TRecord reason affected sample detail now) =
     Record fresh reason affected sample detail now t"
| "tracker_step fresh (Some t) (TSnapshot now) = map_option snd (Snapshot fresh now t)"
| "tracker_step fresh (Some t) (TAcknowledge key revision terminal) = Some (Acknowledge key revision terminal t)"
| "tracker_step fresh (Some t) TReset = Some (Reset t)"

section \<open>The invariant\<close>

text \<open>Random identities do not repeat.\<close>

definition inj_fresh :: "fresh_ids \<Rightarrow> bool" where
  "inj_fresh fresh \<longleftrightarrow> (\<forall>i j k. fresh i = Some k \<longrightarrow> fresh j = Some k \<longrightarrow> i = j)"

definition issued :: "fresh_ids \<Rightarrow> Tracker \<Rightarrow> string \<Rightarrow> bool" where
  "issued fresh t k \<longleftrightarrow> (\<exists>j < tr_ids t. fresh j = Some k)"

definition sound_incident :: "Tracker \<Rightarrow> Incident \<Rightarrow> bool" where
  "sound_incident t i \<longleftrightarrow> ic_ReporterInstanceID i = tr_instanceID t \<and> ic_Component i = tr_component t \<and>
     ValidReason (ic_Reason i) \<and> 1 \<le> ic_Revision i \<and> 1 \<le> ic_AffectedCount i \<and>
     length (ic_SampleEventIDs i) \<le> MaxSampleEventIDs \<and> distinct (ic_SampleEventIDs i)"

definition active_inv :: "fresh_ids \<Rightarrow> Tracker \<Rightarrow> bool" where
  "active_inv fresh t \<longleftrightarrow> wf_map (tr_active t) \<and>
     (\<forall>r i. map_of (tr_active t) r = Some i \<longrightarrow> ic_Reason i = r \<and> \<not> ic_Closed i \<and> sound_incident t i \<and>
        issued fresh t (ic_IncidentKey i) \<and> ic_IncidentKey i \<notin> set (tr_order t) \<and>
        (\<forall>r' i'. map_of (tr_active t) r' = Some i' \<longrightarrow> ic_IncidentKey i' = ic_IncidentKey i \<longrightarrow> r' = r))"

definition pending_inv :: "fresh_ids \<Rightarrow> Tracker \<Rightarrow> bool" where
  "pending_inv fresh t \<longleftrightarrow> wf_map (tr_pending t) \<and> distinct (tr_order t) \<and>
     set (tr_order t) = fst ` set (tr_pending t) \<and> 1 \<le> tr_limit t \<and> length (tr_pending t) \<le> tr_limit t \<and>
     (\<forall>k i. map_of (tr_pending t) k = Some i \<longrightarrow> ic_IncidentKey i = k \<and> ic_Closed i \<and> sound_incident t i \<and>
        issued fresh t k)"

definition tracker_inv :: "fresh_ids \<Rightarrow> Tracker \<Rightarrow> bool" where
  "tracker_inv fresh t \<longleftrightarrow> active_inv fresh t \<and> pending_inv fresh t"

text \<open>A key that is issued and not in use.\<close>

definition spare :: "fresh_ids \<Rightarrow> string \<Rightarrow> Tracker \<Rightarrow> bool" where
  "spare fresh k t \<longleftrightarrow> issued fresh t k \<and> k \<notin> set (tr_order t) \<and>
     (\<forall>r i. map_of (tr_active t) r = Some i \<longrightarrow> ic_IncidentKey i \<noteq> k)"

lemmas tracker_invs = tracker_inv_def active_inv_def pending_inv_def

lemma sound_incident_ctx [simp]:
  "sound_incident (t\<lparr>tr_active := a\<rparr>) = sound_incident t"
  "sound_incident (t\<lparr>tr_pending := p\<rparr>) = sound_incident t"
  "sound_incident (t\<lparr>tr_order := ord\<rparr>) = sound_incident t"
  "sound_incident (t\<lparr>tr_ids := n\<rparr>) = sound_incident t"
  by (simp_all add: sound_incident_def fun_eq_iff)

lemma issued_ctx [simp]:
  "issued fresh (t\<lparr>tr_active := a\<rparr>) = issued fresh t"
  "issued fresh (t\<lparr>tr_pending := p\<rparr>) = issued fresh t"
  "issued fresh (t\<lparr>tr_order := ord\<rparr>) = issued fresh t"
  by (simp_all add: issued_def fun_eq_iff)

lemma issued_Suc: "issued fresh (t\<lparr>tr_ids := Suc (tr_ids t)\<rparr>) k \<longleftrightarrow> issued fresh t k \<or> fresh (tr_ids t) = Some k"
  by (auto simp: issued_def less_Suc_eq)

lemma not_issued_next: "inj_fresh fresh \<Longrightarrow> fresh (tr_ids t) = Some k \<Longrightarrow> \<not> issued fresh t k"
  by (auto simp: issued_def inj_fresh_def)

lemma appendSample_sound:
  "length xs \<le> MaxSampleEventIDs \<Longrightarrow> distinct xs \<Longrightarrow>
    length (appendSample xs v) \<le> MaxSampleEventIDs \<and> distinct (appendSample xs v)"
  by (auto simp: appendSample_def Let_def)

lemma tracker_invD:
  assumes "tracker_inv fresh t"
  shows "wf_map (tr_active t)" "wf_map (tr_pending t)" "distinct (tr_order t)"
    "set (tr_order t) = fst ` set (tr_pending t)" "1 \<le> tr_limit t" "length (tr_pending t) \<le> tr_limit t"
    "\<And>k i. map_of (tr_pending t) k = Some i \<Longrightarrow>
       ic_IncidentKey i = k \<and> ic_Closed i \<and> sound_incident t i \<and> issued fresh t k"
    "\<And>r i. map_of (tr_active t) r = Some i \<Longrightarrow>
       ic_Reason i = r \<and> \<not> ic_Closed i \<and> sound_incident t i \<and> issued fresh t (ic_IncidentKey i) \<and>
       ic_IncidentKey i \<notin> set (tr_order t)"
    "\<And>r i r' i'. map_of (tr_active t) r = Some i \<Longrightarrow> map_of (tr_active t) r' = Some i' \<Longrightarrow>
       ic_IncidentKey i' = ic_IncidentKey i \<Longrightarrow> r' = r"
  using assms unfolding tracker_invs by blast+

text \<open>Opening or renewing the incident of a reason.\<close>

lemma active_inv_put:
  assumes inv: "tracker_inv fresh t" and i: "ic_Reason i = r" "\<not> ic_Closed i" "sound_incident t i"
    and key: "(\<exists>old. map_of (tr_active t) r = Some old \<and> ic_IncidentKey i = ic_IncidentKey old)
      \<or> spare fresh (ic_IncidentKey i) t"
  shows "tracker_inv fresh (put_active r i t)"
proof -
  note I = tracker_invD [OF inv]
  have "issued fresh t (ic_IncidentKey i)" "ic_IncidentKey i \<notin> set (tr_order t)"
    using key I(8) by (auto simp: spare_def)
  moreover have "ic_IncidentKey i' \<noteq> ic_IncidentKey i" if "map_of (tr_active t) r' = Some i'" "r' \<noteq> r" for r' i'
    using key that I(9) by (auto simp: spare_def)
  ultimately have "active_inv fresh (put_active r i t)"
    using I(1,8,9) i unfolding active_inv_def put_active_def by (auto split: if_splits) metis+
  then show ?thesis using inv by (simp add: tracker_inv_def pending_inv_def put_active_def)
qed

lemma tracker_inv_next_id:
  assumes "tracker_inv fresh t"
  shows "tracker_inv fresh (t\<lparr>tr_ids := Suc (tr_ids t)\<rparr>)"
proof -
  have "active_inv fresh t" "pending_inv fresh t" using assms by (simp_all add: tracker_inv_def)
  then have "active_inv fresh (t\<lparr>tr_ids := Suc (tr_ids t)\<rparr>)" "pending_inv fresh (t\<lparr>tr_ids := Suc (tr_ids t)\<rparr>)"
    unfolding active_inv_def pending_inv_def issued_Suc by auto
  then show ?thesis by (simp add: tracker_inv_def)
qed

lemma spare_next_id:
  assumes "tracker_inv fresh t" "inj_fresh fresh" "fresh (tr_ids t) = Some k"
  shows "spare fresh k (t\<lparr>tr_ids := Suc (tr_ids t)\<rparr>)"
proof -
  note I = tracker_invD [OF assms(1)]
  have n: "\<not> issued fresh t k" by (rule not_issued_next [OF assms(2,3)])
  have "k \<notin> set (tr_order t)"
  proof
    assume "k \<in> set (tr_order t)"
    then obtain i where "map_of (tr_pending t) k = Some i"
      unfolding I(4) by (metis map_of_None_iff not_Some_eq)
    then show False using I(7) n by blast
  qed
  then show ?thesis using I(8) n assms(3) by (auto simp: spare_def issued_Suc)
qed

lemma recordDropLocked_inv:
  assumes inv: "tracker_inv fresh t" and inj: "inj_fresh fresh"
  shows "tracker_inv fresh (recordDropLocked fresh now t)"
proof (cases "map_of (tr_active t) ReasonReportDropped")
  case None
  show ?thesis
  proof (cases "fresh (tr_ids t)")
    case None
    then show ?thesis
      using \<open>map_of _ _ = None\<close> tracker_inv_next_id [OF inv] by (simp add: recordDropLocked_def NewIdentity_def)
  next
    case (Some key)
    show ?thesis
      using \<open>map_of _ _ = None\<close> Some spare_next_id [OF inv inj Some]
        active_inv_put [OF tracker_inv_next_id [OF inv], of _ ReasonReportDropped]
      by (simp add: recordDropLocked_def NewIdentity_def put_active_def sound_incident_def)
  qed
next
  case (Some cur)
  then have "ic_Reason cur = ReasonReportDropped" "\<not> ic_Closed cur" "sound_incident t cur"
    using tracker_invD(8) [OF inv] by blast+
  then show ?thesis
    using Some active_inv_put [OF inv, of "cur\<lparr>ic_Revision := ic_Revision cur + 1, ic_LastSeenAt := now,
        ic_AffectedCount := ic_AffectedCount cur + 1\<rparr>" ReasonReportDropped]
    by (simp add: recordDropLocked_def put_active_def sound_incident_def)
qed

lemma spare_recordDropLocked:
  assumes "tracker_inv fresh t" "inj_fresh fresh" "spare fresh k t"
  shows "spare fresh k (recordDropLocked fresh now t)"
proof -
  have "fresh (tr_ids t) \<noteq> Some k"
    using assms(2,3) not_issued_next by (auto simp: spare_def)
  then show ?thesis
    using assms(3) by (auto simp: recordDropLocked_def NewIdentity_def spare_def issued_def less_Suc_eq
        split: option.splits if_splits)
qed

section \<open>Closing incidents\<close>

lemma tracker_inv_drop_active:
  assumes "tracker_inv fresh t"
  shows "tracker_inv fresh (t\<lparr>tr_active := AList.delete r (tr_active t)\<rparr>)"
proof -
  have "active_inv fresh t" "pending_inv fresh t" using assms by (simp_all add: tracker_inv_def)
  then have "active_inv fresh (t\<lparr>tr_active := AList.delete r (tr_active t)\<rparr>)"
    "pending_inv fresh (t\<lparr>tr_active := AList.delete r (tr_active t)\<rparr>)"
    unfolding active_inv_def pending_inv_def by auto
  then show ?thesis by (simp add: tracker_inv_def)
qed

lemma spare_drop_active:
  assumes "tracker_inv fresh t" "map_of (tr_active t) r = Some i"
  shows "spare fresh (ic_IncidentKey i) (t\<lparr>tr_active := AList.delete r (tr_active t)\<rparr>)"
  using tracker_invD(8,9) [OF assms(1)] assms(2) by (auto simp: spare_def split: if_splits)

lemma evict_inv:
  assumes inv: "tracker_inv fresh t" and ord: "tr_order t = k # ks"
  shows "tracker_inv fresh (t\<lparr>tr_pending := AList.delete k (tr_pending t), tr_order := ks\<rparr>)"
proof -
  note I = tracker_invD [OF inv]
  have ks: "distinct ks" "k \<notin> set ks" "fst ` set (tr_pending t) = insert k (set ks)"
    using I(3,4) ord by auto
  have "length (AList.delete k (tr_pending t)) \<le> tr_limit t"
    using I(6) length_delete_le [of k "tr_pending t"] by linarith
  then have "pending_inv fresh (t\<lparr>tr_pending := AList.delete k (tr_pending t), tr_order := ks\<rparr>)"
    using I(2,5,7) ks unfolding pending_inv_def by auto
  moreover have "active_inv fresh (t\<lparr>tr_pending := AList.delete k (tr_pending t), tr_order := ks\<rparr>)"
    using inv ord unfolding tracker_inv_def active_inv_def by auto
  ultimately show ?thesis by (simp add: tracker_inv_def)
qed

lemma evictOldest_ok:
  assumes inv: "tracker_inv fresh t" and inj: "inj_fresh fresh" and k: "spare fresh k t"
  shows "\<exists>t'. evictOldest fresh reason now t = Some t' \<and> tracker_inv fresh t' \<and> spare fresh k t' \<and>
    length (tr_pending t') < tr_limit t' \<and> tr_limit t' = tr_limit t \<and> tr_silence t' = tr_silence t \<and>
    tr_instanceID t' = tr_instanceID t \<and> tr_component t' = tr_component t \<and>
    (\<forall>r i. map_of (tr_active t') r = Some i \<longrightarrow>
       map_of (tr_active t) r = Some i \<or> r = ReasonReportDropped \<and> ic_LastSeenAt i = now)"
proof (cases "length (tr_pending t) \<ge> tr_limit t")
  case False
  then show ?thesis using assms by (simp add: evictOldest_def)
next
  case True
  note I = tracker_invD [OF inv]
  have "tr_order t \<noteq> []" using True I(4,5) by auto
  then obtain d ds where ord: "tr_order t = d # ds" by (cases "tr_order t") auto
  let ?t = "t\<lparr>tr_pending := AList.delete d (tr_pending t), tr_order := ds\<rparr>"
  have inv': "tracker_inv fresh ?t" by (rule evict_inv [OF inv ord])
  have "d \<in> fst ` set (tr_pending t)" using I(4) ord by auto
  then have len: "length (tr_pending ?t) < tr_limit t"
    using I(2,5,6) True by (simp add: length_delete)
  have k': "spare fresh k ?t" using k ord by (auto simp: spare_def)
  have drop: "tracker_inv fresh (recordDropLocked fresh now ?t)" "spare fresh k (recordDropLocked fresh now ?t)"
    using recordDropLocked_inv [OF inv' inj] spare_recordDropLocked [OF inv' inj k'] by blast+
  have "tr_pending (recordDropLocked fresh now ?t) = tr_pending ?t \<and>
      tr_limit (recordDropLocked fresh now ?t) = tr_limit t \<and> tr_silence (recordDropLocked fresh now ?t) = tr_silence t \<and>
      tr_instanceID (recordDropLocked fresh now ?t) = tr_instanceID t \<and>
      tr_component (recordDropLocked fresh now ?t) = tr_component t \<and>
      (\<forall>r i. map_of (tr_active (recordDropLocked fresh now ?t)) r = Some i \<longrightarrow>
         map_of (tr_active t) r = Some i \<or> r = ReasonReportDropped \<and> ic_LastSeenAt i = now)"
    by (auto simp: recordDropLocked_def NewIdentity_def split: option.splits if_splits)
  note after = this
  have "evictOldest fresh reason now t = Some ?t \<or>
      evictOldest fresh reason now t = Some (recordDropLocked fresh now ?t)"
    by (simp add: evictOldest_def True ord Let_def split: option.split)
  then show ?thesis
  proof
    assume "evictOldest fresh reason now t = Some ?t"
    then show ?thesis using inv' k' len by simp
  next
    assume "evictOldest fresh reason now t = Some (recordDropLocked fresh now ?t)"
    then show ?thesis using drop len after by simp
  qed
qed

lemma push_pending_inv:
  assumes inv: "tracker_inv fresh t" and k: "spare fresh (ic_IncidentKey i) t" and "ic_Closed i"
    and "sound_incident t i" and len: "length (tr_pending t) < tr_limit t"
  shows "tracker_inv fresh (t\<lparr>tr_pending := AList.update (ic_IncidentKey i) i (tr_pending t),
     tr_order := tr_order t @ [ic_IncidentKey i]\<rparr>)"
proof -
  note I = tracker_invD [OF inv]
  have new: "ic_IncidentKey i \<notin> fst ` set (tr_pending t)" using k I(4) by (auto simp: spare_def)
  then have "pending_inv fresh (t\<lparr>tr_pending := AList.update (ic_IncidentKey i) i (tr_pending t),
     tr_order := tr_order t @ [ic_IncidentKey i]\<rparr>)"
    using I(2-7) k assms(3,4) len unfolding pending_inv_def spare_def
    by (auto simp: length_update simp del: map_of_eq_Some_iff split: if_splits)
  moreover have "active_inv fresh (t\<lparr>tr_pending := AList.update (ic_IncidentKey i) i (tr_pending t),
     tr_order := tr_order t @ [ic_IncidentKey i]\<rparr>)"
    using inv k unfolding tracker_inv_def active_inv_def spare_def by auto
  ultimately show ?thesis by (simp add: tracker_inv_def)
qed

definition same_config :: "Tracker \<Rightarrow> Tracker \<Rightarrow> bool" where
  "same_config t t' \<longleftrightarrow> tr_limit t' = tr_limit t \<and> tr_silence t' = tr_silence t \<and>
     tr_instanceID t' = tr_instanceID t \<and> tr_component t' = tr_component t"

lemma same_config_sound: "same_config t t' \<Longrightarrow> sound_incident t' i = sound_incident t i"
  by (simp add: same_config_def sound_incident_def)

lemma same_config_trans: "same_config t t' \<Longrightarrow> same_config t' t'' \<Longrightarrow> same_config t t''"
  by (simp add: same_config_def)

lemma closeLocked_ok:
  assumes inv: "tracker_inv fresh t" and inj: "inj_fresh fresh" and i: "map_of (tr_active t) reason = Some i"
  shows "\<exists>t'. closeLocked fresh reason i now t = Some t' \<and> tracker_inv fresh t' \<and> same_config t t' \<and>
    (\<forall>r j. map_of (tr_active t') r = Some j \<longrightarrow>
       r \<noteq> reason \<and> map_of (tr_active t) r = Some j \<or> r = ReasonReportDropped \<and> ic_LastSeenAt j = now)"
proof -
  let ?d = "t\<lparr>tr_active := AList.delete reason (tr_active t)\<rparr>"
  let ?i = "i\<lparr>ic_Closed := True, ic_Revision := ic_Revision i + 1\<rparr>"
  obtain t' where ev: "evictOldest fresh reason now ?d = Some t'" and inv': "tracker_inv fresh t'"
    and k: "spare fresh (ic_IncidentKey i) t'" and len: "length (tr_pending t') < tr_limit t'"
    and cfg: "same_config t t'"
    and act: "\<forall>r j. map_of (tr_active t') r = Some j \<longrightarrow>
       map_of (tr_active ?d) r = Some j \<or> r = ReasonReportDropped \<and> ic_LastSeenAt j = now"
    using evictOldest_ok [OF tracker_inv_drop_active [OF inv] inj spare_drop_active [OF inv i], of reason now]
    by (auto simp: same_config_def simp del: map_of_eq_Some_iff)
  have "sound_incident t i" using tracker_invD(8) [OF inv i] by blast
  then have "sound_incident t' ?i"
    unfolding same_config_sound [OF cfg] by (simp add: sound_incident_def)
  then have "tracker_inv fresh (t'\<lparr>tr_pending := AList.update (ic_IncidentKey ?i) ?i (tr_pending t'),
     tr_order := tr_order t' @ [ic_IncidentKey ?i]\<rparr>)"
    using k by (intro push_pending_inv [OF inv' _ _ _ len]) simp_all
  moreover have "\<forall>r j. map_of (tr_active t') r = Some j \<longrightarrow>
      r \<noteq> reason \<and> map_of (tr_active t) r = Some j \<or> r = ReasonReportDropped \<and> ic_LastSeenAt j = now"
    using act by (auto simp del: map_of_eq_Some_iff split: if_splits)
  ultimately show ?thesis
    using cfg by (simp add: closeLocked_def ev same_config_def)
qed

lemma sound_open:
  "ValidReason r \<Longrightarrow> 1 \<le> a \<Longrightarrow> sound_incident t \<lparr>ic_IncidentKey = key, ic_ReporterInstanceID = tr_instanceID t,
     ic_Revision = 1, ic_Component = tr_component t, ic_Reason = r, ic_StartedAt = s, ic_LastSeenAt = l,
     ic_AffectedCount = a, ic_SampleEventIDs = appendSample [] ev, ic_Detail = d, ic_Closed = b\<rparr>"
  using appendSample_sound [of "[]" ev] by (simp add: sound_incident_def)

lemma open_new_inv:
  assumes "tracker_inv fresh t" "inj_fresh fresh" "ValidReason r" "1 \<le> a" 
  shows "tracker_inv fresh (case NewIdentity fresh t of (None, t) \<Rightarrow> t | (Some key, t) \<Rightarrow> put_active r
     \<lparr>ic_IncidentKey = key, ic_ReporterInstanceID = tr_instanceID t, ic_Revision = 1,
      ic_Component = tr_component t, ic_Reason = r, ic_StartedAt = now, ic_LastSeenAt = now,
      ic_AffectedCount = a, ic_SampleEventIDs = appendSample [] ev, ic_Detail = d, ic_Closed = False\<rparr> t)"
proof (cases "fresh (tr_ids t)")
  case None
  then show ?thesis using tracker_inv_next_id [OF assms(1)] by (simp add: NewIdentity_def)
next
  case (Some key)
  show ?thesis
    using Some active_inv_put [OF tracker_inv_next_id [OF assms(1)], where r = r]
      spare_next_id [OF assms(1,2) Some] sound_open [OF assms(3,4)]
    by (simp add: NewIdentity_def)
qed

lemma open_new_config: "same_config t (case NewIdentity fresh t of (None, t) \<Rightarrow> t | (Some key, t) \<Rightarrow> put_active r (mk key t) t)"
  by (simp add: NewIdentity_def put_active_def same_config_def split: option.split)

lemma Record_ok:
  assumes inv: "tracker_inv fresh t" and inj: "inj_fresh fresh"
  shows "\<exists>t'. Record fresh reason affected ev detail now t = Some t' \<and> tracker_inv fresh t' \<and> same_config t t'"
proof (cases "ValidReason reason")
  case False
  then show ?thesis using inv by (simp add: Record_def same_config_def)
next
  case True
  note new = open_new_inv [OF _ inj True, where a = "if affected \<le> 0 then 1 else affected" and now = now
      and ev = ev and d = "truncate_runes detail MaxDetailLength"]
  show ?thesis
  proof (cases "map_of (tr_active t) reason")
    case None
    then show ?thesis using new [OF inv] True by (simp add: Record_def Let_def open_new_config)
  next
    case (Some cur)
    have cur: "ic_Reason cur = reason" "\<not> ic_Closed cur" "sound_incident t cur"
      using tracker_invD(8) [OF inv Some] by blast+
    show ?thesis
    proof (cases "time_sub now (ic_LastSeenAt cur) > tr_silence t")
      case silent: True
      obtain t' where "closeLocked fresh reason cur now t = Some t'" "tracker_inv fresh t'" "same_config t t'"
        using closeLocked_ok [OF inv inj Some] by blast
      then show ?thesis
        using new [of t'] True Some silent
        by (simp add: Record_def Let_def same_config_trans [OF _ open_new_config])
    next
      case False
      then show ?thesis
        using True Some cur appendSample_sound [of "ic_SampleEventIDs cur" ev]
        by (simp add: Record_def Let_def active_inv_put [OF inv] sound_incident_def)
          (simp add: same_config_def put_active_def)
    qed
  qed
qed

lemma recordDrop_keeps:
  "map_of (tr_active t) r \<noteq> None \<Longrightarrow> map_of (tr_active (recordDropLocked fresh now t)) r \<noteq> None"
  by (auto simp: recordDropLocked_def NewIdentity_def split: option.split)

lemma evict_keeps:
  assumes "evictOldest fresh reason now t = Some t'" and "map_of (tr_active t) r \<noteq> None"
  shows "map_of (tr_active t') r \<noteq> None"
  using assms recordDrop_keeps [of "t\<lparr>tr_pending := AList.delete (hd (tr_order t)) (tr_pending t),
      tr_order := tl (tr_order t)\<rparr>" r fresh now]
  by (auto simp: evictOldest_def Let_def split: if_splits list.splits option.splits)

lemma close_keeps:
  assumes "closeLocked fresh a i now t = Some t'" and "r \<noteq> a" and "map_of (tr_active t) r \<noteq> None"
  shows "map_of (tr_active t') r \<noteq> None"
proof -
  obtain t1 where "evictOldest fresh a now (t\<lparr>tr_active := AList.delete a (tr_active t)\<rparr>) = Some t1"
    "tr_active t' = tr_active t1"
    using assms(1) by (auto simp: closeLocked_def)
  then show ?thesis using evict_keeps [of fresh a now _ t1 r] assms(2,3) by simp
qed

lemma close_all_ok:
  assumes "tracker_inv fresh t" "inj_fresh fresh" "distinct rs" "\<forall>r \<in> set rs. map_of (tr_active t) r \<noteq> None"
  shows "\<exists>t'. close_all fresh now rs t = Some t' \<and> tracker_inv fresh t' \<and> same_config t t' \<and>
    (\<forall>r j. map_of (tr_active t') r = Some j \<longrightarrow>
       r \<notin> set rs \<and> map_of (tr_active t) r = Some j \<or> r = ReasonReportDropped \<and> ic_LastSeenAt j = now)"
  using assms
proof (induction rs arbitrary: t)
  case (Cons a rs)
  obtain i where i: "map_of (tr_active t) a = Some i" using Cons.prems(4) by auto
  obtain t1 where t1: "closeLocked fresh a i now t = Some t1" "tracker_inv fresh t1" "same_config t t1"
    and act: "\<forall>r j. map_of (tr_active t1) r = Some j \<longrightarrow>
       r \<noteq> a \<and> map_of (tr_active t) r = Some j \<or> r = ReasonReportDropped \<and> ic_LastSeenAt j = now"
    using closeLocked_ok [OF Cons.prems(1,2) i, of now] by blast
  have "\<forall>r \<in> set rs. map_of (tr_active t1) r \<noteq> None"
  proof
    fix r
    assume "r \<in> set rs"
    then have "r \<noteq> a" "map_of (tr_active t) r \<noteq> None" using Cons.prems(3,4) by auto
    then show "map_of (tr_active t1) r \<noteq> None" by (rule close_keeps [OF t1(1)])
  qed
  then obtain t2 where t2: "close_all fresh now rs t1 = Some t2" "tracker_inv fresh t2" "same_config t1 t2"
    and act2: "\<forall>r j. map_of (tr_active t2) r = Some j \<longrightarrow>
       r \<notin> set rs \<and> map_of (tr_active t1) r = Some j \<or> r = ReasonReportDropped \<and> ic_LastSeenAt j = now"
    using Cons.IH [OF t1(2) Cons.prems(2)] Cons.prems(3) by auto
  have "close_all fresh now (a # rs) t = Some t2" by (simp add: i t1(1) t2(1))
  moreover have "\<forall>r j. map_of (tr_active t2) r = Some j \<longrightarrow>
       r \<notin> set (a # rs) \<and> map_of (tr_active t) r = Some j \<or> r = ReasonReportDropped \<and> ic_LastSeenAt j = now"
    using act act2 by (metis set_ConsD)
  ultimately show ?case using t2(2) same_config_trans [OF t1(3) t2(3)] by blast
qed (simp add: same_config_def)

lemma Snapshot_ok:
  assumes inv: "tracker_inv fresh t" and inj: "inj_fresh fresh"
  shows "\<exists>out t'. Snapshot fresh now t = Some (out, t') \<and> tracker_inv fresh t' \<and> same_config t t' \<and>
    out = sort_key snapshot_key (snapshot_list t') \<and>
    (\<forall>r j. map_of (tr_active t') r = Some j \<longrightarrow> time_sub now (ic_LastSeenAt j) \<le> max 0 (tr_silence t))"
proof -
  have wf: "wf_map (tr_active t)" by (rule tracker_invD(1) [OF inv])
  then have "distinct (expired_reasons now t)"
    unfolding expired_reasons_def by (rule distinct_map_filter)
  moreover have "\<forall>r \<in> set (expired_reasons now t). map_of (tr_active t) r \<noteq> None"
    by (auto simp: expired_reasons_def map_of_eq_None_iff)
  ultimately obtain t' where t': "close_all fresh now (expired_reasons now t) t = Some t'"
      "tracker_inv fresh t'" "same_config t t'"
    and act: "\<forall>r j. map_of (tr_active t') r = Some j \<longrightarrow>
       r \<notin> set (expired_reasons now t) \<and> map_of (tr_active t) r = Some j
         \<or> r = ReasonReportDropped \<and> ic_LastSeenAt j = now"
    using close_all_ok [OF inv inj, of "expired_reasons now t" now] by blast
  have "time_sub now (ic_LastSeenAt j) \<le> max 0 (tr_silence t)" if j: "map_of (tr_active t') r = Some j" for r j
  proof -
    consider "r \<notin> set (expired_reasons now t)" "map_of (tr_active t) r = Some j" | "ic_LastSeenAt j = now"
      using act j by blast
    then show ?thesis
    proof cases
      case 1
      then have "\<not> time_sub now (ic_LastSeenAt j) > tr_silence t"
        using map_of_in_set [OF 1(2)] by (force simp: expired_reasons_def)
      then show ?thesis by simp
    qed (simp add: time_sub_def max_duration_def min_duration_def)
  qed
  then show ?thesis using t' by (simp add: Snapshot_def)
qed

lemma Acknowledge_inv:
  assumes inv: "tracker_inv fresh t"
  shows "tracker_inv fresh (Acknowledge key revision terminal t)"
proof (cases "terminal \<and> (\<exists>i. map_of (tr_pending t) key = Some i \<and> ic_Revision i \<le> revision)")
  case True
  note I = tracker_invD [OF inv]
  let ?t = "t\<lparr>tr_pending := AList.delete key (tr_pending t), tr_order := remove1 key (tr_order t)\<rparr>"
  have "length (AList.delete key (tr_pending t)) \<le> tr_limit t"
    using I(6) length_delete_le [of key "tr_pending t"] by linarith
  then have "pending_inv fresh ?t"
    using I(2-5,7) unfolding pending_inv_def by (auto simp: set_remove1_eq simp del: map_of_eq_Some_iff)
  moreover have "active_inv fresh ?t"
    using inv unfolding tracker_inv_def active_inv_def by (auto dest: in_set_remove1 set_remove1_subset [THEN subsetD])
  ultimately show ?thesis using True by (auto simp: Acknowledge_def tracker_inv_def)
next
  case False
  then have "Acknowledge key revision terminal t = t"
    by (auto simp: Acknowledge_def simp del: map_of_eq_Some_iff split: option.split)
  then show ?thesis using inv by simp
qed

lemma Reset_inv: "tracker_inv fresh t \<Longrightarrow> tracker_inv fresh (Reset t)"
  by (auto simp: tracker_invs Reset_def)

text \<open>When the constructor succeeds: a known component, and an instance name or a random identity.\<close>

definition tracker_start_ok :: "fresh_ids \<Rightarrow> string \<Rightarrow> string \<Rightarrow> bool" where
  "tracker_start_ok fresh component instanceID \<longleftrightarrow> inj_fresh fresh \<and> Component_Valid component \<and>
     (instanceID \<noteq> '''' \<or> fresh 0 \<noteq> None)"

definition tracker_state_inv :: "fresh_ids \<Rightarrow> string \<Rightarrow> string \<Rightarrow> Tracker option \<Rightarrow> bool" where
  "tracker_state_inv fresh component instanceID s \<longleftrightarrow> tracker_start_ok fresh component instanceID \<longrightarrow>
     (\<exists>t. s = Some t \<and> tracker_inv fresh t \<and> tr_limit t = DefaultPendingLimit \<and>
        tr_silence t = DefaultSilencePeriod \<and> tr_component t = component)"


lemma tracker_step_ok:
  assumes "tracker_inv fresh t" and "inj_fresh fresh"
  shows "\<exists>t'. tracker_step fresh (Some t) op = Some t' \<and> tracker_inv fresh t' \<and> same_config t t'"
proof (cases op)
  case (TRecord reason affected ev detail now)
  then show ?thesis using Record_ok [OF assms] by simp
next
  case (TSnapshot now)
  then show ?thesis using Snapshot_ok [OF assms, of now] by auto
next
  case (TAcknowledge key revision terminal)
  then show ?thesis
    using Acknowledge_inv [OF assms(1)] by (auto simp: same_config_def Acknowledge_def split: option.split)
next
  case TReset
  then show ?thesis using Reset_inv [OF assms(1)] by (simp add: same_config_def Reset_def)
qed

interpretation tracker: machine "NewTracker fresh component instanceID" "tracker_step fresh" "\<lambda>_. True"
  "tracker_state_inv fresh component instanceID" for fresh component instanceID
proof
  show "tracker_state_inv fresh component instanceID (NewTracker fresh component instanceID)"
    by (auto simp: tracker_state_inv_def tracker_start_ok_def NewTracker_def Let_def tracker_invs DefaultPendingLimit_def)
next
  fix s op
  assume "tracker_state_inv fresh component instanceID s"
  then show "tracker_state_inv fresh component instanceID (tracker_step fresh s op)"
    using tracker_step_ok [of fresh _ op]
    by (fastforce simp: tracker_state_inv_def tracker_start_ok_def same_config_def)
qed

section \<open>Properties\<close>


text \<open>A snapshot lists every open and every pending incident exactly as stored, ordered by start
  time and key, and after it no open incident has been silent for longer than the silence period.\<close>

theorem Snapshot_complete:
  assumes "tracker_inv fresh t" and "inj_fresh fresh" and "tr_silence t = DefaultSilencePeriod"
  shows "\<exists>out t'. Snapshot fresh now t = Some (out, t') \<and> tracker_inv fresh t' \<and>
    mset out = mset (map snd (tr_active t')) + mset (map snd (tr_pending t')) \<and>
    sorted (map snapshot_key out) \<and>
    (\<forall>i \<in> snd ` set (tr_active t'). time_sub now (ic_LastSeenAt i) \<le> DefaultSilencePeriod)"
proof -
  obtain out t' where s: "Snapshot fresh now t = Some (out, t')" "tracker_inv fresh t'"
      "out = sort_key snapshot_key (snapshot_list t')"
    and act: "\<forall>r j. map_of (tr_active t') r = Some j \<longrightarrow> time_sub now (ic_LastSeenAt j) \<le> max 0 (tr_silence t)"
    using Snapshot_ok [OF assms(1,2), of now] by blast
  note I = tracker_invD [OF s(2)]
  have "mset (List.map_filter (map_of (tr_pending t')) (tr_order t')) = mset (map snd (tr_pending t'))"
    by (rule map_filter_map_of [OF I(2-4)])
  moreover have "\<forall>i \<in> snd ` set (tr_active t'). time_sub now (ic_LastSeenAt i) \<le> DefaultSilencePeriod"
    using act assms(3) I(1) by (auto simp: DefaultSilencePeriod_def)
  ultimately show ?thesis using s by (simp add: snapshot_list_def)
qed

text \<open>Only a terminal acknowledgement of at least the stored revision removes a pending incident;
  an acknowledgement of an older revision, a non-terminal one or one of another key changes nothing,
  and open incidents are never touched.\<close>

theorem Acknowledge_spec:
  "map_of (tr_pending (Acknowledge key revision terminal t)) k =
     (case map_of (tr_pending t) k of None \<Rightarrow> None
      | Some i \<Rightarrow> if k = key \<and> terminal \<and> ic_Revision i \<le> revision then None else Some i) \<and>
   tr_active (Acknowledge key revision terminal t) = tr_active t"
  by (auto simp: Acknowledge_def simp del: map_of_eq_Some_iff split: option.split)

section \<open>Details and their length\<close>

lemma truncate_ascii: "ascii s \<Longrightarrow> truncate_runes s n = take n s"
  using runes_to_string_ascii [of "take n s"]
  by (auto simp: truncate_runes_def Let_def runes_ascii take_map ascii_def list_all_iff dest: in_set_takeD)

lemma ascii_detail_fits: "ascii s \<Longrightarrow> length (truncate_runes s MaxDetailLength) \<le> MaxDetailLength"
  by (simp add: truncate_ascii)

text \<open>
  \<open>truncate\<close> counts runes, \<open>Validate\<close> counts bytes: a detail of 67 three-byte characters is not
  shortened and the incident that carries it does not validate.
\<close>

definition long_detail :: string where
  "long_detail = concat (replicate 67 [CHR 0xE6, CHR 0x8F, CHR 0x8F])"

definition long_detail_incident :: Incident where
  "long_detail_incident = \<lparr>ic_IncidentKey = ''k'', ic_ReporterInstanceID = ''pod-0'', ic_Revision = 1,
     ic_Component = ComponentWebhook, ic_Reason = ReasonQueueFull, ic_StartedAt = 1, ic_LastSeenAt = 1,
     ic_AffectedCount = 1, ic_SampleEventIDs = [], ic_Detail = truncate_runes long_detail MaxDetailLength,
     ic_Closed = False\<rparr>"

lemma truncated_detail_invalid: "Incident_Validate long_detail_incident = Some ''detail is too long''"
  by code_simp

section \<open>Witnesses\<close>

definition ex_fresh :: fresh_ids where
  "ex_fresh n = Some (replicate (Suc n) (CHR ''a''))"

lemma ex_fresh_inj: "inj_fresh ex_fresh"
  by (auto simp: inj_fresh_def ex_fresh_def)

lemma ex_tracker_start: "tracker_start_ok ex_fresh ComponentWebhook ''pod-0''"
  by (simp add: tracker_start_ok_def ex_fresh_inj Component_Valid_def)

definition ex_tracker_ops :: "tracker_op list" where
  "ex_tracker_ops = [TRecord ReasonQueueFull 1 ''e1'' ''full'' (1 * second),
     TRecord ReasonQueueFull 2 ''e2'' ''full'' (2 * second), TRecord ReasonAuthFailure 1 [] ''401'' (70 * second),
     TSnapshot (70 * second), TAcknowledge ''a'' 1 True]"


definition ex_tracker :: Tracker where
  "ex_tracker = the (NewTracker ex_fresh ComponentWebhook ''pod-0'')"

lemma ex_tracker_inv: "tracker_inv ex_fresh ex_tracker"
  by (simp add: ex_tracker_def NewTracker_def tracker_invs Component_Valid_def DefaultPendingLimit_def Let_def)

theorem Snapshot_complete_witness:
  "\<exists>out t'. Snapshot ex_fresh 5 ex_tracker = Some (out, t') \<and> tracker_inv ex_fresh t' \<and>
    mset out = mset (map snd (tr_active t')) + mset (map snd (tr_pending t'))"
proof -
  have "tr_silence ex_tracker = DefaultSilencePeriod"
    by (simp add: ex_tracker_def NewTracker_def Component_Valid_def Let_def)
  from Snapshot_complete [OF ex_tracker_inv ex_fresh_inj this, of 5] show ?thesis by blast
qed

end
