(* ===== verification/Event_Report.thy ===== *)
theory Event_Report
  imports Event_References Incident_Tracker "HOL-Library.Word"
begin

text \<open>
  The webhook's event reporter, \<^verbatim>\<open>internal/webhook/admission_events.go\<close>: the construction of an
  event from a response, its identifier, the bounded queue, the delivery loop with its retry timers
  and the classification of the operator's answer.

  The HTTP round trip is a parameter: \<open>http_outcome\<close> lists what \<open>deliver\<close> can observe of it.
  An incident handed to the observation reporter is an output of the step.
\<close>

unbundle bit_operations_syntax

section \<open>Event identifiers\<close>

definition crockford32 :: string where
  "crockford32 = ''0123456789ABCDEFGHJKMNPQRSTVWXYZ''"

definition crockford_digit :: "64 word \<Rightarrow> char" where
  "crockford_digit w = crockford32 ! unat (w AND 31)"

text \<open>The time part: the loop fills positions 9 down to 0 with the low five bits.\<close>

fun time_digits :: "nat \<Rightarrow> 64 word \<Rightarrow> string \<Rightarrow> string" where
  "time_digits 0 ms out = out"
| "time_digits (Suc n) ms out = time_digits n (drop_bit 5 ms) (crockford_digit ms # out)"

text \<open>The random part: a bit buffer \<open>value\<close> with \<open>bits\<close> unread bits.\<close>

fun emit_digits :: "64 word \<Rightarrow> nat \<Rightarrow> string \<times> nat" where
  "emit_digits value bits = (if bits \<ge> 5
     then (case emit_digits value (bits - 5) of (out, rest) \<Rightarrow>
       (crockford_digit (drop_bit (bits - 5) value) # out, rest))
     else ([], bits))"

declare emit_digits.simps [simp del]

fun random_digits :: "8 word list \<Rightarrow> 64 word \<Rightarrow> nat \<Rightarrow> string" where
  "random_digits [] value bits = []"
| "random_digits (b # bs) value bits =
    (let value = push_bit 8 value OR ucast b in
     case emit_digits value (bits + 8) of (out, rest) \<Rightarrow> out @ random_digits bs value rest)"

definition newAdmissionEventULID :: "64 word \<Rightarrow> 8 word list \<Rightarrow> string" where
  "newAdmissionEventULID ms random = time_digits 10 ms [] @ random_digits random 0 0"

section \<open>Events\<close>

record AdmissionEvent =
  ae_EventId :: string
  ae_RequestUid :: string
  ae_OccurredAt :: time
  ae_Verdict :: string
  ae_ApiGroup :: string
  ae_ApiVersion :: string
  ae_Resource :: string
  ae_Operation :: string
  ae_Namespace :: string
  ae_ResourceName :: string
  ae_Username :: string
  ae_UserGroups :: "string list"
  ae_PolicyNames :: "string list"
  ae_PolicyGroupNames :: "string list"
  ae_Violations :: "string list"
  ae_MetadataSnapshot :: "string option"
  ae_SpecSnapshot :: "string option"

record queuedEvent =
  qe_event :: AdmissionEvent
  qe_attempts :: nat

text \<open>An incident passed to the observation reporter: reason, event, detail.\<close>

record incident_note =
  no_reason :: string
  no_eventID :: string
  no_detail :: string

definition report_verdict :: "AdmissionResponse \<Rightarrow> string \<times> string list" where
  "report_verdict response =
    (if \<not> rp_Allowed response
     then (''deny'', case rp_Result response of None \<Rightarrow> rp_Warnings response | Some (_, msg) \<Rightarrow> [msg])
     else if length (rp_Warnings response) > 0 then (''audit'', rp_Warnings response)
     else ('''', rp_Warnings response))"

text \<open>\<open>unmarshalRaw\<close> is the decoding of the object into its top-level members.\<close>

definition make_event ::
  "(string \<Rightarrow> string smap) \<Rightarrow> string \<Rightarrow> time \<Rightarrow> AdmissionRequest \<Rightarrow> string \<Rightarrow> string list \<Rightarrow> AdmissionEvent" where
  "make_event unmarshalRaw eventId now req verdict violations =
    (let raw = unmarshalRaw (rq_ObjectRaw req); (policies, groups) = AdmissionEventReferences violations
     in \<lparr>ae_EventId = eventId, ae_RequestUid = rq_UID req, ae_OccurredAt = now, ae_Verdict = verdict,
         ae_ApiGroup = rq_Group req, ae_ApiVersion = rq_Version req, ae_Resource = rq_Resource req,
         ae_Operation = rq_Operation req, ae_Namespace = rq_Namespace req, ae_ResourceName = rq_Name req,
         ae_Username = rq_Username req, ae_UserGroups = rq_UserGroups req, ae_PolicyNames = policies,
         ae_PolicyGroupNames = groups, ae_Violations = violations,
         ae_MetadataSnapshot = map_of raw ''metadata'', ae_SpecSnapshot = map_of raw ''spec''\<rparr>)"

section \<open>The queue\<close>

definition maxWebhookDeliveryAttempts :: nat where "maxWebhookDeliveryAttempts = 4"
definition webhook_queue_capacity :: nat where "webhook_queue_capacity = 256"

text \<open>
  The reporter's state: the channel's buffer, the events waiting in a retry timer, and the number of
  identifiers drawn; the \<open>n\<close>-th call of \<open>newAdmissionEventULID\<close> gives \<open>ids n\<close>. The log
  \<open>rs_posts\<close> of delivery attempts is a ghost: no operation reads it.
\<close>

record reporter_state =
  rs_queue :: "queuedEvent list"
  rs_timers :: "queuedEvent list"
  rs_next :: nat
  rs_posts :: "string list"

definition NewHTTPAdmissionEventReporter :: reporter_state where
  "NewHTTPAdmissionEventReporter = \<lparr>rs_queue = [], rs_timers = [], rs_next = 0, rs_posts = []\<rparr>"

definition queue_full_note :: "queuedEvent \<Rightarrow> incident_note" where
  "queue_full_note q = \<lparr>no_reason = ReasonQueueFull, no_eventID = ae_EventId (qe_event q),
     no_detail = ''webhook admission event queue is full''\<rparr>"

text \<open>A non-blocking send on the channel.\<close>

definition try_enqueue :: "queuedEvent \<Rightarrow> reporter_state \<Rightarrow> reporter_state \<times> incident_note list" where
  "try_enqueue q s = (if length (rs_queue s) < webhook_queue_capacity
     then (s\<lparr>rs_queue := rs_queue s @ [q]\<rparr>, [])
     else (s, [queue_full_note q]))"

definition Report ::
  "(nat \<Rightarrow> string) \<Rightarrow> (string \<Rightarrow> string smap) \<Rightarrow> time \<Rightarrow> AdmissionRequest \<Rightarrow> AdmissionResponse \<Rightarrow> reporter_state
     \<Rightarrow> reporter_state \<times> incident_note list" where
  "Report ids unmarshalRaw now req response s =
    (case report_verdict response of (verdict, violations) \<Rightarrow>
      if verdict = '''' then (s, [])
      else try_enqueue \<lparr>qe_event = make_event unmarshalRaw (ids (rs_next s)) now req verdict violations,
             qe_attempts = 0\<rparr> (s\<lparr>rs_next := Suc (rs_next s)\<rparr>))"

section \<open>Delivery\<close>

datatype ack_status = ACCEPTED | DISCARDED | RETRYABLE

datatype response_body =
    BodyUnreadable
  | AckUnreadable
  | Acked "(string \<times> ack_status \<times> string) list"

datatype http_outcome =
    MarshalError
  | RequestError
  | TransportError
  | Responded int response_body

record eventDeliveryResult =
  dr_reason :: string
  dr_terminal :: bool
  dr_reachedOperator :: bool
  dr_dropped :: bool

definition retry_result :: "string \<Rightarrow> eventDeliveryResult" where
  "retry_result reason = \<lparr>dr_reason = reason, dr_terminal = False, dr_reachedOperator = False, dr_dropped = False\<rparr>"

definition read_ack :: "response_body \<Rightarrow> AdmissionEvent \<Rightarrow> eventDeliveryResult" where
  "read_ack body event = (case body of
      BodyUnreadable \<Rightarrow> retry_result ''ack_read_failed''
    | AckUnreadable \<Rightarrow> retry_result ''ack_invalid''
    | Acked results \<Rightarrow> (case results of
        [(eventId, status, reason)] \<Rightarrow>
          if eventId \<noteq> ae_EventId event then retry_result ''ack_invalid''
          else if status = ACCEPTED \<or> status = DISCARDED
            then (retry_result reason)\<lparr>dr_terminal := True, dr_reachedOperator := True\<rparr>
          else if reason \<noteq> '''' then retry_result reason
          else retry_result ''operator_retryable''
      | _ \<Rightarrow> retry_result ''ack_invalid''))"

definition deliver :: "http_outcome \<Rightarrow> AdmissionEvent \<Rightarrow> eventDeliveryResult" where
  "deliver outcome event = (case outcome of
      MarshalError \<Rightarrow> (retry_result ''marshal_failed'')\<lparr>dr_terminal := True, dr_dropped := True\<rparr>
    | RequestError \<Rightarrow> (retry_result ''request_build_failed'')\<lparr>dr_terminal := True, dr_dropped := True\<rparr>
    | TransportError \<Rightarrow> retry_result ''post_failed''
    | Responded code body \<Rightarrow> if code < 200 \<or> code \<ge> 300 then retry_result (HTTPFailureReason code)
        else read_ack body event)"

text \<open>One iteration of \<open>run\<close>, on the event at the head of the queue.\<close>

definition run_step :: "http_outcome \<Rightarrow> reporter_state \<Rightarrow> reporter_state \<times> incident_note list" where
  "run_step outcome s = (case rs_queue s of
      [] \<Rightarrow> (s, [])
    | q # rest \<Rightarrow>
        (let q = q\<lparr>qe_attempts := qe_attempts q + 1\<rparr>;
             s = s\<lparr>rs_queue := rest, rs_posts := ae_EventId (qe_event q) # rs_posts s\<rparr>;
             result = deliver outcome (qe_event q);
             note = (\<lambda>reason. \<lparr>no_reason = reason, no_eventID = ae_EventId (qe_event q),
               no_detail = dr_reason result\<rparr>)
         in if dr_terminal result
            then (s, if dr_dropped result then [note ReasonBatchFailure] else [])
            else if qe_attempts q \<ge> maxWebhookDeliveryAttempts
            then (s, [note ReasonRetryExhausted])
            else (s\<lparr>rs_timers := rs_timers s @ [q]\<rparr>, [])))"

text \<open>The timer of the \<open>i\<close>-th waiting event fires.\<close>

definition timer_step :: "nat \<Rightarrow> reporter_state \<Rightarrow> reporter_state \<times> incident_note list" where
  "timer_step i s = (if i < length (rs_timers s)
     then try_enqueue (rs_timers s ! i) (s\<lparr>rs_timers := take i (rs_timers s) @ drop (Suc i) (rs_timers s)\<rparr>)
     else (s, []))"

section \<open>The reporter as a state machine\<close>

datatype reporter_op =
    RReport "string \<Rightarrow> string smap" time AdmissionRequest AdmissionResponse
  | RRun http_outcome
  | RTimer nat

fun reporter_exec :: "(nat \<Rightarrow> string) \<Rightarrow> reporter_op \<Rightarrow> reporter_state \<Rightarrow> reporter_state \<times> incident_note list" where
  "reporter_exec ids (RReport unmarshalRaw now req resp) s = Report ids unmarshalRaw now req resp s"
| "reporter_exec ids (RRun outcome) s = run_step outcome s"
| "reporter_exec ids (RTimer i) s = timer_step i s"

definition reporter_step :: "(nat \<Rightarrow> string) \<Rightarrow> reporter_state \<Rightarrow> reporter_op \<Rightarrow> reporter_state" where
  "reporter_step ids s op = fst (reporter_exec ids op s)"

abbreviation event_id :: "queuedEvent \<Rightarrow> string" where
  "event_id q \<equiv> ae_EventId (qe_event q)"

definition live :: "reporter_state \<Rightarrow> queuedEvent list" where
  "live s = rs_queue s @ rs_timers s"

definition reporter_inv :: "(nat \<Rightarrow> string) \<Rightarrow> reporter_state \<Rightarrow> bool" where
  "reporter_inv ids s \<longleftrightarrow> inj ids \<longrightarrow>
     length (rs_queue s) \<le> webhook_queue_capacity \<and>
     distinct (map event_id (live s)) \<and>
     (\<forall>q \<in> set (live s). event_id q \<in> ids ` {..<rs_next s} \<and> qe_attempts q < maxWebhookDeliveryAttempts \<and>
        count_list (rs_posts s) (event_id q) = qe_attempts q) \<and>
     set (rs_posts s) \<subseteq> ids ` {..<rs_next s} \<and>
     (\<forall>k. count_list (rs_posts s) k \<le> maxWebhookDeliveryAttempts)"

lemma try_enqueue_simps:
  "rs_timers (fst (try_enqueue q s)) = rs_timers s" "rs_next (fst (try_enqueue q s)) = rs_next s"
  "rs_posts (fst (try_enqueue q s)) = rs_posts s"
  "set (live (fst (try_enqueue q s))) \<subseteq> insert q (set (live s))"
  by (auto simp: try_enqueue_def live_def)

lemma try_enqueue_inv:
  assumes "reporter_inv ids s" and "inj ids \<Longrightarrow> event_id q \<notin> event_id ` set (live s)"
    and "inj ids \<Longrightarrow> event_id q \<in> ids ` {..<rs_next s}" and "qe_attempts q < maxWebhookDeliveryAttempts"
    and "inj ids \<Longrightarrow> count_list (rs_posts s) (event_id q) = qe_attempts q"
  shows "reporter_inv ids (fst (try_enqueue q s))"
  using assms by (auto simp: reporter_inv_def try_enqueue_def live_def)

lemma count_list_notin: "k \<notin> set xs \<Longrightarrow> count_list xs k = 0"
  by (induction xs) auto

lemma Report_inv:
  assumes "reporter_inv ids s"
  shows "reporter_inv ids (fst (Report ids unmarshalRaw now req resp s))"
proof (cases "fst (report_verdict resp) = ''''")
  case True
  then show ?thesis using assms by (simp add: Report_def case_prod_unfold)
next
  case False
  let ?q = "\<lparr>qe_event = make_event unmarshalRaw (ids (rs_next s)) now req (fst (report_verdict resp))
      (snd (report_verdict resp)), qe_attempts = 0\<rparr>"
  let ?s = "s\<lparr>rs_next := Suc (rs_next s)\<rparr>"
  have id: "event_id ?q = ids (rs_next s)"
    by (simp add: make_event_def Let_def split: prod.split)
  have new: "ids (rs_next s) \<notin> ids ` {..<rs_next s}" if "inj ids"
    using that by (auto dest: injD)
  have "reporter_inv ids ?s"
    using assms by (auto simp: reporter_inv_def live_def lessThan_Suc)
  then have "reporter_inv ids (fst (try_enqueue ?q ?s))"
  proof (rule try_enqueue_inv)
    show "event_id ?q \<notin> event_id ` set (live ?s)" if "inj ids"
      unfolding id using assms new [OF that] that by (force simp: reporter_inv_def live_def)
    show "count_list (rs_posts ?s) (event_id ?q) = qe_attempts ?q" if "inj ids"
      unfolding id using assms new [OF that] that
      by (subst count_list_notin) (auto simp: reporter_inv_def)
  qed (use id in \<open>auto simp: maxWebhookDeliveryAttempts_def\<close>)
  then show ?thesis using False by (simp add: Report_def case_prod_unfold)
qed

lemma count_posts_Cons: "count_list (x # xs) k = (if x = k then Suc (count_list xs k) else count_list xs k)"
  by simp

lemma run_step_inv:
  assumes inv: "reporter_inv ids s"
  shows "reporter_inv ids (fst (run_step outcome s))"
proof (cases "rs_queue s")
  case Nil
  then show ?thesis using inv by (simp add: run_step_def)
next
  case (Cons q rest)
  let ?s = "s\<lparr>rs_queue := rest, rs_posts := event_id q # rs_posts s\<rparr>"
  have 1: "reporter_inv ids ?s"
    using inv Cons unfolding reporter_inv_def live_def maxWebhookDeliveryAttempts_def
    by (auto simp del: count_list.simps simp: count_posts_Cons)
  have 2: "reporter_inv ids (?s\<lparr>rs_timers := rs_timers s @ [q\<lparr>qe_attempts := qe_attempts q + 1\<rparr>]\<rparr>)"
    if "qe_attempts q + 1 < maxWebhookDeliveryAttempts"
    using inv 1 that Cons unfolding reporter_inv_def live_def by auto
  show ?thesis
    using 1 2 by (simp add: run_step_def Cons Let_def not_le)
qed

lemma take_drop_set: "i < length xs \<Longrightarrow> set xs = insert (xs ! i) (set (take i xs @ drop (Suc i) xs))"
  by (metis Un_insert_right id_take_nth_drop list.simps(15) set_append)

lemma timer_step_inv:
  assumes inv: "reporter_inv ids s"
  shows "reporter_inv ids (fst (timer_step i s))"
proof (cases "i < length (rs_timers s)")
  case False
  then show ?thesis using inv by (simp add: timer_step_def)
next
  case True
  let ?q = "rs_timers s ! i" and ?ts = "take i (rs_timers s) @ drop (Suc i) (rs_timers s)"
  have ts: "rs_timers s = take i (rs_timers s) @ ?q # drop (Suc i) (rs_timers s)"
    by (rule id_take_nth_drop [OF True])
  have "set (rs_timers s) = insert ?q (set ?ts)" by (rule take_drop_set [OF True])
  moreover have "distinct (map event_id (live s)) \<Longrightarrow> distinct (map event_id (rs_queue s @ ?ts)) \<and>
      event_id ?q \<notin> event_id ` set (rs_queue s @ ?ts)"
    unfolding live_def by (subst (asm) ts) auto
  ultimately have "reporter_inv ids (s\<lparr>rs_timers := ?ts\<rparr>)"
    and "inj ids \<Longrightarrow> event_id ?q \<notin> event_id ` set (live (s\<lparr>rs_timers := ?ts\<rparr>))"
    and "inj ids \<Longrightarrow> event_id ?q \<in> ids ` {..<rs_next s} \<and> qe_attempts ?q < maxWebhookDeliveryAttempts \<and>
       count_list (rs_posts s) (event_id ?q) = qe_attempts ?q"
    using inv by (auto simp: reporter_inv_def live_def)
  note facts = this
  show ?thesis
  proof (cases "inj ids")
    case inj: True
    show ?thesis
      using True facts(1) facts(2) [OF inj] facts(3) [OF inj]
      by (simp add: timer_step_def try_enqueue_inv)
  qed (simp add: reporter_inv_def)
qed

interpretation reporter: machine NewHTTPAdmissionEventReporter "reporter_step ids" "\<lambda>_. True" "reporter_inv ids"
  for ids
proof
  show "reporter_inv ids NewHTTPAdmissionEventReporter"
    by (simp add: reporter_inv_def NewHTTPAdmissionEventReporter_def live_def)
next
  fix s op
  assume "reporter_inv ids s"
  then show "reporter_inv ids (reporter_step ids s op)"
    by (cases op) (simp_all add: reporter_step_def Report_inv run_step_inv timer_step_inv)
qed

section \<open>Properties of the queue\<close>

text \<open>C27: The event queue never exceeds its capacity of 256 and no event is posted to the operator
  more than four times, whatever the operator answers and in whatever order the retry timers fire.\<close>

theorem delivery_bounded:
  assumes "inj ids"
  shows "let s = foldl (reporter_step ids) NewHTTPAdmissionEventReporter ops in
    length (rs_queue s) \<le> 256 \<and> (\<forall>k. count_list (rs_posts s) k \<le> 4) \<and>
    (\<forall>q \<in> set (rs_queue s @ rs_timers s). count_list (rs_posts s) (event_id q) = qe_attempts q)"
  using reporter.inv_run [of ops ids] assms
  by (simp add: Let_def reporter_inv_def live_def list_all_iff webhook_queue_capacity_def maxWebhookDeliveryAttempts_def)


section \<open>Identifiers sort by time\<close>

lemma unat_and_31: "unat (w AND 31 :: 64 word) = unat w mod 32"
proof -
  have "(31 :: 64 word) = mask 5" by (simp add: mask_eq_exp_minus_1)
  then have "w AND 31 = take_bit 5 w" by (simp add: take_bit_eq_mask)
  then have "unat (w AND 31) = take_bit 5 (unat w)" by (simp only: unsigned_take_bit_eq)
  then show ?thesis by (simp add: take_bit_eq_mod)
qed

lemma crockford_digit_nat: "crockford_digit w = crockford32 ! (unat w mod 32)"
  by (simp add: crockford_digit_def unat_and_31)

lemma crockford_length: "length crockford32 = 32"
  by (simp add: crockford32_def)

lemma crockford_digit_mem: "crockford_digit w \<in> set crockford32"
  by (simp add: crockford_digit_nat crockford_length)

fun nat_digits :: "nat \<Rightarrow> nat \<Rightarrow> string" where
  "nat_digits 0 m = []"
| "nat_digits (Suc n) m = nat_digits n (m div 32) @ [crockford32 ! (m mod 32)]"

lemma time_digits_nat: "time_digits n ms out = nat_digits n (unat ms) @ out"
proof (induction n arbitrary: ms out)
  case (Suc n)
  have "unat (drop_bit 5 ms) = unat ms div 32"
    unfolding unat_drop_bit_eq by (simp add: drop_bit_eq_div)
  then show ?case using Suc by (simp add: crockford_digit_nat)
qed simp

lemma nat_digits_length [simp]: "length (nat_digits n m) = n"
  by (induction n arbitrary: m) simp_all

lemma nat_digits_mem: "set (nat_digits n m) \<subseteq> set crockford32"
  by (induction n arbitrary: m) (auto simp: crockford_length)

lemma less_append_same_length:
  "length xs = length ys \<Longrightarrow> xs < ys \<Longrightarrow> xs @ as < ys @ (bs :: string)"
  by (induction xs ys rule: list_induct2) (auto simp: list_less_def)

lemma append_less_same: "(xs @ as < xs @ bs) = (as < (bs :: string))"
  by (induction xs) simp_all

lemma crockford_sorted: "sorted_wrt (<) crockford32"
  by code_simp

lemma nat_digits_less: "m < m' \<Longrightarrow> m' < 32 ^ n \<Longrightarrow> nat_digits n m < nat_digits n m'"
proof (induction n arbitrary: m m')
  case (Suc n)
  show ?case
  proof (cases "m div 32 < m' div 32")
    case True
    have "m' div 32 < 32 ^ n" using Suc.prems(2) by (simp add: less_mult_imp_div_less mult.commute)
    then show ?thesis using Suc.IH [OF True] by (simp add: less_append_same_length)
  next
    case False
    then have eq: "m div 32 = m' div 32" using Suc.prems(1) by (metis div_le_mono le_neq_implies_less less_imp_le)
    then have "m mod 32 < m' mod 32"
      using Suc.prems(1) by (metis add_less_cancel_left mult_div_mod_eq)
    then have "crockford32 ! (m mod 32) < crockford32 ! (m' mod 32)"
      by (intro sorted_wrt_nth_less [OF crockford_sorted]) (simp_all add: crockford_length)
    then show ?thesis using eq by (simp add: append_less_same)
  qed
qed simp

lemma emit_digits_shape:
  "length (fst (emit_digits v bits)) = bits div 5 \<and> snd (emit_digits v bits) = bits mod 5 \<and>
   set (fst (emit_digits v bits)) \<subseteq> set crockford32"
proof (induction bits rule: less_induct)
  case (less bits)
  show ?case
  proof (cases "bits \<ge> 5")
    case True
    then show ?thesis
      using less [of "bits - 5"]
      by (auto simp: emit_digits.simps [of v bits] case_prod_unfold crockford_digit_mem le_div_geq le_mod_geq)
  qed (simp add: emit_digits.simps [of v bits])
qed

lemma random_digits_shape:
  "bits < 5 \<Longrightarrow> length (random_digits bs v bits) = (bits + 8 * length bs) div 5 \<and>
     set (random_digits bs v bits) \<subseteq> set crockford32"
proof (induction bs arbitrary: v bits)
  case (Cons b bs)
  let ?v = "push_bit 8 v OR ucast b"
  have "length (random_digits bs ?v ((bits + 8) mod 5)) = ((bits + 8) mod 5 + 8 * length bs) div 5"
    "set (random_digits bs ?v ((bits + 8) mod 5)) \<subseteq> set crockford32"
    using Cons.IH [of "(bits + 8) mod 5" ?v] by simp_all
  moreover have "(bits + 8) div 5 + ((bits + 8) mod 5 + 8 * length bs) div 5 = (bits + 8 + 8 * length bs) div 5"
    by presburger
  ultimately show ?case
    using emit_digits_shape [of ?v "bits + 8"] by (simp add: Let_def case_prod_unfold)
qed simp

text \<open>An event identifier has 26 characters of the Crockford alphabet, and identifiers order by
  the millisecond they were drawn at, whatever the random bytes (until the year 37000).\<close>

theorem ULID_sortable:
  assumes "length random = 10" and "length random' = 10" and "unat ms < unat ms'" and "unat ms' < 2 ^ 50"
  shows "length (newAdmissionEventULID ms random) = 26 \<and>
    set (newAdmissionEventULID ms random) \<subseteq> set crockford32 \<and>
    newAdmissionEventULID ms random < newAdmissionEventULID ms' random'"
proof -
  have "nat_digits 10 (unat ms) < nat_digits 10 (unat ms')"
    using assms(3,4) by (intro nat_digits_less) simp_all
  then show ?thesis
    using assms(1) random_digits_shape [of 0 random 0] nat_digits_mem [of 10 "unat ms"]
    by (simp add: newAdmissionEventULID_def time_digits_nat less_append_same_length)
qed

section \<open>Witnesses\<close>

theorem ULID_sortable_witness:
  "newAdmissionEventULID 1700000000000 (replicate 10 255) = ''01HF7YAT00ZZZZZZZZZZZZZZZZ'' \<and>
   newAdmissionEventULID 1700000000000 (replicate 10 255) < newAdmissionEventULID 1700000000001 (replicate 10 0)"
proof
  show "newAdmissionEventULID 1700000000000 (replicate 10 255) = ''01HF7YAT00ZZZZZZZZZZZZZZZZ''" by code_simp
  show "newAdmissionEventULID 1700000000000 (replicate 10 255) < newAdmissionEventULID 1700000000001 (replicate 10 0)"
    using ULID_sortable [of "replicate 10 255" "replicate 10 0" 1700000000000 1700000000001] by simp
qed

definition ex_ids :: "nat \<Rightarrow> string" where
  "ex_ids n = replicate n (CHR ''x'')"

lemma ex_ids_inj: "inj ex_ids"
  by (rule injI) (simp add: ex_ids_def)

definition ex_resp :: AdmissionResponse where
  "ex_resp = \<lparr>rp_UID = ''u1'', rp_Allowed = False, rp_Result = Some (403, ''[no-root via base] root''), rp_Warnings = []\<rparr>"

definition ex_report_ops :: "reporter_op list" where
  "ex_report_ops = [RReport (\<lambda>_. []) 1 ex_req ex_resp, RRun TransportError, RTimer 0, RRun (Responded 503 BodyUnreadable)]"

theorem delivery_bounded_witness:
  "let s = foldl (reporter_step ex_ids) NewHTTPAdmissionEventReporter ex_report_ops in
    length (rs_queue s) \<le> 256 \<and> (\<forall>k. count_list (rs_posts s) k \<le> 4) \<and> map qe_attempts (rs_timers s) = [2]"
proof -
  have "map qe_attempts (rs_timers (foldl (reporter_step ex_ids) NewHTTPAdmissionEventReporter ex_report_ops)) = [2]"
    by code_simp
  then show ?thesis using delivery_bounded [OF ex_ids_inj, of ex_report_ops] by (simp add: Let_def)
qed

definition ex_reporter :: reporter_state where
  "ex_reporter = foldl (reporter_step ex_ids) NewHTTPAdmissionEventReporter [RReport (\<lambda>_. []) 1 ex_req ex_resp]"


end
