(* ===== verification/Kube_Api.thy ===== *)
theory Kube_Api
  imports Api_Types
begin

text \<open>
  What the reconcilers rely on of the Kubernetes API client: the kinds of error it distinguishes and
  \<^verbatim>\<open>retry.RetryOnConflict\<close>, which repeats an attempt while it fails with a conflict and attempts are
  left. The number of attempts is an argument. An attempt is numbered, so that what other clients do
  between two attempts can depend on it.
\<close>

datatype api_error = NotFound string | AlreadyExists string | Conflict string | OtherError string

primrec IsNotFound :: "api_error \<Rightarrow> bool" where
  "IsNotFound (NotFound _) = True"
| "IsNotFound (AlreadyExists _) = False"
| "IsNotFound (Conflict _) = False"
| "IsNotFound (OtherError _) = False"

primrec IsAlreadyExists :: "api_error \<Rightarrow> bool" where
  "IsAlreadyExists (NotFound _) = False"
| "IsAlreadyExists (AlreadyExists _) = True"
| "IsAlreadyExists (Conflict _) = False"
| "IsAlreadyExists (OtherError _) = False"

primrec IsConflict :: "api_error \<Rightarrow> bool" where
  "IsConflict (NotFound _) = False"
| "IsConflict (AlreadyExists _) = False"
| "IsConflict (Conflict _) = True"
| "IsConflict (OtherError _) = False"

primrec error_text :: "api_error \<Rightarrow> string" where
  "error_text (NotFound m) = m"
| "error_text (AlreadyExists m) = m"
| "error_text (Conflict m) = m"
| "error_text (OtherError m) = m"

definition IgnoreNotFound :: "api_error \<Rightarrow> string option" where
  "IgnoreNotFound e = (if IsNotFound e then None else Some (error_text e))"

type_synonym 's attempt = "nat \<Rightarrow> 's \<Rightarrow> 's \<times> api_error option"

fun retry_from :: "nat \<Rightarrow> nat \<Rightarrow> 's attempt \<Rightarrow> 's \<Rightarrow> 's \<times> api_error option" where
  "retry_from 0 i f s = (s, None)"
| "retry_from (Suc n) i f s = (case f i s of
      (s', None) \<Rightarrow> (s', None)
    | (s', Some e) \<Rightarrow> if IsConflict e \<and> 0 < n then retry_from n (Suc i) f s' else (s', Some e))"

definition RetryOnConflict :: "nat \<Rightarrow> 's attempt \<Rightarrow> 's \<Rightarrow> 's \<times> api_error option" where
  "RetryOnConflict steps f s = retry_from steps 0 f s"

text \<open>A property that every attempt keeps holds after the retries, and what one successful attempt
  establishes holds when they succeed.\<close>

lemma retry_from_rule:
  assumes "retry_from n i f s = (s', r)" "I s" "0 < n"
    and "\<And>j x x' e. I x \<Longrightarrow> f j x = (x', Some e) \<Longrightarrow> I x'"
    and "\<And>j x x'. I x \<Longrightarrow> f j x = (x', None) \<Longrightarrow> Q x'"
  shows "case r of None \<Rightarrow> Q s' | Some e \<Rightarrow> I s'"
  using assms
proof (induction n arbitrary: i s)
  case (Suc n)
  obtain x re where f: "f i s = (x, re)" by (cases "f i s")
  show ?case
  proof (cases re)
    case None
    then show ?thesis using Suc.prems f by auto
  next
    case (Some e)
    show ?thesis
    proof (cases "IsConflict e \<and> 0 < n")
      case True
      then have "retry_from n (Suc i) f x = (s', r)" using Suc.prems(1) f Some by simp
      then show ?thesis using Suc.IH [of "Suc i" x] Suc.prems(2,4,5) f Some True by blast
    next
      case False
      then show ?thesis using Suc.prems f Some by auto
    qed
  qed
qed simp

lemma RetryOnConflict_rule:
  assumes "RetryOnConflict n f s = (s', r)" "I s" "0 < n"
    and "\<And>j x x' e. I x \<Longrightarrow> f j x = (x', Some e) \<Longrightarrow> I x'"
    and "\<And>j x x'. I x \<Longrightarrow> f j x = (x', None) \<Longrightarrow> Q x'"
  shows "case r of None \<Rightarrow> Q s' | Some e \<Rightarrow> I s'"
  using retry_from_rule [where I = I and Q = Q] assms unfolding RetryOnConflict_def by blast

text \<open>An attempt that never conflicts is made once.\<close>

lemma RetryOnConflict_once:
  assumes "0 < n" "\<And>e. snd (f 0 s) = Some e \<Longrightarrow> \<not> IsConflict e"
  shows "RetryOnConflict n f s = f 0 s"
  using assms unfolding RetryOnConflict_def
  by (cases n) (auto split: prod.split option.split)

end
