(* ===== verification/Go_Time.thy ===== *)
theory Go_Time
  imports Go_Strings
begin

text \<open>
  Decimal printing (\<^verbatim>\<open>strconv.Itoa\<close>, the verb \<open>%d\<close>) and Go's \<^verbatim>\<open>time.ParseDuration\<close>. Durations
  are 64-bit nanosecond counts; every overflow check of the library is a branch here. The one
  floating-point product of the library, the contribution of a fraction such as \<open>.5h\<close>, is the
  argument \<open>frac\<close>: it gets the fraction's digits as a number, the unit and the power of ten.
\<close>

section \<open>Decimal numbers\<close>

definition digit_char :: "nat \<Rightarrow> char" where
  "digit_char d = ''0123456789'' ! d"

fun nat_string :: "nat \<Rightarrow> string" where
  "nat_string n = (if n < 10 then [digit_char n] else nat_string (n div 10) @ [digit_char (n mod 10)])"

declare nat_string.simps [simp del]

definition Itoa :: "int \<Rightarrow> string" where
  "Itoa i = (if i < 0 then CHR ''-'' # nat_string (nat (- i)) else nat_string (nat i))"

definition is_digit :: "char \<Rightarrow> bool" where
  "is_digit c \<longleftrightarrow> c \<in> set ''0123456789''"

definition digit_value :: "char \<Rightarrow> int" where
  "digit_value c = of_char c - of_char (CHR ''0'')"

lemma digit_char_facts: "d < 10 \<Longrightarrow> is_digit (digit_char d) \<and> digit_value (digit_char d) = int d"
proof -
  assume "d < 10"
  then have "d \<in> set [0..<10]" by simp
  moreover have "list_all (\<lambda>d. is_digit (digit_char d) \<and> digit_value (digit_char d) = int d) [0..<10]"
    by code_simp
  ultimately show ?thesis unfolding list_all_iff by blast
qed

lemma nat_string_digits: "list_all is_digit (nat_string n)"
proof (induction n rule: nat_string.induct)
  case (1 n)
  then show ?case by (subst nat_string.simps) (simp add: digit_char_facts)
qed

lemma nat_string_not_Nil [simp]: "nat_string n \<noteq> []"
  by (subst nat_string.simps) simp

section \<open>Durations\<close>

definition leading_int_step :: "char \<Rightarrow> int option \<Rightarrow> int option" where
  "leading_int_step c acc = (case acc of
      None \<Rightarrow> None
    | Some x \<Rightarrow> if x > (2 ^ 63) div 10 then None
        else let y = x * 10 + digit_value c in if y > 2 ^ 63 then None else Some y)"

text \<open>\<open>leadingInt\<close>: the number of the leading digits, \<open>None\<close> on overflow, and the rest.\<close>

definition leadingInt :: "string \<Rightarrow> int option \<times> string" where
  "leadingInt s = (fold leading_int_step (takeWhile is_digit s) (Some 0), dropWhile is_digit s)"

text \<open>\<open>leadingFraction\<close> ignores the digits after an overflow.\<close>

fun fraction_digits :: "string \<Rightarrow> int \<Rightarrow> int \<Rightarrow> int \<times> int" where
  "fraction_digits [] f scale = (f, scale)"
| "fraction_digits (c # cs) f scale =
    (if f > (2 ^ 63 - 1) div 10 then (f, scale)
     else let y = f * 10 + digit_value c in
       if y > 2 ^ 63 then (f, scale) else fraction_digits cs y (scale * 10))"

definition unit_value :: "string \<Rightarrow> int option" where
  "unit_value u = map_of
     [(''ns'', 1), (''us'', 1000), ([CHR 0xC2, CHR 0xB5, CHR ''s''], 1000),
      ([CHR 0xCE, CHR 0xBC, CHR ''s''], 1000), (''ms'', 1000000), (''s'', 1000000000),
      (''m'', 60000000000), (''h'', 3600000000000)] u"

type_synonym fraction_product = "int \<Rightarrow> int \<Rightarrow> int \<Rightarrow> int"

text \<open>One number with its unit: the nanoseconds it adds and the rest of the text.\<close>

definition duration_term :: "fraction_product \<Rightarrow> string \<Rightarrow> (int \<times> string) option" where
  "duration_term frac s =
    (if \<not> (hd s = CHR ''.'' \<or> is_digit (hd s)) then None
     else case leadingInt s of
       (None, _) \<Rightarrow> None
     | (Some v, s1) \<Rightarrow>
         (let pre = (length s1 \<noteq> length s);
              dot = (s1 \<noteq> [] \<and> hd s1 = CHR ''.'');
              digits = (if dot then takeWhile is_digit (tl s1) else []);
              s2 = (if dot then dropWhile is_digit (tl s1) else s1);
              (f, scale) = fraction_digits digits 0 1;
              u = takeWhile (\<lambda>c. \<not> (c = CHR ''.'' \<or> is_digit c)) s2;
              rest = dropWhile (\<lambda>c. \<not> (c = CHR ''.'' \<or> is_digit c)) s2
          in if \<not> pre \<and> digits = [] then None
             else if u = [] then None
             else case unit_value u of
               None \<Rightarrow> None
             | Some unit \<Rightarrow>
                 if v > (2 ^ 63) div unit then None
                 else let w = (if f > 0 then v * unit + frac f unit scale else v * unit)
                   in if f > 0 \<and> w > 2 ^ 63 then None else Some (w, rest)))"

lemma duration_term_shorter:
  assumes "s \<noteq> []" and "duration_term frac s = Some (w, rest)"
  shows "length rest < length s"
proof -
  let ?s1 = "dropWhile is_digit s"
  let ?s2 = "if ?s1 \<noteq> [] \<and> hd ?s1 = CHR ''.'' then dropWhile is_digit (tl ?s1) else ?s1"
  let ?P = "\<lambda>c. \<not> (c = CHR ''.'' \<or> is_digit c)"
  have rest: "rest = dropWhile ?P ?s2" "takeWhile ?P ?s2 \<noteq> []"
    using assms(2) by (auto simp: duration_term_def leadingInt_def Let_def case_prod_unfold
        split: if_splits option.splits)
  have "length ?s2 \<le> length s"
    using length_dropWhile_le [of is_digit s] length_dropWhile_le [of is_digit "tl ?s1"]
    by (auto simp: le_diff_conv)
  moreover have "length (takeWhile ?P ?s2) + length rest = length ?s2"
    unfolding rest(1) length_append [symmetric] takeWhile_dropWhile_id ..
  moreover have "0 < length (takeWhile ?P ?s2)" by (rule length_greater_0_conv [THEN iffD2, OF rest(2)])
  ultimately show ?thesis by linarith
qed

function duration_sum :: "fraction_product \<Rightarrow> string \<Rightarrow> int \<Rightarrow> int option" where
  "duration_sum frac s d =
    (if s = [] then Some d
     else case duration_term frac s of
       None \<Rightarrow> None
     | Some (v, rest) \<Rightarrow> if d + v > 2 ^ 63 then None else duration_sum frac rest (d + v))"
  by auto
termination
  by (relation "measure (\<lambda>(frac, s, d). length s)") (auto dest: duration_term_shorter)

declare duration_sum.simps [simp del]

definition ParseDuration :: "fraction_product \<Rightarrow> string \<Rightarrow> duration option" where
  "ParseDuration frac orig =
    (let signed = (orig \<noteq> [] \<and> (hd orig = CHR ''-'' \<or> hd orig = CHR ''+''));
         neg = (orig \<noteq> [] \<and> hd orig = CHR ''-'');
         s = (if signed then tl orig else orig)
     in if s = ''0'' then Some 0
        else if s = [] then None
        else case duration_sum frac s 0 of
          None \<Rightarrow> None
        | Some d \<Rightarrow> if neg then Some (- d) else if d > 2 ^ 63 - 1 then None else Some d)"

section \<open>Facts\<close>

lemma leading_int_step_None [simp]: "fold leading_int_step cs None = None"
  by (induction cs) (simp_all add: leading_int_step_def)

lemma leading_int_nonneg: "fold leading_int_step cs (Some x) = Some v \<Longrightarrow> list_all is_digit cs \<Longrightarrow> 0 \<le> x \<Longrightarrow> 0 \<le> v"
proof (induction cs arbitrary: x)
  case (Cons c cs)
  have c: "0 \<le> digit_value c" using Cons.prems(2) by (auto simp: is_digit_def digit_value_def)
  show ?case
  proof (cases "leading_int_step c (Some x)")
    case None
    then show ?thesis using Cons.prems(1) by simp
  next
    case (Some y)
    then have "0 \<le> y" using c Cons.prems(3) by (auto simp: leading_int_step_def Let_def split: if_splits)
    then show ?thesis using Cons.IH [of y] Cons.prems Some by simp
  qed
qed simp

lemma leadingInt_nonneg: "leadingInt s = (Some v, r) \<Longrightarrow> 0 \<le> v"
  unfolding leadingInt_def
  by (auto simp: list_all_iff dest: set_takeWhileD elim!: leading_int_nonneg)

lemma unit_value_pos: "unit_value u = Some x \<Longrightarrow> 0 < x"
  by (auto simp: unit_value_def split: if_splits)

text \<open>A parsed duration fits a 64-bit integer, for every product that is not negative.\<close>

lemma duration_term_nonneg:
  assumes frac: "\<And>f u s. 0 \<le> frac f u s" and t: "duration_term frac s = Some (w, rest)"
  shows "0 \<le> w"
proof -
  obtain v r where li: "leadingInt s = (Some v, r)"
    using t by (auto simp: duration_term_def split: if_splits prod.splits option.splits)
  have v: "0 \<le> v" using leadingInt_nonneg [OF li] .
  show ?thesis
    using t unfolding duration_term_def li Let_def case_prod_unfold
    by (simp split: if_splits option.splits) (auto simp: v frac dest!: unit_value_pos)
qed

lemma duration_sum_bounds:
  assumes "\<And>f u s. 0 \<le> frac f u s"
  shows "duration_sum frac s d = Some r \<Longrightarrow> 0 \<le> d \<Longrightarrow> d \<le> 2 ^ 63 \<Longrightarrow> 0 \<le> r \<and> r \<le> 2 ^ 63"
  using assms
proof (induction frac s d rule: duration_sum.induct)
  case (1 frac s d)
  note run = \<open>duration_sum frac s d = Some r\<close>
  show ?case
  proof (cases "s = []")
    case True
    then show ?thesis using run 1(3,4) by (simp add: duration_sum.simps)
  next
    case False
    with run obtain v rest where t: "duration_term frac s = Some (v, rest)" and le: "\<not> d + v > 2 ^ 63"
      and rec: "duration_sum frac rest (d + v) = Some r"
      by (subst (asm) duration_sum.simps) (auto split: if_splits option.splits)
    have "0 \<le> v" using duration_term_nonneg [OF 1(5) t] .
    then show ?thesis using 1(1) [OF False t refl le rec] 1(3,5) le by simp
  qed
qed

lemma ParseDuration_bounds:
  assumes "\<And>f u s. 0 \<le> frac f u s" and "ParseDuration frac s = Some d"
  shows "- (2 ^ 63) \<le> d \<and> d < 2 ^ 63"
proof -
  have "0 \<le> r \<and> r \<le> 2 ^ 63" if "duration_sum frac t 0 = Some r" for t r
    using duration_sum_bounds [OF assms(1) that] by simp
  note sum = this
  show ?thesis
    using assms(2) unfolding ParseDuration_def Let_def
    by (simp split: if_splits option.splits) (auto dest!: sum)
qed

section \<open>Parsing numbers\<close>

text \<open>The value of \<^verbatim>\<open>strconv.ParseInt(s, 10, 64)\<close> with the error dropped: 0 for a text that is not a
  number, the nearest bound for one out of range. The digits are read left to right, and an
  overflow stops the reading.\<close>

fun scan_uint :: "string \<Rightarrow> int \<Rightarrow> int option" where
  "scan_uint [] n = Some n"
| "scan_uint (c # cs) n =
    (if \<not> is_digit c then None
     else if n \<ge> (2 ^ 64 - 1) div 10 + 1 then Some (2 ^ 64 - 1)
     else let m = n * 10 + digit_value c in
       if m > 2 ^ 64 - 1 then Some (2 ^ 64 - 1) else scan_uint cs m)"

definition ParseInt :: "string \<Rightarrow> int" where
  "ParseInt s =
    (let neg = (s \<noteq> [] \<and> hd s = CHR ''-'');
         body = (if s \<noteq> [] \<and> (hd s = CHR ''-'' \<or> hd s = CHR ''+'') then tl s else s)
     in case (if body = [] then None else scan_uint body 0) of
          None \<Rightarrow> 0
        | Some un \<Rightarrow> if \<not> neg \<and> un \<ge> 2 ^ 63 then 2 ^ 63 - 1
            else if neg \<and> un > 2 ^ 63 then - (2 ^ 63)
            else if neg then - un else un)"

lemma digit_value_nonneg: "is_digit c \<Longrightarrow> 0 \<le> digit_value c"
  by (auto simp: is_digit_def digit_value_def)

lemma scan_uint_append:
  assumes "scan_uint s n = Some m" "m < 2 ^ 63" "is_digit c"
  shows "scan_uint (s @ [c]) n = Some (m * 10 + digit_value c) \<or> m * 10 + digit_value c \<ge> 2 ^ 64"
  using assms
proof (induction s n rule: scan_uint.induct)
  case (1 n)
  then show ?case using digit_value_nonneg [of c] by (auto simp: Let_def)
next
  case (2 c' cs n)
  then show ?case by (auto simp: Let_def split: if_splits)
qed

lemma digit_not_sign: "is_digit c \<Longrightarrow> c \<noteq> CHR ''-'' \<and> c \<noteq> CHR ''+''"
  by (auto simp: is_digit_def)

lemma scan_nat_string: "int n < 2 ^ 63 \<Longrightarrow> scan_uint (nat_string n) 0 = Some (int n)"
proof (induction n rule: nat_string.induct)
  case (1 n)
  show ?case
  proof (cases "n < 10")
    case True
    then show ?thesis
      using digit_char_facts [of n] by (subst nat_string.simps) (simp add: Let_def)
  next
    case False
    have d: "is_digit (digit_char (n mod 10))" "digit_value (digit_char (n mod 10)) = int (n mod 10)"
      using digit_char_facts [of "n mod 10"] by simp_all
    have IH: "scan_uint (nat_string (n div 10)) 0 = Some (int (n div 10))"
      using 1 False by simp
    have n: "int (n div 10) * 10 + int (n mod 10) = int n" by (simp add: zdiv_int zmod_int)
    show ?thesis
      using scan_uint_append [OF IH _ d(1)] 1(2) n
      by (subst nat_string.simps) (use False d(2) in auto)
  qed
qed

lemma ParseInt_Itoa: "0 \<le> i \<Longrightarrow> i < 2 ^ 63 \<Longrightarrow> ParseInt (Itoa i) = i"
proof -
  assume i: "0 \<le> i" "i < 2 ^ 63"
  have "list_all is_digit (nat_string (nat i))" by (rule nat_string_digits)
  then have "hd (nat_string (nat i)) \<noteq> CHR ''-''" "hd (nat_string (nat i)) \<noteq> CHR ''+''"
    using digit_not_sign by (cases "nat_string (nat i)"; auto)+
  then show ?thesis
    using i scan_nat_string [of "nat i"] by (simp add: ParseInt_def Itoa_def Let_def)
qed

lemma Itoa_inject: "0 \<le> i \<Longrightarrow> 0 \<le> j \<Longrightarrow> i < 2 ^ 63 \<Longrightarrow> j < 2 ^ 63 \<Longrightarrow> Itoa i = Itoa j \<longleftrightarrow> i = j"
  using ParseInt_Itoa by metis

end
