(* ===== verification/Policy_Reconcile.thy ===== *)
theory Policy_Reconcile
  imports Kube_Api Go_Time
begin

text \<open>
  The policy reconciler, \<^verbatim>\<open>internal/operator/policy_reconciler.go\<close>: snapshots of the specification
  as numbered \<^verbatim>\<open>PolicyVersion\<close> objects, the bounded search for a free number, pruning, rollback and
  the status. The API server holds the policy under reconciliation and all version objects by
  name; what can fail, what other clients do meanwhile, the Rego compiler and the clock are the
  environment's.
\<close>

section \<open>Environment and state\<close>

record policy_world =
  pw_policy :: "Policy option"
  pw_versions :: "PolicyVersion smap"

record policy_env =
  pe_get :: "api_error option"
  pe_compile :: "string \<Rightarrow> string option"
  pe_create :: "string \<Rightarrow> api_error option"
  pe_get_version :: "string \<Rightarrow> api_error option"
  pe_list :: "api_error option"
  pe_delete :: "string \<Rightarrow> api_error option"
  pe_patch :: "api_error option"
  pe_steps :: nat
  pe_meanwhile :: "nat \<Rightarrow> Policy option \<Rightarrow> Policy option"
  pe_get_again :: "nat \<Rightarrow> api_error option"
  pe_status_update :: "nat \<Rightarrow> api_error option"
  pe_now :: time

definition maxVersionCollisionRetries :: nat where
  "maxVersionCollisionRetries = 8"

definition policy_label :: string where "policy_label = ''kubesentry/policy''"
definition version_label :: string where "version_label = ''kubesentry/version''"

text \<open>The result of a pass: whether it asks for another one, and its error.\<close>

type_synonym pass_result = "bool \<times> string option"

section \<open>Snapshots\<close>

definition version_name :: "string \<Rightarrow> int \<Rightarrow> string" where
  "version_name policy v = policy @ ''-v'' @ Itoa v"

definition buildPolicyVersion :: "time \<Rightarrow> Policy \<Rightarrow> int \<Rightarrow> PolicyVersion" where
  "buildPolicyVersion now policy version =
    \<lparr>pver_Meta = \<lparr>om_Name = version_name (pol_Name policy) version, om_UID = '''',
       om_Labels = Some [(policy_label, pol_Name policy), (version_label, Itoa version)],
       om_Annotations = None, om_Generation = 0, om_CreationTimestamp = 0, om_DeletionTimestamp = None,
       om_Finalizers = [], om_ResourceVersion = '''',
       om_OwnerReferences = [\<lparr>or_APIVersion = ''kubesentry.io/v1alpha1'', or_Kind = ''Policy'',
         or_Name = pol_Name policy, or_UID = om_UID (pol_Meta policy)\<rparr>]\<rparr>,
     pver_Spec = \<lparr>pv_PolicyRef = pol_Name policy, pv_Version = version, pv_Rego = ps_Rego (pol_Spec policy),
       pv_Match = ps_Match (pol_Spec policy), pv_EnforcementMode = ps_EnforcementMode (pol_Spec policy),
       pv_CreatedAt = now, pv_CreatedBy = ''''\<rparr>\<rparr>"

definition policyVersionMatchesSpec :: "PolicyVersion \<Rightarrow> Policy \<Rightarrow> bool" where
  "policyVersionMatchesSpec pv policy \<longleftrightarrow> pv_Rego (pver_Spec pv) = ps_Rego (pol_Spec policy)
     \<and> pv_EnforcementMode (pver_Spec pv) = ps_EnforcementMode (pol_Spec policy)
     \<and> pv_Match (pver_Spec pv) = ps_Match (pol_Spec policy)"

text \<open>The loop of \<open>Reconcile\<close> with \<open>n\<close> attempts left: the settled version, or the error that ends
  the pass.\<close>

fun settle_version :: "policy_env \<Rightarrow> Policy \<Rightarrow> nat \<Rightarrow> int \<Rightarrow> PolicyVersion smap
    \<Rightarrow> (string + int) \<times> PolicyVersion smap" where
  "settle_version env policy 0 nextVersion vs =
    (Inl (''PolicyVersion creation could not converge after '' @ nat_string maxVersionCollisionRetries
          @ '' attempts (policy='' @ pol_Name policy @ '')''), vs)"
| "settle_version env policy (Suc n) nextVersion vs =
    (let pv = buildPolicyVersion (pe_now env) policy nextVersion;
         name = om_Name (pver_Meta pv);
         err = (case map_of vs name of Some _ \<Rightarrow> Some (AlreadyExists name) | None \<Rightarrow> pe_create env name)
     in case err of
          None \<Rightarrow> (Inr nextVersion, AList.update name pv vs)
        | Some e \<Rightarrow>
            if \<not> IsAlreadyExists e then (Inl (''create PolicyVersion: '' @ error_text e), vs)
            else (case (case pe_get_version env name of Some g \<Rightarrow> Inl g
                   | None \<Rightarrow> (case map_of vs name of Some x \<Rightarrow> Inr x | None \<Rightarrow> Inl (NotFound name))) of
                Inl g \<Rightarrow> (Inl (''get conflicting PolicyVersion '' @ [CHR 0x22] @ name @ [CHR 0x22] @ '': '' @ error_text g), vs)
              | Inr existing \<Rightarrow>
                  if policyVersionMatchesSpec existing policy then (Inr nextVersion, vs)
                  else settle_version env policy n (nextVersion + 1) vs))"

section \<open>Pruning and history\<close>

definition version_labels :: "PolicyVersion \<Rightarrow> labels" where
  "version_labels pv = label_set (om_Labels (pver_Meta pv))"

text \<open>A map access of a missing key gives the empty string.\<close>

definition label_value :: "labels \<Rightarrow> string \<Rightarrow> string" where
  "label_value ls k = (case map_of ls k of Some v \<Rightarrow> v | None \<Rightarrow> '''')"

definition version_number :: "PolicyVersion \<Rightarrow> int" where
  "version_number pv = ParseInt (label_value (version_labels pv) version_label)"

definition versions_of :: "string \<Rightarrow> PolicyVersion smap \<Rightarrow> PolicyVersion list" where
  "versions_of policy vs = filter (\<lambda>pv. map_of (version_labels pv) policy_label = Some policy) (map snd vs)"

fun delete_all :: "policy_env \<Rightarrow> PolicyVersion list \<Rightarrow> PolicyVersion smap \<Rightarrow> PolicyVersion smap \<times> api_error option" where
  "delete_all env [] vs = (vs, None)"
| "delete_all env (pv # pvs) vs = (case pe_delete env (om_Name (pver_Meta pv)) of
      Some e \<Rightarrow> (vs, Some e)
    | None \<Rightarrow> delete_all env pvs (AList.delete (om_Name (pver_Meta pv)) vs))"

definition pruneVersions :: "policy_env \<Rightarrow> nat \<Rightarrow> string \<Rightarrow> PolicyVersion smap \<Rightarrow> PolicyVersion smap \<times> api_error option" where
  "pruneVersions env limit policy vs = (case pe_list env of
      Some e \<Rightarrow> (vs, Some e)
    | None \<Rightarrow>
        (let items = versions_of policy vs
         in if length items \<le> limit then (vs, None)
            else delete_all env (take (length items - limit) (sort_key version_number items)) vs))"

definition buildHistory :: "nat \<Rightarrow> time \<Rightarrow> PolicyVersionSummary list \<Rightarrow> int \<Rightarrow> string \<Rightarrow> PolicyVersionSummary list" where
  "buildHistory limit now existing version phase =
    (let history = \<lparr>pvs_Version = version, pvs_CreatedAt = now, pvs_Phase = phase\<rparr> # existing
     in if length history > limit then take limit history else history)"

section \<open>Status\<close>

text \<open>One attempt: read the object as others left it, overwrite the fields this reconciler owns.\<close>

definition status_attempt :: "policy_env \<Rightarrow> PolicyStatus \<Rightarrow> (Policy option) attempt" where
  "status_attempt env desired i stored =
    (let now_stored = pe_meanwhile env i stored
     in case (case pe_get_again env i of Some e \<Rightarrow> Inl e
              | None \<Rightarrow> (case now_stored of None \<Rightarrow> Inl (NotFound '''') | Some p \<Rightarrow> Inr p)) of
          Inl e \<Rightarrow> (now_stored, Some e)
        | Inr latest \<Rightarrow>
            (let latest' = latest\<lparr>pol_Status := (pol_Status latest)\<lparr>
                   pst_Phase := pst_Phase desired, pst_Message := pst_Message desired,
                   pst_ObservedGeneration := pst_ObservedGeneration desired,
                   pst_CurrentVersion := pst_CurrentVersion desired,
                   pst_LastSyncTime := pst_LastSyncTime desired,
                   pst_VersionHistory := pst_VersionHistory desired\<rparr>\<rparr>
             in case pe_status_update env i of
                  Some e \<Rightarrow> (now_stored, Some e)
                | None \<Rightarrow> (Some latest', None)))"

definition updatePolicyStatus :: "policy_env \<Rightarrow> PolicyStatus \<Rightarrow> Policy option \<Rightarrow> Policy option \<times> api_error option" where
  "updatePolicyStatus env desired stored = RetryOnConflict (pe_steps env) (status_attempt env desired) stored"

definition setPolicyInvalid :: "policy_env \<Rightarrow> Policy \<Rightarrow> string \<Rightarrow> policy_world \<Rightarrow> policy_world \<times> pass_result" where
  "setPolicyInvalid env policy msg w =
    (let desired = (pol_Status policy)\<lparr>pst_Phase := PhaseInvalid, pst_Message := msg\<rparr>;
         (stored, err) = updatePolicyStatus env desired (pw_policy w)
     in (w\<lparr>pw_policy := stored\<rparr>, (False, map_option error_text err)))"

section \<open>Rollback and the pass\<close>

definition rollback_spec :: "PolicyVersion \<Rightarrow> PolicySpec \<Rightarrow> PolicySpec" where
  "rollback_spec pv s = s\<lparr>ps_Rego := pv_Rego (pver_Spec pv), ps_Match := pv_Match (pver_Spec pv),
     ps_EnforcementMode := pv_EnforcementMode (pver_Spec pv), ps_RollbackTo := None\<rparr>"

text \<open>The merge patch changes the specification of the stored object; a changed specification gets
  the next generation.\<close>

definition handleRollback :: "policy_env \<Rightarrow> Policy \<Rightarrow> int \<Rightarrow> policy_world \<Rightarrow> policy_world \<times> pass_result" where
  "handleRollback env policy targetVersion w = (case pe_list env of
      Some e \<Rightarrow> (w, (False, Some (error_text e)))
    | None \<Rightarrow>
        (case filter (\<lambda>pv. map_of (version_labels pv) version_label = Some (Itoa targetVersion))
            (versions_of (pol_Name policy) (pw_versions w)) of
           [] \<Rightarrow> setPolicyInvalid env policy (''rollback target version '' @ Itoa targetVersion @ '' not found'') w
         | pv # _ \<Rightarrow>
             (case pe_patch env of
                Some e \<Rightarrow> (w, (True, Some (error_text e)))
              | None \<Rightarrow>
                  (w\<lparr>pw_policy := Some (policy\<lparr>pol_Spec := rollback_spec pv (pol_Spec policy),
                       pol_Meta := (pol_Meta policy)\<lparr>om_Generation := om_Generation (pol_Meta policy) + 1\<rparr>\<rparr>)\<rparr>,
                   (True, None)))))"

text \<open>From a policy whose Rego compiles.\<close>

definition record_version :: "policy_env \<Rightarrow> nat \<Rightarrow> Policy \<Rightarrow> policy_world \<Rightarrow> policy_world \<times> pass_result" where
  "record_version env limit policy w =
    (case settle_version env policy maxVersionCollisionRetries (pst_CurrentVersion (pol_Status policy) + 1)
        (pw_versions w) of
       (Inl e, vs) \<Rightarrow> (w\<lparr>pw_versions := vs\<rparr>, (False, Some e))
     | (Inr nextVersion, vs) \<Rightarrow>
         (let (vs', _) = pruneVersions env limit (pol_Name policy) vs;
              desired = (pol_Status policy)\<lparr>pst_Phase := PhaseReady, pst_Message := '''',
                pst_CurrentVersion := nextVersion,
                pst_ObservedGeneration := om_Generation (pol_Meta policy), pst_LastSyncTime := Some (pe_now env),
                pst_VersionHistory := buildHistory limit (pe_now env) (pst_VersionHistory (pol_Status policy))
                  nextVersion PhaseReady\<rparr>;
              (stored, err) = updatePolicyStatus env desired (pw_policy w)
          in (w\<lparr>pw_policy := stored, pw_versions := vs'\<rparr>,
              (False, map_option (\<lambda>e. ''update status: '' @ error_text e) err))))"

definition Reconcile_policy :: "policy_env \<Rightarrow> nat \<Rightarrow> policy_world \<Rightarrow> policy_world \<times> pass_result" where
  "Reconcile_policy env limit w =
    (case (case pe_get env of Some e \<Rightarrow> Inl e
           | None \<Rightarrow> (case pw_policy w of None \<Rightarrow> Inl (NotFound '''') | Some p \<Rightarrow> Inr p)) of
       Inl e \<Rightarrow> (w, (False, IgnoreNotFound e))
     | Inr policy \<Rightarrow>
         (case ps_RollbackTo (pol_Spec policy) of
            Some v \<Rightarrow> handleRollback env policy v w
          | None \<Rightarrow>
              if pst_ObservedGeneration (pol_Status policy) = om_Generation (pol_Meta policy)
                 \<and> pst_Phase (pol_Status policy) = PhaseReady
              then (w, (False, None))
              else (case pe_compile env (ps_Rego (pol_Spec policy)) of
                      Some msg \<Rightarrow> setPolicyInvalid env policy msg w
                    | None \<Rightarrow> record_version env limit policy w)))"

section \<open>The search for a version number\<close>

lemma version_name_inject:
  "0 \<le> u \<Longrightarrow> 0 \<le> v \<Longrightarrow> u < 2 ^ 63 \<Longrightarrow> v < 2 ^ 63 \<Longrightarrow> version_name n u = version_name n v \<longleftrightarrow> u = v"
  by (simp add: version_name_def Itoa_inject)

lemma build_simps [simp]:
  "om_Name (pver_Meta (buildPolicyVersion t p v)) = version_name (pol_Name p) v"
  "version_labels (buildPolicyVersion t p v) = [(policy_label, pol_Name p), (version_label, Itoa v)]"
  "policyVersionMatchesSpec (buildPolicyVersion t p v) p"
  by (simp_all add: buildPolicyVersion_def version_labels_def label_set_def policyVersionMatchesSpec_def)

text \<open>A settled number lies in the probed range, its object holds the current specification, and no
  existing object was overwritten.\<close>

lemma settle_version_ok:
  "settle_version env p n v vs = (Inr k, vs') \<Longrightarrow>
     v \<le> k \<and> k < v + int n \<and> (\<exists>pv. map_of vs' (version_name (pol_Name p) k) = Some pv \<and> policyVersionMatchesSpec pv p)
     \<and> (vs' = vs \<or> (map_of vs (version_name (pol_Name p) k) = None
          \<and> vs' = AList.update (version_name (pol_Name p) k) (buildPolicyVersion (pe_now env) p k) vs))"
proof (induction env p n v vs rule: settle_version.induct)
  case (2 env p n v vs)
  let ?name = "version_name (pol_Name p) v"
  show ?case
  proof (cases "map_of vs ?name")
    case None
    then show ?thesis
      using 2(2) by (auto simp: Let_def split: option.splits if_splits)
  next
    case (Some x)
    show ?thesis
    proof (cases "policyVersionMatchesSpec x p")
      case True
      then show ?thesis using 2(2) Some by (auto simp: Let_def split: option.splits)
    next
      case False
      then have rec: "settle_version env p n (v + 1) vs = (Inr k, vs')"
        using 2(2) Some by (auto simp: Let_def split: option.splits)
      have "v + 1 \<le> k \<and> k < v + 1 + int n \<and> (\<exists>pv. map_of vs' (version_name (pol_Name p) k) = Some pv \<and> policyVersionMatchesSpec pv p)
        \<and> (vs' = vs \<or> (map_of vs (version_name (pol_Name p) k) = None
          \<and> vs' = AList.update (version_name (pol_Name p) k) (buildPolicyVersion (pe_now env) p k) vs))"
        by (rule 2(1) [OF refl refl refl _ _ _ _ rec, of "AlreadyExists ?name" x])
          (use Some False 2(2) in \<open>auto simp: Let_def split: option.splits\<close>)
      then show ?thesis by auto
    qed
  qed
qed simp

lemma settle_version_error: "settle_version env p n v vs = (Inl e, vs') \<Longrightarrow> vs' = vs"
  by (induction env p n v vs rule: settle_version.induct)
    (auto simp: Let_def split: option.splits if_splits)

definition stale :: "Policy \<Rightarrow> PolicyVersion smap \<Rightarrow> int \<Rightarrow> bool" where
  "stale p vs v = (case map_of vs (version_name (pol_Name p) v) of
      Some x \<Rightarrow> \<not> policyVersionMatchesSpec x p | None \<Rightarrow> False)"

lemma settle_version_step:
  assumes "\<And>n. pe_create env n = None" "\<And>n. pe_get_version env n = None"
  shows "settle_version env p (Suc n) v vs =
    (if stale p vs v then settle_version env p n (v + 1) vs
     else (Inr v, if map_of vs (version_name (pol_Name p) v) = None
                  then AList.update (version_name (pol_Name p) v) (buildPolicyVersion (pe_now env) p v) vs else vs))"
  using assms by (auto simp: stale_def Let_def split: option.split)

lemma settle_version_fails_iff:
  assumes "\<And>n. pe_create env n = None" "\<And>n. pe_get_version env n = None"
  shows "isl (fst (settle_version env p n v vs)) \<longleftrightarrow> (\<forall>i < n. stale p vs (v + int i))"
proof (induction n arbitrary: v)
  case (Suc n)
  have "(\<forall>i < Suc n. stale p vs (v + int i)) \<longleftrightarrow> stale p vs v \<and> (\<forall>i < n. stale p vs (v + 1 + int i))"
    by (auto simp: All_less_Suc2 algebra_simps)
  then show ?case
    unfolding settle_version_step [OF assms] using Suc by simp
qed simp

section \<open>Pruning\<close>

abbreviation pv_name :: "PolicyVersion \<Rightarrow> string" where
  "pv_name pv \<equiv> om_Name (pver_Meta pv)"

definition keyed :: "PolicyVersion smap \<Rightarrow> bool" where
  "keyed vs \<longleftrightarrow> wf_map vs \<and> list_all (\<lambda>(k, pv). k = pv_name pv) vs"

lemma keyed_Some: "keyed vs \<Longrightarrow> map_of vs k = Some pv \<Longrightarrow> pv_name pv = k"
  by (auto simp: keyed_def list_all_iff dest!: map_of_SomeD)

lemma keyed_names: "keyed vs \<Longrightarrow> map (pv_name \<circ> snd) vs = map fst vs"
  by (auto simp: keyed_def list_all_iff)

lemma delete_all_ok:
  assumes "\<And>n. pe_delete env n = None"
  shows "delete_all env pvs vs = (filter (\<lambda>(k, _). k \<notin> pv_name ` set pvs) vs, None)"
proof (induction pvs arbitrary: vs)
  case (Cons pv pvs)
  show ?case
    by (simp add: assms Cons.IH AList.delete_eq filter_filter) (metis (mono_tags, lifting) case_prod_unfold)
qed simp

lemma filter_not_take:
  assumes "distinct (map f xs)"
  shows "filter (\<lambda>x. f x \<notin> f ` set (take m xs)) xs = drop m xs"
proof -
  have d: "distinct (map f (take m xs) @ map f (drop m xs))"
    using assms by (metis append_take_drop_id map_append)
  then have "f x \<notin> f ` set (take m xs)" if "x \<in> set (drop m xs)" for x
    using that by auto
  then have "filter (\<lambda>x. f x \<notin> f ` set (take m xs)) (take m xs @ drop m xs) = drop m xs"
    unfolding filter_append by (auto simp: filter_empty_conv filter_id_conv)
  then show ?thesis by simp
qed

lemma versions_of_filter:
  assumes "keyed vs"
  shows "versions_of n (filter (\<lambda>(k, _). k \<notin> S) vs) = filter (\<lambda>pv. pv_name pv \<notin> S) (versions_of n vs)"
proof -
  have "\<forall>(k, pv) \<in> set vs. k = pv_name pv" using assms by (simp add: keyed_def list_all_iff)
  then show ?thesis unfolding versions_of_def by (induction vs) auto
qed

lemma versions_of_distinct: "keyed vs \<Longrightarrow> distinct (map pv_name (versions_of n vs))"
proof -
  assume k: "keyed vs"
  then have "distinct (map pv_name (map snd vs))" unfolding map_map keyed_names [OF k] by (simp add: keyed_def)
  then show ?thesis unfolding versions_of_def by (rule distinct_map_filter)
qed

text \<open>What pruning keeps: of one policy the \<open>limit\<close> versions with the largest numbers.\<close>

lemma pruneVersions_ok:
  assumes "pe_list env = None" "\<And>n. pe_delete env n = None" "keyed vs"
  obtains gone where
    "pruneVersions env limit policy vs = (filter (\<lambda>(k, _). k \<notin> pv_name ` set gone) vs, None)"
    and "mset (versions_of policy (fst (pruneVersions env limit policy vs))) + mset gone = mset (versions_of policy vs)"
    and "length gone = length (versions_of policy vs) - limit"
    and "\<forall>x \<in> set gone. \<forall>y \<in> set (versions_of policy (fst (pruneVersions env limit policy vs))).
           version_number x \<le> version_number y"
proof -
  define items where "items = versions_of policy vs"
  let ?ss = "sort_key version_number items"
  define gone where "gone = take (length items - limit) ?ss"
  have run: "pruneVersions env limit policy vs = (filter (\<lambda>(k, _). k \<notin> pv_name ` set gone) vs, None)"
    unfolding pruneVersions_def assms(1) option.case Let_def items_def [symmetric]
    by (simp add: delete_all_ok [OF assms(2)] gone_def)
  have d: "distinct (map pv_name ?ss)"
    using versions_of_distinct [OF assms(3), of policy] unfolding items_def
    by (metis distinct_map distinct_sort set_sort)
  have kept: "mset (versions_of policy (fst (pruneVersions env limit policy vs))) = mset (drop (length items - limit) ?ss)"
    unfolding run fst_conv versions_of_filter [OF assms(3)] items_def [symmetric]
      filter_not_take [OF d, of "length items - limit", symmetric] gone_def [symmetric]
    by (simp add: mset_filter)
  show ?thesis
  proof (rule that)
    show "mset (versions_of policy (fst (pruneVersions env limit policy vs))) + mset gone = mset (versions_of policy vs)"
      unfolding kept gone_def items_def [symmetric] by (metis append_take_drop_id mset_append mset_sort add.commute)
    have "sorted (map version_number (take (length items - limit) ?ss @ drop (length items - limit) ?ss))" by simp
    then show "\<forall>x \<in> set gone. \<forall>y \<in> set (versions_of policy (fst (pruneVersions env limit policy vs))).
           version_number x \<le> version_number y"
      unfolding mset_eq_setD [OF kept] gone_def map_append sorted_append by auto
  qed (simp_all add: run gone_def items_def)
qed

section \<open>Status updates\<close>

text \<open>An environment without failures: status updates may lose some races but not all of them, and
  the other writers of the policy's status only change \<open>referencedBy\<close>.\<close>

definition with_refs :: "string list \<Rightarrow> Policy \<Rightarrow> Policy" where
  "with_refs r p = p\<lparr>pol_Status := (pol_Status p)\<lparr>pst_ReferencedBy := r\<rparr>\<rparr>"

definition reliable :: "policy_env \<Rightarrow> bool" where
  "reliable env \<longleftrightarrow> pe_get env = None \<and> pe_list env = None \<and> pe_patch env = None
     \<and> (\<forall>n. pe_create env n = None) \<and> (\<forall>n. pe_get_version env n = None) \<and> (\<forall>n. pe_delete env n = None)
     \<and> (\<forall>i. pe_get_again env i = None)
     \<and> (\<forall>i p. \<exists>r. pe_meanwhile env i (Some p) = Some (with_refs r p))
     \<and> (\<exists>i < pe_steps env. (\<forall>j < i. \<exists>m. pe_status_update env j = Some (Conflict m)) \<and> pe_status_update env i = None)"

lemma owned_fields:
  "st\<lparr>pst_Phase := pst_Phase d, pst_Message := pst_Message d,
      pst_ObservedGeneration := pst_ObservedGeneration d, pst_CurrentVersion := pst_CurrentVersion d,
      pst_LastSyncTime := pst_LastSyncTime d, pst_VersionHistory := pst_VersionHistory d\<rparr>
   = d\<lparr>pst_ReferencedBy := pst_ReferencedBy st\<rparr>" for st d :: PolicyStatus
  by (rule PolicyStatus.equality) simp_all

lemma status_attempt_reliable:
  assumes "reliable env" "\<And>e. pe_status_update env i = Some e \<Longrightarrow> IsConflict e"
  shows "\<exists>r. status_attempt env d i (Some p) =
    (case pe_status_update env i of
       None \<Rightarrow> (Some (p\<lparr>pol_Status := d\<lparr>pst_ReferencedBy := r\<rparr>\<rparr>), None)
     | Some e \<Rightarrow> (Some (with_refs r p), Some e))"
proof -
  obtain r where "pe_meanwhile env i (Some p) = Some (with_refs r p)"
    using assms(1) unfolding reliable_def by blast
  then show ?thesis
    using assms(1) unfolding status_attempt_def Let_def reliable_def
    by (auto simp: owned_fields with_refs_def split: option.split)
qed

lemma with_refs_absorb [simp]: "(with_refs r p)\<lparr>pol_Status := s\<rparr> = p\<lparr>pol_Status := s\<rparr>"
  by (simp add: with_refs_def)

lemma retry_status_reliable:
  assumes "reliable env" "k \<le> i" "i < k + n"
    and "\<And>j. k \<le> j \<Longrightarrow> j < i \<Longrightarrow> \<exists>m. pe_status_update env j = Some (Conflict m)" "pe_status_update env i = None"
  shows "\<exists>r. retry_from n k (status_attempt env d) (Some p) = (Some (p\<lparr>pol_Status := d\<lparr>pst_ReferencedBy := r\<rparr>\<rparr>), None)"
  using assms(2-5)
proof (induction n arbitrary: k p)
  case (Suc n)
  show ?case
  proof (cases "k = i")
    case True
    then show ?thesis
      using status_attempt_reliable [OF assms(1), of i d p] Suc.prems(4) by auto
  next
    case False
    then obtain m where m: "pe_status_update env k = Some (Conflict m)" using Suc.prems(1,3) by force
    obtain r where att: "status_attempt env d k (Some p) = (Some (with_refs r p), Some (Conflict m))"
      using status_attempt_reliable [OF assms(1), of k d p] m by auto
    show ?thesis
      using Suc.IH [of "Suc k" "with_refs r p"] Suc.prems False att by auto
  qed
qed simp

lemma updatePolicyStatus_reliable:
  assumes "reliable env"
  shows "\<exists>r. updatePolicyStatus env d (Some p) = (Some (p\<lparr>pol_Status := d\<lparr>pst_ReferencedBy := r\<rparr>\<rparr>), None)"
proof -
  obtain i where "i < pe_steps env" "\<forall>j < i. \<exists>m. pe_status_update env j = Some (Conflict m)" "pe_status_update env i = None"
    using assms unfolding reliable_def by blast
  then show ?thesis
    using retry_status_reliable [OF assms, of 0 i "pe_steps env" d p]
    unfolding updatePolicyStatus_def RetryOnConflict_def by auto
qed

text \<open>The status update of the policy reconciler never loses what the group reconciler wrote:
  whatever conflicts occur and whatever other clients store between the attempts, a successful
  update keeps the \<open>referencedBy\<close> list, the specification and the metadata of the object it last
  read and replaces exactly the fields this reconciler owns.\<close>

theorem updatePolicyStatus_owns:
  assumes "updatePolicyStatus env desired stored = (stored', None)" "0 < pe_steps env"
  shows "\<exists>i x latest. pe_meanwhile env i x = Some latest
    \<and> stored' = Some (latest\<lparr>pol_Status := desired\<lparr>pst_ReferencedBy := pst_ReferencedBy (pol_Status latest)\<rparr>\<rparr>)"
proof -
  have "case None of None \<Rightarrow> (\<exists>i x latest. pe_meanwhile env i x = Some latest
    \<and> stored' = Some (latest\<lparr>pol_Status := desired\<lparr>pst_ReferencedBy := pst_ReferencedBy (pol_Status latest)\<rparr>\<rparr>))
    | Some (e :: api_error) \<Rightarrow> True"
    by (rule RetryOnConflict_rule [OF assms(1) [unfolded updatePolicyStatus_def] TrueI assms(2)])
      (auto simp: status_attempt_def Let_def owned_fields split: option.splits)
  then show ?thesis by simp
qed

section \<open>Version objects of one policy\<close>

text \<open>The objects of policy \<open>n\<close> carry its label, a number between 0 and \<open>most\<close> in their name and
  label, and no other object has such a name.\<close>

definition numbered :: "string \<Rightarrow> int \<Rightarrow> PolicyVersion smap \<Rightarrow> bool" where
  "numbered n most vs \<longleftrightarrow> keyed vs
     \<and> (\<forall>pv \<in> set (versions_of n vs). \<exists>v. 0 \<le> v \<and> v \<le> most \<and> pv_name pv = version_name n v
          \<and> map_of (version_labels pv) version_label = Some (Itoa v))
     \<and> (\<forall>(k, pv) \<in> set vs. (\<exists>v. k = version_name n v) \<longrightarrow> map_of (version_labels pv) policy_label = Some n)"

lemma numbered_keyed: "numbered n most vs \<Longrightarrow> keyed vs"
  by (simp add: numbered_def)

lemma numbered_own:
  assumes "numbered n most vs" "map_of vs (version_name n v) = Some pv"
  shows "pv \<in> set (versions_of n vs)"
  using assms map_of_SomeD [OF assms(2)] by (force simp: numbered_def versions_of_def)

lemma numbered_bound:
  assumes "numbered n most vs" "map_of vs (version_name n v) = Some pv" "0 \<le> v" "v < 2 ^ 63" "most < 2 ^ 63"
  shows "v \<le> most"
proof -
  obtain u where "0 \<le> u" "u \<le> most" "pv_name pv = version_name n u"
    using assms(1) numbered_own [OF assms(1,2)] unfolding numbered_def by blast
  moreover have "pv_name pv = version_name n v"
    using keyed_Some [OF numbered_keyed [OF assms(1)] assms(2)] .
  ultimately show ?thesis using version_name_inject [of u v n] assms(3-5) by simp
qed

lemma numbered_mono: "numbered n most vs \<Longrightarrow> most \<le> most' \<Longrightarrow> numbered n most' vs"
  unfolding numbered_def by (meson order_trans)

lemma numbered_create:
  assumes "numbered n most vs" "map_of vs (version_name n v) = None" "pol_Name p = n" "0 \<le> v" "most \<le> v"
  shows "numbered n v (AList.update (version_name n v) (buildPolicyVersion t p v) vs)"
proof -
  have fresh: "version_name n v \<notin> fst ` set vs" using assms(2) by (simp add: map_of_eq_None_iff)
  have upd: "AList.update (version_name n v) (buildPolicyVersion t p v) vs = vs @ [(version_name n v, buildPolicyVersion t p v)]"
    using fresh by (rule update_fresh)
  have "versions_of n (vs @ [(version_name n v, buildPolicyVersion t p v)]) = versions_of n vs @ [buildPolicyVersion t p v]"
    using assms(3) by (simp add: versions_of_def)
  then show ?thesis
    using numbered_mono [OF assms(1,5)] fresh assms(3,4) unfolding upd numbered_def
    by (auto simp: keyed_def policy_label_def version_label_def)
qed

lemma numbered_filter: "numbered n most vs \<Longrightarrow> numbered n most (filter (\<lambda>(k, _). k \<notin> S) vs)"
  by (auto simp: numbered_def versions_of_filter keyed_def list_all_iff distinct_map_filter)

lemma numbered_version_number:
  assumes "numbered n most vs" "pv \<in> set (versions_of n vs)" "most < 2 ^ 63"
  shows "0 \<le> version_number pv \<and> version_number pv \<le> most \<and> pv_name pv = version_name n (version_number pv)"
proof -
  obtain v where v: "0 \<le> v" "v \<le> most" "pv_name pv = version_name n v" "map_of (version_labels pv) version_label = Some (Itoa v)"
    using assms(1,2) unfolding numbered_def by blast
  then have "version_number pv = v" using assms(3) by (simp add: version_number_def label_value_def ParseInt_Itoa)
  then show ?thesis using v by simp
qed

text \<open>With at most one left-over snapshot the search succeeds at the first or second number, and
  the settled number is the largest.\<close>

lemma settle_version_numbered:
  assumes "reliable env" "numbered n (cur + 1) vs" "pol_Name p = n" "0 \<le> cur" "cur + 2 < 2 ^ 63"
  shows "\<exists>v vs1. settle_version env p maxVersionCollisionRetries (cur + 1) vs = (Inr v, vs1)
    \<and> cur < v \<and> v \<le> cur + 2 \<and> numbered n v vs1"
proof -
  have none: "pe_create env m = None" "pe_get_version env m = None" for m
    using assms(1) by (simp_all add: reliable_def)
  have retries: "maxVersionCollisionRetries = Suc (Suc 6)" by (simp add: maxVersionCollisionRetries_def)
  have two: "cur + 1 + 1 = cur + 2" by simp
  have absent: "map_of vs (version_name n (cur + 2)) = None"
    using numbered_bound [OF assms(2), of "cur + 2"] assms(4,5) by (cases "map_of vs (version_name n (cur + 2))") auto
  show ?thesis
  proof (cases "stale p vs (cur + 1)")
    case True
    then have "settle_version env p maxVersionCollisionRetries (cur + 1) vs =
      (Inr (cur + 2), AList.update (version_name n (cur + 2)) (buildPolicyVersion (pe_now env) p (cur + 2)) vs)"
      unfolding retries settle_version_step [OF none] two using absent assms(3) by (simp add: stale_def)
    moreover have "numbered n (cur + 2) (AList.update (version_name n (cur + 2)) (buildPolicyVersion (pe_now env) p (cur + 2)) vs)"
      by (rule numbered_create [OF assms(2) absent assms(3)]) (use assms(4) in auto)
    ultimately show ?thesis by auto
  next
    case False
    then show ?thesis
      unfolding retries settle_version_step [OF none]
      using assms numbered_create [OF assms(2) _ assms(3), of "cur + 1"] by auto
  qed
qed

lemma map_of_filter_key: "map_of (filter (\<lambda>(k, _). k \<notin> S) vs) k = (if k \<in> S then None else map_of vs k)"
  by (induction vs) auto

lemma prune_keeps_current:
  assumes "reliable env" "numbered n v vs" "map_of vs (version_name n v) = Some pv" "0 \<le> v" "v < 2 ^ 63" "1 \<le> limit"
  obtains vs' where "pruneVersions env limit n vs = (vs', None)" "numbered n v vs'"
    "map_of vs' (version_name n v) = Some pv" "length (versions_of n vs') \<le> limit"
    "\<And>k x. map_of vs' k = Some x \<Longrightarrow> map_of vs k = Some x"
    "\<And>k x. map_of vs k = Some x \<Longrightarrow> map_of (version_labels x) policy_label \<noteq> Some n \<Longrightarrow> map_of vs' k = Some x"
proof -
  have env: "pe_list env = None" "pe_delete env m = None" for m using assms(1) by (simp_all add: reliable_def)
  note keyed = numbered_keyed [OF assms(2)]
  obtain gone where run: "pruneVersions env limit n vs = (filter (\<lambda>(k, _). k \<notin> pv_name ` set gone) vs, None)"
    and split: "mset (versions_of n (fst (pruneVersions env limit n vs))) + mset gone = mset (versions_of n vs)"
    and len: "length gone = length (versions_of n vs) - limit"
    and le: "\<forall>x \<in> set gone. \<forall>y \<in> set (versions_of n (fst (pruneVersions env limit n vs))). version_number x \<le> version_number y"
    using pruneVersions_ok [OF env keyed] by blast
  define vs' kept where vs': "vs' = filter (\<lambda>(k, _). k \<notin> pv_name ` set gone) vs" and kept: "kept = versions_of n vs'"
  have split': "mset kept + mset gone = mset (versions_of n vs)" using split by (simp add: kept vs' run)
  have gone_own: "set gone \<subseteq> set (versions_of n vs)"
    using split' by (metis mset_eq_setD mset_append set_append sup_ge2)
  have sizes: "length kept + length gone = length (versions_of n vs)"
    using arg_cong [OF split', of size] by simp
  have own: "pv \<in> set (versions_of n vs)" by (rule numbered_own [OF assms(2,3)])
  have nm: "pv_name pv = version_name n v" by (rule keyed_Some [OF keyed assms(3)])
  have stays: "version_name n v \<notin> pv_name ` set gone"
  proof
    assume "version_name n v \<in> pv_name ` set gone"
    then obtain x where x: "x \<in> set gone" "pv_name x = version_name n v" by auto
    have "kept \<noteq> []" using sizes len assms(6) own by (cases "versions_of n vs") auto
    then obtain y where y: "y \<in> set kept" by (meson last_in_set)
    have y_in: "y \<in> set (versions_of n vs)" using y split' by (metis mset_append mset_eq_setD UnCI set_append)
    have "version_number x = v"
      using numbered_version_number [OF assms(2) subsetD [OF gone_own x(1)] assms(5)] x(2)
        version_name_inject [of "version_number x" v n] assms(4,5) by auto
    moreover have "version_number x \<le> version_number y" using le x(1) y by (simp add: kept vs' run)
    ultimately have "version_number y = v" "pv_name y = version_name n v"
      using numbered_version_number [OF assms(2) y_in assms(5)] by auto
    then have "pv_name y = pv_name x" using x(2) by simp
    moreover have "pv_name y \<notin> pv_name ` set gone"
      using y by (simp add: kept vs' versions_of_filter [OF keyed])
    ultimately show False using x(1) by auto
  qed
  show ?thesis
  proof (rule that)
    show "numbered n v vs'" unfolding vs' by (rule numbered_filter [OF assms(2)])
    show "map_of vs' (version_name n v) = Some pv"
      unfolding vs' using assms(3) stays keyed by (simp add: keyed_def map_of_filter_key)
    show "length (versions_of n vs') \<le> limit" using sizes len by (simp add: kept)
    show "map_of vs k = Some x" if "map_of vs' k = Some x" for k x
      using that keyed unfolding vs' by (simp add: keyed_def map_of_filter_key split: if_splits)
    show "map_of vs' k = Some x" if "map_of vs k = Some x" "map_of (version_labels x) policy_label \<noteq> Some n" for k x
    proof -
      have "k \<notin> pv_name ` set gone"
      proof
        assume "k \<in> pv_name ` set gone"
        then obtain z where z: "z \<in> set gone" "pv_name z = k" by auto
        then have "z \<in> snd ` set vs" using gone_own by (auto simp: versions_of_def)
        then have "(k, z) \<in> set vs" using keyed z(2) by (auto simp: keyed_def list_all_iff)
        then have "z = x" using that(1) keyed by (simp add: keyed_def)
        then show False using z(1) gone_own that(2) by (auto simp: versions_of_def)
      qed
      then show ?thesis unfolding vs' using that(1) keyed by (simp add: keyed_def map_of_filter_key)
    qed
  qed (simp add: run vs')
qed

section \<open>A pass\<close>

text \<open>The policy needs a new snapshot: no rollback is pending and the status is behind.\<close>

definition needs_version :: "Policy \<Rightarrow> bool" where
  "needs_version p \<longleftrightarrow> ps_RollbackTo (pol_Spec p) = None
     \<and> \<not> (pst_ObservedGeneration (pol_Status p) = om_Generation (pol_Meta p) \<and> pst_Phase (pol_Status p) = PhaseReady)"

text \<open>The state after a pass that recorded version \<open>v\<close> of policy \<open>p\<close>.\<close>

definition recorded :: "nat \<Rightarrow> Policy \<Rightarrow> int \<Rightarrow> policy_world \<Rightarrow> bool" where
  "recorded limit p v w \<longleftrightarrow>
     (\<exists>p'. pw_policy w = Some p' \<and> pol_Spec p' = pol_Spec p \<and> pol_Meta p' = pol_Meta p
        \<and> pst_Phase (pol_Status p') = PhaseReady \<and> pst_CurrentVersion (pol_Status p') = v
        \<and> pst_ObservedGeneration (pol_Status p') = om_Generation (pol_Meta p)
        \<and> length (pst_VersionHistory (pol_Status p')) \<le> limit)
     \<and> (\<exists>pv. map_of (pw_versions w) (version_name (pol_Name p) v) = Some pv \<and> policyVersionMatchesSpec pv p)
     \<and> numbered (pol_Name p) v (pw_versions w) \<and> length (versions_of (pol_Name p) (pw_versions w)) \<le> limit"

lemma record_version_ok:
  assumes "reliable env" "pw_policy w = Some p" "numbered (pol_Name p) (cur + 1) (pw_versions w)"
    and "cur = pst_CurrentVersion (pol_Status p)" "0 \<le> cur" "cur + 2 < 2 ^ 63" "1 \<le> limit"
  shows "\<exists>v w'. record_version env limit p w = (w', (False, None)) \<and> cur < v \<and> v \<le> cur + 2 \<and> recorded limit p v w'"
proof -
  let ?n = "pol_Name p"
  obtain v vs1 where settle: "settle_version env p maxVersionCollisionRetries (cur + 1) (pw_versions w) = (Inr v, vs1)"
    and v: "cur < v" "v \<le> cur + 2" and num: "numbered ?n v vs1"
    using settle_version_numbered [OF assms(1,3) refl assms(5,6)] by blast
  obtain pv where pv: "map_of vs1 (version_name ?n v) = Some pv" "policyVersionMatchesSpec pv p"
    using settle_version_ok [OF settle] by blast
  obtain vs' where vs': "pruneVersions env limit ?n vs1 = (vs', None)" "numbered ?n v vs'"
    "map_of vs' (version_name ?n v) = Some pv" "length (versions_of ?n vs') \<le> limit"
    using prune_keeps_current [OF assms(1) num pv(1)] v assms(5-7) by (metis dual_order.strict_trans1 less_imp_le order_le_less_trans)
  define d where "d = (pol_Status p)\<lparr>pst_Phase := PhaseReady, pst_Message := '''', pst_CurrentVersion := v,
    pst_ObservedGeneration := om_Generation (pol_Meta p), pst_LastSyncTime := Some (pe_now env),
    pst_VersionHistory := buildHistory limit (pe_now env) (pst_VersionHistory (pol_Status p)) v PhaseReady\<rparr>"
  obtain r where upd: "updatePolicyStatus env d (Some p) = (Some (p\<lparr>pol_Status := d\<lparr>pst_ReferencedBy := r\<rparr>\<rparr>), None)"
    using updatePolicyStatus_reliable [OF assms(1)] by blast
  let ?w = "w\<lparr>pw_policy := Some (p\<lparr>pol_Status := d\<lparr>pst_ReferencedBy := r\<rparr>\<rparr>), pw_versions := vs'\<rparr>"
  have run: "record_version env limit p w = (?w, (False, None))"
    unfolding record_version_def assms(4) [symmetric] settle
    by (simp add: Let_def vs'(1) assms(2) d_def [symmetric] upd)
  have "length (buildHistory limit t h v ph) \<le> limit" for t h ph
    by (simp add: buildHistory_def Let_def)
  then have "recorded limit p v ?w"
    using vs'(2-4) pv(2) unfolding recorded_def by (simp add: d_def)
  then show ?thesis using run v by blast
qed

lemma Reconcile_is_record:
  assumes "reliable env" "pw_policy w = Some p" "needs_version p" "pe_compile env (ps_Rego (pol_Spec p)) = None"
  shows "Reconcile_policy env limit w = record_version env limit p w"
  using assms by (auto simp: Reconcile_policy_def reliable_def needs_version_def)

text \<open>C36: A pass of the policy reconciler over a policy that needs a new version, in an environment
  without lasting failures and with at most one snapshot left over from an interrupted pass: it
  succeeds; the policy becomes Ready at its generation with its specification untouched; the version
  named in the status exists and holds that specification; the versions are numbered up to it, so
  the condition holds for the next pass; and at most \<open>limit\<close> versions and history entries remain.\<close>

theorem Reconcile_records_spec:
  assumes "reliable env" "pw_policy w = Some p" "needs_version p" "pe_compile env (ps_Rego (pol_Spec p)) = None"
    and "numbered (pol_Name p) (pst_CurrentVersion (pol_Status p) + 1) (pw_versions w)"
    and "0 \<le> pst_CurrentVersion (pol_Status p)" "pst_CurrentVersion (pol_Status p) + 2 < 2 ^ 63" "1 \<le> limit"
  shows "\<exists>v w'. Reconcile_policy env limit w = (w', (False, None)) \<and> pst_CurrentVersion (pol_Status p) < v
    \<and> v \<le> pst_CurrentVersion (pol_Status p) + 2 \<and> recorded limit p v w'"
  using record_version_ok [OF assms(1,2,5) refl assms(6-8)] Reconcile_is_record [OF assms(1-4)] by simp

lemma rollback_target:
  assumes "numbered n most vs" "most < 2 ^ 63" "map_of vs (version_name n t) = Some pv" "0 \<le> t" "t < 2 ^ 63"
  shows "\<exists>rest. filter (\<lambda>pv. map_of (version_labels pv) version_label = Some (Itoa t)) (versions_of n vs) = pv # rest"
proof -
  let ?P = "\<lambda>pv. map_of (version_labels pv) version_label = Some (Itoa t)"
  note keyed = numbered_keyed [OF assms(1)]
  have own: "pv \<in> set (versions_of n vs)" by (rule numbered_own [OF assms(1,3)])
  have name: "pv_name pv = version_name n t" by (rule keyed_Some [OF keyed assms(3)])
  have label: "?P x \<longleftrightarrow> pv_name x = version_name n t" if x: "x \<in> set (versions_of n vs)" for x
  proof -
    obtain u where u: "0 \<le> u" "u \<le> most" "pv_name x = version_name n u" "map_of (version_labels x) version_label = Some (Itoa u)"
      using assms(1) x unfolding numbered_def by blast
    have "u < 2 ^ 63" using u(2) assms(2) by (rule order_le_less_trans)
    then show ?thesis
      unfolding u(3,4) option.inject using u(1) assms(4,5) version_name_inject [of u t n] Itoa_inject [of u t] by blast
  qed
  have inj: "inj_on pv_name (set (versions_of n vs))"
    using versions_of_distinct [OF keyed, of n] by (simp add: distinct_map)
  have only: "x = pv" if "x \<in> set (filter ?P (versions_of n vs))" for x
    using inj_onD [OF inj _ _ own, of x] that label [of x] name by simp
  have "pv \<in> set (filter ?P (versions_of n vs))" using own label [OF own] name by simp
  then obtain a rest where f: "filter ?P (versions_of n vs) = a # rest"
    by (cases "filter ?P (versions_of n vs)") simp_all
  then have "a = pv" by (intro only) simp
  then show ?thesis using f by blast
qed

text \<open>C37: A rollback restores the version it names. Two passes of the reconciler over a policy with
  \<open>rollbackTo = t\<close> lead to a Ready policy with the Rego, match rules and enforcement mode of
  snapshot \<open>t\<close>, with the request cleared, and with a new current version that holds this content
  again; only the second pass runs the compiler.\<close>

theorem rollback_restores:
  assumes "reliable env" "pw_policy w = Some p" "ps_RollbackTo (pol_Spec p) = Some t"
    and "map_of (pw_versions w) (version_name (pol_Name p) t) = Some pv" "0 \<le> t" "t < 2 ^ 63"
    and "pe_compile env (pv_Rego (pver_Spec pv)) = None"
    and "pst_ObservedGeneration (pol_Status p) \<le> om_Generation (pol_Meta p)"
    and "numbered (pol_Name p) (pst_CurrentVersion (pol_Status p) + 1) (pw_versions w)"
    and "0 \<le> pst_CurrentVersion (pol_Status p)" "pst_CurrentVersion (pol_Status p) + 2 < 2 ^ 63" "1 \<le> limit"
  shows "\<exists>w1 w2 p' v pv'. Reconcile_policy env limit w = (w1, (True, None))
    \<and> Reconcile_policy env limit w1 = (w2, (False, None))
    \<and> pw_policy w2 = Some p' \<and> pst_Phase (pol_Status p') = PhaseReady \<and> ps_RollbackTo (pol_Spec p') = None
    \<and> policyVersionMatchesSpec pv p' \<and> pst_CurrentVersion (pol_Status p') = v
    \<and> map_of (pw_versions w2) (version_name (pol_Name p) v) = Some pv' \<and> policyVersionMatchesSpec pv' p'"
proof -
  obtain rest where target: "filter (\<lambda>pv. map_of (version_labels pv) version_label = Some (Itoa t))
      (versions_of (pol_Name p) (pw_versions w)) = pv # rest"
    using rollback_target [OF assms(9) _ assms(4-6)] assms(11) by auto
  define q where "q = p\<lparr>pol_Spec := rollback_spec pv (pol_Spec p),
    pol_Meta := (pol_Meta p)\<lparr>om_Generation := om_Generation (pol_Meta p) + 1\<rparr>\<rparr>"
  define w1 where "w1 = w\<lparr>pw_policy := Some q\<rparr>"
  have first: "Reconcile_policy env limit w = (w1, (True, None))"
    using assms(1-3) target by (simp add: Reconcile_policy_def handleRollback_def reliable_def w1_def q_def)
  have q: "needs_version q" "pol_Name q = pol_Name p" "pol_Status q = pol_Status p" "policyVersionMatchesSpec pv q"
    "ps_Rego (pol_Spec q) = pv_Rego (pver_Spec pv)" "ps_RollbackTo (pol_Spec q) = None"
    using assms(8) by (simp_all add: q_def needs_version_def rollback_spec_def policyVersionMatchesSpec_def pol_Name_def)
  obtain v w2 where second: "Reconcile_policy env limit w1 = (w2, (False, None))" and r: "recorded limit q v w2"
  proof -
    have "Reconcile_policy env limit w1 = record_version env limit q w1"
      by (rule Reconcile_is_record [OF assms(1) _ q(1)]) (simp_all add: w1_def q(5) assms(7))
    moreover have "\<exists>v w'. record_version env limit q w1 = (w', (False, None)) \<and> pst_CurrentVersion (pol_Status p) < v
        \<and> v \<le> pst_CurrentVersion (pol_Status p) + 2 \<and> recorded limit q v w'"
      by (rule record_version_ok [OF assms(1)]) (use assms(9-12) q(2,3) in \<open>simp_all add: w1_def\<close>)
    ultimately show ?thesis using that by auto
  qed
  from r obtain p' pv' where "pw_policy w2 = Some p'" and spec: "pol_Spec p' = pol_Spec q"
    and "pst_Phase (pol_Status p') = PhaseReady" "pst_CurrentVersion (pol_Status p') = v"
    and "map_of (pw_versions w2) (version_name (pol_Name p) v) = Some pv'" "policyVersionMatchesSpec pv' q"
    unfolding recorded_def q(2) by blast
  moreover have "policyVersionMatchesSpec x p' \<longleftrightarrow> policyVersionMatchesSpec x q" for x
    by (simp add: policyVersionMatchesSpec_def spec)
  ultimately show ?thesis using first second q(4,6) spec by (intro exI conjI) (assumption | simp)+
qed

lemma settle_version_first:
  assumes "\<And>n. pe_create env n = None" "\<And>n. pe_get_version env n = None"
  shows "settle_version env p n v vs = (Inr k, vs') \<Longrightarrow> v \<le> i \<Longrightarrow> i < k \<Longrightarrow> stale p vs i"
proof (induction n arbitrary: v)
  case (Suc n)
  then show ?case
    unfolding settle_version_step [OF assms] by (cases "i = v") (auto split: if_splits)
qed simp

text \<open>The search for a version number is bounded and never overwrites history. When the API
  server answers, it fails only if eight consecutive numbers are taken by snapshots of other
  content, and then changes nothing; otherwise it settles on the first number that is free or
  already holds the current specification, and every snapshot that existed before is unchanged.\<close>

theorem version_search:
  assumes "\<And>n. pe_create env n = None" "\<And>n. pe_get_version env n = None"
  shows "case settle_version env p maxVersionCollisionRetries v vs of
      (Inl e, vs') \<Rightarrow> vs' = vs \<and> (\<forall>i < 8. stale p vs (v + int i))
    | (Inr k, vs') \<Rightarrow> v \<le> k \<and> k < v + 8 \<and> (\<forall>i. v \<le> i \<and> i < k \<longrightarrow> stale p vs i)
        \<and> (\<exists>pv. map_of vs' (version_name (pol_Name p) k) = Some pv \<and> policyVersionMatchesSpec pv p)
        \<and> (\<forall>name x. map_of vs name = Some x \<longrightarrow> map_of vs' name = Some x)"
proof -
  obtain r vs' where run: "settle_version env p maxVersionCollisionRetries v vs = (r, vs')" by fastforce
  show ?thesis
  proof (cases r)
    case (Inl e)
    then show ?thesis
      using settle_version_error [of env p maxVersionCollisionRetries v vs e vs'] run
        settle_version_fails_iff [OF assms, of p maxVersionCollisionRetries v vs]
      by (simp add: maxVersionCollisionRetries_def)
  next
    case (Inr k)
    then have run': "settle_version env p maxVersionCollisionRetries v vs = (Inr k, vs')" using run by simp
    have "\<forall>i. v \<le> i \<and> i < k \<longrightarrow> stale p vs i" using settle_version_first [OF assms run'] by blast
    moreover have "map_of vs' name = Some x" if "map_of vs name = Some x" for name x
      using settle_version_ok [OF run'] that by auto
    ultimately show ?thesis
      using settle_version_ok [OF run'] unfolding run' by (simp add: maxVersionCollisionRetries_def)
  qed
qed

section \<open>Witnesses\<close>

definition ex_policy_env :: policy_env where
  "ex_policy_env = \<lparr>pe_get = None, pe_compile = (\<lambda>r. if r = '''' then Some ''empty'' else None), pe_create = (\<lambda>_. None),
     pe_get_version = (\<lambda>_. None), pe_list = None, pe_delete = (\<lambda>_. None), pe_patch = None, pe_steps = 4,
     pe_meanwhile = (\<lambda>i. map_option (with_refs [''g'' @ nat_string i])), pe_get_again = (\<lambda>_. None),
     pe_status_update = (\<lambda>i. if i = 0 then Some (Conflict ''changed'') else None), pe_now = 7\<rparr>"

definition ex_reconciled :: "string \<Rightarrow> int option \<Rightarrow> Policy" where
  "ex_reconciled rego rollback = \<lparr>pol_Meta = \<lparr>om_Name = ''p'', om_UID = ''u'', om_Labels = None, om_Annotations = None,
       om_Generation = 3, om_CreationTimestamp = 0, om_DeletionTimestamp = None, om_Finalizers = [],
       om_ResourceVersion = ''9'', om_OwnerReferences = []\<rparr>,
     pol_Spec = \<lparr>ps_Match = \<lparr>pm_Operations = [''CREATE''], pm_Resources = []\<rparr>, ps_EnforcementMode = ''enforce'',
       ps_Rego = rego, ps_Description = '''', ps_RollbackTo = rollback\<rparr>,
     pol_Status = \<lparr>pst_Phase = PhaseReady, pst_Message = '''', pst_CurrentVersion = 1, pst_ObservedGeneration = 2,
       pst_LastSyncTime = None, pst_VersionHistory = [], pst_ReferencedBy = []\<rparr>\<rparr>"

definition ex_policy_world :: "Policy \<Rightarrow> policy_world" where
  "ex_policy_world p = \<lparr>pw_policy = Some p,
     pw_versions = [(''p-v1'', buildPolicyVersion 1 (ex_reconciled ''old'' None) 1),
       (''p-v2'', buildPolicyVersion 2 (ex_reconciled ''stale'' None) 2)]\<rparr>"

lemma ex_reliable: "reliable ex_policy_env"
  unfolding reliable_def by (auto simp: ex_policy_env_def intro!: exI [of _ "1 :: nat"])

lemma ex_version_names: "version_name ''p'' 1 = ''p-v1''" "version_name ''p'' 2 = ''p-v2''"
  by code_simp+

lemma ex_reconciled_facts [simp]:
  "pol_Name (ex_reconciled r b) = ''p''" "pst_CurrentVersion (pol_Status (ex_reconciled r b)) = 1"
  "ps_Rego (pol_Spec (ex_reconciled r b)) = r" "ps_RollbackTo (pol_Spec (ex_reconciled r b)) = b"
  "pst_ObservedGeneration (pol_Status (ex_reconciled r b)) = 2" "om_Generation (pol_Meta (ex_reconciled r b)) = 3"
  by (simp_all add: ex_reconciled_def pol_Name_def)

lemma ex_numbered: "numbered ''p'' 2 (pw_versions (ex_policy_world p))"
proof -
  have "versions_of ''p'' (pw_versions (ex_policy_world p)) = map snd (pw_versions (ex_policy_world p))"
    by (simp add: ex_policy_world_def versions_of_def)
  then show ?thesis
    unfolding numbered_def keyed_def
    by (auto simp: ex_policy_world_def ex_version_names policy_label_def version_label_def
        intro: exI [of _ "1 :: int"] exI [of _ "2 :: int"])
qed

theorem Reconcile_records_spec_witness:
  "\<exists>v w'. Reconcile_policy ex_policy_env 20 (ex_policy_world (ex_reconciled ''new'' None)) = (w', (False, None))
     \<and> 1 < v \<and> v \<le> 3 \<and> recorded 20 (ex_reconciled ''new'' None) v w'"
  using Reconcile_records_spec [OF ex_reliable, of "ex_policy_world (ex_reconciled ''new'' None)" "ex_reconciled ''new'' None" 20]
    ex_numbered
  by (simp add: ex_policy_world_def needs_version_def ex_policy_env_def)

theorem rollback_restores_witness:
  "\<exists>w1 w2 p'. Reconcile_policy ex_policy_env 20 (ex_policy_world (ex_reconciled ''new'' (Some 1))) = (w1, (True, None))
     \<and> Reconcile_policy ex_policy_env 20 w1 = (w2, (False, None)) \<and> pw_policy w2 = Some p'
     \<and> policyVersionMatchesSpec (buildPolicyVersion 1 (ex_reconciled ''old'' None) 1) p'"
  using rollback_restores [OF ex_reliable, of "ex_policy_world (ex_reconciled ''new'' (Some 1))"
      "ex_reconciled ''new'' (Some 1)" 1 "buildPolicyVersion 1 (ex_reconciled ''old'' None) 1" 20] ex_numbered
  by (simp add: ex_policy_world_def ex_version_names ex_policy_env_def buildPolicyVersion_def) blast

theorem updatePolicyStatus_owns_witness:
  "\<exists>latest st. updatePolicyStatus ex_policy_env st (Some (ex_reconciled ''x'' None)) =
     (Some (latest\<lparr>pol_Status := st\<lparr>pst_ReferencedBy := pst_ReferencedBy (pol_Status latest)\<rparr>\<rparr>), None)"
proof -
  let ?st = "pol_Status (ex_reconciled ''y'' None)"
  obtain r where run: "updatePolicyStatus ex_policy_env ?st (Some (ex_reconciled ''x'' None)) = (r, None)"
    using updatePolicyStatus_reliable [OF ex_reliable] by blast
  have "0 < pe_steps ex_policy_env" by (simp add: ex_policy_env_def)
  then show ?thesis using updatePolicyStatus_owns [OF run] run by fastforce
qed

theorem version_search_witness:
  "(\<forall>n. pe_create ex_policy_env n = None \<and> pe_get_version ex_policy_env n = None)
   \<and> fst (settle_version ex_policy_env (ex_reconciled ''new'' None) maxVersionCollisionRetries 1
        (pw_versions (ex_policy_world (ex_reconciled ''new'' None)))) = Inr 3
   \<and> stale (ex_reconciled ''new'' None) (pw_versions (ex_policy_world (ex_reconciled ''new'' None))) 2"
proof -
  let ?p = "ex_reconciled ''new'' None" and ?vs = "pw_versions (ex_policy_world (ex_reconciled ''new'' None))"
  have env: "pe_create ex_policy_env n = None" "pe_get_version ex_policy_env n = None" for n
    by (simp_all add: ex_policy_env_def)
  have run: "fst (settle_version ex_policy_env ?p maxVersionCollisionRetries 1 ?vs) = Inr 3" by code_simp
  obtain vs' where "settle_version ex_policy_env ?p maxVersionCollisionRetries 1 ?vs = (Inr 3, vs')"
    using run by (metis prod.collapse)
  then have "stale ?p ?vs 2" using version_search [OF env, where p = ?p and v = 1 and vs = ?vs] by simp
  then show ?thesis using env run by simp
qed

end
