(* ===== verification/Group_Reconcile.thy ===== *)
theory Group_Reconcile
  imports Kube_Api Group_Resolve
begin

text \<open>
  The policy group reconciler, \<^verbatim>\<open>internal/operator/policygroup_reconciler.go\<close>: it stores the resolved
  members in the group's status and keeps \<open>status.referencedBy\<close> of the policies equal to the sorted
  names of the groups that resolve them. The API server holds groups and policies by name; the
  environment says which calls fail and in which order the map of touched policies is iterated.
\<close>

section \<open>Environment and state\<close>

record group_cluster =
  gc_groups :: "PolicyGroup smap"
  gc_policies :: "Policy smap"

record group_env =
  ge_get :: "api_error option"
  ge_update_group :: "api_error option"
  ge_get_again :: "nat \<Rightarrow> api_error option"
  ge_status_update :: "nat \<Rightarrow> api_error option"
  ge_list_policies :: "api_error option"
  ge_list_groups :: "api_error option"
  ge_policy_get :: "string \<Rightarrow> nat \<Rightarrow> api_error option"
  ge_policy_update :: "string \<Rightarrow> nat \<Rightarrow> api_error option"
  ge_order :: "string list \<Rightarrow> string list"
  ge_steps :: nat
  ge_now :: time
  ge_selector :: as_selector

definition policyGroupCleanupFinalizer :: string where
  "policyGroupCleanupFinalizer = ''kubesentry.io/policygroup-cleanup''"

definition deleting :: "PolicyGroup \<Rightarrow> bool" where
  "deleting g \<longleftrightarrow> om_DeletionTimestamp (grp_Meta g) \<noteq> None"

definition int32 :: "int \<Rightarrow> int" where
  "int32 x = (x + 2 ^ 31) mod 2 ^ 32 - 2 ^ 31"

section \<open>References\<close>

definition snapshotResolved :: "EffectiveMember list \<Rightarrow> string list" where
  "snapshotResolved ms = dedup (map em_Name ms)"

text \<open>The groups that count as references of one policy.\<close>

definition refers :: "string \<Rightarrow> PolicyGroup \<Rightarrow> bool" where
  "refers name g \<longleftrightarrow> \<not> deleting g \<and> list_ex (\<lambda>m. em_Name m = name) (gst_ResolvedPolicies (grp_Status g))"

definition collect_refs :: "PolicyGroup list \<Rightarrow> string \<Rightarrow> string list" where
  "collect_refs groups name = sort (map grp_Name (filter (refers name) groups))"

fun stringSlicesEqual :: "string list \<Rightarrow> string list \<Rightarrow> bool" where
  "stringSlicesEqual a b = (if length a \<noteq> length b then False else list_all (\<lambda>(x, y). x = y) (zip a b))"

declare stringSlicesEqual.simps [simp del]

definition refs_attempt :: "group_env \<Rightarrow> string \<Rightarrow> string list \<Rightarrow> (Policy smap) attempt" where
  "refs_attempt env name refs i ps =
    (case (case ge_policy_get env name i of Some e \<Rightarrow> Inl e
           | None \<Rightarrow> (case map_of ps name of None \<Rightarrow> Inl (NotFound name) | Some p \<Rightarrow> Inr p)) of
       Inl e \<Rightarrow> (ps, Some e)
     | Inr pol \<Rightarrow>
         if stringSlicesEqual (pst_ReferencedBy (pol_Status pol)) refs then (ps, None)
         else (case ge_policy_update env name i of
             Some e \<Rightarrow> (ps, Some e)
           | None \<Rightarrow> (AList.update name (pol\<lparr>pol_Status := (pol_Status pol)\<lparr>pst_ReferencedBy := refs\<rparr>\<rparr>) ps, None)))"

fun refresh_names :: "group_env \<Rightarrow> PolicyGroup list \<Rightarrow> string list \<Rightarrow> Policy smap \<Rightarrow> Policy smap \<times> string option" where
  "refresh_names env groups [] ps = (ps, None)"
| "refresh_names env groups (name # names) ps =
    (case RetryOnConflict (ge_steps env) (refs_attempt env name (collect_refs groups name)) ps of
       (ps', None) \<Rightarrow> refresh_names env groups names ps'
     | (ps', Some e) \<Rightarrow>
         if IsNotFound e then refresh_names env groups names ps'
         else (ps', Some (''update Policy '' @ [CHR 0x22] @ name @ [CHR 0x22] @ '' referencedBy: '' @ error_text e)))"

definition refreshReferencedBy ::
  "group_env \<Rightarrow> string list \<Rightarrow> string list \<Rightarrow> group_cluster \<Rightarrow> group_cluster \<times> string option" where
  "refreshReferencedBy env prev current c =
    (let touch = ge_order env (dedup (prev @ current))
     in case ge_list_groups env of
          Some e \<Rightarrow> (c, Some (''list PolicyGroups for referencedBy diff: '' @ error_text e))
        | None \<Rightarrow>
            (let (ps, err) = refresh_names env (map snd (gc_groups c)) touch (gc_policies c)
             in (c\<lparr>gc_policies := ps\<rparr>, err)))"

section \<open>Group objects\<close>

definition group_status_attempt :: "group_env \<Rightarrow> string \<Rightarrow> PolicyGroupStatus \<Rightarrow> (PolicyGroup smap) attempt" where
  "group_status_attempt env name desired i gs =
    (case (case ge_get_again env i of Some e \<Rightarrow> Inl e
           | None \<Rightarrow> (case map_of gs name of None \<Rightarrow> Inl (NotFound name) | Some g \<Rightarrow> Inr g)) of
       Inl e \<Rightarrow> (gs, Some e)
     | Inr latest \<Rightarrow>
         (case ge_status_update env i of
            Some e \<Rightarrow> (gs, Some e)
          | None \<Rightarrow> (AList.update name (latest\<lparr>grp_Status := desired\<rparr>) gs, None)))"

definition updateGroupStatus ::
  "group_env \<Rightarrow> string \<Rightarrow> PolicyGroupStatus \<Rightarrow> group_cluster \<Rightarrow> group_cluster \<times> api_error option" where
  "updateGroupStatus env name desired c =
    (let (gs, err) = RetryOnConflict (ge_steps env) (group_status_attempt env name desired) (gc_groups c)
     in (c\<lparr>gc_groups := gs\<rparr>, err))"

definition set_finalizers :: "string list \<Rightarrow> PolicyGroup \<Rightarrow> PolicyGroup" where
  "set_finalizers fs g = g\<lparr>grp_Meta := (grp_Meta g)\<lparr>om_Finalizers := fs\<rparr>\<rparr>"

text \<open>The API server drops an object that is being deleted when its last finalizer goes.\<close>

definition store_group :: "string \<Rightarrow> PolicyGroup \<Rightarrow> group_cluster \<Rightarrow> group_cluster" where
  "store_group name g c = (if deleting g \<and> om_Finalizers (grp_Meta g) = []
     then c\<lparr>gc_groups := AList.delete name (gc_groups c)\<rparr>
     else c\<lparr>gc_groups := AList.update name g (gc_groups c)\<rparr>)"

section \<open>The pass\<close>

definition disabled_status :: "PolicyGroup \<Rightarrow> PolicyGroupStatus" where
  "disabled_status g = (grp_Status g)\<lparr>gst_Phase := PhaseDisabled, gst_ResolvedCount := 0,
     gst_ResolvedPolicies := [], gst_Conditions := [], gst_ObservedGeneration := om_Generation (grp_Meta g)\<rparr>"

definition resolved_status :: "EffectiveMember list \<Rightarrow> Condition list \<Rightarrow> PolicyGroup \<Rightarrow> PolicyGroupStatus" where
  "resolved_status members conditions g = (grp_Status g)\<lparr>
     gst_Phase := (if length conditions > 0 then PhaseDegraded else PhaseReady),
     gst_ObservedGeneration := om_Generation (grp_Meta g), gst_ResolvedCount := int32 (int (length members)),
     gst_ResolvedPolicies := members, gst_Conditions := conditions\<rparr>"

definition write_and_refresh ::
  "group_env \<Rightarrow> string \<Rightarrow> string list \<Rightarrow> PolicyGroupStatus \<Rightarrow> string list \<Rightarrow> group_cluster \<Rightarrow> group_cluster \<times> string option" where
  "write_and_refresh env name prev desired current c =
    (case updateGroupStatus env name desired c of
       (c', Some e) \<Rightarrow> (c', Some (''update group status: '' @ error_text e))
     | (c', None) \<Rightarrow> refreshReferencedBy env prev current c')"

definition Reconcile_live ::
  "group_env \<Rightarrow> string \<Rightarrow> string list \<Rightarrow> PolicyGroup \<Rightarrow> group_cluster \<Rightarrow> group_cluster \<times> string option" where
  "Reconcile_live env name prev pg c =
    (if \<not> gs_Enabled (grp_Spec pg) then write_and_refresh env name prev (disabled_status pg) [] c
     else case ge_list_policies env of
       Some e \<Rightarrow> (c, Some (''list Policies: '' @ error_text e))
     | None \<Rightarrow>
         (let (members, conditions) = Resolve (ge_selector env) (ge_now env) (grp_Spec pg) (map snd (gc_policies c))
          in write_and_refresh env name prev (resolved_status members conditions pg) (map em_Name members) c))"

definition Reconcile_group :: "group_env \<Rightarrow> string \<Rightarrow> group_cluster \<Rightarrow> group_cluster \<times> string option" where
  "Reconcile_group env name c =
    (case (case ge_get env of Some e \<Rightarrow> Inl e
           | None \<Rightarrow> (case map_of (gc_groups c) name of None \<Rightarrow> Inl (NotFound name) | Some g \<Rightarrow> Inr g)) of
       Inl e \<Rightarrow> (c, IgnoreNotFound e)
     | Inr pg \<Rightarrow>
         (let prev = snapshotResolved (gst_ResolvedPolicies (grp_Status pg));
              fs = om_Finalizers (grp_Meta pg)
          in if deleting pg then
               (if policyGroupCleanupFinalizer \<notin> set fs then (c, None)
                else (case refreshReferencedBy env prev [] c of
                    (c', Some e) \<Rightarrow> (c', Some e)
                  | (c', None) \<Rightarrow>
                      (case ge_update_group env of
                         Some e \<Rightarrow> (c', Some (''remove policygroup finalizer: '' @ error_text e))
                       | None \<Rightarrow> (store_group name (set_finalizers (filter (\<lambda>f. f \<noteq> policyGroupCleanupFinalizer) fs) pg) c', None))))
             else if policyGroupCleanupFinalizer \<notin> set fs then
               (case ge_update_group env of
                  Some e \<Rightarrow> (c, Some (''add policygroup finalizer: '' @ error_text e))
                | None \<Rightarrow>
                    (let pg' = set_finalizers (fs @ [policyGroupCleanupFinalizer]) pg
                     in Reconcile_live env name prev pg' (store_group name pg' c)))
             else Reconcile_live env name prev pg c))"

section \<open>Which groups a policy event requeues\<close>

definition referencesPolicy :: "as_selector \<Rightarrow> PolicyGroup \<Rightarrow> Policy \<Rightarrow> bool" where
  "referencesPolicy asSelector g pol \<longleftrightarrow>
     list_ex (\<lambda>ref. ref_Name ref = pol_Name pol) (pgp_ByName (gs_Policies (grp_Spec g)))
     \<or> (case pgp_BySelector (gs_Policies (grp_Spec g)) of
          None \<Rightarrow> False
        | Some ls \<Rightarrow> (case asSelector ls of Inl _ \<Rightarrow> False | Inr sel \<Rightarrow> sel (label_set (pol_Labels pol))))"

definition findGroupsReferencing :: "as_selector \<Rightarrow> (api_error + PolicyGroup list) \<Rightarrow> Policy \<Rightarrow> string list" where
  "findGroupsReferencing asSelector listed pol = (case listed of
      Inl _ \<Rightarrow> []
    | Inr groups \<Rightarrow> map grp_Name (filter (\<lambda>g. referencesPolicy asSelector g pol
          \<or> list_ex (\<lambda>m. em_Name m = pol_Name pol) (gst_ResolvedPolicies (grp_Status g))) groups))"

section \<open>Accurate references\<close>

definition accurate :: "group_cluster \<Rightarrow> string \<Rightarrow> bool" where
  "accurate c n = (case map_of (gc_policies c) n of
      None \<Rightarrow> True
    | Some p \<Rightarrow> pst_ReferencedBy (pol_Status p) = collect_refs (map snd (gc_groups c)) n)"

text \<open>The server answers \<open>NotFound\<close> only for policies it does not hold, and the iteration of the
  touched names visits each of them.\<close>

definition honest :: "group_env \<Rightarrow> bool" where
  "honest env \<longleftrightarrow> (\<forall>n i e. ge_policy_get env n i = Some e \<longrightarrow> \<not> IsNotFound e)
     \<and> (\<forall>n i e. ge_policy_update env n i = Some e \<longrightarrow> \<not> IsNotFound e)
     \<and> (\<forall>xs. set (ge_order env xs) = set xs) \<and> 0 < ge_steps env"

lemma stringSlicesEqual_iff: "stringSlicesEqual a b \<longleftrightarrow> a = b"
  using list_all2_iff [of "(=)" a b] by (simp add: stringSlicesEqual.simps list_all_iff list.rel_eq)

lemma refs_attempt_Some:
  "refs_attempt env name refs i ps = (ps', Some e) \<Longrightarrow> honest env \<Longrightarrow> ps' = ps \<and> (IsNotFound e \<longrightarrow> map_of ps name = None)"
  by (auto simp: refs_attempt_def honest_def split: option.splits if_splits)

lemma refs_attempt_None:
  "refs_attempt env name refs i ps = (ps', None) \<Longrightarrow>
   (\<forall>k. k \<noteq> name \<longrightarrow> map_of ps' k = map_of ps k) \<and> (\<exists>p. map_of ps' name = Some p \<and> pst_ReferencedBy (pol_Status p) = refs)"
  by (auto simp: refs_attempt_def stringSlicesEqual_iff split: option.splits if_splits)

lemma retry_refs:
  assumes "RetryOnConflict (ge_steps env) (refs_attempt env name refs) ps = (ps', r)" "honest env"
    and "r = None \<or> (\<exists>e. r = Some e \<and> IsNotFound e)"
  shows "(\<forall>k. k \<noteq> name \<longrightarrow> map_of ps' k = map_of ps k)
    \<and> (\<forall>p. map_of ps' name = Some p \<longrightarrow> pst_ReferencedBy (pol_Status p) = refs)"
proof -
  have run: "retry_from n i (refs_attempt env name refs) ps = (ps', r) \<Longrightarrow> 0 < n \<Longrightarrow> ?thesis" for n i
  proof (induction n arbitrary: i)
    case (Suc n)
    obtain x re where att: "refs_attempt env name refs i ps = (x, re)" by (cases "refs_attempt env name refs i ps")
    show ?case
    proof (cases re)
      case None
      then show ?thesis using Suc.prems(1) att refs_attempt_None [of env name refs i ps x] by auto
    next
      case (Some e)
      then have x: "x = ps" "IsNotFound e \<Longrightarrow> map_of ps name = None"
        using refs_attempt_Some [of env name refs i ps x e] att assms(2) by auto
      show ?thesis
      proof (cases "IsConflict e \<and> 0 < n")
        case True
        then show ?thesis using Suc Some att x(1) by simp
      next
        case False
        then show ?thesis using Suc.prems(1) Some att x assms(3) by auto
      qed
    qed
  qed simp
  then show ?thesis using assms(1,2) unfolding RetryOnConflict_def honest_def by blast
qed

lemma refresh_names_ok:
  assumes "refresh_names env groups names ps = (ps', None)" "honest env"
  shows "(\<forall>k. k \<notin> set names \<longrightarrow> map_of ps' k = map_of ps k)
    \<and> (\<forall>k \<in> set names. \<forall>p. map_of ps' k = Some p \<longrightarrow> pst_ReferencedBy (pol_Status p) = collect_refs groups k)"
  using assms(1)
proof (induction names arbitrary: ps)
  case (Cons name names)
  let ?refs = "collect_refs groups name"
  obtain x r where att: "RetryOnConflict (ge_steps env) (refs_attempt env name ?refs) ps = (x, r)"
    by (cases "RetryOnConflict (ge_steps env) (refs_attempt env name ?refs) ps")
  have r: "r = None \<or> (\<exists>e. r = Some e \<and> IsNotFound e)"
    and rest: "refresh_names env groups names x = (ps', None)"
    using Cons.prems att by (auto split: option.splits if_splits)
  note one = retry_refs [OF att assms(2) r]
  show ?case
  proof (intro conjI allI ballI impI)
    fix k assume "k \<notin> set (name # names)"
    then show "map_of ps' k = map_of ps k" using Cons.IH [OF rest] one by simp
  next
    fix k p assume k: "k \<in> set (name # names)" and p: "map_of ps' k = Some p"
    show "pst_ReferencedBy (pol_Status p) = collect_refs groups k"
    proof (cases "k \<in> set names")
      case True
      then show ?thesis using Cons.IH [OF rest] p by blast
    next
      case False
      then show ?thesis using Cons.IH [OF rest] one k p by auto
    qed
  qed
qed simp

lemma refreshReferencedBy_ok:
  assumes "refreshReferencedBy env prev current c = (c', None)" "honest env"
  shows "gc_groups c' = gc_groups c"
    and "n \<in> set prev \<union> set current \<Longrightarrow> accurate c' n"
    and "n \<notin> set prev \<union> set current \<Longrightarrow> map_of (gc_policies c') n = map_of (gc_policies c) n"
proof -
  define touch where "touch = ge_order env (dedup (prev @ current))"
  have touch: "set touch = set prev \<union> set current" using assms(2) by (simp add: touch_def honest_def)
  obtain ps where ps: "refresh_names env (map snd (gc_groups c)) touch (gc_policies c) = (ps, None)"
    and c': "c' = c\<lparr>gc_policies := ps\<rparr>"
    using assms(1) by (auto simp: refreshReferencedBy_def touch_def Let_def split: option.splits prod.splits)
  note r = refresh_names_ok [OF ps assms(2)]
  show "gc_groups c' = gc_groups c" by (simp add: c')
  show "accurate c' n" if "n \<in> set prev \<union> set current"
    using r that by (auto simp: accurate_def c' touch split: option.split)
  show "map_of (gc_policies c') n = map_of (gc_policies c) n" if "n \<notin> set prev \<union> set current"
    using r that by (auto simp: c' touch)
qed

lemma collect_refs_update:
  assumes "map_of gs name = Some g" "wf_map gs" "refers n g' = refers n g" "grp_Name g' = grp_Name g"
  shows "collect_refs (map snd (AList.update name g' gs)) n = collect_refs (map snd gs) n"
proof -
  have "map grp_Name (filter (refers n) (map snd (AList.update name g' gs))) = map grp_Name (filter (refers n) (map snd gs))"
    using assms by (induction gs) auto
  then show ?thesis by (simp add: collect_refs_def)
qed

lemma collect_refs_delete:
  assumes "\<And>g. map_of gs name = Some g \<Longrightarrow> \<not> refers n g" "wf_map gs"
  shows "collect_refs (map snd (AList.delete name gs)) n = collect_refs (map snd gs) n"
proof -
  have "filter (refers n) (map snd (AList.delete name gs)) = filter (refers n) (map snd gs)"
    using assms
  proof (induction gs)
    case (Cons x gs)
    then show ?case
      by (cases x; cases "fst x = name") (auto simp: AList.delete_idem)
  qed simp
  then show ?thesis by (simp add: collect_refs_def)
qed

lemma refers_iff: "refers n g \<longleftrightarrow> \<not> deleting g \<and> n \<in> set (snapshotResolved (gst_ResolvedPolicies (grp_Status g)))"
  by (auto simp: refers_def snapshotResolved_def list_ex_iff)

text \<open>A status update that succeeds replaces the group's status and nothing else.\<close>

lemma updateGroupStatus_ok:
  assumes "updateGroupStatus env name desired c = (c', None)" "0 < ge_steps env"
  obtains g where "map_of (gc_groups c) name = Some g"
    "c' = c\<lparr>gc_groups := AList.update name (g\<lparr>grp_Status := desired\<rparr>) (gc_groups c)\<rparr>"
proof -
  obtain gs where gs: "RetryOnConflict (ge_steps env) (group_status_attempt env name desired) (gc_groups c) = (gs, None)"
    and c': "c' = c\<lparr>gc_groups := gs\<rparr>"
    using assms(1) by (auto simp: updateGroupStatus_def split: prod.splits)
  have "case None of None \<Rightarrow> (\<exists>g. map_of (gc_groups c) name = Some g
      \<and> gs = AList.update name (g\<lparr>grp_Status := desired\<rparr>) (gc_groups c)) | Some (e :: api_error) \<Rightarrow> gs = gc_groups c"
    by (rule RetryOnConflict_rule [where I = "\<lambda>x. x = gc_groups c", OF gs refl assms(2)])
      (auto simp: group_status_attempt_def split: option.splits)
  then show ?thesis using that c' by auto
qed

lemma write_and_refresh_ok:
  assumes "write_and_refresh env name prev desired current c = (c', None)" "honest env"
    and "wf_map (gc_groups c)" "map_of (gc_groups c) name = Some g" "\<not> deleting g"
    and "set prev = set (snapshotResolved (gst_ResolvedPolicies (grp_Status g)))"
    and "set current = set (snapshotResolved (gst_ResolvedPolicies desired))"
    and "\<And>n. n \<notin> set prev \<Longrightarrow> accurate c n"
  shows "accurate c' n"
proof -
  have steps: "0 < ge_steps env" using assms(2) by (simp add: honest_def)
  obtain c1 where c1: "updateGroupStatus env name desired c = (c1, None)"
    and ref: "refreshReferencedBy env prev current c1 = (c', None)"
    using assms(1) by (auto simp: write_and_refresh_def split: prod.splits option.splits)
  have c1': "c1 = c\<lparr>gc_groups := AList.update name (g\<lparr>grp_Status := desired\<rparr>) (gc_groups c)\<rparr>"
    using updateGroupStatus_ok [OF c1 steps] assms(4) by auto
  note r = refreshReferencedBy_ok [OF ref assms(2)]
  show ?thesis
  proof (cases "n \<in> set prev \<union> set current")
    case True
    then show ?thesis by (rule r(2))
  next
    case False
    then have "refers n (g\<lparr>grp_Status := desired\<rparr>) = refers n g"
      using assms(6,7) by (simp add: refers_iff deleting_def)
    then have "collect_refs (map snd (gc_groups c')) n = collect_refs (map snd (gc_groups c)) n"
      unfolding r(1) c1' using collect_refs_update [OF assms(4,3), of n] by (simp add: grp_Name_def)
    then show ?thesis
      using assms(8) [of n] False r(3) [of n] by (simp add: accurate_def c1' split: option.splits)
  qed
qed

lemma Reconcile_live_ok:
  assumes "Reconcile_live env name prev g c = (c', None)" "honest env"
    and "wf_map (gc_groups c)" "map_of (gc_groups c) name = Some g" "\<not> deleting g"
    and "set prev = set (snapshotResolved (gst_ResolvedPolicies (grp_Status g)))"
    and "\<And>n. n \<notin> set prev \<Longrightarrow> accurate c n"
  shows "accurate c' n"
proof (cases "gs_Enabled (grp_Spec g)")
  case False
  then have "write_and_refresh env name prev (disabled_status g) [] c = (c', None)"
    using assms(1) by (simp add: Reconcile_live_def)
  then show ?thesis
    by (rule write_and_refresh_ok) (use assms in \<open>auto simp: disabled_status_def snapshotResolved_def\<close>)
next
  case True
  let ?res = "Resolve (ge_selector env) (ge_now env) (grp_Spec g) (map snd (gc_policies c))"
  have "write_and_refresh env name prev (resolved_status (fst ?res) (snd ?res) g) (map em_Name (fst ?res)) c = (c', None)"
    using assms(1) True by (auto simp: Reconcile_live_def case_prod_unfold Let_def split: option.splits)
  then show ?thesis
    by (rule write_and_refresh_ok) (use assms in \<open>auto simp: resolved_status_def snapshotResolved_def\<close>)
qed

lemma finalizer_update_ok:
  assumes "wf_map (gc_groups c)" "map_of (gc_groups c) name = Some g" "\<not> deleting g" "accurate c n"
  shows "accurate (store_group name (set_finalizers fs g) c) n"
proof -
  have "refers n (set_finalizers fs g) = refers n g" "grp_Name (set_finalizers fs g) = grp_Name g"
    "\<not> deleting (set_finalizers fs g)"
    using assms(3) by (simp_all add: set_finalizers_def refers_def deleting_def grp_Name_def)
  then show ?thesis
    using assms(4) collect_refs_update [OF assms(2,1)] by (simp add: accurate_def store_group_def split: option.splits)
qed

lemma finalizer_removal_ok:
  assumes "wf_map (gc_groups c)" "map_of (gc_groups c) name = Some g" "deleting g" "accurate c n"
  shows "accurate (store_group name (set_finalizers fs g) c) n"
proof -
  have g': "deleting (set_finalizers fs g)" "grp_Name (set_finalizers fs g) = grp_Name g"
    using assms(3) by (simp_all add: set_finalizers_def deleting_def grp_Name_def)
  then have "collect_refs (map snd (AList.update name (set_finalizers fs g) (gc_groups c))) n = collect_refs (map snd (gc_groups c)) n"
    using assms(3) by (intro collect_refs_update [OF assms(2,1)]) (simp_all add: refers_def)
  moreover have "collect_refs (map snd (AList.delete name (gc_groups c))) n = collect_refs (map snd (gc_groups c)) n"
    by (rule collect_refs_delete) (use assms in \<open>auto simp: refers_def\<close>)
  ultimately show ?thesis
    using assms(4) by (simp add: accurate_def store_group_def split: option.splits)
qed

lemma Reconcile_group_accurate:
  assumes "honest env" "wf_map (gc_groups c)" "map_of (gc_groups c) name = Some g"
    and "\<And>n. n \<notin> set (snapshotResolved (gst_ResolvedPolicies (grp_Status g))) \<Longrightarrow> accurate c n"
    and "deleting g \<Longrightarrow> policyGroupCleanupFinalizer \<in> set (om_Finalizers (grp_Meta g))"
    and run: "Reconcile_group env name c = (c', None)" and got: "ge_get env = None"
  shows "accurate c' n"
proof -
  let ?prev = "snapshotResolved (gst_ResolvedPolicies (grp_Status g))" and ?fs = "om_Finalizers (grp_Meta g)"
  show ?thesis
  proof (cases "deleting g")
    case True
    let ?g = "set_finalizers (filter (\<lambda>f. f \<noteq> policyGroupCleanupFinalizer) ?fs) g"
    obtain c1 where ref: "refreshReferencedBy env ?prev [] c = (c1, None)" and c': "c' = store_group name ?g c1"
      using run True assms(3,5) got
      by (auto simp: Reconcile_group_def Let_def split: option.splits prod.splits if_splits)
    note r = refreshReferencedBy_ok [OF ref assms(1)]
    have "accurate c1 n"
    proof (cases "n \<in> set ?prev")
      case False
      then show ?thesis using assms(4) [of n] r(1) r(3) [of n] by (simp add: accurate_def split: option.splits)
    qed (simp add: r(2))
    then show ?thesis
      unfolding c' using True assms(2,3) by (intro finalizer_removal_ok) (simp_all add: r(1))
  next
    case live: False
    show ?thesis
    proof (cases "policyGroupCleanupFinalizer \<in> set ?fs")
      case True
      then have "Reconcile_live env name ?prev g c = (c', None)"
        using run live assms(3) got by (simp add: Reconcile_group_def Let_def)
      then show ?thesis by (rule Reconcile_live_ok) (use assms live in auto)
    next
      case False
      let ?g = "set_finalizers (?fs @ [policyGroupCleanupFinalizer]) g"
      let ?c = "store_group name ?g c"
      have "Reconcile_live env name ?prev ?g ?c = (c', None)"
        using run live False assms(3) got by (auto simp: Reconcile_group_def Let_def split: option.splits)
      then show ?thesis
        by (rule Reconcile_live_ok)
          (use assms(1-4) live finalizer_update_ok [OF assms(2,3) live] in
            \<open>auto simp: store_group_def set_finalizers_def deleting_def\<close>)
    qed
  qed
qed

section \<open>Success\<close>

definition faultless :: "group_env \<Rightarrow> bool" where
  "faultless env \<longleftrightarrow> ge_get env = None \<and> ge_update_group env = None \<and> ge_list_policies env = None
     \<and> ge_list_groups env = None \<and> (\<forall>i. ge_get_again env i = None \<and> ge_status_update env i = None)
     \<and> (\<forall>n i. ge_policy_get env n i = None \<and> ge_policy_update env n i = None) \<and> 0 < ge_steps env"

lemma refresh_names_faultless: "faultless env \<Longrightarrow> snd (refresh_names env groups names ps) = None"
proof (induction names arbitrary: ps)
  case (Cons name names)
  let ?f = "refs_attempt env name (collect_refs groups name)"
  have err: "snd (?f i ps) = None \<or> snd (?f i ps) = Some (NotFound name)" for i
    using Cons.prems by (auto simp: refs_attempt_def faultless_def split: option.split)
  have "RetryOnConflict (ge_steps env) ?f ps = ?f 0 ps"
    using Cons.prems err [of 0] by (intro RetryOnConflict_once) (auto simp: faultless_def)
  then show ?case
    using err [of 0] Cons.IH [OF Cons.prems] by (cases "?f 0 ps") auto
qed simp

lemma refresh_faultless:
  assumes "faultless env" shows "\<exists>c'. refreshReferencedBy env prev cur c = (c', None)"
  using refresh_names_faultless [OF assms] assms
  by (auto simp: refreshReferencedBy_def Let_def faultless_def case_prod_unfold)

lemma write_faultless:
  assumes "faultless env" "map_of (gc_groups c) name = Some g"
  shows "snd (write_and_refresh env name prev desired cur c) = None"
proof -
  let ?f = "group_status_attempt env name desired"
  have "?f i (gc_groups c) = (AList.update name (g\<lparr>grp_Status := desired\<rparr>) (gc_groups c), None)" for i
    using assms by (simp add: group_status_attempt_def faultless_def)
  moreover have "RetryOnConflict (ge_steps env) ?f (gc_groups c) = ?f 0 (gc_groups c)"
    using assms calculation by (intro RetryOnConflict_once) (auto simp: faultless_def)
  ultimately show ?thesis
    using refresh_faultless [OF assms(1)]
    by (auto simp: write_and_refresh_def updateGroupStatus_def) (metis snd_conv)
qed

lemma live_faultless:
  assumes "faultless env" "map_of (gc_groups c) name = Some g"
  shows "snd (Reconcile_live env name prev g c) = None"
  using write_faultless [OF assms] assms(1) by (simp add: Reconcile_live_def faultless_def case_prod_unfold Let_def)

lemma Reconcile_group_succeeds:
  assumes "faultless env" "map_of (gc_groups c) name = Some g"
  shows "snd (Reconcile_group env name c) = None"
proof -
  obtain c1 where "refreshReferencedBy env (snapshotResolved (gst_ResolvedPolicies (grp_Status g))) [] c = (c1, None)"
    using refresh_faultless [OF assms(1)] by blast
  then show ?thesis
    using assms live_faultless [OF assms(1)]
    by (auto simp: Reconcile_group_def faultless_def Let_def store_group_def set_finalizers_def deleting_def)
qed


lemma find_SomeD: "find P xs = Some x \<Longrightarrow> x \<in> set xs \<and> P x"
  by (induction xs) (auto split: if_splits)

text \<open>No group misses a policy event. Every group that resolves a policy, by name or by selector,
  over any list of policies that contains it, and every group whose status still lists it, is
  requeued when that policy changes.\<close>

theorem findGroupsReferencing_complete:
  assumes "g \<in> set groups" "pol \<in> set policies" "distinct (map pol_Name policies)"
    and "pol_Name pol \<in> em_Name ` set (fst (Resolve asSelector now (grp_Spec g) policies))
      \<or> pol_Name pol \<in> em_Name ` set (gst_ResolvedPolicies (grp_Status g))"
  shows "grp_Name g \<in> set (findGroupsReferencing asSelector (Inr groups) pol)"
proof -
  have hit: "grp_Name g \<in> set (findGroupsReferencing asSelector (Inr groups) pol)"
    if "referencesPolicy asSelector g pol \<or> list_ex (\<lambda>m. em_Name m = pol_Name pol) (gst_ResolvedPolicies (grp_Status g))"
    using assms(1) that by (auto simp: findGroupsReferencing_def)
  show ?thesis
  using assms(4)
proof
  assume "pol_Name pol \<in> em_Name ` set (gst_ResolvedPolicies (grp_Status g))"
  then show ?thesis by (intro hit) (auto simp: list_ex_iff)
next
  assume "pol_Name pol \<in> em_Name ` set (fst (Resolve asSelector now (grp_Spec g) policies))"
  then obtain e where e: "em_Name e = pol_Name pol" "member_spec asSelector (grp_Spec g) policies (pol_Name pol) = Some e"
    using in_Resolve_iff [OF assms(3)] by auto
  have "find (\<lambda>p. pol_Name p = pol_Name pol) policies = Some pol"
    using assms(2,3) by (induction policies) auto
  then have named: "policy_named policies (pol_Name pol) = Some pol" by (simp add: policy_named_def)
  have "referencesPolicy asSelector g pol"
  proof (cases "find (\<lambda>r. ref_Name r = pol_Name pol) (rev (pgp_ByName (gs_Policies (grp_Spec g))))")
    case None
    then have "selected asSelector (grp_Spec g) pol" using e(2) named by (simp add: member_spec_def split: if_splits)
    then show ?thesis by (simp add: selected_def referencesPolicy_def)
  next
    case (Some r)
    then have "r \<in> set (pgp_ByName (gs_Policies (grp_Spec g)))" "ref_Name r = pol_Name pol"
      using find_SomeD by force+
    then show ?thesis by (auto simp: referencesPolicy_def list_ex_iff)
  qed
  then show ?thesis by (intro hit) simp
qed
qed

section \<open>Witnesses\<close>

definition ex_group_env :: group_env where
  "ex_group_env = \<lparr>ge_get = None, ge_update_group = None, ge_get_again = (\<lambda>_. None), ge_status_update = (\<lambda>_. None),
     ge_list_policies = None, ge_list_groups = None, ge_policy_get = (\<lambda>_ _. None), ge_policy_update = (\<lambda>_ _. None),
     ge_order = rev, ge_steps = 4, ge_now = 5, ge_selector = ex_asSelector\<rparr>"

definition ex_live_group :: PolicyGroup where
  "ex_live_group = \<lparr>grp_Meta = ex_meta ''base'' [], grp_Spec = ex_group_spec,
     grp_Status = \<lparr>gst_Phase = '''', gst_ObservedGeneration = 0, gst_ResolvedCount = 0,
       gst_ResolvedPolicies = [], gst_Conditions = []\<rparr>\<rparr>"

definition ex_group_cluster :: group_cluster where
  "ex_group_cluster = \<lparr>gc_groups = [(''base'', ex_live_group)], gc_policies = map (\<lambda>p. (pol_Name p, p)) ex_policies\<rparr>"

lemma ex_group_env_ok: "honest ex_group_env" "faultless ex_group_env"
  by (simp_all add: honest_def faultless_def ex_group_env_def)

lemma ex_group_cluster_accurate: "accurate ex_group_cluster n"
  by (simp add: accurate_def ex_group_cluster_def ex_live_group_def collect_refs_def refers_def ex_group_defs
      split: option.split)


theorem findGroupsReferencing_complete_witness:
  "''base'' \<in> set (findGroupsReferencing ex_asSelector (Inr [ex_live_group]) (ex_policy ''limits'' [(''tier'', ''base'')] ''audit''))"
proof -
  have "''limits'' \<in> em_Name ` set (fst (Resolve ex_asSelector 0 (grp_Spec ex_live_group) ex_policies))"
    by code_simp
  then have hit: "pol_Name (ex_policy ''limits'' [(''tier'', ''base'')] ''audit'')
      \<in> em_Name ` set (fst (Resolve ex_asSelector 0 (grp_Spec ex_live_group) ex_policies))
    \<or> pol_Name (ex_policy ''limits'' [(''tier'', ''base'')] ''audit'') \<in> em_Name ` set (gst_ResolvedPolicies (grp_Status ex_live_group))"
    by (simp add: ex_policy_def ex_meta_def pol_Name_def)
  have "distinct (map pol_Name ex_policies)" by code_simp
  moreover have "ex_policy ''limits'' [(''tier'', ''base'')] ''audit'' \<in> set ex_policies" by (simp add: ex_policies_def)
  moreover have "grp_Name ex_live_group = ''base''" by (simp add: ex_live_group_def ex_meta_def grp_Name_def)
  ultimately show ?thesis
    using findGroupsReferencing_complete [of ex_live_group "[ex_live_group]", OF _ _ _ hit] by simp
qed

end
