(* ===== verification/Webhook_Config.thy ===== *)
theory Webhook_Config
  imports Kube_Api Group_Resolve
begin

text \<open>
  The webhook configuration reconciler, \<^verbatim>\<open>internal/operator/webhookconfig_reconciler.go\<close>: the rules of
  the ValidatingWebhookConfiguration are the union of the match rules of the Ready policies, without
  duplicates by API group, resource and operations. What the API server does with a rule is stated
  by \<open>rule_covers\<close> (a list entry matches itself, the entry \<open>*\<close> everything).
\<close>

section \<open>Definitions\<close>

record RuleWithOperations =
  rw_Operations :: "string list"
  rw_APIGroups :: "string list"
  rw_APIVersions :: "string list"
  rw_Resources :: "string list"
  rw_Scope :: string

record WebhookEntry =
  we_Name :: string
  we_Rules :: "RuleWithOperations list"
  we_CABundle :: string

definition toWebhookOps :: "string list \<Rightarrow> string list" where
  "toWebhookOps ops = ops"

definition joinOps :: "string list \<Rightarrow> string" where
  "joinOps ops = fold (\<lambda>op result. result @ op @ '','') ops ''''"

type_synonym rule_key = "string \<times> string \<times> string"
type_synonym rule_state = "rule_key list \<times> RuleWithOperations list"

definition add_rule :: "string list \<Rightarrow> string list \<Rightarrow> string \<Rightarrow> string \<Rightarrow> rule_state \<Rightarrow> rule_state" where
  "add_rule ops versions grp res st =
    (let k = (grp, res, joinOps ops)
     in if k \<in> set (fst st) then st
        else (k # fst st, snd st @ [\<lparr>rw_Operations = toWebhookOps ops, rw_APIGroups = [grp],
                rw_APIVersions = versions, rw_Resources = [res], rw_Scope = ''*''\<rparr>]))"

definition add_policy :: "Policy \<Rightarrow> rule_state \<Rightarrow> rule_state" where
  "add_policy p st =
    (if pst_Phase (pol_Status p) \<noteq> PhaseReady then st
     else let m = ps_Match (pol_Spec p)
       in fold (\<lambda>mr. fold (\<lambda>grp. fold (\<lambda>res. add_rule (pm_Operations m) (mr_APIVersions mr) grp res)
              (mr_Resources mr)) (mr_APIGroups mr)) (pm_Resources m) st)"

definition aggregateRules :: "Policy list \<Rightarrow> RuleWithOperations list" where
  "aggregateRules policies = snd (fold add_policy policies ([], []))"

text \<open>The pass: the calls that precede the patch may fail; a missing secret or configuration ends it
  quietly, a missing key of the secret gives the empty bundle.\<close>

definition patch_webhooks :: "RuleWithOperations list \<Rightarrow> string \<Rightarrow> WebhookEntry list \<Rightarrow> WebhookEntry list" where
  "patch_webhooks rules caBundle ws = map (\<lambda>w. w\<lparr>we_Rules := rules, we_CABundle := caBundle\<rparr>) ws"

definition Reconcile_webhooks ::
  "(api_error + Policy list) \<Rightarrow> (api_error + string smap) \<Rightarrow> (api_error + WebhookEntry list)
   \<Rightarrow> api_error option \<Rightarrow> WebhookEntry list option \<times> string option" where
  "Reconcile_webhooks listed secret vwc patched = (case listed of
      Inl e \<Rightarrow> (None, Some (''list policies: '' @ error_text e))
    | Inr policies \<Rightarrow> (case secret of
        Inl e \<Rightarrow> (None, IgnoreNotFound e)
      | Inr data \<Rightarrow> (case vwc of
          Inl e \<Rightarrow> (None, IgnoreNotFound e)
        | Inr ws \<Rightarrow>
            (let caBundle = (case map_of data ''ca.crt'' of Some b \<Rightarrow> b | None \<Rightarrow> '''')
             in (Some (patch_webhooks (aggregateRules policies) caBundle ws), map_option error_text patched)))))"

section \<open>Coverage\<close>

definition entry_matches :: "string list \<Rightarrow> string \<Rightarrow> bool" where
  "entry_matches xs x \<longleftrightarrow> x \<in> set xs \<or> ''*'' \<in> set xs"

text \<open>A request by operation, group, version and resource.\<close>

type_synonym api_request = "string \<times> string \<times> string \<times> string"

definition rule_covers :: "RuleWithOperations \<Rightarrow> api_request \<Rightarrow> bool" where
  "rule_covers r q = (case q of (op, grp, version, res) \<Rightarrow>
     entry_matches (rw_Operations r) op \<and> entry_matches (rw_APIGroups r) grp
     \<and> entry_matches (rw_APIVersions r) version \<and> entry_matches (rw_Resources r) res)"

definition policy_covers :: "Policy \<Rightarrow> api_request \<Rightarrow> bool" where
  "policy_covers p q = (case q of (op, grp, version, res) \<Rightarrow>
     entry_matches (pm_Operations (ps_Match (pol_Spec p))) op
     \<and> (\<exists>mr \<in> set (pm_Resources (ps_Match (pol_Spec p))). entry_matches (mr_APIGroups mr) grp
          \<and> entry_matches (mr_APIVersions mr) version \<and> entry_matches (mr_Resources mr) res))"

text \<open>One quadruple for every rule a policy asks for, in the order of the loops.\<close>

definition wanted_rules :: "Policy \<Rightarrow> (string list \<times> string list \<times> string \<times> string) list" where
  "wanted_rules p = (if pst_Phase (pol_Status p) \<noteq> PhaseReady then []
     else let m = ps_Match (pol_Spec p) in
       concat (map (\<lambda>mr. concat (map (\<lambda>grp. map (\<lambda>res. (pm_Operations m, mr_APIVersions mr, grp, res))
         (mr_Resources mr)) (mr_APIGroups mr))) (pm_Resources m)))"

definition rule_of :: "string list \<times> string list \<times> string \<times> string \<Rightarrow> RuleWithOperations" where
  "rule_of x = (case x of (ops, versions, grp, res) \<Rightarrow> \<lparr>rw_Operations = ops, rw_APIGroups = [grp],
     rw_APIVersions = versions, rw_Resources = [res], rw_Scope = ''*''\<rparr>)"

definition key_of :: "string list \<times> string list \<times> string \<times> string \<Rightarrow> rule_key" where
  "key_of x = (case x of (ops, versions, grp, res) \<Rightarrow> (grp, res, joinOps ops))"

abbreviation add_wanted :: "string list \<times> string list \<times> string \<times> string \<Rightarrow> rule_state \<Rightarrow> rule_state" where
  "add_wanted x st \<equiv> (case x of (ops, versions, grp, res) \<Rightarrow> add_rule ops versions grp res st)"

lemma fold_concat_map: "fold f (concat (map g xs)) = fold (\<lambda>x. fold f (g x)) xs"
  by (induction xs) (simp_all add: fun_eq_iff)

lemma add_policy_wanted: "add_policy p st = fold add_wanted (wanted_rules p) st"
  by (simp add: add_policy_def wanted_rules_def Let_def fold_concat_map fold_map comp_def)

lemma aggregateRules_wanted:
  "aggregateRules policies = snd (fold add_wanted (concat (map wanted_rules policies)) ([], []))"
proof -
  have "fold add_policy policies st = fold add_wanted (concat (map wanted_rules policies)) st" for st
    by (induction policies arbitrary: st) (simp_all add: add_policy_wanted)
  then show ?thesis by (simp add: aggregateRules_def)
qed

text \<open>The loop keeps the first rule of every key.\<close>

definition first_of_key :: "(string list \<times> string list \<times> string \<times> string) list \<Rightarrow> RuleWithOperations list \<Rightarrow> rule_key list \<Rightarrow> bool" where
  "first_of_key xs rules seen \<longleftrightarrow> set seen = key_of ` set xs \<and> set rules \<subseteq> rule_of ` set xs
     \<and> (\<forall>x \<in> set xs. \<exists>y \<in> set xs. key_of y = key_of x \<and> rule_of y \<in> set rules)"

lemma first_of_key_step:
  assumes "first_of_key xs (snd st) (fst st)"
  shows "first_of_key (xs @ [x]) (snd (add_wanted x st)) (fst (add_wanted x st))"
proof -
  obtain ops versions grp res where x: "x = (ops, versions, grp, res)" by (cases x)
  have k: "(grp, res, joinOps ops) = key_of x" by (simp add: key_of_def x)
  show ?thesis
  proof (cases "key_of x \<in> key_of ` set xs")
    case True
    then show ?thesis
      using assms unfolding first_of_key_def x split add_rule_def Let_def by (auto simp: k x [symmetric])
  next
    case False
    have r: "\<lparr>rw_Operations = toWebhookOps ops, rw_APIGroups = [grp], rw_APIVersions = versions, rw_Resources = [res],
        rw_Scope = ''*''\<rparr> = rule_of x" by (simp add: rule_of_def x toWebhookOps_def)
    show ?thesis
      using assms False unfolding first_of_key_def x split add_rule_def Let_def
      by (auto simp: k r x [symmetric])
  qed
qed

lemma first_of_key_fold: "first_of_key xs (snd (fold add_wanted xs ([], []))) (fst (fold add_wanted xs ([], [])))"
proof (induction xs rule: rev_induct)
  case Nil
  then show ?case by (simp add: first_of_key_def)
next
  case (snoc x xs)
  then show ?case using first_of_key_step [OF snoc, of x] by simp
qed

lemma joinOps_concat: "joinOps ops = concat (map (\<lambda>op. op @ '','') ops)"
proof -
  have "fold (\<lambda>op result. result @ op @ '','') ops acc = acc @ concat (map (\<lambda>op. op @ '','') ops)" for acc
    by (induction ops arbitrary: acc) simp_all
  then show ?thesis by (simp add: joinOps_def)
qed

lemma separated_iff: "c \<notin> set x \<Longrightarrow> c \<notin> set y \<Longrightarrow> x @ c # a = y @ c # b \<longleftrightarrow> x = y \<and> a = b"
proof (induction x arbitrary: y)
  case Nil
  then show ?case by (cases y) auto
next
  case (Cons d x)
  then show ?case by (cases y) auto
qed

lemma joinOps_inject:
  "list_all (\<lambda>op. CHR '','' \<notin> set op) xs \<Longrightarrow> list_all (\<lambda>op. CHR '','' \<notin> set op) ys \<Longrightarrow> joinOps xs = joinOps ys \<longleftrightarrow> xs = ys"
proof (induction xs arbitrary: ys)
  case Nil
  then show ?case by (cases ys) (simp_all add: joinOps_concat)
next
  case (Cons x xs)
  show ?case
  proof (cases ys)
    case (Cons y ys')
    have comma: "CHR '','' \<notin> set x" "CHR '','' \<notin> set y" using Cons.prems Cons by simp_all
    show ?thesis using Cons.prems Cons Cons.IH [of ys'] separated_iff [OF comma] by (simp add: joinOps_concat)
  qed (simp add: joinOps_concat)
qed

lemma entry_matches_iff: "entry_matches xs x \<longleftrightarrow> (\<exists>y \<in> set xs. entry_matches [y] x)"
  by (auto simp: entry_matches_def)

lemma wanted_covers:
  "pst_Phase (pol_Status p) = PhaseReady \<and> policy_covers p q \<longleftrightarrow> (\<exists>x \<in> set (wanted_rules p). rule_covers (rule_of x) q)"
proof -
  obtain op g v r where q: "q = (op, g, v, r)" by (cases q)
  show ?thesis
  proof (cases "pst_Phase (pol_Status p) = PhaseReady")
    case False
    then show ?thesis by (simp add: wanted_rules_def)
  next
    case True
    have set: "set (wanted_rules p) = (\<Union>mr \<in> set (pm_Resources (ps_Match (pol_Spec p))). \<Union>grp \<in> set (mr_APIGroups mr).
        (\<lambda>res. (pm_Operations (ps_Match (pol_Spec p)), mr_APIVersions mr, grp, res)) ` set (mr_Resources mr))"
      using True by (simp add: wanted_rules_def Let_def)
    have "policy_covers p q \<longleftrightarrow> (\<exists>mr \<in> set (pm_Resources (ps_Match (pol_Spec p))). \<exists>grp \<in> set (mr_APIGroups mr).
        \<exists>res \<in> set (mr_Resources mr). entry_matches (pm_Operations (ps_Match (pol_Spec p))) op
          \<and> entry_matches [grp] g \<and> entry_matches (mr_APIVersions mr) v \<and> entry_matches [res] r)"
      unfolding policy_covers_def q prod.case entry_matches_iff [of "mr_APIGroups mr" g for mr]
        entry_matches_iff [of "mr_Resources mr" r for mr] by blast
    then show ?thesis
      unfolding set using True by (simp add: q rule_covers_def rule_of_def)
  qed
qed

definition all_wanted :: "Policy list \<Rightarrow> (string list \<times> string list \<times> string \<times> string) list" where
  "all_wanted policies = concat (map wanted_rules policies)"

text \<open>Policies that ask for the same group, resource and operations ask for the same versions, and
  operation names have no comma.\<close>

definition versions_agree :: "Policy list \<Rightarrow> bool" where
  "versions_agree policies \<longleftrightarrow>
     list_all (\<lambda>x. list_all (\<lambda>y. key_of x = key_of y \<longrightarrow> fst (snd x) = fst (snd y)) (all_wanted policies)) (all_wanted policies)
     \<and> list_all (\<lambda>x. list_all (\<lambda>op. CHR '','' \<notin> set op) (fst x)) (all_wanted policies)"

lemma same_key_same_rule:
  assumes "versions_agree policies" "x \<in> set (all_wanted policies)" "y \<in> set (all_wanted policies)" "key_of x = key_of y"
  shows "rule_of x = rule_of y"
proof -
  obtain o1 v1 g1 r1 o2 v2 g2 r2 where xy: "x = (o1, v1, g1, r1)" "y = (o2, v2, g2, r2)" by (cases x; cases y)
  have "fst (snd x) = fst (snd y)" using assms unfolding versions_agree_def list_all_iff by blast
  then have "v1 = v2" by (simp add: xy)
  moreover have "list_all (\<lambda>op. CHR '','' \<notin> set op) (fst x)" "list_all (\<lambda>op. CHR '','' \<notin> set op) (fst y)"
    using assms(1-3) unfolding versions_agree_def list_all_iff by blast+
  then have "o1 = o2" using assms(4) joinOps_inject [of o1 o2] by (simp add: xy key_of_def)
  ultimately show ?thesis using assms(4) by (simp add: xy key_of_def rule_of_def)
qed

text \<open>The webhook is called for exactly the requests some Ready policy matches. A request is
  covered by the aggregated rules only if a Ready policy covers it, and, when policies that ask for
  the same group, resource and operations agree on the API versions, every request a Ready policy
  covers is covered by a rule.\<close>

theorem aggregateRules_coverage:
  "((\<exists>r \<in> set (aggregateRules policies). rule_covers r q) \<longrightarrow>
      (\<exists>p \<in> set policies. pst_Phase (pol_Status p) = PhaseReady \<and> policy_covers p q))
   \<and> (versions_agree policies \<longrightarrow> p \<in> set policies \<longrightarrow> pst_Phase (pol_Status p) = PhaseReady \<longrightarrow> policy_covers p q \<longrightarrow>
      (\<exists>r \<in> set (aggregateRules policies). rule_covers r q))"
proof (intro conjI impI)
  let ?xs = "all_wanted policies"
  have inv: "first_of_key ?xs (aggregateRules policies) (fst (fold add_wanted ?xs ([], [])))"
    using first_of_key_fold [of ?xs] by (simp add: aggregateRules_wanted all_wanted_def)
  {
    assume "\<exists>r \<in> set (aggregateRules policies). rule_covers r q"
    then obtain x where x: "x \<in> set ?xs" "rule_covers (rule_of x) q" using inv unfolding first_of_key_def by blast
    then obtain p where "p \<in> set policies" "x \<in> set (wanted_rules p)" unfolding all_wanted_def set_concat set_map by blast
    then show "\<exists>p \<in> set policies. pst_Phase (pol_Status p) = PhaseReady \<and> policy_covers p q"
      using wanted_covers [of p q] x(2) by blast
  next
    assume agree: "versions_agree policies" and p: "p \<in> set policies" "pst_Phase (pol_Status p) = PhaseReady" "policy_covers p q"
    then obtain x where "x \<in> set (wanted_rules p)" and x: "rule_covers (rule_of x) q"
      using wanted_covers [of p q] by blast
    then have x_in: "x \<in> set ?xs" using p(1) unfolding all_wanted_def set_concat set_map by blast
    then obtain y where y: "y \<in> set ?xs" "key_of y = key_of x" "rule_of y \<in> set (aggregateRules policies)"
      using inv unfolding first_of_key_def by blast
    then show "\<exists>r \<in> set (aggregateRules policies). rule_covers r q"
      using same_key_same_rule [OF agree y(1) x_in y(2)] x by (intro bexI [OF _ y(3)]) simp
  }
qed

lemma fold_seen: "key_of ` set ys \<subseteq> set (fst st) \<Longrightarrow> fold add_wanted ys st = st"
proof (induction ys)
  case (Cons y ys)
  then have "add_wanted y st = st" by (cases y) (simp add: add_rule_def key_of_def)
  then show ?case using Cons by simp
qed simp

definition with_versions :: "(MatchResource \<Rightarrow> string list) \<Rightarrow> Policy \<Rightarrow> Policy" where
  "with_versions f p = p\<lparr>pol_Spec := (pol_Spec p)\<lparr>ps_Match := (ps_Match (pol_Spec p))\<lparr>pm_Resources :=
     map (\<lambda>mr. mr\<lparr>mr_APIVersions := f mr\<rparr>) (pm_Resources (ps_Match (pol_Spec p)))\<rparr>\<rparr>\<rparr>"

lemma with_versions_keys: "key_of ` set (wanted_rules (with_versions f p)) = key_of ` set (wanted_rules p)"
proof -
  have "map key_of (wanted_rules (with_versions f p)) = map key_of (wanted_rules p)"
    by (simp add: with_versions_def wanted_rules_def Let_def map_concat comp_def key_of_def)
  then show ?thesis by (metis set_map)
qed

text \<open>C39: The versions of the second of two policies are lost. If a policy differs from another one
  only in the API versions it lists, the aggregated rules of the two are those of the first alone,
  so requests in versions only the second one lists never reach the webhook.\<close>

theorem aggregateRules_loses_versions:
  "aggregateRules [p, with_versions f p] = aggregateRules [p]"
  using first_of_key_fold [of "wanted_rules p"] with_versions_keys [of f p]
  by (simp add: aggregateRules_wanted fold_seen first_of_key_def)

section \<open>Witnesses\<close>

definition ex_ready :: "string \<Rightarrow> string list \<Rightarrow> Policy" where
  "ex_ready n versions = \<lparr>pol_Meta = ex_meta n [],
     pol_Spec = \<lparr>ps_Match = \<lparr>pm_Operations = [''CREATE'', ''UPDATE''], pm_Resources =
         [\<lparr>mr_APIGroups = [''apps''], mr_APIVersions = versions, mr_Resources = [''deployments'']\<rparr>]\<rparr>,
       ps_EnforcementMode = ''enforce'', ps_Rego = '''', ps_Description = '''', ps_RollbackTo = None\<rparr>,
     pol_Status = ex_status\<lparr>pst_Phase := PhaseReady\<rparr>\<rparr>"

theorem aggregateRules_coverage_witness:
  "versions_agree [ex_ready ''a'' [''v1''], ex_ready ''b'' [''v1'']]
   \<and> (\<exists>r \<in> set (aggregateRules [ex_ready ''a'' [''v1''], ex_ready ''b'' [''v1'']]).
        rule_covers r (''UPDATE'', ''apps'', ''v1'', ''deployments''))"
proof -
  have "versions_agree [ex_ready ''a'' [''v1''], ex_ready ''b'' [''v1'']]" by code_simp
  moreover have "policy_covers (ex_ready ''b'' [''v1'']) (''UPDATE'', ''apps'', ''v1'', ''deployments'')" by code_simp
  moreover have "pst_Phase (pol_Status (ex_ready ''b'' [''v1''])) = PhaseReady" by code_simp
  ultimately show ?thesis
    using aggregateRules_coverage [of "[ex_ready ''a'' [''v1''], ex_ready ''b'' [''v1'']]"
        "(''UPDATE'', ''apps'', ''v1'', ''deployments'')" "ex_ready ''b'' [''v1'']"] by auto
qed

text \<open>The gap, on two policies: the second one covers a request that no rule covers.\<close>

lemma version_gap:
  "policy_covers (with_versions (\<lambda>_. [''v1beta1'']) (ex_ready ''a'' [''v1''])) (''CREATE'', ''apps'', ''v1beta1'', ''deployments'')
   \<and> \<not> (\<exists>r \<in> set (aggregateRules [ex_ready ''a'' [''v1''], with_versions (\<lambda>_. [''v1beta1'']) (ex_ready ''a'' [''v1''])]).
        rule_covers r (''CREATE'', ''apps'', ''v1beta1'', ''deployments''))"
  by code_simp

end
