(* ===== verification/Exception_Lifecycle.thy ===== *)
theory Exception_Lifecycle
  imports Kube_Api Go_Time
begin

text \<open>
  The life cycle of a \<^verbatim>\<open>PolicyException\<close>: \<^verbatim>\<open>internal/operator/exception_reconciler.go\<close> and the update
  checks of \<^verbatim>\<open>exception_validation.go\<close>. A pass of the reconciler is a function of the object it
  fetched, of the answers of the API server and of the clock readings it makes; its value lists the
  API calls it issues. The step relation \<open>lifecycle\<close> interleaves passes, admitted edits and the
  passing of time; \<open>drive\<close> follows the requeue times the reconciler asks for.
\<close>

section \<open>Calls and answers\<close>

text \<open>Formatting of the standard library that the messages use: \<open>%q\<close>, the error text of
  \<^verbatim>\<open>time.ParseDuration\<close>, and its floating-point product.\<close>

record formats =
  fm_quote :: "string \<Rightarrow> string"
  fm_duration_error :: "string \<Rightarrow> string"
  fm_fraction :: fraction_product

text \<open>The answers of the API server; \<open>None\<close> is success.\<close>

record exception_api =
  api_get_policy :: "string \<Rightarrow> api_error option"
  api_get_group :: "string \<Rightarrow> api_error option"
  api_status_update :: "PolicyException \<Rightarrow> api_error option"
  api_delete :: "PolicyException \<Rightarrow> api_error option"

datatype exception_call = StatusUpdate PolicyException | DeleteObject PolicyException

record outcome =
  out_calls :: "exception_call list"
  out_Requeue :: bool
  out_RequeueAfter :: duration
  out_err :: "string option"

abbreviation quiet :: "exception_call list \<Rightarrow> outcome" where
  "quiet cs \<equiv> \<lparr>out_calls = cs, out_Requeue = False, out_RequeueAfter = 0, out_err = None\<rparr>"

abbreviation after :: "exception_call list \<Rightarrow> duration \<Rightarrow> outcome" where
  "after cs d \<equiv> \<lparr>out_calls = cs, out_Requeue = False, out_RequeueAfter = d, out_err = None\<rparr>"

abbreviation failed :: "exception_call list \<Rightarrow> string \<Rightarrow> outcome" where
  "failed cs e \<equiv> \<lparr>out_calls = cs, out_Requeue = False, out_RequeueAfter = 0, out_err = Some e\<rparr>"

type_synonym clock = "nat \<Rightarrow> time"

section \<open>The reconciler\<close>

definition set_status :: "PolicyException \<Rightarrow> PolicyExceptionStatus \<Rightarrow> PolicyException" where
  "set_status pex st = pex\<lparr>pex_Status := st\<rparr>"

definition setInvalid :: "exception_api \<Rightarrow> PolicyException \<Rightarrow> string \<Rightarrow> outcome" where
  "setInvalid api pex msg =
    (let pex' = set_status pex ((pex_Status pex)\<lparr>xst_Phase := PhaseInvalid, xst_Message := msg,
                  xst_ObservedGeneration := om_Generation (pex_Meta pex)\<rparr>)
     in case api_status_update api pex' of
          Some e \<Rightarrow> failed [StatusUpdate pex'] (''update status (Invalid): '' @ error_text e)
        | None \<Rightarrow> quiet [StatusUpdate pex'])"

definition timeEqual :: "time option \<Rightarrow> time option \<Rightarrow> bool" where
  "timeEqual a b = (case (a, b) of (Some x, Some y) \<Rightarrow> x = y | _ \<Rightarrow> a = b)"

definition setActive :: "exception_api \<Rightarrow> clock \<Rightarrow> PolicyException \<Rightarrow> time \<Rightarrow> time \<Rightarrow> outcome" where
  "setActive api clk pex effective expires =
    (let requeueAfter = time_sub expires (clk 0);
         st = pex_Status pex;
         gen = om_Generation (pex_Meta pex)
     in if xst_Phase st = PhaseActive \<and> xst_Message st = '''' \<and> xst_ObservedGeneration st = gen
           \<and> timeEqual (xst_EffectiveAt st) (Some effective) \<and> timeEqual (xst_ExpiresAt st) (Some expires)
        then after [] requeueAfter
        else let pex' = set_status pex \<lparr>xst_Phase = PhaseActive, xst_Message = '''',
                     xst_EffectiveAt = Some effective, xst_ExpiresAt = Some expires,
                     xst_ObservedGeneration = gen\<rparr>
          in case api_status_update api pex' of
               Some e \<Rightarrow> failed [StatusUpdate pex'] (''update status (Active): '' @ error_text e)
             | None \<Rightarrow> after [StatusUpdate pex'] requeueAfter)"

definition setExpired :: "exception_api \<Rightarrow> PolicyException \<Rightarrow> time \<Rightarrow> time \<Rightarrow> outcome" where
  "setExpired api pex effective expires =
    (let pex' = set_status pex \<lparr>xst_Phase = PhaseExpired, xst_Message = '''',
                  xst_EffectiveAt = Some effective, xst_ExpiresAt = Some expires,
                  xst_ObservedGeneration = om_Generation (pex_Meta pex)\<rparr>
     in case api_status_update api pex' of
          Some e \<Rightarrow> failed [StatusUpdate pex'] (''update status (Expired): '' @ error_text e)
        | None \<Rightarrow> \<lparr>out_calls = [StatusUpdate pex'], out_Requeue = True, out_RequeueAfter = 0, out_err = None\<rparr>)"

text \<open>The tail of \<open>handleExpired\<close>: delete when the retention has run out, or come back then.\<close>

definition delete_or_wait ::
  "exception_api \<Rightarrow> time \<Rightarrow> duration \<Rightarrow> exception_call list \<Rightarrow> PolicyException \<Rightarrow> time \<Rightarrow> outcome" where
  "delete_or_wait api expiresAt retain cs pex now =
    (let deleteAt = expiresAt + retain
     in if \<not> now < deleteAt then
          (case api_delete api pex of
             Some e \<Rightarrow> if IsNotFound e then quiet (cs @ [DeleteObject pex])
               else failed (cs @ [DeleteObject pex]) (''delete expired PolicyException: '' @ error_text e)
           | None \<Rightarrow> quiet (cs @ [DeleteObject pex]))
        else after cs (time_sub deleteAt now))"

definition retention :: "formats \<Rightarrow> PolicyExceptionSpec \<Rightarrow> duration" where
  "retention fm s = (if xs_RetainAfterExpiry s \<noteq> ''''
     then (case ParseDuration (fm_fraction fm) (xs_RetainAfterExpiry s) of Some d \<Rightarrow> d | None \<Rightarrow> 0) else 0)"

definition handleExpired :: "formats \<Rightarrow> exception_api \<Rightarrow> clock \<Rightarrow> PolicyException \<Rightarrow> outcome" where
  "handleExpired fm api clk pex =
    (let retain = retention fm (pex_Spec pex)
     in case xst_ExpiresAt (pex_Status pex) of
          Some e \<Rightarrow> delete_or_wait api e retain [] pex (clk 0)
        | None \<Rightarrow>
            (let pex' = set_status pex ((pex_Status pex)\<lparr>xst_ExpiresAt := Some (clk 0)\<rparr>)
             in case api_status_update api pex' of
                  Some e \<Rightarrow> failed [StatusUpdate pex']
                    (''update status (Expired, missing ExpiresAt): '' @ error_text e)
                | None \<Rightarrow> delete_or_wait api (clk 0) retain [StatusUpdate pex'] pex' (clk 1)))"

definition target_count :: "PolicyExceptionSpec \<Rightarrow> int" where
  "target_count s = (if length (xs_PolicyRefs s) > 0 then 1 else 0)
     + (if length (xs_PolicyGroupRefs s) > 0 then 1 else 0) + (if xs_AllPolicies s then 1 else 0)"

definition validateOneOf :: "PolicyExceptionSpec \<Rightarrow> string" where
  "validateOneOf s = (if target_count s \<noteq> 1
     then ''exactly one of spec.policyRefs/policyGroupRefs/allPolicies must be set (got '' @ Itoa (target_count s) @ '')''
     else '''')"

text \<open>The look-ups of one list of references: \<open>Inl\<close> an API error, \<open>Inr\<close> a message, empty when all
  exist.\<close>

fun check_refs :: "formats \<Rightarrow> string \<Rightarrow> string \<Rightarrow> (string \<Rightarrow> api_error option) \<Rightarrow> string list \<Rightarrow> string + string" where
  "check_refs fm field kind get [] = Inr ''''"
| "check_refs fm field kind get (name # names) = (case get name of
      Some e \<Rightarrow> if IsNotFound e then Inr (field @ ''['' @ fm_quote fm name @ ''] not found'')
        else Inl (''get '' @ kind @ '' '' @ fm_quote fm name @ '': '' @ error_text e)
    | None \<Rightarrow> check_refs fm field kind get names)"

definition validateRefs :: "formats \<Rightarrow> exception_api \<Rightarrow> PolicyExceptionSpec \<Rightarrow> string + string" where
  "validateRefs fm api s =
    (case check_refs fm ''spec.policyRefs'' ''Policy'' (api_get_policy api) (xs_PolicyRefs s) of
       Inl e \<Rightarrow> Inl e
     | Inr msg \<Rightarrow> if msg \<noteq> '''' then Inr msg
         else check_refs fm ''spec.policyGroupRefs'' ''PolicyGroup'' (api_get_group api) (xs_PolicyGroupRefs s))"

definition invalid_duration :: "formats \<Rightarrow> string \<Rightarrow> string \<Rightarrow> string" where
  "invalid_duration fm field v = field @ '' '' @ fm_quote fm v @ '': '' @ fm_duration_error fm v"

text \<open>Steps 3 and 4: both durations, or the message of the first one that is wrong.\<close>

definition parse_window :: "formats \<Rightarrow> PolicyExceptionSpec \<Rightarrow> string + duration \<times> duration" where
  "parse_window fm s =
    (case ParseDuration (fm_fraction fm) (xs_Duration s) of
       None \<Rightarrow> Inl (invalid_duration fm ''spec.duration'' (xs_Duration s))
     | Some d \<Rightarrow>
         if d \<le> 0 then Inl (''spec.duration must be positive, got '' @ fm_quote fm (xs_Duration s))
         else if xs_RetainAfterExpiry s \<noteq> '''' then
           (case ParseDuration (fm_fraction fm) (xs_RetainAfterExpiry s) of
              None \<Rightarrow> Inl (invalid_duration fm ''spec.retainAfterExpiry'' (xs_RetainAfterExpiry s))
            | Some retain \<Rightarrow>
                if retain < 0 then Inl (''spec.retainAfterExpiry must be non-negative, got '' @ fm_quote fm (xs_RetainAfterExpiry s))
                else Inr (d, retain))
         else Inr (d, 0))"

definition Reconcile_found :: "formats \<Rightarrow> exception_api \<Rightarrow> clock \<Rightarrow> PolicyException \<Rightarrow> outcome" where
  "Reconcile_found fm api clk pex =
    (if xst_Phase (pex_Status pex) = PhaseExpired then handleExpired fm api clk pex
     else if validateOneOf (pex_Spec pex) \<noteq> '''' then setInvalid api pex (validateOneOf (pex_Spec pex))
     else if TrimSpace (xs_Reason (pex_Spec pex)) = ''''
       then setInvalid api pex ''spec.reason must not be empty or whitespace''
     else case parse_window fm (pex_Spec pex) of
       Inl msg \<Rightarrow> setInvalid api pex msg
     | Inr (d, retain) \<Rightarrow>
         (case validateRefs fm api (pex_Spec pex) of
            Inl e \<Rightarrow> failed [] e
          | Inr msg \<Rightarrow>
              if msg \<noteq> '''' then setInvalid api pex msg
              else let creationTS = om_CreationTimestamp (pex_Meta pex);
                       expiresAt = creationTS + d
                in if clk 0 < expiresAt then setActive api (\<lambda>i. clk (Suc i)) pex creationTS expiresAt
                   else setExpired api pex creationTS expiresAt))"

definition Reconcile_exception ::
  "formats \<Rightarrow> exception_api \<Rightarrow> clock \<Rightarrow> (api_error + PolicyException) \<Rightarrow> outcome" where
  "Reconcile_exception fm api clk got = (case got of
      Inl e \<Rightarrow> (case IgnoreNotFound e of None \<Rightarrow> quiet [] | Some m \<Rightarrow> failed [] m)
    | Inr pex \<Rightarrow> Reconcile_found fm api clk pex)"

text \<open>Every exception is reconciled again when a policy or group changes; a failed list enqueues
  nothing.\<close>

definition requeueAllExceptions :: "(api_error + PolicyException list) \<Rightarrow> string list" where
  "requeueAllExceptions listed = (case listed of Inl _ \<Rightarrow> [] | Inr items \<Rightarrow> map pex_Name items)"

section \<open>Update checks\<close>

text \<open>\<^verbatim>\<open>reflect.DeepEqual\<close> compares the label maps as maps and the expressions in order.\<close>

definition labelSelectorsEqual :: "LabelSelector option \<Rightarrow> LabelSelector option \<Rightarrow> bool" where
  "labelSelectorsEqual a b = (case (a, b) of
      (None, None) \<Rightarrow> True
    | (Some x, Some y) \<Rightarrow> set (ls_MatchLabels x) = set (ls_MatchLabels y)
        \<and> ls_MatchExpressions x = ls_MatchExpressions y
    | _ \<Rightarrow> False)"

definition CheckExceptionSpecMutation :: "PolicyExceptionSpec \<Rightarrow> PolicyExceptionSpec \<Rightarrow> string option" where
  "CheckExceptionSpecMutation old new =
    (if xs_PolicyRefs old \<noteq> xs_PolicyRefs new then Some ''spec.policyRefs is immutable''
     else if xs_PolicyGroupRefs old \<noteq> xs_PolicyGroupRefs new then Some ''spec.policyGroupRefs is immutable''
     else if xs_AllPolicies old \<noteq> xs_AllPolicies new then Some ''spec.allPolicies is immutable''
     else if xm_Namespaces (xs_Match old) \<noteq> xm_Namespaces (xs_Match new)
       then Some ''spec.match.namespaces is immutable''
     else if \<not> labelSelectorsEqual (xm_NamespaceSelector (xs_Match old)) (xm_NamespaceSelector (xs_Match new))
       then Some ''spec.match.namespaceSelector is immutable''
     else if \<not> labelSelectorsEqual (xm_ResourceSelector (xs_Match old)) (xm_ResourceSelector (xs_Match new))
       then Some ''spec.match.resourceSelector is immutable''
     else None)"

definition specsEqual :: "PolicyExceptionSpec \<Rightarrow> PolicyExceptionSpec \<Rightarrow> bool" where
  "specsEqual a b \<longleftrightarrow> CheckExceptionSpecMutation a b = None \<and> xs_Duration a = xs_Duration b
     \<and> xs_RetainAfterExpiry a = xs_RetainAfterExpiry b \<and> xs_Reason a = xs_Reason b"

definition CheckExceptionExpiredFreeze :: "formats \<Rightarrow> PolicyException \<Rightarrow> PolicyException \<Rightarrow> string option" where
  "CheckExceptionExpiredFreeze fm old new =
    (if xst_Phase (pex_Status old) = PhaseExpired \<and> \<not> specsEqual (pex_Spec old) (pex_Spec new)
     then Some (''PolicyException '' @ fm_quote fm (pex_Name old) @ '' is Expired; spec is frozen'')
     else None)"

section \<open>The object between the passes\<close>

text \<open>What an issued call does to the stored object; a call the server refuses changes nothing.\<close>

definition perform :: "exception_api \<Rightarrow> exception_call \<Rightarrow> PolicyException option \<Rightarrow> PolicyException option" where
  "perform api c obj = (case c of
      StatusUpdate p \<Rightarrow> if api_status_update api p = None then Some p else obj
    | DeleteObject p \<Rightarrow> if api_delete api p = None then None else obj)"

definition pass :: "formats \<Rightarrow> exception_api \<Rightarrow> clock \<Rightarrow> PolicyException \<Rightarrow> PolicyException option" where
  "pass fm api clk pex = fold (perform api) (out_calls (Reconcile_found fm api clk pex)) (Some pex)"

text \<open>A pass reads a clock that does not go back; an edit is admitted when both checks allow it and
  the status is the server's.\<close>

inductive lifecycle :: "formats \<Rightarrow> PolicyException option \<times> time \<Rightarrow> PolicyException option \<times> time \<Rightarrow> bool"
  for fm :: formats where
  reconcile: "t \<le> clk 0 \<Longrightarrow> mono clk \<Longrightarrow> clk 1 \<le> t' \<Longrightarrow>
    lifecycle fm (Some p, t) (pass fm api clk p, t')"
| edit: "CheckExceptionSpecMutation (pex_Spec p) (pex_Spec q) = None \<Longrightarrow>
    CheckExceptionExpiredFreeze fm p q = None \<Longrightarrow> pex_Status q = pex_Status p \<Longrightarrow>
    om_CreationTimestamp (pex_Meta q) = om_CreationTimestamp (pex_Meta p) \<Longrightarrow>
    lifecycle fm (Some p, t) (Some q, t)"
| wait: "t \<le> t' \<Longrightarrow> lifecycle fm (obj, t) (obj, t')"

inductive lifecycles :: "formats \<Rightarrow> PolicyException option \<times> time \<Rightarrow> PolicyException option \<times> time \<Rightarrow> bool"
  for fm :: formats where
  start: "lifecycles fm c c"
| more: "lifecycles fm a b \<Longrightarrow> lifecycle fm b c \<Longrightarrow> lifecycles fm a c"

inductive_cases lifecycle_SomeE: "lifecycle fm (Some p, t) (x, t')"
inductive_cases lifecycle_NoneE: "lifecycle fm (None, t) (x, t')"

text \<open>Passes at the times the reconciler asks for: at once after \<open>Requeue\<close>, after \<open>RequeueAfter\<close>
  otherwise, and none when it asks for nothing. Within one such pass the clock stands still.\<close>

fun drive :: "formats \<Rightarrow> exception_api \<Rightarrow> nat \<Rightarrow> PolicyException option \<times> time \<Rightarrow> PolicyException option \<times> time" where
  "drive fm api 0 c = c"
| "drive fm api (Suc n) (None, t) = (None, t)"
| "drive fm api (Suc n) (Some p, t) =
    (let o1 = Reconcile_found fm api (\<lambda>_. t) p;
         obj = pass fm api (\<lambda>_. t) p
     in if out_Requeue o1 then drive fm api n (obj, t)
        else if 0 < out_RequeueAfter o1 then drive fm api n (obj, t + out_RequeueAfter o1)
        else (obj, t))"

section \<open>What a pass decides\<close>

definition refs_exist :: "exception_api \<Rightarrow> PolicyExceptionSpec \<Rightarrow> bool" where
  "refs_exist api s \<longleftrightarrow> list_all (\<lambda>n. api_get_policy api n = None) (xs_PolicyRefs s)
     \<and> list_all (\<lambda>n. api_get_group api n = None) (xs_PolicyGroupRefs s)"

text \<open>The documented conditions on a specification, with the window it asks for.\<close>

definition valid_spec :: "formats \<Rightarrow> exception_api \<Rightarrow> PolicyExceptionSpec \<Rightarrow> duration \<Rightarrow> duration \<Rightarrow> bool" where
  "valid_spec fm api s d retain \<longleftrightarrow>
     length (filter id [xs_PolicyRefs s \<noteq> [], xs_PolicyGroupRefs s \<noteq> [], xs_AllPolicies s]) = 1
     \<and> TrimSpace (xs_Reason s) \<noteq> ''''
     \<and> ParseDuration (fm_fraction fm) (xs_Duration s) = Some d \<and> 0 < d
     \<and> (if xs_RetainAfterExpiry s = '''' then retain = 0
        else ParseDuration (fm_fraction fm) (xs_RetainAfterExpiry s) = Some retain \<and> 0 \<le> retain)
     \<and> refs_exist api s"

lemma validateOneOf_iff:
  "validateOneOf s = '''' \<longleftrightarrow>
   length (filter id [xs_PolicyRefs s \<noteq> [], xs_PolicyGroupRefs s \<noteq> [], xs_AllPolicies s]) = 1"
  by (simp add: validateOneOf_def target_count_def)

lemma check_refs_ok: "check_refs fm field kind get names = Inr '''' \<longleftrightarrow> list_all (\<lambda>n. get n = None) names"
  by (induction names) (auto split: option.split)

lemma check_refs_Inl:
  "check_refs fm field kind get names = Inl e \<Longrightarrow> \<exists>n \<in> set names. \<exists>e. get n = Some e \<and> \<not> IsNotFound e"
proof (induction names)
  case (Cons n ns)
  show ?case
  proof (cases "get n")
    case None
    then show ?thesis using Cons by auto
  next
    case (Some e')
    then show ?thesis using Cons.prems by (cases e') auto
  qed
qed simp

lemma validateRefs_ok: "validateRefs fm api s = Inr '''' \<longleftrightarrow> refs_exist api s"
  using check_refs_ok [of fm "''spec.policyRefs''" "''Policy''" "api_get_policy api" "xs_PolicyRefs s"]
    check_refs_ok [of fm "''spec.policyGroupRefs''" "''PolicyGroup''" "api_get_group api" "xs_PolicyGroupRefs s"]
  by (auto simp: validateRefs_def refs_exist_def split: sum.split)

lemma parse_window_ok:
  "parse_window fm s = Inr (d, retain) \<longleftrightarrow>
     ParseDuration (fm_fraction fm) (xs_Duration s) = Some d \<and> 0 < d
     \<and> (if xs_RetainAfterExpiry s = '''' then retain = 0
        else ParseDuration (fm_fraction fm) (xs_RetainAfterExpiry s) = Some retain \<and> 0 \<le> retain)"
  by (auto simp: parse_window_def split: option.split)

lemma valid_spec_iff:
  "valid_spec fm api s d retain \<longleftrightarrow> validateOneOf s = '''' \<and> TrimSpace (xs_Reason s) \<noteq> ''''
     \<and> parse_window fm s = Inr (d, retain) \<and> validateRefs fm api s = Inr ''''"
  unfolding valid_spec_def validateOneOf_iff validateRefs_ok parse_window_ok by blast

definition accepting :: "exception_api \<Rightarrow> bool" where
  "accepting api \<longleftrightarrow> (\<forall>p. api_status_update api p = None) \<and> (\<forall>p. api_delete api p = None)"

definition answering :: "exception_api \<Rightarrow> bool" where
  "answering api \<longleftrightarrow> (\<forall>n e. api_get_policy api n = Some e \<or> api_get_group api n = Some e \<longrightarrow> IsNotFound e)"

lemma perform_simps [reconcile_simps]:
  "accepting api \<Longrightarrow> perform api (StatusUpdate p) obj = Some p"
  "accepting api \<Longrightarrow> perform api (DeleteObject p) obj = None"
  by (simp_all add: perform_def accepting_def)

lemma accepting_simps [reconcile_simps]:
  "accepting api \<Longrightarrow> api_status_update api p = None" "accepting api \<Longrightarrow> api_delete api p = None"
  by (simp_all add: accepting_def)

lemma set_status_simps [simp]:
  "pex_Status (set_status p st) = st" "pex_Spec (set_status p st) = pex_Spec p"
  "pex_Meta (set_status p st) = pex_Meta p"
  by (simp_all add: set_status_def)

lemma set_status_id [simp]: "set_status p (pex_Status p) = p"
  by (simp add: set_status_def)

lemma setInvalid_pass [reconcile_simps]:
  assumes "accepting api"
  shows "fold (perform api) (out_calls (setInvalid api p msg)) (Some p)
    = Some (set_status p ((pex_Status p)\<lparr>xst_Phase := PhaseInvalid, xst_Message := msg,
        xst_ObservedGeneration := om_Generation (pex_Meta p)\<rparr>))"
  using assms by (simp add: setInvalid_def reconcile_simps)

definition active_status :: "PolicyException \<Rightarrow> time \<Rightarrow> PolicyExceptionStatus" where
  "active_status p e = \<lparr>xst_Phase = PhaseActive, xst_Message = '''',
     xst_EffectiveAt = Some (om_CreationTimestamp (pex_Meta p)), xst_ExpiresAt = Some e,
     xst_ObservedGeneration = om_Generation (pex_Meta p)\<rparr>"

definition expired_status :: "PolicyException \<Rightarrow> time \<Rightarrow> PolicyExceptionStatus" where
  "expired_status p e = (active_status p e)\<lparr>xst_Phase := PhaseExpired\<rparr>"

lemma timeEqual_Some: "timeEqual a (Some x) \<longleftrightarrow> a = Some x"
  by (auto simp: timeEqual_def split: option.split)

text \<open>The early return of \<open>setActive\<close> skips a write that would change nothing.\<close>

lemma setActive_pass [reconcile_simps]:
  assumes "accepting api"
  shows "fold (perform api) (out_calls (setActive api clk p (om_CreationTimestamp (pex_Meta p)) e)) (Some p)
    = Some (set_status p (active_status p e))"
proof (cases "pex_Status p = active_status p e")
  case True
  then show ?thesis
    using set_status_id [of p]
    by (simp add: setActive_def timeEqual_Some active_status_def del: set_status_id)
next
  case False
  then have "\<not> (xst_Phase (pex_Status p) = PhaseActive \<and> xst_Message (pex_Status p) = ''''
      \<and> xst_ObservedGeneration (pex_Status p) = om_Generation (pex_Meta p)
      \<and> timeEqual (xst_EffectiveAt (pex_Status p)) (Some (om_CreationTimestamp (pex_Meta p)))
      \<and> timeEqual (xst_ExpiresAt (pex_Status p)) (Some e))"
    by (auto simp: timeEqual_Some active_status_def)
  then show ?thesis
    unfolding setActive_def Let_def by (simp only: if_False) (simp add: reconcile_simps assms active_status_def)
qed

lemma setExpired_pass [reconcile_simps]:
  assumes "accepting api"
  shows "fold (perform api) (out_calls (setExpired api p (om_CreationTimestamp (pex_Meta p)) e)) (Some p)
    = Some (set_status p (expired_status p e))"
  using assms by (simp add: setExpired_def expired_status_def active_status_def reconcile_simps)

lemma check_refs_msg: "check_refs fm field kind get names = Inr msg \<Longrightarrow> msg \<noteq> '''' \<or> list_all (\<lambda>n. get n = None) names"
  using check_refs_ok by metis

lemma validateRefs_Inl:
  assumes "validateRefs fm api s = Inl e"
  shows "(\<exists>n e. api_get_policy api n = Some e \<and> \<not> IsNotFound e) \<or> (\<exists>n e. api_get_group api n = Some e \<and> \<not> IsNotFound e)"
  using assms
  by (auto simp: validateRefs_def split: sum.splits if_splits dest!: check_refs_Inl)

lemma parse_window_Inl: "parse_window fm s = Inl msg \<Longrightarrow> msg \<noteq> ''''"
  by (auto simp: parse_window_def invalid_duration_def split: option.splits if_splits)

text \<open>The pass on an object that is not yet expired, by the validity of its specification.\<close>

lemma pass_valid:
  assumes "accepting api" "xst_Phase (pex_Status p) \<noteq> PhaseExpired" "valid_spec fm api (pex_Spec p) d retain"
  shows "pass fm api clk p = Some (set_status p
    (if clk 0 < om_CreationTimestamp (pex_Meta p) + d
     then active_status p (om_CreationTimestamp (pex_Meta p) + d)
     else expired_status p (om_CreationTimestamp (pex_Meta p) + d)))"
  using assms unfolding valid_spec_iff pass_def Reconcile_found_def Let_def by (simp add: reconcile_simps)

lemma pass_invalid:
  assumes "accepting api" "xst_Phase (pex_Status p) \<noteq> PhaseExpired"
    and "\<nexists>d retain. valid_spec fm api (pex_Spec p) d retain"
    and "answering api"
  shows "\<exists>msg. msg \<noteq> '''' \<and> pass fm api clk p = Some (set_status p ((pex_Status p)\<lparr>xst_Phase := PhaseInvalid,
           xst_Message := msg, xst_ObservedGeneration := om_Generation (pex_Meta p)\<rparr>))"
proof -
  have "\<exists>msg. msg \<noteq> '''' \<and> Reconcile_found fm api clk p = setInvalid api p msg"
  proof (cases "parse_window fm (pex_Spec p)")
    case (Inl msg)
    then show ?thesis using assms(2) parse_window_Inl by (auto simp: Reconcile_found_def)
  next
    case (Inr w)
    obtain d retain where w: "w = (d, retain)" by (cases w)
    obtain msg where "validateRefs fm api (pex_Spec p) = Inr msg"
      using validateRefs_Inl assms(4) unfolding answering_def
      by (cases "validateRefs fm api (pex_Spec p)") blast+
    then show ?thesis
      using assms(2,3) Inr w by (auto simp: Reconcile_found_def valid_spec_iff)
  qed
  then obtain msg where msg: "msg \<noteq> ''''" "Reconcile_found fm api clk p = setInvalid api p msg" by blast
  then show ?thesis
    unfolding pass_def by (intro exI [of _ msg] conjI) (simp_all only: setInvalid_pass [OF assms(1)] not_False_eq_True)
qed

section \<open>Expired is terminal\<close>

lemma labelSelectorsEqual_refl: "labelSelectorsEqual a a"
  by (simp add: labelSelectorsEqual_def split: option.split)

lemma labelSelectorsEqual_trans: "labelSelectorsEqual a b \<Longrightarrow> labelSelectorsEqual b c \<Longrightarrow> labelSelectorsEqual a c"
  by (auto simp: labelSelectorsEqual_def split: option.splits)

lemma mutation_iff:
  "CheckExceptionSpecMutation a b = None \<longleftrightarrow> xs_PolicyRefs a = xs_PolicyRefs b
     \<and> xs_PolicyGroupRefs a = xs_PolicyGroupRefs b \<and> xs_AllPolicies a = xs_AllPolicies b
     \<and> xm_Namespaces (xs_Match a) = xm_Namespaces (xs_Match b)
     \<and> labelSelectorsEqual (xm_NamespaceSelector (xs_Match a)) (xm_NamespaceSelector (xs_Match b))
     \<and> labelSelectorsEqual (xm_ResourceSelector (xs_Match a)) (xm_ResourceSelector (xs_Match b))"
  by (simp add: CheckExceptionSpecMutation_def)

lemma specsEqual_refl [simp]: "specsEqual a a"
  by (simp add: specsEqual_def mutation_iff labelSelectorsEqual_refl)

lemma specsEqual_trans: "specsEqual a b \<Longrightarrow> specsEqual b c \<Longrightarrow> specsEqual a c"
  unfolding specsEqual_def mutation_iff by (auto elim: labelSelectorsEqual_trans)

lemma specsEqual_retention: "specsEqual a b \<Longrightarrow> retention fm a = retention fm b"
  by (simp add: specsEqual_def retention_def)

text \<open>An expired object with expiry time \<open>e\<close> keeps its phase, its window and its specification, and
  is gone only once the retention is over.\<close>

definition frozen :: "formats \<Rightarrow> PolicyExceptionSpec \<Rightarrow> time \<Rightarrow> PolicyException option \<times> time \<Rightarrow> bool" where
  "frozen fm s e c = (case fst c of
      None \<Rightarrow> e + retention fm s \<le> snd c
    | Some q \<Rightarrow> xst_Phase (pex_Status q) = PhaseExpired \<and> specsEqual s (pex_Spec q)
        \<and> xst_ExpiresAt (pex_Status q) = Some e)"

lemma expired_pass:
  assumes "xst_Phase (pex_Status p) = PhaseExpired" "xst_ExpiresAt (pex_Status p) = Some e"
  shows "pass fm api clk p = (if \<not> clk 0 < e + retention fm (pex_Spec p) \<and> api_delete api p = None then None else Some p)"
  using assms by (auto simp: pass_def Reconcile_found_def handleExpired_def delete_or_wait_def perform_def Let_def
      split: option.split)

lemma frozen_step:
  assumes "frozen fm s e c" "lifecycle fm c c'"
  shows "frozen fm s e c'"
  using assms(2,1)
proof cases
  case (reconcile t clk t' p api)
  have "clk 0 \<le> clk 1" using reconcile(4) by (simp add: monoD)
  then show ?thesis
    using assms(1) reconcile expired_pass [of p e fm api clk]
    by (auto simp: frozen_def specsEqual_retention)
next
  case (edit p q t)
  then show ?thesis
    using assms(1) by (auto simp: frozen_def CheckExceptionExpiredFreeze_def split: if_splits elim: specsEqual_trans)
next
  case (wait t t' obj)
  then show ?thesis using assms(1) by (auto simp: frozen_def split: option.splits)
qed

lemma frozen_steps: "lifecycles fm c c' \<Longrightarrow> frozen fm s e c \<Longrightarrow> frozen fm s e c'"
  by (induction rule: lifecycles.induct) (auto intro: frozen_step)

text \<open>C34: Expired is a terminal phase. Whatever sequence of reconciler passes (with any answers of
  the API server), admitted edits and waiting follows, an expired exception stays expired with the
  same expiry time and an unchanged specification, and it is deleted only when its retention after
  the expiry time has passed.\<close>

theorem expired_is_terminal:
  assumes "lifecycles fm (Some p, t) (obj, t')"
    and "xst_Phase (pex_Status p) = PhaseExpired" "xst_ExpiresAt (pex_Status p) = Some e"
  shows "case obj of
      None \<Rightarrow> e + retention fm (pex_Spec p) \<le> t'
    | Some q \<Rightarrow> xst_Phase (pex_Status q) = PhaseExpired \<and> specsEqual (pex_Spec p) (pex_Spec q)
        \<and> xst_ExpiresAt (pex_Status q) = Some e"
  using frozen_steps [OF assms(1), of "pex_Spec p" e] assms(2,3) by (simp add: frozen_def split: option.splits)

text \<open>One pass over an exception that is not expired, when the API server accepts the writes and
  answers the look-ups: a specification that violates a documented rule makes it Invalid with a
  message, one that is valid makes it Active while the window from its creation is open, with the
  window recorded, and Expired afterwards; the specification is never touched.\<close>

theorem Reconcile_decides:
  assumes "accepting api" "xst_Phase (pex_Status p) \<noteq> PhaseExpired"
    and "answering api"
  shows "\<exists>q. pass fm api clk p = Some q \<and> pex_Spec q = pex_Spec p \<and> pex_Meta q = pex_Meta p
    \<and> (\<forall>d retain. valid_spec fm api (pex_Spec p) d retain \<longrightarrow>
         xst_Phase (pex_Status q) = (if clk 0 < om_CreationTimestamp (pex_Meta p) + d then PhaseActive else PhaseExpired)
         \<and> xst_EffectiveAt (pex_Status q) = Some (om_CreationTimestamp (pex_Meta p))
         \<and> xst_ExpiresAt (pex_Status q) = Some (om_CreationTimestamp (pex_Meta p) + d))
    \<and> ((\<nexists>d retain. valid_spec fm api (pex_Spec p) d retain) \<longrightarrow>
         xst_Phase (pex_Status q) = PhaseInvalid \<and> xst_Message (pex_Status q) \<noteq> '''')"
proof (cases "\<exists>d retain. valid_spec fm api (pex_Spec p) d retain")
  case True
  then obtain d retain where v: "valid_spec fm api (pex_Spec p) d retain" by blast
  have unique: "d' = d" if "valid_spec fm api (pex_Spec p) d' r'" for d' r'
    using v that by (simp add: valid_spec_def)
  show ?thesis
    unfolding pass_valid [OF assms(1,2) v]
    using v by (auto simp: active_status_def expired_status_def dest: unique)
next
  case False
  obtain msg where "msg \<noteq> ''''" and
    "pass fm api clk p = Some (set_status p ((pex_Status p)\<lparr>xst_Phase := PhaseInvalid,
       xst_Message := msg, xst_ObservedGeneration := om_Generation (pex_Meta p)\<rparr>))"
    using pass_invalid [OF assms(1,2) False assms(3)] by blast
  then show ?thesis using False by simp
qed

section \<open>Liveness\<close>

lemma drive_Expired_delete:
  assumes "accepting api" "xst_Phase (pex_Status p) = PhaseExpired" "xst_ExpiresAt (pex_Status p) = Some e"
    and "e + retention fm (pex_Spec p) \<le> t"
  shows "drive fm api (Suc n) (Some p, t) = (None, t)"
  using assms by (auto simp: expired_pass reconcile_simps Reconcile_found_def handleExpired_def
      delete_or_wait_def Let_def)

lemma drive_Expired_wait:
  assumes "accepting api" "xst_Phase (pex_Status p) = PhaseExpired" "xst_ExpiresAt (pex_Status p) = Some e"
    and "t < e + retention fm (pex_Spec p)" "e + retention fm (pex_Spec p) - t \<le> max_duration"
  shows "drive fm api (Suc n) (Some p, t) = drive fm api n (Some p, e + retention fm (pex_Spec p))"
proof -
  have "time_sub (e + retention fm (pex_Spec p)) t = e + retention fm (pex_Spec p) - t"
    using assms(4,5) by (simp add: time_sub_def min_duration_def max_duration_def)
  then show ?thesis
    using assms by (simp add: expired_pass Reconcile_found_def handleExpired_def delete_or_wait_def Let_def)
qed

lemma valid_outcome:
  assumes "accepting api" "xst_Phase (pex_Status p) \<noteq> PhaseExpired" "valid_spec fm api (pex_Spec p) d retain"
  shows "out_Requeue (Reconcile_found fm api clk p) \<longleftrightarrow> \<not> clk 0 < om_CreationTimestamp (pex_Meta p) + d"
    and "clk 0 < om_CreationTimestamp (pex_Meta p) + d \<Longrightarrow>
      out_RequeueAfter (Reconcile_found fm api clk p) = time_sub (om_CreationTimestamp (pex_Meta p) + d) (clk 1)"
  using assms unfolding valid_spec_iff Reconcile_found_def Let_def
  by (auto simp: setActive_def setExpired_def Let_def reconcile_simps)

lemma valid_retention: "valid_spec fm api s d retain \<Longrightarrow> retention fm s = retain"
  by (auto simp: valid_spec_def retention_def split: if_splits)

lemma valid_bounds:
  assumes "\<And>f u s. 0 \<le> fm_fraction fm f u s" "valid_spec fm api s d retain"
  shows "0 < d" "d \<le> max_duration" "0 \<le> retain" "retain \<le> max_duration"
  using assms(2) ParseDuration_bounds [OF assms(1)]
  by (fastforce simp: valid_spec_def max_duration_def split: if_splits)+

lemma drive_Active:
  assumes "accepting api" "xst_Phase (pex_Status p) \<noteq> PhaseExpired" "valid_spec fm api (pex_Spec p) d retain"
    and "t < om_CreationTimestamp (pex_Meta p) + d" "om_CreationTimestamp (pex_Meta p) + d - t \<le> max_duration"
  shows "drive fm api (Suc n) (Some p, t)
    = drive fm api n (Some (set_status p (active_status p (om_CreationTimestamp (pex_Meta p) + d))),
        om_CreationTimestamp (pex_Meta p) + d)"
proof -
  have "time_sub (om_CreationTimestamp (pex_Meta p) + d) t = om_CreationTimestamp (pex_Meta p) + d - t"
    using assms(4,5) by (simp add: time_sub_def min_duration_def max_duration_def)
  then show ?thesis
    using assms(4) by (simp add: Let_def valid_outcome [OF assms(1-3)] pass_valid [OF assms(1-3)])
qed

lemma drive_Expire:
  assumes "accepting api" "xst_Phase (pex_Status p) \<noteq> PhaseExpired" "valid_spec fm api (pex_Spec p) d retain"
    and "\<not> t < om_CreationTimestamp (pex_Meta p) + d"
  shows "drive fm api (Suc n) (Some p, t)
    = drive fm api n (Some (set_status p (expired_status p (om_CreationTimestamp (pex_Meta p) + d))), t)"
  using assms(4) by (simp add: Let_def valid_outcome [OF assms(1-3)] pass_valid [OF assms(1-3)])

text \<open>From the window's end on, three passes are enough.\<close>

lemma drive_collect:
  assumes "accepting api" "xst_Phase (pex_Status p) \<noteq> PhaseExpired" and v: "valid_spec fm api (pex_Spec p) d retain"
    and late: "\<not> t < om_CreationTimestamp (pex_Meta p) + d" and "retain \<le> max_duration"
  shows "drive fm api (Suc (Suc (Suc n))) (Some p, t) = (None, max t (om_CreationTimestamp (pex_Meta p) + d + retain))"
proof -
  define e q where e: "e = om_CreationTimestamp (pex_Meta p) + d" and q: "q = set_status p (expired_status p e)"
  have q_facts: "xst_Phase (pex_Status q) = PhaseExpired" "xst_ExpiresAt (pex_Status q) = Some e"
    "retention fm (pex_Spec q) = retain"
    using valid_retention [OF v] by (simp_all add: q expired_status_def active_status_def)
  have "drive fm api (Suc (Suc (Suc n))) (Some p, t) = drive fm api (Suc (Suc n)) (Some q, t)"
    unfolding drive_Expire [OF assms(1,2) v late] q e ..
  also have "\<dots> = (None, max t (e + retain))"
  proof (cases "t < e + retain")
    case True
    then show ?thesis
      using drive_Expired_wait [OF assms(1) q_facts(1,2), of t fm "Suc n"]
        drive_Expired_delete [OF assms(1) q_facts(1,2), of fm "e + retain" n] late assms(5)
      by (simp add: q_facts(3) e)
  next
    case False
    then show ?thesis
      using drive_Expired_delete [OF assms(1) q_facts(1,2), of fm t "Suc n"] by (simp add: q_facts(3))
  qed
  finally show ?thesis by (simp add: e)
qed


section \<open>Witnesses\<close>

definition ex_formats :: formats where
  "ex_formats = \<lparr>fm_quote = (\<lambda>s. ''\"'' @ s @ ''\"''), fm_duration_error = (\<lambda>s. ''time: invalid duration''),
     fm_fraction = (\<lambda>f u s. max 0 (f * u div s))\<rparr>"

definition ex_exception_api :: exception_api where
  "ex_exception_api = \<lparr>api_get_policy = (\<lambda>n. if n = ''p1'' then None else Some (NotFound ''gone'')),
     api_get_group = (\<lambda>_. Some (NotFound ''gone'')), api_status_update = (\<lambda>_. None), api_delete = (\<lambda>_. None)\<rparr>"

definition ex_waiver :: "string list \<Rightarrow> string \<Rightarrow> PolicyException" where
  "ex_waiver refs phase = \<lparr>pex_Meta = \<lparr>om_Name = ''w'', om_UID = ''u'', om_Labels = None, om_Annotations = None, om_Generation = 1,
       om_CreationTimestamp = 1000, om_DeletionTimestamp = None, om_Finalizers = [], om_ResourceVersion = ''1'', om_OwnerReferences = []\<rparr>,
     pex_Spec = \<lparr>xs_PolicyRefs = refs, xs_PolicyGroupRefs = [], xs_AllPolicies = False,
       xs_Match = \<lparr>xm_Namespaces = [''dev''], xm_NamespaceSelector = None, xm_ResourceSelector = None\<rparr>,
       xs_Duration = ''1h30m'', xs_RetainAfterExpiry = ''0.5s'', xs_Reason = ''migration''\<rparr>,
     pex_Status = \<lparr>xst_Phase = phase, xst_Message = '''', xst_EffectiveAt = None,
       xst_ExpiresAt = (if phase = PhaseExpired then Some 1000 else None), xst_ObservedGeneration = 0\<rparr>\<rparr>"

lemma ex_accepting: "accepting ex_exception_api"
  by (simp add: accepting_def ex_exception_api_def)

lemma ex_waiver_valid:
  "valid_spec ex_formats ex_exception_api (pex_Spec (ex_waiver [''p1''] '''')) 5400000000000 500000000"
  by code_simp

lemma ex_waiver_invalid: "\<not> valid_spec ex_formats ex_exception_api (pex_Spec (ex_waiver [''p2''] '''')) d retain"
  by (simp add: valid_spec_def ex_waiver_def refs_exist_def ex_exception_api_def)

lemma ex_waiver_facts:
  "xst_Phase (pex_Status (ex_waiver refs phase)) = phase"
  "om_CreationTimestamp (pex_Meta (ex_waiver refs phase)) = 1000"
  "xst_ExpiresAt (pex_Status (ex_waiver refs PhaseExpired)) = Some 1000"
  by (simp_all add: ex_waiver_def)

lemma ex_answering: "answering ex_exception_api"
  by (simp add: answering_def ex_exception_api_def)


theorem Reconcile_decides_witness:
  "(\<exists>q. pass ex_formats ex_exception_api (\<lambda>_. 2000) (ex_waiver [''p1''] '''') = Some q
      \<and> xst_Phase (pex_Status q) = PhaseActive)
   \<and> (\<exists>q. pass ex_formats ex_exception_api (\<lambda>_. 2000) (ex_waiver [''p2''] '''') = Some q
      \<and> xst_Phase (pex_Status q) = PhaseInvalid)"
proof
  have ph: "xst_Phase (pex_Status (ex_waiver refs '''')) \<noteq> PhaseExpired" for refs
    by (simp add: ex_waiver_facts PhaseExpired_def)
  note use1 = Reconcile_decides [OF ex_accepting ph [of "[''p1'']"] ex_answering, where fm = ex_formats and clk = "\<lambda>_. 2000"]
  note use2 = Reconcile_decides [OF ex_accepting ph [of "[''p2'']"] ex_answering, where fm = ex_formats and clk = "\<lambda>_. 2000"]
  obtain q where "pass ex_formats ex_exception_api (\<lambda>_. 2000) (ex_waiver [''p1''] '''') = Some q"
    and "\<forall>d retain. valid_spec ex_formats ex_exception_api (pex_Spec (ex_waiver [''p1''] '''')) d retain \<longrightarrow>
      xst_Phase (pex_Status q) = (if 2000 < om_CreationTimestamp (pex_Meta (ex_waiver [''p1''] '''')) + d then PhaseActive else PhaseExpired)"
    using use1 by blast
  then show "\<exists>q. pass ex_formats ex_exception_api (\<lambda>_. 2000) (ex_waiver [''p1''] '''') = Some q
      \<and> xst_Phase (pex_Status q) = PhaseActive"
    using ex_waiver_valid by (auto simp: ex_waiver_facts)
  show "\<exists>q. pass ex_formats ex_exception_api (\<lambda>_. 2000) (ex_waiver [''p2''] '''') = Some q
      \<and> xst_Phase (pex_Status q) = PhaseInvalid"
    using use2 ex_waiver_invalid by blast
qed

theorem expired_is_terminal_witness:
  "lifecycles ex_formats (Some (ex_waiver [''p1''] PhaseExpired), 2000)
     (pass ex_formats ex_exception_api (\<lambda>_. 500001000) (ex_waiver [''p1''] PhaseExpired), 500001000)
   \<and> pass ex_formats ex_exception_api (\<lambda>_. 500001000) (ex_waiver [''p1''] PhaseExpired) = None
   \<and> 1000 + retention ex_formats (pex_Spec (ex_waiver [''p1''] PhaseExpired)) \<le> 500001000"
proof -
  let ?p = "ex_waiver [''p1''] PhaseExpired" and ?clk = "\<lambda>_::nat. 500001000 :: int"
  have run: "lifecycles ex_formats (Some ?p, 2000) (pass ex_formats ex_exception_api ?clk ?p, 500001000)"
    by (rule lifecycles.more [OF lifecycles.start lifecycle.reconcile]) (simp_all add: monoI)
  moreover have "pass ex_formats ex_exception_api ?clk ?p = None" by code_simp
  ultimately show ?thesis
    using expired_is_terminal [OF run, of 1000] by (simp add: ex_waiver_facts)
qed

end
