(* ===== verification/Desired_State.thy ===== *)
theory Desired_State
  imports Exception_Lifecycle
begin

text \<open>
  The member side of a desired-state snapshot, \<^verbatim>\<open>internal/operator/hublink/apply.go\<close>: upsert the
  objects of the snapshot, then prune the managed objects that are not in it. The three kinds of
  object share one definition of the upsert, given by the accessors of a kind (\<open>kind_ops\<close>); the
  locale \<open>managed_kind\<close> states the laws of the accessors and is interpreted for the three kinds.
  JSON decoding is an argument.
\<close>

section \<open>Objects, kinds and environment\<close>

record ManagedObject =
  mo_Kind :: string
  mo_Name :: string
  mo_Labels :: labels
  mo_SpecJson :: string

record ('o, 's) kind_ops =
  ko_meta :: "'o \<Rightarrow> ObjectMeta"
  ko_spec :: "'o \<Rightarrow> 's"
  ko_new :: "ObjectMeta \<Rightarrow> 's \<Rightarrow> 'o"
  ko_set :: "ObjectMeta \<Rightarrow> 's \<Rightarrow> 'o \<Rightarrow> 'o"
  ko_equal :: "'s \<Rightarrow> 's \<Rightarrow> bool"
  ko_skips_equal :: bool

record apply_env =
  ap_get :: "string \<Rightarrow> string \<Rightarrow> api_error option"
  ap_create :: "string \<Rightarrow> string \<Rightarrow> api_error option"
  ap_update :: "string \<Rightarrow> string \<Rightarrow> api_error option"
  ap_delete :: "string \<Rightarrow> string \<Rightarrow> api_error option"
  ap_list :: "string \<Rightarrow> api_error option"
  ap_now :: time
  ap_policy_spec :: "string \<Rightarrow> string + PolicySpec"
  ap_group_spec :: "string \<Rightarrow> string + PolicyGroupSpec"
  ap_exception_spec :: "string \<Rightarrow> string + PolicyExceptionSpec"

record member_cluster =
  mc_policies :: "Policy smap"
  mc_groups :: "PolicyGroup smap"
  mc_exceptions :: "PolicyException smap"

record DesiredState =
  ds_Version :: string
  ds_TraceId :: string
  ds_Objects :: "ManagedObject list"

section \<open>Comparisons\<close>

definition sortedByName :: "PolicyRef list \<Rightarrow> PolicyRef list" where
  "sortedByName refs = sort_key ref_Name refs"

definition groupSpecsEqual :: "PolicyGroupSpec \<Rightarrow> PolicyGroupSpec \<Rightarrow> bool" where
  "groupSpecsEqual a b \<longleftrightarrow>
     sortedByName (pgp_ByName (gs_Policies a)) = sortedByName (pgp_ByName (gs_Policies b))
     \<and> gs_DisplayName a = gs_DisplayName b \<and> gs_Description a = gs_Description b \<and> gs_Enabled a = gs_Enabled b
     \<and> labelSelectorsEqual (gs_NamespaceSelector a) (gs_NamespaceSelector b)
     \<and> labelSelectorsEqual (pgp_BySelector (gs_Policies a)) (pgp_BySelector (gs_Policies b))
     \<and> pgp_Exclude (gs_Policies a) = pgp_Exclude (gs_Policies b)
     \<and> gs_SelectorEnforcementMode a = gs_SelectorEnforcementMode b"

definition labels_equal :: "labels option \<Rightarrow> labels option \<Rightarrow> bool" where
  "labels_equal a b = (case (a, b) of (None, None) \<Rightarrow> True | (Some x, Some y) \<Rightarrow> set x = set y | _ \<Rightarrow> False)"

definition mergeTraceAnnotation :: "labels option \<Rightarrow> string \<Rightarrow> labels option" where
  "mergeTraceAnnotation existing traceID = (if traceID = '''' then existing
     else Some (AList.update LastTraceIDAnnotation traceID (label_set existing)))"

definition policy_ops :: "(Policy, PolicySpec) kind_ops" where
  "policy_ops = \<lparr>ko_meta = pol_Meta, ko_spec = pol_Spec,
     ko_new = (\<lambda>m s. \<lparr>pol_Meta = m, pol_Spec = s, pol_Status = \<lparr>pst_Phase = '''', pst_Message = '''',
       pst_CurrentVersion = 0, pst_ObservedGeneration = 0, pst_LastSyncTime = None, pst_VersionHistory = [],
       pst_ReferencedBy = []\<rparr>\<rparr>),
     ko_set = (\<lambda>m s p. p\<lparr>pol_Meta := m, pol_Spec := s\<rparr>), ko_equal = (=), ko_skips_equal = True\<rparr>"

definition group_ops :: "(PolicyGroup, PolicyGroupSpec) kind_ops" where
  "group_ops = \<lparr>ko_meta = grp_Meta, ko_spec = grp_Spec,
     ko_new = (\<lambda>m s. \<lparr>grp_Meta = m, grp_Spec = s, grp_Status = \<lparr>gst_Phase = '''', gst_ObservedGeneration = 0,
       gst_ResolvedCount = 0, gst_ResolvedPolicies = [], gst_Conditions = []\<rparr>\<rparr>),
     ko_set = (\<lambda>m s g. g\<lparr>grp_Meta := m, grp_Spec := s\<rparr>), ko_equal = groupSpecsEqual, ko_skips_equal = True\<rparr>"

definition exception_ops :: "(PolicyException, PolicyExceptionSpec) kind_ops" where
  "exception_ops = \<lparr>ko_meta = pex_Meta, ko_spec = pex_Spec,
     ko_new = (\<lambda>m s. \<lparr>pex_Meta = m, pex_Spec = s, pex_Status = \<lparr>xst_Phase = '''', xst_Message = '''',
       xst_EffectiveAt = None, xst_ExpiresAt = None, xst_ObservedGeneration = 0\<rparr>\<rparr>),
     ko_set = (\<lambda>m s x. x\<lparr>pex_Meta := m, pex_Spec := s\<rparr>), ko_equal = specsEqual, ko_skips_equal = False\<rparr>"

section \<open>Upsert\<close>

definition new_meta :: "string \<Rightarrow> labels \<Rightarrow> string \<Rightarrow> ObjectMeta" where
  "new_meta name ls traceID = \<lparr>om_Name = name, om_UID = '''', om_Labels = Some ls,
     om_Annotations = mergeTraceAnnotation None traceID, om_Generation = 0, om_CreationTimestamp = 0,
     om_DeletionTimestamp = None, om_Finalizers = [], om_ResourceVersion = '''', om_OwnerReferences = []\<rparr>"

text \<open>A missing label and an empty one both read as the empty string.\<close>

definition managed_value :: "ObjectMeta \<Rightarrow> string" where
  "managed_value m = (case map_of (label_set (om_Labels m)) ManagedByLabel of Some v \<Rightarrow> v | None \<Rightarrow> '''')"

definition upsert_with ::
  "('o, 's) kind_ops \<Rightarrow> apply_env \<Rightarrow> string \<Rightarrow> string + 's \<Rightarrow> ManagedObject \<Rightarrow> string \<Rightarrow> 'o smap \<Rightarrow> 'o smap \<times> string option" where
  "upsert_with ops env kind decoded obj traceID store =
    (let name = mo_Name obj
     in case decoded of
          Inl e \<Rightarrow> (store, Some (''decode spec: '' @ e))
        | Inr spec \<Rightarrow>
            (case (case ap_get env kind name of Some e \<Rightarrow> Inl e
                   | None \<Rightarrow> (case map_of store name of None \<Rightarrow> Inl (NotFound name) | Some x \<Rightarrow> Inr x)) of
               Inl e \<Rightarrow>
                 if IsNotFound e then
                   (case ap_create env kind name of
                      Some ce \<Rightarrow> (store, Some (error_text ce))
                    | None \<Rightarrow> if map_of store name \<noteq> None then (store, Some ''already exists'')
                        else (AList.update name (ko_new ops (new_meta name (mo_Labels obj) traceID) spec) store, None))
                 else (store, Some (error_text e))
             | Inr existing \<Rightarrow>
                 if managed_value (ko_meta ops existing) = '''' then
                   (if ko_equal ops (ko_spec ops existing) spec then (store, None)
                    else (store, Some ''conflicts with existing unmanaged object''))
                 else
                   (let m = ko_meta ops existing;
                        newAnnotations = mergeTraceAnnotation (om_Annotations m) traceID
                    in if ko_skips_equal ops \<and> ko_equal ops (ko_spec ops existing) spec
                          \<and> labels_equal (om_Labels m) (Some (mo_Labels obj)) \<and> labels_equal (om_Annotations m) newAnnotations
                       then (store, None)
                       else (case ap_update env kind name of
                           Some e \<Rightarrow> (store, Some (error_text e))
                         | None \<Rightarrow> (AList.update name (ko_set ops (m\<lparr>om_Labels := Some (mo_Labels obj),
                             om_Annotations := newAnnotations\<rparr>) spec existing) store, None)))))"

definition upsertObject :: "apply_env \<Rightarrow> ManagedObject \<Rightarrow> string \<Rightarrow> member_cluster \<Rightarrow> member_cluster \<times> string option" where
  "upsertObject env obj traceID mc =
    (if mo_Kind obj = ''Policy'' then
       (let (s, e) = upsert_with policy_ops env ''Policy'' (ap_policy_spec env (mo_SpecJson obj)) obj traceID (mc_policies mc)
        in (mc\<lparr>mc_policies := s\<rparr>, e))
     else if mo_Kind obj = ''PolicyGroup'' then
       (let (s, e) = upsert_with group_ops env ''PolicyGroup'' (ap_group_spec env (mo_SpecJson obj)) obj traceID (mc_groups mc)
        in (mc\<lparr>mc_groups := s\<rparr>, e))
     else if mo_Kind obj = ''PolicyException'' then
       (let (s, e) = upsert_with exception_ops env ''PolicyException'' (ap_exception_spec env (mo_SpecJson obj)) obj traceID (mc_exceptions mc)
        in (mc\<lparr>mc_exceptions := s\<rparr>, e))
     else (mc, Some (''unknown kind '' @ [CHR 0x22] @ mo_Kind obj @ [CHR 0x22])))"

section \<open>Prune\<close>

text \<open>Objects that carry the label at all, whatever its value.\<close>

definition has_managed_label :: "ObjectMeta \<Rightarrow> bool" where
  "has_managed_label m \<longleftrightarrow> map_of (label_set (om_Labels m)) ManagedByLabel \<noteq> None"

text \<open>The server removes an object without finalizers and marks one that has some.\<close>

definition delete_object :: "('o, 's) kind_ops \<Rightarrow> time \<Rightarrow> string \<Rightarrow> 'o smap \<Rightarrow> 'o smap" where
  "delete_object ops now name store = (case map_of store name of
      None \<Rightarrow> store
    | Some x \<Rightarrow> if om_Finalizers (ko_meta ops x) = [] then AList.delete name store
        else AList.update name (ko_set ops ((ko_meta ops x)\<lparr>om_DeletionTimestamp := Some now\<rparr>) (ko_spec ops x) x) store)"

fun prune_items :: "('o, 's) kind_ops \<Rightarrow> apply_env \<Rightarrow> string \<Rightarrow> string list \<Rightarrow> string list \<Rightarrow> 'o smap \<Rightarrow> 'o smap \<times> string list" where
  "prune_items ops env kind keep [] store = (store, [])"
| "prune_items ops env kind keep (name # names) store =
    (if name \<in> set keep then prune_items ops env kind keep names store
     else case ap_delete env kind name of
       None \<Rightarrow> prune_items ops env kind keep names (delete_object ops (ap_now env) name store)
     | Some e \<Rightarrow>
         (let (s, errs) = prune_items ops env kind keep names store
          in (s, if IsNotFound e then errs
                 else (''prune '' @ kind @ '' '' @ name @ '': '' @ error_text e) # errs)))"

definition labelled_names :: "('o, 's) kind_ops \<Rightarrow> 'o smap \<Rightarrow> string list" where
  "labelled_names ops store = map fst (filter (\<lambda>(_, x). has_managed_label (ko_meta ops x)) store)"

definition prune_kind ::
  "('o, 's) kind_ops \<Rightarrow> apply_env \<Rightarrow> string \<Rightarrow> string list \<Rightarrow> 'o smap \<Rightarrow> 'o smap \<times> string list" where
  "prune_kind ops env kind keep store = prune_items ops env kind keep (labelled_names ops store) store"

text \<open>A failed list ends the pruning; the errors collected before it are dropped.\<close>

definition pruneManaged :: "apply_env \<Rightarrow> (string \<Rightarrow> string list) \<Rightarrow> member_cluster \<Rightarrow> member_cluster \<times> string option" where
  "pruneManaged env inSnapshot mc = (case ap_list env ''PolicyGroup'' of
      Some e \<Rightarrow> (mc, Some (''list managed groups: '' @ error_text e))
    | None \<Rightarrow>
        (let (gs, e1) = prune_kind group_ops env ''PolicyGroup'' (inSnapshot ''PolicyGroup'') (mc_groups mc);
             mc1 = mc\<lparr>mc_groups := gs\<rparr>
         in case ap_list env ''Policy'' of
              Some e \<Rightarrow> (mc1, Some (''list managed policies: '' @ error_text e))
            | None \<Rightarrow>
                (let (ps, e2) = prune_kind policy_ops env ''Policy'' (inSnapshot ''Policy'') (mc_policies mc1);
                     mc2 = mc1\<lparr>mc_policies := ps\<rparr>
                 in case ap_list env ''PolicyException'' of
                      Some e \<Rightarrow> (mc2, Some (''list managed exceptions: '' @ error_text e))
                    | None \<Rightarrow>
                        (let (xs, e3) = prune_kind exception_ops env ''PolicyException'' (inSnapshot ''PolicyException'') (mc_exceptions mc2);
                             errs = e1 @ e2 @ e3
                         in (mc2\<lparr>mc_exceptions := xs\<rparr>, if errs = [] then None else Some (Join errs ''; ''))))))"

section \<open>Applying a snapshot\<close>

definition known_kinds :: "string list" where
  "known_kinds = [''Policy'', ''PolicyGroup'', ''PolicyException'']"

fun upsert_all :: "apply_env \<Rightarrow> string \<Rightarrow> ManagedObject list \<Rightarrow> member_cluster \<Rightarrow> member_cluster \<times> string list" where
  "upsert_all env traceID [] mc = (mc, [])"
| "upsert_all env traceID (obj # objs) mc =
    (let (mc1, e) = upsertObject env obj traceID mc;
         (mc2, errs) = upsert_all env traceID objs mc1
     in (mc2, (case e of None \<Rightarrow> errs | Some m \<Rightarrow> (mo_Kind obj @ '' '' @ mo_Name obj @ '': '' @ m) # errs)))"

definition snapshot_names :: "ManagedObject list \<Rightarrow> string \<Rightarrow> string list" where
  "snapshot_names objs kind = map mo_Name (filter (\<lambda>mo. mo_Kind mo = kind) objs)"

definition unknown_errors :: "ManagedObject list \<Rightarrow> string list" where
  "unknown_errors objs = map (\<lambda>mo. ''unknown kind '' @ [CHR 0x22] @ mo_Kind mo @ [CHR 0x22] @ '' for object ''
     @ [CHR 0x22] @ mo_Name mo @ [CHR 0x22]) (filter (\<lambda>mo. mo_Kind mo \<notin> set known_kinds) objs)"

definition applyDesiredState :: "apply_env \<Rightarrow> DesiredState \<Rightarrow> member_cluster \<Rightarrow> member_cluster \<times> string option" where
  "applyDesiredState env ds mc =
    (let objs = ds_Objects ds;
         ordered = concat (map (\<lambda>kind. filter (\<lambda>mo. mo_Kind mo = kind) objs) known_kinds);
         (mc1, e1) = upsert_all env (ds_TraceId ds) ordered mc;
         (mc2, e2) = pruneManaged env (snapshot_names objs) mc1;
         errs = unknown_errors objs @ e1 @ (case e2 of None \<Rightarrow> [] | Some e \<Rightarrow> [e])
     in (mc2, if errs = [] then None else Some (Join errs ''; '')))"

definition policyCounts :: "(api_error + Policy list) \<Rightarrow> api_error + int \<times> int" where
  "policyCounts listed = (case listed of
      Inl e \<Rightarrow> Inl e
    | Inr ps \<Rightarrow> Inr (fold (\<lambda>p (ready, invalid).
        if pst_Phase (pol_Status p) = PhaseReady then (ready + 1, invalid)
        else if pst_Phase (pol_Status p) = PhaseInvalid then (ready, invalid + 1)
        else (ready, invalid)) ps (0, 0)))"

section \<open>The contract of a kind\<close>

text \<open>The server answers a deletion with \<open>NotFound\<close> only for an object it does not hold.\<close>

definition honest_delete :: "apply_env \<Rightarrow> bool" where
  "honest_delete env \<longleftrightarrow> (\<forall>k n e. ap_delete env k n = Some e \<longrightarrow> \<not> IsNotFound e)"

definition gone_or_marked :: "('o, 's) kind_ops \<Rightarrow> 'o smap \<Rightarrow> string \<Rightarrow> bool" where
  "gone_or_marked ops store n = (case map_of store n of
      None \<Rightarrow> True | Some x \<Rightarrow> om_DeletionTimestamp (ko_meta ops x) \<noteq> None)"

locale managed_kind =
  fixes ops :: "('o, 's) kind_ops"
  assumes meta_set [simp]: "ko_meta ops (ko_set ops m s x) = m"
    and spec_set [simp]: "ko_spec ops (ko_set ops m s x) = s"
    and meta_new [simp]: "ko_meta ops (ko_new ops m s) = m"
    and spec_new [simp]: "ko_spec ops (ko_new ops m s) = s"
    and equal_refl [simp]: "ko_equal ops s s"
begin

text \<open>An upsert touches one name, and never an object without the label.\<close>

lemma upsert_other: "n \<noteq> mo_Name obj \<Longrightarrow> map_of (fst (upsert_with ops env kind dec obj tr store)) n = map_of store n"
  by (auto simp: upsert_with_def Let_def split: sum.split option.split)

lemma upsert_wf: "wf_map store \<Longrightarrow> wf_map (fst (upsert_with ops env kind dec obj tr store))"
  by (auto simp: upsert_with_def Let_def split: sum.split option.split)

lemma unlabelled_value: "\<not> has_managed_label m \<Longrightarrow> managed_value m = ''''"
  by (auto simp: has_managed_label_def managed_value_def)

lemma upsert_unmanaged:
  assumes "map_of store n = Some x" "\<not> has_managed_label (ko_meta ops x)"
  shows "map_of (fst (upsert_with ops env kind dec obj tr store)) n = Some x"
proof (cases "n = mo_Name obj")
  case True
  then show ?thesis
    using assms unlabelled_value [OF assms(2)]
    by (auto simp: upsert_with_def Let_def split: sum.split option.split)
qed (simp add: assms upsert_other)

lemma upsert_ok:
  assumes "upsert_with ops env kind dec obj tr store = (store', None)"
  shows "\<exists>x spec. dec = Inr spec \<and> map_of store' (mo_Name obj) = Some x \<and> ko_equal ops (ko_spec ops x) spec
    \<and> (managed_value (ko_meta ops x) = '''' \<or> set (label_set (om_Labels (ko_meta ops x))) = set (mo_Labels obj))"
  using assms
  by (auto simp: upsert_with_def Let_def new_meta_def label_set_def labels_equal_def
      split: sum.splits option.splits if_splits)

text \<open>An upsert fails only for a reason: a call, the decoding, or an unmanaged object with another
  specification.\<close>

lemma upsert_succeeds:
  assumes "ap_get env kind (mo_Name obj) = None" "ap_create env kind (mo_Name obj) = None"
    "ap_update env kind (mo_Name obj) = None" "dec = Inr spec"
    and "\<And>x. map_of store (mo_Name obj) = Some x \<Longrightarrow> managed_value (ko_meta ops x) = '''' \<Longrightarrow> ko_equal ops (ko_spec ops x) spec"
  shows "snd (upsert_with ops env kind dec obj tr store) = None"
  using assms by (auto simp: upsert_with_def Let_def split: option.split)

lemma delete_object_other: "n \<noteq> name \<Longrightarrow> map_of (delete_object ops now name store) n = map_of store n"
  by (auto simp: delete_object_def split: option.split)

lemma delete_object_gone: "gone_or_marked ops (delete_object ops now name store) name"
  by (auto simp: delete_object_def gone_or_marked_def split: option.split)

lemma delete_object_keeps: "gone_or_marked ops store n \<Longrightarrow> gone_or_marked ops (delete_object ops now name store) n"
proof (cases "n = name")
  case True
  then show ?thesis by (simp only: delete_object_gone)
next
  case False
  then show ?thesis if "gone_or_marked ops store n" using that by (simp add: gone_or_marked_def delete_object_other)
qed

lemma prune_keeps_gone: "gone_or_marked ops store n \<Longrightarrow> gone_or_marked ops (fst (prune_items ops env kind keep names store)) n"
  by (induction names arbitrary: store) (auto simp: case_prod_unfold Let_def delete_object_keeps split: option.split)

lemma prune_other:
  "n \<notin> set names \<or> n \<in> set keep \<Longrightarrow> map_of (fst (prune_items ops env kind keep names store)) n = map_of store n"
proof (induction names arbitrary: store)
  case (Cons a names)
  have "n \<noteq> a \<or> n \<in> set keep" using Cons.prems by auto
  then show ?case
    using Cons delete_object_other [of n a] by (cases "n = a") (auto simp: case_prod_unfold Let_def split: option.split)
qed simp

lemma prune_all:
  assumes "snd (prune_items ops env kind keep names store) = []" "n \<in> set names" "n \<notin> set keep"
    and "honest_delete env"
  shows "gone_or_marked ops (fst (prune_items ops env kind keep names store)) n"
  using assms(1-3)
proof (induction names arbitrary: store)
  case (Cons a names)
  show ?case
  proof (cases "a \<in> set keep")
    case True
    then show ?thesis using Cons by auto
  next
    case False
    have none: "ap_delete env kind a = None"
      using Cons.prems(1) False assms(4) by (cases "ap_delete env kind a") (auto simp: honest_delete_def case_prod_unfold Let_def)
    show ?thesis
    proof (cases "n = a")
      case True
      then show ?thesis using False none by (simp add: prune_keeps_gone delete_object_gone)
    next
      case False
      then show ?thesis using Cons \<open>a \<notin> set keep\<close> none by simp
    qed
  qed
qed simp

lemma labelled_iff: "wf_map store \<Longrightarrow> map_of store n = Some x \<Longrightarrow> n \<in> set (labelled_names ops store) \<longleftrightarrow> has_managed_label (ko_meta ops x)"
  by (auto simp: labelled_names_def image_iff dest: map_of_SomeD) (metis map_of_is_SomeI option.inject)

lemma prune_kind_unlabelled:
  "wf_map store \<Longrightarrow> map_of store n = Some x \<Longrightarrow> \<not> has_managed_label (ko_meta ops x) \<Longrightarrow>
   map_of (fst (prune_kind ops env kind keep store)) n = Some x"
  by (simp add: prune_kind_def prune_other labelled_iff)

lemma prune_kind_all:
  assumes "wf_map store" "snd (prune_kind ops env kind keep store) = []"
    and "honest_delete env"
    and "map_of (fst (prune_kind ops env kind keep store)) n = Some x" "has_managed_label (ko_meta ops x)"
  shows "n \<in> set keep \<or> om_DeletionTimestamp (ko_meta ops x) \<noteq> None"
proof (cases "n \<in> set (labelled_names ops store) \<and> n \<notin> set keep")
  case True
  then have "gone_or_marked ops (fst (prune_kind ops env kind keep store)) n"
    using prune_all [OF assms(2) [unfolded prune_kind_def] _ _ assms(3)] by (simp add: prune_kind_def)
  then show ?thesis using assms(4) by (simp add: gone_or_marked_def)
next
  case False
  then have "n \<in> set keep \<or> map_of store n = Some x"
    using assms(4) prune_other [of n "labelled_names ops store" keep] by (auto simp: prune_kind_def)
  then show ?thesis using labelled_iff [OF assms(1), of n x] assms(5) False by auto
qed

lemma prune_kind_succeeds: "(\<And>n. ap_delete env kind n = None) \<Longrightarrow> snd (prune_kind ops env kind keep store) = []"
proof -
  assume none: "\<And>n. ap_delete env kind n = None"
  have "snd (prune_items ops env kind keep names store) = []" for names store
    by (induction names arbitrary: store) (simp_all add: none)
  then show ?thesis by (simp add: prune_kind_def)
qed

lemma prune_kind_keeps: "n \<in> set keep \<Longrightarrow> map_of (fst (prune_kind ops env kind keep store)) n = map_of store n"
  by (simp add: prune_kind_def prune_other)

end

interpretation policy_kind: managed_kind policy_ops
  by unfold_locales (simp_all add: policy_ops_def)

interpretation exception_kind: managed_kind exception_ops
  by unfold_locales (simp_all add: exception_ops_def)

lemma groupSpecsEqual_refl [simp]: "groupSpecsEqual a a"
  by (simp add: groupSpecsEqual_def labelSelectorsEqual_refl)

interpretation group_kind: managed_kind group_ops
  by unfold_locales (simp_all add: group_ops_def)

section \<open>One view of the three kinds\<close>

datatype any_spec = OfPolicy PolicySpec | OfGroup PolicyGroupSpec | OfException PolicyExceptionSpec

definition entry_of :: "('o, 's) kind_ops \<Rightarrow> ('s \<Rightarrow> any_spec) \<Rightarrow> 'o smap \<Rightarrow> string \<Rightarrow> (ObjectMeta \<times> any_spec) option" where
  "entry_of ops wrap store n = map_option (\<lambda>x. (ko_meta ops x, wrap (ko_spec ops x))) (map_of store n)"

definition entry :: "member_cluster \<Rightarrow> string \<Rightarrow> string \<Rightarrow> (ObjectMeta \<times> any_spec) option" where
  "entry mc kind n =
    (if kind = ''Policy'' then entry_of policy_ops OfPolicy (mc_policies mc) n
     else if kind = ''PolicyGroup'' then entry_of group_ops OfGroup (mc_groups mc) n
     else if kind = ''PolicyException'' then entry_of exception_ops OfException (mc_exceptions mc) n
     else None)"

fun spec_equal :: "any_spec \<Rightarrow> any_spec \<Rightarrow> bool" where
  "spec_equal (OfPolicy a) (OfPolicy b) \<longleftrightarrow> a = b"
| "spec_equal (OfGroup a) (OfGroup b) \<longleftrightarrow> groupSpecsEqual a b"
| "spec_equal (OfException a) (OfException b) \<longleftrightarrow> specsEqual a b"
| "spec_equal _ _ \<longleftrightarrow> False"

definition decode_object :: "apply_env \<Rightarrow> ManagedObject \<Rightarrow> string + any_spec" where
  "decode_object env obj =
    (if mo_Kind obj = ''Policy'' then map_sum id OfPolicy (ap_policy_spec env (mo_SpecJson obj))
     else if mo_Kind obj = ''PolicyGroup'' then map_sum id OfGroup (ap_group_spec env (mo_SpecJson obj))
     else if mo_Kind obj = ''PolicyException'' then map_sum id OfException (ap_exception_spec env (mo_SpecJson obj))
     else Inl ''unknown kind'')"

definition wf_member :: "member_cluster \<Rightarrow> bool" where
  "wf_member mc \<longleftrightarrow> wf_map (mc_policies mc) \<and> wf_map (mc_groups mc) \<and> wf_map (mc_exceptions mc)"

lemma entry_of_cong: "map_of s n = map_of s' n \<Longrightarrow> entry_of ops wrap s n = entry_of ops wrap s' n"
  by (simp add: entry_of_def)

lemma ops_simps [simp]:
  "ko_equal policy_ops a b \<longleftrightarrow> a = b" "ko_equal group_ops c d \<longleftrightarrow> groupSpecsEqual c d"
  "ko_equal exception_ops e f \<longleftrightarrow> specsEqual e f"
  by (simp_all add: policy_ops_def group_ops_def exception_ops_def)

lemma upsertObject_wf: "wf_member mc \<Longrightarrow> wf_member (fst (upsertObject env obj tr mc))"
  by (auto simp: upsertObject_def wf_member_def case_prod_unfold Let_def
      policy_kind.upsert_wf group_kind.upsert_wf exception_kind.upsert_wf)

lemma upsertObject_other:
  "(kind, n) \<noteq> (mo_Kind obj, mo_Name obj) \<Longrightarrow> entry (fst (upsertObject env obj tr mc)) kind n = entry mc kind n"
  by (auto simp: upsertObject_def entry_def case_prod_unfold Let_def
      policy_kind.upsert_other group_kind.upsert_other exception_kind.upsert_other intro!: entry_of_cong)

lemma entry_of_Some: "entry_of ops wrap store n = Some (m, s) \<longleftrightarrow> (\<exists>x. map_of store n = Some x \<and> m = ko_meta ops x \<and> s = wrap (ko_spec ops x))"
  by (auto simp: entry_of_def)

lemma upsertObject_unmanaged:
  assumes "entry mc kind n = Some (m, s)" "\<not> has_managed_label m"
  shows "entry (fst (upsertObject env obj tr mc)) kind n = Some (m, s)"
  using assms
  by (auto simp: upsertObject_def entry_def entry_of_Some case_prod_unfold Let_def split: if_splits
      dest: policy_kind.upsert_unmanaged group_kind.upsert_unmanaged exception_kind.upsert_unmanaged)

text \<open>What a successful upsert of an object leaves.\<close>

definition satisfied :: "apply_env \<Rightarrow> ManagedObject \<Rightarrow> member_cluster \<Rightarrow> bool" where
  "satisfied env obj mc \<longleftrightarrow> (\<exists>m s s'. entry mc (mo_Kind obj) (mo_Name obj) = Some (m, s) \<and> decode_object env obj = Inr s'
     \<and> spec_equal s s' \<and> (managed_value m = '''' \<or> set (label_set (om_Labels m)) = set (mo_Labels obj)))"

lemma upsertObject_ok:
  assumes "upsertObject env obj tr mc = (mc', None)"
  shows "satisfied env obj mc'"
proof -
  consider "mo_Kind obj = ''Policy''" | "mo_Kind obj = ''PolicyGroup''" | "mo_Kind obj = ''PolicyException''"
    using assms by (auto simp: upsertObject_def split: if_splits)
  then show ?thesis
  proof cases
    case 1
    then obtain st where u: "upsert_with policy_ops env ''Policy'' (ap_policy_spec env (mo_SpecJson obj)) obj tr (mc_policies mc) = (st, None)"
      and mc': "mc' = mc\<lparr>mc_policies := st\<rparr>"
      using assms by (auto simp: upsertObject_def Let_def split: prod.splits)
    show ?thesis using policy_kind.upsert_ok [OF u] 1 by (auto simp: satisfied_def entry_def entry_of_Some mc' decode_object_def)
  next
    case 2
    then obtain st where u: "upsert_with group_ops env ''PolicyGroup'' (ap_group_spec env (mo_SpecJson obj)) obj tr (mc_groups mc) = (st, None)"
      and mc': "mc' = mc\<lparr>mc_groups := st\<rparr>"
      using assms by (auto simp: upsertObject_def Let_def split: prod.splits)
    show ?thesis using group_kind.upsert_ok [OF u] 2 by (auto simp: satisfied_def entry_def entry_of_Some mc' decode_object_def)
  next
    case 3
    then obtain st where u: "upsert_with exception_ops env ''PolicyException'' (ap_exception_spec env (mo_SpecJson obj)) obj tr (mc_exceptions mc) = (st, None)"
      and mc': "mc' = mc\<lparr>mc_exceptions := st\<rparr>"
      using assms by (auto simp: upsertObject_def Let_def split: prod.splits)
    show ?thesis using exception_kind.upsert_ok [OF u] 3 by (auto simp: satisfied_def entry_def entry_of_Some mc' decode_object_def)
  qed
qed

text \<open>An object that can be upserted when no call fails.\<close>

definition placeable :: "apply_env \<Rightarrow> member_cluster \<Rightarrow> ManagedObject \<Rightarrow> bool" where
  "placeable env mc obj \<longleftrightarrow> (\<exists>s'. decode_object env obj = Inr s' \<and> (\<forall>m s. entry mc (mo_Kind obj) (mo_Name obj) = Some (m, s)
     \<longrightarrow> managed_value m = '''' \<longrightarrow> spec_equal s s'))"

definition calm :: "apply_env \<Rightarrow> bool" where
  "calm env \<longleftrightarrow> (\<forall>k n. ap_get env k n = None \<and> ap_create env k n = None \<and> ap_update env k n = None \<and> ap_delete env k n = None)
     \<and> (\<forall>k. ap_list env k = None)"

lemma upsertObject_succeeds:
  assumes "calm env" "placeable env mc obj"
  shows "snd (upsertObject env obj tr mc) = None"
proof -
  have calls: "ap_get env k n = None" "ap_create env k n = None" "ap_update env k n = None" for k n
    using assms(1) by (simp_all add: calm_def)
  obtain s' where s': "decode_object env obj = Inr s'"
    and eq: "\<And>m s. entry mc (mo_Kind obj) (mo_Name obj) = Some (m, s) \<Longrightarrow> managed_value m = '''' \<Longrightarrow> spec_equal s s'"
    using assms(2) by (auto simp: placeable_def)
  consider "mo_Kind obj = ''Policy''" | "mo_Kind obj = ''PolicyGroup''" | "mo_Kind obj = ''PolicyException''"
    using s' by (auto simp: decode_object_def split: if_splits)
  then show ?thesis
  proof cases
    case 1
    then obtain p where p: "ap_policy_spec env (mo_SpecJson obj) = Inr p" "s' = OfPolicy p"
      using s' by (cases "ap_policy_spec env (mo_SpecJson obj)") (auto simp: decode_object_def)
    have "snd (upsert_with policy_ops env ''Policy'' (ap_policy_spec env (mo_SpecJson obj)) obj tr (mc_policies mc)) = None"
      by (rule policy_kind.upsert_succeeds [OF calls p(1)])
        (use eq 1 p(2) in \<open>auto simp: entry_def entry_of_def\<close>)
    then show ?thesis using 1 by (simp add: upsertObject_def case_prod_unfold Let_def)
  next
    case 2
    then obtain p where p: "ap_group_spec env (mo_SpecJson obj) = Inr p" "s' = OfGroup p"
      using s' by (cases "ap_group_spec env (mo_SpecJson obj)") (auto simp: decode_object_def)
    have "snd (upsert_with group_ops env ''PolicyGroup'' (ap_group_spec env (mo_SpecJson obj)) obj tr (mc_groups mc)) = None"
      by (rule group_kind.upsert_succeeds [OF calls p(1)])
        (use eq 2 p(2) in \<open>auto simp: entry_def entry_of_def\<close>)
    then show ?thesis using 2 by (simp add: upsertObject_def case_prod_unfold Let_def)
  next
    case 3
    then obtain p where p: "ap_exception_spec env (mo_SpecJson obj) = Inr p" "s' = OfException p"
      using s' by (cases "ap_exception_spec env (mo_SpecJson obj)") (auto simp: decode_object_def)
    have "snd (upsert_with exception_ops env ''PolicyException'' (ap_exception_spec env (mo_SpecJson obj)) obj tr (mc_exceptions mc)) = None"
      by (rule exception_kind.upsert_succeeds [OF calls p(1)])
        (use eq 3 p(2) in \<open>auto simp: entry_def entry_of_def\<close>)
    then show ?thesis using 3 by (simp add: upsertObject_def case_prod_unfold Let_def)
  qed
qed

section \<open>A whole snapshot\<close>

abbreviation object_key :: "ManagedObject \<Rightarrow> string \<times> string" where
  "object_key obj \<equiv> (mo_Kind obj, mo_Name obj)"

lemma upsert_all_wf: "wf_member mc \<Longrightarrow> wf_member (fst (upsert_all env tr objs mc))"
  by (induction objs arbitrary: mc) (simp_all add: case_prod_unfold Let_def upsertObject_wf)

lemma upsert_all_unmanaged:
  "entry mc kind n = Some (m, s) \<Longrightarrow> \<not> has_managed_label m \<Longrightarrow> entry (fst (upsert_all env tr objs mc)) kind n = Some (m, s)"
  by (induction objs arbitrary: mc) (simp_all add: case_prod_unfold Let_def upsertObject_unmanaged)

lemma upsert_all_other:
  "(kind, n) \<notin> object_key ` set objs \<Longrightarrow> entry (fst (upsert_all env tr objs mc)) kind n = entry mc kind n"
proof (induction objs arbitrary: mc)
  case (Cons obj objs)
  then show ?case using upsertObject_other [of kind n obj] by (simp add: case_prod_unfold Let_def)
qed simp

lemma satisfied_cong:
  "entry mc (mo_Kind obj) (mo_Name obj) = entry mc' (mo_Kind obj) (mo_Name obj) \<Longrightarrow> satisfied env obj mc = satisfied env obj mc'"
  by (simp add: satisfied_def)

lemma upsert_all_ok:
  "snd (upsert_all env tr objs mc) = [] \<Longrightarrow> distinct (map object_key objs) \<Longrightarrow> obj \<in> set objs \<Longrightarrow>
   satisfied env obj (fst (upsert_all env tr objs mc))"
proof (induction objs arbitrary: mc)
  case (Cons a objs)
  obtain mc1 e where u: "upsertObject env a tr mc = (mc1, e)" by (cases "upsertObject env a tr mc")
  have e: "e = None" and rest: "snd (upsert_all env tr objs mc1) = []"
    using Cons.prems(1) u by (auto simp: case_prod_unfold Let_def split: option.splits)
  have run: "fst (upsert_all env tr (a # objs) mc) = fst (upsert_all env tr objs mc1)"
    using u by (simp add: case_prod_unfold Let_def)
  show ?case
  proof (cases "obj \<in> set objs")
    case True
    then show ?thesis unfolding run using Cons.IH [OF rest] Cons.prems(2) by simp
  next
    case False
    then have "obj = a" using Cons.prems(3) by simp
    moreover have "object_key a \<notin> object_key ` set objs" using Cons.prems(2) by auto
    ultimately show ?thesis
      unfolding run using upsertObject_ok [of env a tr mc mc1] u e
        satisfied_cong [OF upsert_all_other [of "mo_Kind a" "mo_Name a" objs env tr mc1]] by simp
  qed
qed simp

lemma placeable_cong:
  "entry mc (mo_Kind obj) (mo_Name obj) = entry mc' (mo_Kind obj) (mo_Name obj) \<Longrightarrow> placeable env mc obj = placeable env mc' obj"
  by (simp add: placeable_def)

lemma upsert_all_succeeds:
  "calm env \<Longrightarrow> distinct (map object_key objs) \<Longrightarrow> list_all (placeable env mc) objs \<Longrightarrow> snd (upsert_all env tr objs mc) = []"
proof (induction objs arbitrary: mc)
  case (Cons a objs)
  let ?mc1 = "fst (upsertObject env a tr mc)"
  have "placeable env ?mc1 obj" if "obj \<in> set objs" for obj
  proof -
    have "object_key obj \<noteq> object_key a" using that Cons.prems(2) by (auto simp: image_iff)
    then have "entry ?mc1 (mo_Kind obj) (mo_Name obj) = entry mc (mo_Kind obj) (mo_Name obj)"
      by (intro upsertObject_other) simp
    then show ?thesis using placeable_cong [of ?mc1 obj mc env] that Cons.prems(3) by (simp add: list_all_iff)
  qed
  then have "snd (upsert_all env tr objs ?mc1) = []" using Cons by (simp add: list_all_iff)
  then show ?case
    using upsertObject_succeeds [OF Cons.prems(1), of mc a tr] Cons.prems(3) by (simp add: case_prod_unfold Let_def)
qed simp

lemma prune_keeps:
  "n \<in> set (inS kind) \<Longrightarrow> entry (fst (pruneManaged env inS mc)) kind n = entry mc kind n"
  by (auto simp: pruneManaged_def entry_def case_prod_unfold Let_def policy_kind.prune_kind_keeps
      group_kind.prune_kind_keeps exception_kind.prune_kind_keeps intro!: entry_of_cong split: option.split)

lemma prune_unmanaged:
  assumes "wf_member mc" "entry mc kind n = Some (m, s)" "\<not> has_managed_label m"
  shows "entry (fst (pruneManaged env inS mc)) kind n = Some (m, s)"
  using assms
  by (auto simp: pruneManaged_def entry_def entry_of_Some wf_member_def case_prod_unfold Let_def
      policy_kind.prune_kind_unlabelled group_kind.prune_kind_unlabelled exception_kind.prune_kind_unlabelled
      split: option.split if_splits)

lemma prune_complete:
  assumes "wf_member mc" "snd (pruneManaged env inS mc) = None" "honest_delete env"
    and "entry (fst (pruneManaged env inS mc)) kind n = Some (m, s)" "has_managed_label m"
  shows "n \<in> set (inS kind) \<or> om_DeletionTimestamp m \<noteq> None"
proof -
  have parts: "snd (prune_kind group_ops env ''PolicyGroup'' (inS ''PolicyGroup'') (mc_groups mc)) = []"
    "snd (prune_kind policy_ops env ''Policy'' (inS ''Policy'') (mc_policies mc)) = []"
    "snd (prune_kind exception_ops env ''PolicyException'' (inS ''PolicyException'') (mc_exceptions mc)) = []"
    and run: "fst (pruneManaged env inS mc) = mc
      \<lparr>mc_groups := fst (prune_kind group_ops env ''PolicyGroup'' (inS ''PolicyGroup'') (mc_groups mc)),
       mc_policies := fst (prune_kind policy_ops env ''Policy'' (inS ''Policy'') (mc_policies mc)),
       mc_exceptions := fst (prune_kind exception_ops env ''PolicyException'' (inS ''PolicyException'') (mc_exceptions mc))\<rparr>"
    using assms(2) by (auto simp: pruneManaged_def case_prod_unfold Let_def split: option.splits if_splits)
  have wf: "wf_map (mc_policies mc)" "wf_map (mc_groups mc)" "wf_map (mc_exceptions mc)"
    using assms(1) by (simp_all add: wf_member_def)
  show ?thesis
    using assms(4,5) unfolding run entry_def
    by (auto simp: entry_of_Some split: if_splits
        dest: policy_kind.prune_kind_all [OF wf(1) parts(2) assms(3)] group_kind.prune_kind_all [OF wf(2) parts(1) assms(3)]
          exception_kind.prune_kind_all [OF wf(3) parts(3) assms(3)])
qed

lemma prune_succeeds: "calm env \<Longrightarrow> snd (pruneManaged env inS mc) = None"
  by (simp add: pruneManaged_def calm_def case_prod_unfold Let_def policy_kind.prune_kind_succeeds
      group_kind.prune_kind_succeeds exception_kind.prune_kind_succeeds)

definition ordered_objects :: "ManagedObject list \<Rightarrow> ManagedObject list" where
  "ordered_objects objs = concat (map (\<lambda>kind. filter (\<lambda>mo. mo_Kind mo = kind) objs) known_kinds)"

lemma ordered_set: "set (ordered_objects objs) = {mo \<in> set objs. mo_Kind mo \<in> set known_kinds}"
  by (auto simp: ordered_objects_def known_kinds_def)

lemma ordered_distinct: "distinct (map object_key objs) \<Longrightarrow> distinct (map object_key (ordered_objects objs))"
  by (auto simp: ordered_objects_def known_kinds_def distinct_map_filter)

lemma applyDesiredState_parts:
  fixes env ds mc
  defines "mc1 \<equiv> fst (upsert_all env (ds_TraceId ds) (ordered_objects (ds_Objects ds)) mc)"
  shows "fst (applyDesiredState env ds mc) = fst (pruneManaged env (snapshot_names (ds_Objects ds)) mc1)"
    and "snd (applyDesiredState env ds mc) = None \<longleftrightarrow> unknown_errors (ds_Objects ds) = []
      \<and> snd (upsert_all env (ds_TraceId ds) (ordered_objects (ds_Objects ds)) mc) = []
      \<and> snd (pruneManaged env (snapshot_names (ds_Objects ds)) mc1) = None"
  by (auto simp: applyDesiredState_def mc1_def ordered_objects_def case_prod_unfold Let_def split: option.split)

lemma applied_snapshot:
  assumes "wf_member mc" "honest_delete env" "distinct (map object_key (ds_Objects ds))" "snd (applyDesiredState env ds mc) = None"
  shows "obj \<in> set (ds_Objects ds) \<Longrightarrow> satisfied env obj (fst (applyDesiredState env ds mc))"
    "entry (fst (applyDesiredState env ds mc)) kind n = Some (m, s) \<Longrightarrow> has_managed_label m \<Longrightarrow>
      n \<in> set (snapshot_names (ds_Objects ds) kind) \<or> om_DeletionTimestamp m \<noteq> None"
proof -
  let ?objs = "ds_Objects ds"
  note parts = applyDesiredState_parts [of env ds mc]
  show "satisfied env obj (fst (applyDesiredState env ds mc))" if obj: "obj \<in> set ?objs"
  proof -
    have "mo_Kind obj \<in> set known_kinds"
      using assms(4) obj by (auto simp: parts(2) unknown_errors_def filter_empty_conv)
    then have "satisfied env obj (fst (upsert_all env (ds_TraceId ds) (ordered_objects ?objs) mc))"
      using assms(4) obj upsert_all_ok [OF _ ordered_distinct [OF assms(3)], of env "ds_TraceId ds" mc obj] by (simp add: parts(2) ordered_set)
    moreover have "mo_Name obj \<in> set (snapshot_names ?objs (mo_Kind obj))" using obj by (auto simp: snapshot_names_def)
    ultimately show ?thesis unfolding parts(1) using satisfied_cong [OF prune_keeps] by blast
  qed
  show "n \<in> set (snapshot_names ?objs kind) \<or> om_DeletionTimestamp m \<noteq> None"
    if "entry (fst (applyDesiredState env ds mc)) kind n = Some (m, s)" "has_managed_label m"
    by (rule prune_complete [OF upsert_all_wf [OF assms(1)] _ assms(2)]) (use that assms(4) parts in auto)
qed

text \<open>C16: Applying a snapshot makes the member equal to it. With distinct objects, a call that returns
  no error leaves every object of the snapshot in place with the specification it carries (under its
  labels, or as an unmanaged object that already had this specification), and every object that
  still carries the management label belongs to the snapshot or is being deleted. The call returns
  no error when no API call fails, every object decodes, and no unmanaged object stands in the way.\<close>

theorem applyDesiredState_converges:
  assumes "wf_member mc" "honest_delete env" "distinct (map object_key (ds_Objects ds))"
  shows "(calm env \<and> list_all (placeable env mc) (ds_Objects ds) \<longrightarrow> snd (applyDesiredState env ds mc) = None)
    \<and> (snd (applyDesiredState env ds mc) = None \<longrightarrow>
        (\<forall>obj \<in> set (ds_Objects ds). satisfied env obj (fst (applyDesiredState env ds mc)))
        \<and> (\<forall>kind n m s. entry (fst (applyDesiredState env ds mc)) kind n = Some (m, s) \<and> has_managed_label m \<longrightarrow>
             n \<in> set (snapshot_names (ds_Objects ds) kind) \<or> om_DeletionTimestamp m \<noteq> None))"
proof (intro conjI impI)
  assume "calm env \<and> list_all (placeable env mc) (ds_Objects ds)"
  then have calm: "calm env" and p: "\<forall>obj \<in> set (ds_Objects ds). placeable env mc obj" by (simp_all add: list_all_iff)
  have "unknown_errors (ds_Objects ds) = []"
    using p by (auto simp: unknown_errors_def filter_empty_conv placeable_def decode_object_def known_kinds_def split: if_splits)
  then show "snd (applyDesiredState env ds mc) = None"
    using applyDesiredState_parts(2) [of env ds mc] upsert_all_succeeds [OF calm ordered_distinct [OF assms(3)]] prune_succeeds [OF calm] p
    by (simp add: list_all_iff ordered_set)
qed (use applied_snapshot [OF assms] in blast)+

text \<open>C17: Objects the platform does not manage are never touched. Whatever the snapshot contains and
  whichever calls fail, an object without the management label is afterwards exactly as before.\<close>

theorem unmanaged_untouched:
  assumes "wf_member mc" "entry mc kind n = Some (m, s)" "\<not> has_managed_label m"
  shows "entry (fst (applyDesiredState env ds mc)) kind n = Some (m, s)"
  unfolding applyDesiredState_parts(1)
  by (intro prune_unmanaged upsert_all_wf upsert_all_unmanaged assms)

section \<open>Witnesses\<close>

definition ex_apply_env :: apply_env where
  "ex_apply_env = \<lparr>ap_get = (\<lambda>_ _. None), ap_create = (\<lambda>_ _. None), ap_update = (\<lambda>_ _. None), ap_delete = (\<lambda>_ _. None),
     ap_list = (\<lambda>_. None), ap_now = 9,
     ap_policy_spec = (\<lambda>j. if j = '''' then Inl ''unexpected end'' else Inr \<lparr>ps_Match = \<lparr>pm_Operations = [''CREATE''],
       pm_Resources = []\<rparr>, ps_EnforcementMode = ''audit'', ps_Rego = j, ps_Description = '''', ps_RollbackTo = None\<rparr>),
     ap_group_spec = (\<lambda>_. Inl ''unused''), ap_exception_spec = (\<lambda>_. Inl ''unused'')\<rparr>"

definition ex_stored :: "string \<Rightarrow> labels \<Rightarrow> string \<Rightarrow> Policy" where
  "ex_stored n ls rego = ko_new policy_ops (new_meta n ls '''') \<lparr>ps_Match = \<lparr>pm_Operations = [''CREATE''], pm_Resources = []\<rparr>,
     ps_EnforcementMode = ''audit'', ps_Rego = rego, ps_Description = '''', ps_RollbackTo = None\<rparr>"

definition ex_member :: member_cluster where
  "ex_member = \<lparr>mc_policies = [(''own'', ex_stored ''own'' [] ''x''), (''old'', ex_stored ''old'' [(ManagedByLabel, ''platform'')] ''y'')],
     mc_groups = [], mc_exceptions = []\<rparr>"

definition ex_desired :: DesiredState where
  "ex_desired = \<lparr>ds_Version = ''h'', ds_TraceId = ''t1'', ds_Objects = [
     \<lparr>mo_Kind = ''Policy'', mo_Name = ''new'', mo_Labels = [(ManagedByLabel, ''platform'')], mo_SpecJson = ''z''\<rparr>,
     \<lparr>mo_Kind = ''Policy'', mo_Name = ''own'', mo_Labels = [(ManagedByLabel, ''platform'')], mo_SpecJson = ''x''\<rparr>]\<rparr>"

lemma ex_apply_env_ok: "calm ex_apply_env" "honest_delete ex_apply_env" "wf_member ex_member"
  by (simp_all add: calm_def honest_delete_def ex_apply_env_def wf_member_def ex_member_def)

lemma ex_placeable: "list_all (placeable ex_apply_env ex_member) (ds_Objects ex_desired)"
  by (simp add: placeable_def ex_desired_def decode_object_def ex_apply_env_def entry_def entry_of_def ex_member_def
      ex_stored_def policy_ops_def)

theorem applyDesiredState_converges_witness:
  "snd (applyDesiredState ex_apply_env ex_desired ex_member) = None
   \<and> list_all (\<lambda>obj. satisfied ex_apply_env obj (fst (applyDesiredState ex_apply_env ex_desired ex_member))) (ds_Objects ex_desired)
   \<and> map fst (mc_policies (fst (applyDesiredState ex_apply_env ex_desired ex_member))) = [''own'', ''new'']"
proof -
  have "distinct (map object_key (ds_Objects ex_desired))" by (simp add: ex_desired_def)
  moreover have "map fst (mc_policies (fst (applyDesiredState ex_apply_env ex_desired ex_member))) = [''own'', ''new'']"
    by code_simp
  ultimately show ?thesis
    unfolding list_all_iff
    using applyDesiredState_converges [OF ex_apply_env_ok(3,2)] ex_apply_env_ok(1) ex_placeable by blast
qed

theorem unmanaged_untouched_witness:
  "entry (fst (applyDesiredState ex_apply_env ex_desired ex_member)) ''Policy'' ''own''
     = Some (ko_meta policy_ops (ex_stored ''own'' [] ''x''), OfPolicy (ko_spec policy_ops (ex_stored ''own'' [] ''x'')))"
  by (rule unmanaged_untouched [OF ex_apply_env_ok(3)])
    (simp_all add: entry_def entry_of_def ex_member_def has_managed_label_def ex_stored_def policy_ops_def new_meta_def label_set_def)

text \<open>An object whose management label is empty counts as unmanaged for the upsert, which refuses to
  overwrite it, but not for the pruning, which deletes it.\<close>

lemma empty_label_is_pruned:
  "fst (applyDesiredState ex_apply_env \<lparr>ds_Version = '''', ds_TraceId = '''', ds_Objects = []\<rparr>
     \<lparr>mc_policies = [(''p'', ex_stored ''p'' [(ManagedByLabel, '''')] ''x'')], mc_groups = [], mc_exceptions = []\<rparr>)
   = \<lparr>mc_policies = [], mc_groups = [], mc_exceptions = []\<rparr>"
  by code_simp

end
