(* ===== verification/Gateway_Render.thy ===== *)
theory Gateway_Render
  imports Desired_State Group_Resolve
begin

text \<open>
  Rendering the snapshot of one cluster, \<^verbatim>\<open>internal/gateway/render.go\<close>, over the models of
  \<^verbatim>\<open>internal/gatewaymodel\<close>. JSON encoding, SHA-256 and label selectors are arguments. The loops over
  distributions, groups and members are folds over one accumulator record.
\<close>

section \<open>Models\<close>

record DistributionOverride =
  do_Cluster :: string
  do_EnforcementMode :: string

record PolicyDistributionSpec =
  pd_ByName :: "string list"
  pd_ClusterSelector :: "LabelSelector option"
  pd_PolicyGroups :: "string list"
  pd_PolicyExceptions :: "string list"
  pd_Overrides :: "DistributionOverride list"

record PolicyDistribution =
  dist_Meta :: ObjectMeta
  dist_Spec :: PolicyDistributionSpec

definition dist_Name :: "PolicyDistribution \<Rightarrow> string" where
  "dist_Name d = om_Name (dist_Meta d)"

record Cluster =
  clu_Name :: string
  clu_DisplayName :: string
  clu_Labels :: "labels option"

record codec =
  enc_policy :: "PolicySpec \<Rightarrow> string"
  enc_group :: "PolicyGroupSpec \<Rightarrow> string"
  enc_exception :: "PolicyExceptionSpec \<Rightarrow> string"
  enc_objects :: "ManagedObject list \<Rightarrow> string"
  sha256_hex :: "string \<Rightarrow> string"

record RenderResult =
  rr_Hash :: string
  rr_Objects :: "ManagedObject list"
  rr_Matched :: "string list"
  rr_Errors :: "string smap"

section \<open>Helpers\<close>

definition stricter :: "string \<Rightarrow> string \<Rightarrow> string" where
  "stricter a b = (if a = ModeEnforce \<or> b = ModeEnforce then ModeEnforce else if a = '''' then b else a)"

definition withManaged :: "labels option \<Rightarrow> labels" where
  "withManaged ls = AList.update ManagedByLabel ManagedByPlatform (label_set ls)"

definition sortedKeys :: "'v smap \<Rightarrow> string list" where
  "sortedKeys m = sort (map fst m)"

definition distMatches :: "as_selector \<Rightarrow> PolicyDistribution \<Rightarrow> Cluster \<Rightarrow> bool \<times> string" where
  "distMatches asSelector d cluster =
    (if clu_Name cluster \<in> set (pd_ByName (dist_Spec d)) then (True, '''')
     else case pd_ClusterSelector (dist_Spec d) of
       None \<Rightarrow> (False, '''')
     | Some ls \<Rightarrow> (case asSelector ls of
         Inl e \<Rightarrow> (False, ''invalid clusterSelector: '' @ e)
       | Inr sel \<Rightarrow> (sel (label_set (clu_Labels cluster)), '''')))"

text \<open>The last override for the cluster counts.\<close>

definition override_of :: "PolicyDistribution \<Rightarrow> Cluster \<Rightarrow> string" where
  "override_of d cluster = fold (\<lambda>ov acc. if do_Cluster ov = clu_Name cluster then do_EnforcementMode ov else acc)
     (pd_Overrides (dist_Spec d)) ''''"

section \<open>The loops\<close>

record renderedGroup =
  rg_src :: PolicyGroup
  rg_modes :: "string smap"

record render_state =
  rs_Matched :: "string list"
  rs_Errors :: "string smap"
  rs_rendered :: "renderedGroup smap"
  rs_needed :: "Policy smap"
  rs_exceptions :: "PolicyException smap"

definition lookup_or :: "'v \<Rightarrow> 'v smap \<Rightarrow> string \<Rightarrow> 'v" where
  "lookup_or d m k = (case map_of m k of Some v \<Rightarrow> v | None \<Rightarrow> d)"

definition render_member :: "Policy smap \<Rightarrow> string \<Rightarrow> string \<Rightarrow> PolicyGroup \<Rightarrow> EffectiveMember \<Rightarrow> render_state \<Rightarrow> render_state" where
  "render_member policyByName override gname g m st =
    (let mode = (if override \<noteq> '''' then override else em_EnforcementMode m);
         rg = lookup_or \<lparr>rg_src = g, rg_modes = []\<rparr> (rs_rendered st) gname;
         rg' = rg\<lparr>rg_modes := AList.update (em_Name m) (stricter (lookup_or '''' (rg_modes rg) (em_Name m)) mode) (rg_modes rg)\<rparr>
     in st\<lparr>rs_rendered := AList.update gname rg' (rs_rendered st),
           rs_needed := (case map_of policyByName (em_Name m) of
             Some p \<Rightarrow> AList.update (em_Name m) p (rs_needed st) | None \<Rightarrow> rs_needed st)\<rparr>)"

definition render_group ::
  "as_selector \<Rightarrow> time \<Rightarrow> PolicyGroup smap \<Rightarrow> Policy smap \<Rightarrow> Policy list \<Rightarrow> string \<Rightarrow> string
   \<Rightarrow> render_state \<times> string list \<Rightarrow> render_state \<times> string list" where
  "render_group asSelector now groupByName policyByName policies override gname acc = (case acc of (st, errs) \<Rightarrow>
     (case map_of groupByName gname of
        None \<Rightarrow> (st, errs @ [''policygroup '' @ [CHR 0x22] @ gname @ [CHR 0x22] @ '' not found''])
      | Some g \<Rightarrow>
          if \<not> gs_Enabled (grp_Spec g) then (st, errs)
          else
            (let members = fst (Resolve asSelector now (grp_Spec g) policies);
                 st1 = (case map_of (rs_rendered st) gname of
                     Some _ \<Rightarrow> st
                   | None \<Rightarrow> st\<lparr>rs_rendered := AList.update gname \<lparr>rg_src = g, rg_modes = []\<rparr> (rs_rendered st)\<rparr>)
             in (fold (render_member policyByName override gname g) members st1, errs))))"

definition render_exception ::
  "PolicyException smap \<Rightarrow> string \<Rightarrow> render_state \<times> string list \<Rightarrow> render_state \<times> string list" where
  "render_exception exceptionByName name acc = (case acc of (st, errs) \<Rightarrow>
     (case map_of exceptionByName name of
        None \<Rightarrow> (st, errs @ [''policyexception '' @ [CHR 0x22] @ name @ [CHR 0x22] @ '' not found''])
      | Some e \<Rightarrow> (st\<lparr>rs_exceptions := AList.update name e (rs_exceptions st)\<rparr>, errs)))"

definition render_dist ::
  "as_selector \<Rightarrow> time \<Rightarrow> Cluster \<Rightarrow> PolicyGroup list \<Rightarrow> Policy list \<Rightarrow> PolicyException list \<Rightarrow> PolicyDistribution
   \<Rightarrow> render_state \<Rightarrow> render_state" where
  "render_dist asSelector now cluster groups policies exceptions d st =
    (if om_DeletionTimestamp (dist_Meta d) \<noteq> None then st
     else case distMatches asSelector d cluster of (matched, matchErr) \<Rightarrow>
       if matchErr \<noteq> '''' then st\<lparr>rs_Matched := rs_Matched st @ [dist_Name d],
           rs_Errors := AList.update (dist_Name d) matchErr (rs_Errors st)\<rparr>
       else if \<not> matched then st
       else
         (let st0 = st\<lparr>rs_Matched := rs_Matched st @ [dist_Name d]\<rparr>;
              acc1 = fold (render_group asSelector now (index_by grp_Name id groups) (index_by pol_Name id policies) policies
                        (override_of d cluster)) (pd_PolicyGroups (dist_Spec d)) (st0, []);
              (st2, errs) = fold (render_exception (index_by pex_Name id exceptions)) (pd_PolicyExceptions (dist_Spec d)) acc1
          in if length errs > 0 then st2\<lparr>rs_Errors := AList.update (dist_Name d) (Join errs ''; '') (rs_Errors st2)\<rparr> else st2))"

section \<open>Rendering\<close>

definition policy_object :: "codec \<Rightarrow> string \<Rightarrow> Policy \<Rightarrow> ManagedObject" where
  "policy_object cd name p = \<lparr>mo_Kind = ''Policy'', mo_Name = name, mo_Labels = withManaged (pol_Labels p),
     mo_SpecJson = enc_policy cd (pol_Spec p)\<rparr>"

definition group_spec_for :: "renderedGroup \<Rightarrow> PolicyGroupSpec" where
  "group_spec_for rg = (grp_Spec (rg_src rg))\<lparr>
     gs_Policies := \<lparr>pgp_ByName = map (\<lambda>p. \<lparr>ref_Name = p, ref_EnforcementMode = lookup_or '''' (rg_modes rg) p\<rparr>) (sortedKeys (rg_modes rg)),
       pgp_BySelector = None, pgp_Exclude = []\<rparr>,
     gs_SelectorEnforcementMode := ''''\<rparr>"

definition group_object :: "codec \<Rightarrow> string \<Rightarrow> renderedGroup \<Rightarrow> ManagedObject" where
  "group_object cd name rg = \<lparr>mo_Kind = ''PolicyGroup'', mo_Name = name, mo_Labels = withManaged (om_Labels (grp_Meta (rg_src rg))),
     mo_SpecJson = enc_group cd (group_spec_for rg)\<rparr>"

definition exception_object :: "codec \<Rightarrow> string \<Rightarrow> PolicyException \<Rightarrow> ManagedObject" where
  "exception_object cd name e = \<lparr>mo_Kind = ''PolicyException'', mo_Name = name, mo_Labels = withManaged (om_Labels (pex_Meta e)),
     mo_SpecJson = enc_exception cd (pex_Spec e)\<rparr>"

definition objects_for :: "(string \<Rightarrow> 'v \<Rightarrow> ManagedObject) \<Rightarrow> 'v smap \<Rightarrow> ManagedObject list" where
  "objects_for mk m = List.map_filter (\<lambda>k. map_option (mk k) (map_of m k)) (sortedKeys m)"

definition render_loop ::
  "as_selector \<Rightarrow> time \<Rightarrow> Cluster \<Rightarrow> PolicyDistribution list \<Rightarrow> PolicyGroup list \<Rightarrow> Policy list \<Rightarrow> PolicyException list \<Rightarrow> render_state" where
  "render_loop asSelector now cluster dists groups policies exceptions =
     fold (render_dist asSelector now cluster groups policies exceptions) dists
       \<lparr>rs_Matched = [], rs_Errors = [], rs_rendered = [], rs_needed = [], rs_exceptions = []\<rparr>"

definition RenderWithExceptions ::
  "codec \<Rightarrow> as_selector \<Rightarrow> time \<Rightarrow> Cluster \<Rightarrow> PolicyDistribution list \<Rightarrow> PolicyGroup list \<Rightarrow> Policy list \<Rightarrow> PolicyException list \<Rightarrow> RenderResult" where
  "RenderWithExceptions cd asSelector now cluster dists groups policies exceptions =
    (let st = render_loop asSelector now cluster dists groups policies exceptions;
         objects = objects_for (policy_object cd) (rs_needed st) @ objects_for (group_object cd) (rs_rendered st)
           @ objects_for (exception_object cd) (rs_exceptions st)
     in \<lparr>rr_Hash = sha256_hex cd (enc_objects cd objects), rr_Objects = objects,
         rr_Matched = sort (rs_Matched st), rr_Errors = rs_Errors st\<rparr>)"

definition Render ::
  "codec \<Rightarrow> as_selector \<Rightarrow> time \<Rightarrow> Cluster \<Rightarrow> PolicyDistribution list \<Rightarrow> PolicyGroup list \<Rightarrow> Policy list \<Rightarrow> RenderResult" where
  "Render cd asSelector now cluster dists groups policies = RenderWithExceptions cd asSelector now cluster dists groups policies []"

section \<open>The hash of a push\<close>

record UninstallTask =
  ut_TaskId :: int
  ut_Attempt :: int

definition hashWithUninstallTasks :: "codec \<Rightarrow> string \<Rightarrow> UninstallTask list \<Rightarrow> string" where
  "hashWithUninstallTasks cd base tasks = (if tasks = [] then base
     else sha256_hex cd (Join (base # map (\<lambda>t. Itoa (ut_TaskId t) @ '':'' @ Itoa (ut_Attempt t)) tasks) '',''))"

definition hashWithAdmissionEventConfig :: "codec \<Rightarrow> ('c \<Rightarrow> string) \<Rightarrow> string \<Rightarrow> 'c option \<Rightarrow> string" where
  "hashWithAdmissionEventConfig cd encode base config = (case config of
      None \<Rightarrow> base | Some c \<Rightarrow> sha256_hex cd (base @ '','' @ encode c))"

section \<open>The rendered groups as a sequence of events\<close>

datatype render_event =
    Touch string PolicyGroup
  | Member string PolicyGroup string string

fun event_group :: "render_event \<Rightarrow> string" where
  "event_group (Touch n g) = n"
| "event_group (Member n g p m) = n"

fun event_source :: "render_event \<Rightarrow> PolicyGroup" where
  "event_source (Touch n g) = g"
| "event_source (Member n g p m) = g"

definition effective_mode :: "string \<Rightarrow> EffectiveMember \<Rightarrow> string" where
  "effective_mode override m = (if override \<noteq> '''' then override else em_EnforcementMode m)"

definition group_events ::
  "as_selector \<Rightarrow> time \<Rightarrow> PolicyGroup list \<Rightarrow> Policy list \<Rightarrow> string \<Rightarrow> string \<Rightarrow> render_event list" where
  "group_events asSelector now groups policies override gname = (case map_of (index_by grp_Name id groups) gname of
      None \<Rightarrow> []
    | Some g \<Rightarrow> if gs_Enabled (grp_Spec g)
        then Touch gname g # map (\<lambda>m. Member gname g (em_Name m) (effective_mode override m)) (fst (Resolve asSelector now (grp_Spec g) policies))
        else [])"

definition targets :: "as_selector \<Rightarrow> Cluster \<Rightarrow> PolicyDistribution \<Rightarrow> bool" where
  "targets asSelector cluster d \<longleftrightarrow> om_DeletionTimestamp (dist_Meta d) = None \<and> distMatches asSelector d cluster = (True, '''')"

definition dist_events ::
  "as_selector \<Rightarrow> time \<Rightarrow> Cluster \<Rightarrow> PolicyGroup list \<Rightarrow> Policy list \<Rightarrow> PolicyDistribution \<Rightarrow> render_event list" where
  "dist_events asSelector now cluster groups policies d =
    (if targets asSelector cluster d
     then concat (map (group_events asSelector now groups policies (override_of d cluster)) (pd_PolicyGroups (dist_Spec d)))
     else [])"

definition event_step :: "render_event \<Rightarrow> renderedGroup smap \<Rightarrow> renderedGroup smap" where
  "event_step ev r = (case ev of
      Touch gname g \<Rightarrow> (case map_of r gname of Some _ \<Rightarrow> r | None \<Rightarrow> AList.update gname \<lparr>rg_src = g, rg_modes = []\<rparr> r)
    | Member gname g p mode \<Rightarrow>
        (let rg = lookup_or \<lparr>rg_src = g, rg_modes = []\<rparr> r gname
         in AList.update gname (rg\<lparr>rg_modes := AList.update p (stricter (lookup_or '''' (rg_modes rg) p) mode) (rg_modes rg)\<rparr>) r))"

definition member_step :: "Policy smap \<Rightarrow> render_event \<Rightarrow> Policy smap \<Rightarrow> Policy smap" where
  "member_step policyByName ev needed = (case ev of
      Touch _ _ \<Rightarrow> needed
    | Member gname g p mode \<Rightarrow> (case map_of policyByName p of Some x \<Rightarrow> AList.update p x needed | None \<Rightarrow> needed))"

lemma render_member_events:
  "rs_rendered (fold (render_member ps ov gname g) ms st) = fold event_step (map (\<lambda>m. Member gname g (em_Name m) (effective_mode ov m)) ms) (rs_rendered st)"
  "rs_needed (fold (render_member ps ov gname g) ms st) = fold (member_step ps) (map (\<lambda>m. Member gname g (em_Name m) (effective_mode ov m)) ms) (rs_needed st)"
  "rs_exceptions (fold (render_member ps ov gname g) ms st) = rs_exceptions st"
  "rs_Matched (fold (render_member ps ov gname g) ms st) = rs_Matched st"
  "rs_Errors (fold (render_member ps ov gname g) ms st) = rs_Errors st"
  by (induction ms arbitrary: st)
    (simp_all add: render_member_def event_step_def member_step_def effective_mode_def Let_def)

lemma render_group_events:
  fixes asSelector now groups policies ov gname acc
  defines "r \<equiv> render_group asSelector now (index_by grp_Name id groups) (index_by pol_Name id policies) policies ov gname acc"
    and "evs \<equiv> group_events asSelector now groups policies ov gname"
  shows "rs_rendered (fst r) = fold event_step evs (rs_rendered (fst acc))"
    and "rs_needed (fst r) = fold (member_step (index_by pol_Name id policies)) evs (rs_needed (fst acc))"
    and "rs_exceptions (fst r) = rs_exceptions (fst acc)" "rs_Matched (fst r) = rs_Matched (fst acc)"
    and "rs_Errors (fst r) = rs_Errors (fst acc)"
  unfolding r_def evs_def
  by (auto simp: render_group_def group_events_def case_prod_unfold Let_def render_member_events
      event_step_def [of "Touch _ _"] member_step_def [of _ "Touch _ _"] split: option.split)

lemma render_groups_events:
  fixes asSelector now groups policies ov acc
  defines "r gs \<equiv> fold (render_group asSelector now (index_by grp_Name id groups) (index_by pol_Name id policies) policies ov) gs acc"
    and "evs gs \<equiv> concat (map (group_events asSelector now groups policies ov) gs)"
  shows "rs_rendered (fst (r gs)) = fold event_step (evs gs) (rs_rendered (fst acc))
    \<and> rs_needed (fst (r gs)) = fold (member_step (index_by pol_Name id policies)) (evs gs) (rs_needed (fst acc))
    \<and> rs_exceptions (fst (r gs)) = rs_exceptions (fst acc) \<and> rs_Matched (fst (r gs)) = rs_Matched (fst acc)
    \<and> rs_Errors (fst (r gs)) = rs_Errors (fst acc)"
  unfolding r_def evs_def
  by (induction gs arbitrary: acc) (simp_all add: render_group_events)

lemma render_exceptions_events:
  fixes xs acc
  defines "r ns \<equiv> fold (render_exception xs) ns acc"
  shows "rs_exceptions (fst (r ns)) = fold (\<lambda>n m. case map_of xs n of Some e \<Rightarrow> AList.update n e m | None \<Rightarrow> m) ns (rs_exceptions (fst acc))
    \<and> rs_rendered (fst (r ns)) = rs_rendered (fst acc) \<and> rs_needed (fst (r ns)) = rs_needed (fst acc)
    \<and> rs_Matched (fst (r ns)) = rs_Matched (fst acc) \<and> rs_Errors (fst (r ns)) = rs_Errors (fst acc)"
  unfolding r_def
  by (induction ns arbitrary: acc) (auto simp: render_exception_def case_prod_unfold split: option.split)

section \<open>One distribution, all distributions\<close>

definition missing_groups :: "PolicyGroup list \<Rightarrow> string list \<Rightarrow> string list" where
  "missing_groups groups gs = map (\<lambda>n. ''policygroup '' @ [CHR 0x22] @ n @ [CHR 0x22] @ '' not found'')
     (filter (\<lambda>n. map_of (index_by grp_Name id groups) n = None) gs)"

definition missing_exceptions :: "PolicyException list \<Rightarrow> string list \<Rightarrow> string list" where
  "missing_exceptions xs ns = map (\<lambda>n. ''policyexception '' @ [CHR 0x22] @ n @ [CHR 0x22] @ '' not found'')
     (filter (\<lambda>n. map_of (index_by pex_Name id xs) n = None) ns)"

lemma render_groups_errs:
  "snd (fold (render_group asSelector now (index_by grp_Name id groups) pn policies ov) gs acc) = snd acc @ missing_groups groups gs"
  by (induction gs arbitrary: acc)
    (auto simp: missing_groups_def render_group_def case_prod_unfold Let_def split: option.split)

lemma render_exceptions_errs:
  "snd (fold (render_exception (index_by pex_Name id xs)) ns acc) = snd acc @ missing_exceptions xs ns"
  by (induction ns arbitrary: acc)
    (auto simp: missing_exceptions_def render_exception_def case_prod_unfold split: option.split)

definition considered :: "as_selector \<Rightarrow> Cluster \<Rightarrow> PolicyDistribution \<Rightarrow> bool" where
  "considered asSelector cluster d \<longleftrightarrow> om_DeletionTimestamp (dist_Meta d) = None
     \<and> (fst (distMatches asSelector d cluster) \<or> snd (distMatches asSelector d cluster) \<noteq> '''')"

definition dist_error :: "as_selector \<Rightarrow> Cluster \<Rightarrow> PolicyGroup list \<Rightarrow> PolicyException list \<Rightarrow> PolicyDistribution \<Rightarrow> string option" where
  "dist_error asSelector cluster groups xs d =
    (if om_DeletionTimestamp (dist_Meta d) \<noteq> None then None
     else if snd (distMatches asSelector d cluster) \<noteq> '''' then Some (snd (distMatches asSelector d cluster))
     else if \<not> targets asSelector cluster d then None
     else let errs = missing_groups groups (pd_PolicyGroups (dist_Spec d)) @ missing_exceptions xs (pd_PolicyExceptions (dist_Spec d))
       in if errs = [] then None else Some (Join errs ''; ''))"

definition dist_exceptions :: "as_selector \<Rightarrow> Cluster \<Rightarrow> PolicyDistribution \<Rightarrow> string list" where
  "dist_exceptions asSelector cluster d = (if targets asSelector cluster d then pd_PolicyExceptions (dist_Spec d) else [])"

abbreviation exception_step :: "PolicyException smap \<Rightarrow> string \<Rightarrow> PolicyException smap \<Rightarrow> PolicyException smap" where
  "exception_step xs n m \<equiv> (case map_of xs n of Some e \<Rightarrow> AList.update n e m | None \<Rightarrow> m)"

lemma render_dist_parts:
  fixes asSelector now cluster groups policies exceptions d st
  defines "r \<equiv> render_dist asSelector now cluster groups policies exceptions d st"
  shows "rs_rendered r = fold event_step (dist_events asSelector now cluster groups policies d) (rs_rendered st)"
    and "rs_needed r = fold (member_step (index_by pol_Name id policies)) (dist_events asSelector now cluster groups policies d) (rs_needed st)"
    and "rs_exceptions r = fold (exception_step (index_by pex_Name id exceptions)) (dist_exceptions asSelector cluster d) (rs_exceptions st)"
    and "rs_Matched r = rs_Matched st @ (if considered asSelector cluster d then [dist_Name d] else [])"
    and "rs_Errors r = (case dist_error asSelector cluster groups exceptions d of None \<Rightarrow> rs_Errors st
      | Some e \<Rightarrow> AList.update (dist_Name d) e (rs_Errors st))"
proof -
  let ?g = "\<lambda>st. fold (render_group asSelector now (index_by grp_Name id groups) (index_by pol_Name id policies) policies
    (override_of d cluster)) (pd_PolicyGroups (dist_Spec d)) (st, [])"
  let ?x = "\<lambda>acc. fold (render_exception (index_by pex_Name id exceptions)) (pd_PolicyExceptions (dist_Spec d)) acc"
  obtain b e where be: "distMatches asSelector d cluster = (b, e)" by (cases "distMatches asSelector d cluster")
  note simps = render_groups_events render_exceptions_events render_groups_errs render_exceptions_errs
  show "rs_rendered r = fold event_step (dist_events asSelector now cluster groups policies d) (rs_rendered st)"
    unfolding r_def render_dist_def dist_events_def targets_def be by (simp add: case_prod_unfold Let_def simps)
  show "rs_needed r = fold (member_step (index_by pol_Name id policies)) (dist_events asSelector now cluster groups policies d) (rs_needed st)"
    unfolding r_def render_dist_def dist_events_def targets_def be by (simp add: case_prod_unfold Let_def simps)
  show "rs_exceptions r = fold (exception_step (index_by pex_Name id exceptions)) (dist_exceptions asSelector cluster d) (rs_exceptions st)"
    unfolding r_def render_dist_def dist_exceptions_def targets_def be by (simp add: case_prod_unfold Let_def simps)
  show "rs_Matched r = rs_Matched st @ (if considered asSelector cluster d then [dist_Name d] else [])"
    unfolding r_def render_dist_def considered_def be by (simp add: case_prod_unfold Let_def simps)
  show "rs_Errors r = (case dist_error asSelector cluster groups exceptions d of None \<Rightarrow> rs_Errors st
      | Some e \<Rightarrow> AList.update (dist_Name d) e (rs_Errors st))"
    unfolding r_def render_dist_def dist_error_def targets_def be by (simp add: case_prod_unfold Let_def simps)
qed

definition all_events ::
  "as_selector \<Rightarrow> time \<Rightarrow> Cluster \<Rightarrow> PolicyGroup list \<Rightarrow> Policy list \<Rightarrow> PolicyDistribution list \<Rightarrow> render_event list" where
  "all_events asSelector now cluster groups policies dists = concat (map (dist_events asSelector now cluster groups policies) dists)"

lemma render_loop_parts:
  fixes asSelector now cluster dists groups policies exceptions
  defines "r \<equiv> render_loop asSelector now cluster dists groups policies exceptions"
  shows "rs_rendered r = fold event_step (all_events asSelector now cluster groups policies dists) []"
    and "rs_needed r = fold (member_step (index_by pol_Name id policies)) (all_events asSelector now cluster groups policies dists) []"
    and "rs_exceptions r = fold (exception_step (index_by pex_Name id exceptions)) (concat (map (dist_exceptions asSelector cluster) dists)) []"
    and "rs_Matched r = map dist_Name (filter (considered asSelector cluster) dists)"
    and "rs_Errors r = fold (\<lambda>d es. case dist_error asSelector cluster groups exceptions d of None \<Rightarrow> es
      | Some e \<Rightarrow> AList.update (dist_Name d) e es) dists []"
proof -
  let ?f = "render_dist asSelector now cluster groups policies exceptions"
  have "rs_rendered (fold ?f dists st) = fold event_step (all_events asSelector now cluster groups policies dists) (rs_rendered st)
    \<and> rs_needed (fold ?f dists st) = fold (member_step (index_by pol_Name id policies)) (all_events asSelector now cluster groups policies dists) (rs_needed st)
    \<and> rs_exceptions (fold ?f dists st) = fold (exception_step (index_by pex_Name id exceptions)) (concat (map (dist_exceptions asSelector cluster) dists)) (rs_exceptions st)
    \<and> rs_Matched (fold ?f dists st) = rs_Matched st @ map dist_Name (filter (considered asSelector cluster) dists)
    \<and> rs_Errors (fold ?f dists st) = fold (\<lambda>d es. case dist_error asSelector cluster groups exceptions d of None \<Rightarrow> es
      | Some e \<Rightarrow> AList.update (dist_Name d) e es) dists (rs_Errors st)" for st
    by (induction dists arbitrary: st) (simp_all add: all_events_def render_dist_parts)
  then show "rs_rendered r = fold event_step (all_events asSelector now cluster groups policies dists) []"
    "rs_needed r = fold (member_step (index_by pol_Name id policies)) (all_events asSelector now cluster groups policies dists) []"
    "rs_exceptions r = fold (exception_step (index_by pex_Name id exceptions)) (concat (map (dist_exceptions asSelector cluster) dists)) []"
    "rs_Matched r = map dist_Name (filter (considered asSelector cluster) dists)"
    "rs_Errors r = fold (\<lambda>d es. case dist_error asSelector cluster groups exceptions d of None \<Rightarrow> es
      | Some e \<Rightarrow> AList.update (dist_Name d) e es) dists []"
    unfolding r_def render_loop_def by simp_all
qed

section \<open>What the loops compute\<close>

definition modes_for :: "render_event list \<Rightarrow> string \<Rightarrow> string \<Rightarrow> string list" where
  "modes_for evs g p = concat (map (\<lambda>ev. case ev of
      Member n _ q m \<Rightarrow> if n = g \<and> q = p then [m] else [] | Touch _ _ \<Rightarrow> []) evs)"

definition member_names :: "render_event list \<Rightarrow> string set" where
  "member_names evs = {p. \<exists>n g m. Member n g p m \<in> set evs}"

definition rendered_inv :: "render_event list \<Rightarrow> renderedGroup smap \<Rightarrow> bool" where
  "rendered_inv evs r \<longleftrightarrow> wf_map r \<and> fst ` set r = event_group ` set evs
     \<and> (\<forall>g rg. map_of r g = Some rg \<longrightarrow> wf_map (rg_modes rg)
          \<and> (\<exists>ev \<in> set evs. event_group ev = g \<and> rg_src rg = event_source ev)
          \<and> (\<forall>p. map_of (rg_modes rg) p = (if modes_for evs g p = [] then None else Some (foldl stricter '''' (modes_for evs g p)))))"

lemma modes_for_snoc: "modes_for (evs @ [ev]) g p = modes_for evs g p @ (case ev of
      Member n _ q m \<Rightarrow> if n = g \<and> q = p then [m] else [] | Touch _ _ \<Rightarrow> [])"
  by (simp add: modes_for_def)

lemma rendered_inv_step:
  assumes "rendered_inv evs r"
  shows "rendered_inv (evs @ [ev]) (event_step ev r)"
proof (cases ev)
  case (Touch n g)
  show ?thesis
  proof (cases "map_of r n")
    case None
    have "n \<notin> event_group ` set evs" using assms None by (auto simp: rendered_inv_def map_of_eq_None_iff)
    then have fresh: "modes_for evs n p = []" for p
      by (auto simp: modes_for_def image_iff split: render_event.split)
    then show ?thesis
      using assms None by (auto simp: rendered_inv_def Touch event_step_def modes_for_snoc)
  next
    case (Some rg)
    then have "n \<in> fst ` set r" by (metis map_of_eq_None_iff option.distinct(1))
    then show ?thesis
      using assms Some by (auto simp: rendered_inv_def Touch event_step_def modes_for_snoc)
  qed
next
  case (Member n g p m)
  define rg where "rg = lookup_or \<lparr>rg_src = g, rg_modes = []\<rparr> r n"
  have rg: "wf_map (rg_modes rg)" "\<exists>e \<in> set (evs @ [ev]). event_group e = n \<and> rg_src rg = event_source e"
    "map_of (rg_modes rg) q = (if modes_for evs n q = [] then None else Some (foldl stricter '''' (modes_for evs n q)))" for q
  proof -
    have "wf_map (rg_modes rg) \<and> (\<exists>e \<in> set (evs @ [ev]). event_group e = n \<and> rg_src rg = event_source e)
      \<and> (\<forall>q. map_of (rg_modes rg) q = (if modes_for evs n q = [] then None else Some (foldl stricter '''' (modes_for evs n q))))"
    proof (cases "map_of r n")
      case None
      have "n \<notin> event_group ` set evs" using assms None by (auto simp: rendered_inv_def map_of_eq_None_iff)
      then have "modes_for evs n q = []" for q
        by (auto simp: modes_for_def image_iff split: render_event.split)
      then show ?thesis using None by (auto simp: rg_def lookup_or_def Member)
    next
      case (Some x)
      then show ?thesis using assms by (auto simp: rg_def lookup_or_def rendered_inv_def)
    qed
    then show "wf_map (rg_modes rg)" "\<exists>e \<in> set (evs @ [ev]). event_group e = n \<and> rg_src rg = event_source e"
      "map_of (rg_modes rg) q = (if modes_for evs n q = [] then None else Some (foldl stricter '''' (modes_for evs n q)))"
      by blast+
  qed
  have look: "lookup_or '''' (rg_modes rg) p = foldl stricter '''' (modes_for evs n p)"
    by (simp add: lookup_or_def rg(3))
  have step: "event_step ev r = AList.update n (rg\<lparr>rg_modes := AList.update p (stricter (foldl stricter '''' (modes_for evs n p)) m) (rg_modes rg)\<rparr>) r"
    by (simp add: Member event_step_def Let_def rg_def [symmetric] look)
  show ?thesis
    unfolding rendered_inv_def step
  proof (intro conjI allI impI)
    show "wf_map (AList.update n (rg\<lparr>rg_modes := AList.update p (stricter (foldl stricter '''' (modes_for evs n p)) m) (rg_modes rg)\<rparr>) r)"
      using assms by (simp add: rendered_inv_def)
    show "fst ` set (AList.update n (rg\<lparr>rg_modes := AList.update p (stricter (foldl stricter '''' (modes_for evs n p)) m) (rg_modes rg)\<rparr>) r)
        = event_group ` set (evs @ [ev])"
      using assms by (simp add: rendered_inv_def Member)
  next
    fix k x assume x: "map_of (AList.update n (rg\<lparr>rg_modes := AList.update p (stricter (foldl stricter '''' (modes_for evs n p)) m) (rg_modes rg)\<rparr>) r) k = Some x"
    show "wf_map (rg_modes x)" "\<exists>e \<in> set (evs @ [ev]). event_group e = k \<and> rg_src x = event_source e"
      using x assms rg(1,2) by (auto simp: rendered_inv_def split: if_splits)
    show "map_of (rg_modes x) q = (if modes_for (evs @ [ev]) k q = [] then None else Some (foldl stricter '''' (modes_for (evs @ [ev]) k q)))" for q
      using x assms rg(3) by (auto simp: rendered_inv_def modes_for_snoc Member split: if_splits)
  qed
qed

lemma rendered_inv_all: "rendered_inv evs (fold event_step evs [])"
proof (induction evs rule: rev_induct)
  case Nil
  then show ?case by (simp add: rendered_inv_def)
qed (simp add: rendered_inv_step)

lemma needed_map:
  "map_of (fold (member_step pn) evs []) p = (if p \<in> member_names evs then map_of pn p else None)
   \<and> wf_map (fold (member_step pn) evs [])"
proof (induction evs rule: rev_induct)
  case (snoc ev evs)
  then show ?case
    by (auto simp: member_step_def member_names_def split: render_event.split option.split)
qed (simp add: member_names_def)

lemma exceptions_map:
  "map_of (fold (exception_step xs) ns []) n = (if n \<in> set ns then map_of xs n else None) \<and> wf_map (fold (exception_step xs) ns [])"
proof (induction ns rule: rev_induct)
  case (snoc a ns)
  then show ?case by (auto split: option.split)
qed simp

lemma sortedKeys_eq: "wf_map m \<Longrightarrow> sortedKeys m = sorted_list_of_set (fst ` set m)"
  by (simp add: sortedKeys_def sorted_list_of_set_sort_remdups distinct_remdups_id flip: set_map)

lemma objects_for_eq:
  assumes "wf_map m"
  shows "objects_for mk m = map (\<lambda>k. mk k (the (map_of m k))) (sorted_list_of_set (dom (map_of m)))"
proof -
  have "(\<forall>k \<in> set ks. k \<in> dom (map_of m)) \<Longrightarrow>
      List.map_filter (\<lambda>k. map_option (mk k) (map_of m k)) ks = map (\<lambda>k. mk k (the (map_of m k))) ks" for ks
    by (induction ks) (auto simp: map_filter_simps)
  from this [of "sorted_list_of_set (dom (map_of m))"] show ?thesis
    using assms by (simp add: objects_for_def sortedKeys_eq dom_map_of_conv_image_fst)
qed

lemma objects_for_cong:
  assumes "wf_map m" "wf_map m'" "dom (map_of m) = dom (map_of m')"
    and "\<And>k v v'. map_of m k = Some v \<Longrightarrow> map_of m' k = Some v' \<Longrightarrow> mk k v = mk k v'"
  shows "objects_for mk m = objects_for mk m'"
  unfolding objects_for_eq [OF assms(1)] objects_for_eq [OF assms(2)] assms(3)
  using assms(3,4) by (intro map_cong refl) (fastforce simp: finite_dom_map_of)

section \<open>The reference snapshot\<close>

text \<open>A distribution that targets the cluster contributes a mode for a policy to an enabled group it
  lists.\<close>

definition lists_group :: "as_selector \<Rightarrow> Cluster \<Rightarrow> PolicyGroup list \<Rightarrow> PolicyDistribution \<Rightarrow> string \<Rightarrow> PolicyGroup \<Rightarrow> bool" where
  "lists_group asSelector cluster groups d n g \<longleftrightarrow> targets asSelector cluster d \<and> n \<in> set (pd_PolicyGroups (dist_Spec d))
     \<and> map_of (index_by grp_Name id groups) n = Some g \<and> gs_Enabled (grp_Spec g)"

definition contributes ::
  "as_selector \<Rightarrow> time \<Rightarrow> Cluster \<Rightarrow> PolicyGroup list \<Rightarrow> Policy list \<Rightarrow> PolicyDistribution list \<Rightarrow> string \<Rightarrow> string \<Rightarrow> string \<Rightarrow> bool" where
  "contributes asSelector now cluster groups policies dists n p mode \<longleftrightarrow> (\<exists>d \<in> set dists. \<exists>g. lists_group asSelector cluster groups d n g
     \<and> (\<exists>m \<in> set (fst (Resolve asSelector now (grp_Spec g) policies)). em_Name m = p \<and> mode = effective_mode (override_of d cluster) m))"

lemma Touch_in_events:
  "Touch n g \<in> set (all_events asSelector now cluster groups policies dists) \<longleftrightarrow> (\<exists>d \<in> set dists. lists_group asSelector cluster groups d n g)"
  by (auto simp: all_events_def dist_events_def group_events_def lists_group_def split: if_splits option.splits)

lemma Member_in_events:
  "(\<exists>g. Member n g p mode \<in> set (all_events asSelector now cluster groups policies dists)) \<longleftrightarrow> contributes asSelector now cluster groups policies dists n p mode"
  by (auto simp: all_events_def dist_events_def group_events_def lists_group_def contributes_def split: if_splits option.splits)
    blast+

lemma event_groups:
  "n \<in> event_group ` set (all_events asSelector now cluster groups policies dists) \<longleftrightarrow> (\<exists>d \<in> set dists. \<exists>g. lists_group asSelector cluster groups d n g)"
proof
  assume "n \<in> event_group ` set (all_events asSelector now cluster groups policies dists)"
  then show "\<exists>d \<in> set dists. \<exists>g. lists_group asSelector cluster groups d n g"
    by (auto simp: all_events_def dist_events_def group_events_def lists_group_def split: if_splits option.splits) blast+
next
  assume "\<exists>d \<in> set dists. \<exists>g. lists_group asSelector cluster groups d n g"
  then show "n \<in> event_group ` set (all_events asSelector now cluster groups policies dists)"
    using Touch_in_events by (metis event_group.simps(1) imageI)
qed

lemma event_source_index:
  "ev \<in> set (all_events asSelector now cluster groups policies dists) \<Longrightarrow>
   map_of (index_by grp_Name id groups) (event_group ev) = Some (event_source ev)"
  by (auto simp: all_events_def dist_events_def group_events_def split: if_splits option.splits)

definition reference_mode :: "(string \<Rightarrow> string \<Rightarrow> bool) \<Rightarrow> string \<Rightarrow> string" where
  "reference_mode contr p = (if contr p ModeEnforce then ModeEnforce else ModeAudit)"

definition reference_spec :: "PolicyGroupSpec \<Rightarrow> (string \<Rightarrow> string \<Rightarrow> bool) \<Rightarrow> PolicyGroupSpec" where
  "reference_spec s contr = s\<lparr>
     gs_Policies := \<lparr>pgp_ByName = map (\<lambda>p. \<lparr>ref_Name = p, ref_EnforcementMode = reference_mode contr p\<rparr>)
         (sorted_list_of_set {p. \<exists>m. contr p m}), pgp_BySelector = None, pgp_Exclude = []\<rparr>,
     gs_SelectorEnforcementMode := ''''\<rparr>"

definition reference_group :: "codec \<Rightarrow> PolicyGroup list \<Rightarrow> (string \<Rightarrow> string \<Rightarrow> bool) \<Rightarrow> string \<Rightarrow> ManagedObject" where
  "reference_group cd groups contr n = (let g = the (map_of (index_by grp_Name id groups) n) in
     \<lparr>mo_Kind = ''PolicyGroup'', mo_Name = n, mo_Labels = withManaged (om_Labels (grp_Meta g)),
      mo_SpecJson = enc_group cd (reference_spec (grp_Spec g) contr)\<rparr>)"

definition reference_objects ::
  "codec \<Rightarrow> as_selector \<Rightarrow> time \<Rightarrow> Cluster \<Rightarrow> PolicyDistribution list \<Rightarrow> PolicyGroup list \<Rightarrow> Policy list \<Rightarrow> PolicyException list \<Rightarrow> ManagedObject list" where
  "reference_objects cd asSelector now cluster dists groups policies exceptions =
    (let contr = contributes asSelector now cluster groups policies dists;
         pn = index_by pol_Name id policies; xn = index_by pex_Name id exceptions
     in map (\<lambda>p. policy_object cd p (the (map_of pn p))) (sorted_list_of_set {p \<in> dom (map_of pn). \<exists>n m. contr n p m})
        @ map (\<lambda>n. reference_group cd groups (contr n) n)
            (sorted_list_of_set {n. \<exists>d \<in> set dists. \<exists>g. lists_group asSelector cluster groups d n g})
        @ map (\<lambda>n. exception_object cd n (the (map_of xn n)))
            (sorted_list_of_set {n \<in> dom (map_of xn). \<exists>d \<in> set dists. targets asSelector cluster d \<and> n \<in> set (pd_PolicyExceptions (dist_Spec d))}))"

text \<open>Every contributed mode is one of the two modes.\<close>

definition modes_ok :: "render_event list \<Rightarrow> bool" where
  "modes_ok evs \<longleftrightarrow> list_all (\<lambda>ev. case ev of Member _ _ _ m \<Rightarrow> m \<in> {ModeEnforce, ModeAudit} | Touch _ _ \<Rightarrow> True) evs"

lemma modes_for_set: "m \<in> set (modes_for evs n p) \<longleftrightarrow> (\<exists>g. Member n g p m \<in> set evs)"
  by (induction evs) (auto simp: modes_for_def split: render_event.splits if_splits)

lemma foldl_stricter:
  "set ms \<subseteq> {ModeEnforce, ModeAudit} \<Longrightarrow> ms \<noteq> [] \<Longrightarrow>
   foldl stricter '''' ms = (if ModeEnforce \<in> set ms then ModeEnforce else ModeAudit)"
proof (induction ms rule: rev_induct)
  case (snoc m ms)
  then show ?case
    by (cases "ms = []") (auto simp: stricter_def ModeEnforce_def ModeAudit_def)
qed simp

lemma rendered_group_reference:
  assumes "modes_ok evs" "evs = all_events asSelector now cluster groups policies dists"
    and "map_of (fold event_step evs []) n = Some rg"
  shows "group_object cd n rg = reference_group cd groups (contributes asSelector now cluster groups policies dists n) n"
proof -
  let ?contr = "contributes asSelector now cluster groups policies dists n"
  have inv: "wf_map (rg_modes rg)" "\<exists>ev \<in> set evs. event_group ev = n \<and> rg_src rg = event_source ev"
    "map_of (rg_modes rg) p = (if modes_for evs n p = [] then None else Some (foldl stricter '''' (modes_for evs n p)))" for p
    using rendered_inv_all [of evs] assms(3) unfolding rendered_inv_def by blast+
  have src: "map_of (index_by grp_Name id groups) n = Some (rg_src rg)"
    using inv(2) event_source_index assms(2) by metis
  have ms: "m \<in> set (modes_for evs n p) \<longleftrightarrow> ?contr p m" for p m
    unfolding modes_for_set assms(2) by (rule Member_in_events)
  have ok: "set (modes_for evs n p) \<subseteq> {ModeEnforce, ModeAudit}" for p
    using assms(1) by (force simp: modes_ok_def list_all_iff modes_for_set split: render_event.splits)
  have mode: "map_of (rg_modes rg) p = (if \<exists>m. ?contr p m then Some (reference_mode ?contr p) else None)" for p
  proof (cases "modes_for evs n p = []")
    case True
    then have "\<not> ?contr p m" for m using ms [of m p] by simp
    then show ?thesis using True inv(3) by simp
  next
    case False
    then have "\<exists>m. ?contr p m" using ms by (metis list.set_intros(1) neq_Nil_conv)
    then show ?thesis
      using False inv(3) [of p] foldl_stricter [OF ok False] ms by (simp add: reference_mode_def)
  qed
  have "fst ` set (rg_modes rg) = {p. \<exists>m. ?contr p m}"
    using mode by (auto simp: set_eq_iff image_iff) (metis fst_conv map_of_eq_None_iff option.distinct(1) image_iff)+
  then have keys: "sortedKeys (rg_modes rg) = sorted_list_of_set {p. \<exists>m. ?contr p m}"
    using sortedKeys_eq [OF inv(1)] by simp
  have fin: "finite {p. \<exists>m. ?contr p m}"
    using \<open>fst ` set (rg_modes rg) = {p. \<exists>m. ?contr p m}\<close> by (metis finite_imageI finite_set)
  have "map (\<lambda>p. \<lparr>ref_Name = p, ref_EnforcementMode = lookup_or '''' (rg_modes rg) p\<rparr>) (sorted_list_of_set {p. \<exists>m. ?contr p m})
    = map (\<lambda>p. \<lparr>ref_Name = p, ref_EnforcementMode = reference_mode ?contr p\<rparr>) (sorted_list_of_set {p. \<exists>m. ?contr p m})"
    using fin by (intro map_cong refl) (auto simp: lookup_or_def mode)
  then show ?thesis
    unfolding group_object_def reference_group_def reference_spec_def group_spec_for_def src keys Let_def option.sel by (simp only:)
qed

lemma render_objects:
  assumes "modes_ok (all_events asSelector now cluster groups policies dists)"
  shows "rr_Objects (RenderWithExceptions cd asSelector now cluster dists groups policies exceptions)
    = reference_objects cd asSelector now cluster dists groups policies exceptions"
proof -
  define evs where "evs = all_events asSelector now cluster groups policies dists"
  let ?contr = "contributes asSelector now cluster groups policies dists"
  let ?pn = "index_by pol_Name id policies" and ?xn = "index_by pex_Name id exceptions"
  let ?xs = "concat (map (dist_exceptions asSelector cluster) dists)"
  note loop = render_loop_parts [of asSelector now cluster dists groups policies exceptions, folded evs_def]
  have names: "p \<in> member_names evs \<longleftrightarrow> (\<exists>n m. ?contr n p m)" for p
    unfolding member_names_def evs_def mem_Collect_eq using Member_in_events by metis
  have p: "objects_for (policy_object cd) (fold (member_step ?pn) evs [])
    = map (\<lambda>p. policy_object cd p (the (map_of ?pn p))) (sorted_list_of_set {p \<in> dom (map_of ?pn). \<exists>n m. ?contr n p m})"
  proof -
    have "dom (map_of (fold (member_step ?pn) evs [])) = {p \<in> dom (map_of ?pn). \<exists>n m. ?contr n p m}"
      using needed_map [of ?pn evs] names by (auto simp: dom_def split: if_splits)
    moreover have "finite {p \<in> dom (map_of ?pn). \<exists>n m. ?contr n p m}" by (simp add: finite_dom_map_of)
    ultimately show ?thesis
      using needed_map [of ?pn evs] names by (subst objects_for_eq) (auto intro!: map_cong)
  qed
  have g: "objects_for (group_object cd) (fold event_step evs [])
    = map (\<lambda>n. reference_group cd groups (?contr n) n) (sorted_list_of_set {n. \<exists>d \<in> set dists. \<exists>g. lists_group asSelector cluster groups d n g})"
  proof -
    have dom: "dom (map_of (fold event_step evs [])) = {n. \<exists>d \<in> set dists. \<exists>g. lists_group asSelector cluster groups d n g}"
      using rendered_inv_all [of evs] unfolding rendered_inv_def dom_map_of_conv_image_fst
      by (simp add: set_eq_iff event_groups evs_def)
    have "group_object cd n (the (map_of (fold event_step evs []) n)) = reference_group cd groups (?contr n) n"
      if n: "n \<in> dom (map_of (fold event_step evs []))" for n
      using rendered_group_reference [OF assms [folded evs_def] evs_def] n by auto
    then show ?thesis
      using rendered_inv_all [of evs] unfolding dom [symmetric]
      by (subst objects_for_eq) (auto simp: rendered_inv_def finite_dom_map_of intro!: map_cong)
  qed
  have x: "objects_for (exception_object cd) (fold (exception_step ?xn) ?xs [])
    = map (\<lambda>n. exception_object cd n (the (map_of ?xn n)))
        (sorted_list_of_set {n \<in> dom (map_of ?xn). \<exists>d \<in> set dists. targets asSelector cluster d \<and> n \<in> set (pd_PolicyExceptions (dist_Spec d))})"
  proof -
    have "dom (map_of (fold (exception_step ?xn) ?xs []))
      = {n \<in> dom (map_of ?xn). \<exists>d \<in> set dists. targets asSelector cluster d \<and> n \<in> set (pd_PolicyExceptions (dist_Spec d))}"
      using exceptions_map [of ?xn ?xs] by (auto simp: dom_def dist_exceptions_def split: if_splits)
    moreover have "finite (dom (map_of ?xn))" by (rule finite_dom_map_of)
    ultimately show ?thesis
      using exceptions_map [of ?xn ?xs] by (subst objects_for_eq) (auto simp: dist_exceptions_def intro!: map_cong split: if_splits)
  qed
  show ?thesis
    by (simp add: RenderWithExceptions_def Let_def loop p g x reference_objects_def)
qed

text \<open>C6: The rendered snapshot equals the reference snapshot: the policies any targeting distribution
  contributes, then every enabled group a targeting distribution lists with its members pinned by
  name, each in the strictest mode any targeting distribution gives it (its override for the cluster
  or the resolved mode), then the listed exceptions, each part sorted by name and labelled as
  managed; missing references only leave out the missing object.\<close>

theorem Render_reference:
  assumes "modes_ok (all_events asSelector now cluster groups policies dists)"
  shows "rr_Objects (RenderWithExceptions cd asSelector now cluster dists groups policies exceptions)
    = reference_objects cd asSelector now cluster dists groups policies exceptions"
  using assms by (rule render_objects)

section \<open>Order independence\<close>

lemma sort_mset_cong: "mset xs = mset ys \<Longrightarrow> sort xs = sort ys"
  by (metis sorted_list_of_multiset_mset)

lemma errors_map:
  assumes "distinct (map dist_Name dists)"
  shows "map_of (fold (\<lambda>d es. case err d of None \<Rightarrow> es | Some e \<Rightarrow> AList.update (dist_Name d) e es) dists []) n = Some e
    \<longleftrightarrow> (\<exists>d \<in> set dists. dist_Name d = n \<and> err d = Some e)"
  using assms
proof (induction dists arbitrary: e rule: rev_induct)
  case (snoc d ds)
  let ?es = "fold (\<lambda>d es. case err d of None \<Rightarrow> es | Some e \<Rightarrow> AList.update (dist_Name d) e es) ds []"
  have IH: "map_of ?es n = Some e \<longleftrightarrow> (\<exists>d \<in> set ds. dist_Name d = n \<and> err d = Some e)" for e
    using snoc by simp
  have new: "\<not> (\<exists>d' \<in> set ds. dist_Name d' = dist_Name d)" using snoc.prems by (auto simp: image_iff)
  show ?case using IH new by (cases "err d") auto
qed simp

lemma render_fields:
  "rr_Matched (RenderWithExceptions cd asSelector now cluster dists groups policies exceptions)
    = sort (map dist_Name (filter (considered asSelector cluster) dists))"
  "rr_Errors (RenderWithExceptions cd asSelector now cluster dists groups policies exceptions)
    = fold (\<lambda>d es. case dist_error asSelector cluster groups exceptions d of None \<Rightarrow> es
        | Some e \<Rightarrow> AList.update (dist_Name d) e es) dists []"
  "rr_Hash (RenderWithExceptions cd asSelector now cluster dists groups policies exceptions)
    = sha256_hex cd (enc_objects cd (rr_Objects (RenderWithExceptions cd asSelector now cluster dists groups policies exceptions)))"
  by (simp_all add: RenderWithExceptions_def Let_def render_loop_parts(4,5))

lemma reference_objects_set:
  assumes "set dists = set dists'"
  shows "reference_objects cd asSelector now cluster dists groups policies exceptions
    = reference_objects cd asSelector now cluster dists' groups policies exceptions"
proof -
  have "contributes asSelector now cluster groups policies dists = contributes asSelector now cluster groups policies dists'"
    using assms by (simp add: contributes_def fun_eq_iff)
  then show ?thesis using assms by (simp add: reference_objects_def)
qed

text \<open>The order of the distributions does not matter: any permutation of distributions with
  distinct names renders the same objects, and so the same hash, the same matched names and the
  same errors, so that re-listing them never causes a new push.\<close>

theorem Render_order_independent:
  assumes "mset dists = mset dists'" "distinct (map dist_Name dists)"
    and "modes_ok (all_events asSelector now cluster groups policies dists)"
  shows "let R = (\<lambda>ds. RenderWithExceptions cd asSelector now cluster ds groups policies exceptions)
    in rr_Objects (R dists) = rr_Objects (R dists') \<and> rr_Hash (R dists) = rr_Hash (R dists')
      \<and> rr_Matched (R dists) = rr_Matched (R dists') \<and> map_of (rr_Errors (R dists)) = map_of (rr_Errors (R dists'))"
  unfolding Let_def
proof (intro conjI)
  let ?R = "\<lambda>ds. RenderWithExceptions cd asSelector now cluster ds groups policies exceptions"
  have set: "set dists = set dists'" by (rule mset_eq_setD [OF assms(1)])
  have "set (all_events asSelector now cluster groups policies dists) = set (all_events asSelector now cluster groups policies dists')"
    by (simp add: all_events_def set)
  then have ok: "modes_ok (all_events asSelector now cluster groups policies dists')"
    using assms(3) by (simp add: modes_ok_def list_all_iff)
  show objs: "rr_Objects (?R dists) = rr_Objects (?R dists')"
    unfolding render_objects [OF assms(3)] render_objects [OF ok] by (rule reference_objects_set [OF set])
  show "rr_Hash (?R dists) = rr_Hash (?R dists')"
    using objs unfolding render_fields(3) by (rule arg_cong)
  have "mset (map dist_Name (filter (considered asSelector cluster) dists)) = mset (map dist_Name (filter (considered asSelector cluster) dists'))"
    using assms(1) by (simp add: mset_filter)
  then show "rr_Matched (?R dists) = rr_Matched (?R dists')"
    unfolding render_fields(1) by (rule sort_mset_cong)
  have d': "distinct (map dist_Name dists')" using assms(1,2) by (metis mset_map mset_eq_imp_distinct_iff)
  show "map_of (rr_Errors (?R dists)) = map_of (rr_Errors (?R dists'))"
  proof
    fix n
    have "map_of (rr_Errors (?R dists)) n = Some e \<longleftrightarrow> map_of (rr_Errors (?R dists')) n = Some e" for e
      unfolding render_fields(2) errors_map [OF assms(2)] errors_map [OF d'] set ..
    then show "map_of (rr_Errors (?R dists)) n = map_of (rr_Errors (?R dists')) n" by (metis not_Some_eq)
  qed
qed

section \<open>Closure\<close>

lemma contributes_policy:
  assumes "distinct (map pol_Name policies)" "contributes asSelector now cluster groups policies dists n p m"
  shows "\<exists>x \<in> set policies. pol_Name x = p \<and> map_of (index_by pol_Name id policies) p = Some x"
proof -
  obtain g :: PolicyGroup and e where "e \<in> set (fst (Resolve asSelector now (grp_Spec g) policies))" "em_Name e = p"
    using assms(2) unfolding contributes_def by blast
  then have "member_spec asSelector (grp_Spec g) policies p = Some e" using in_Resolve_iff [OF assms(1)] by auto
  then have "policy_named policies p \<noteq> None" by (auto simp: member_spec_def split: if_splits option.splits)
  then obtain x where "x \<in> set policies" "pol_Name x = p" by (auto simp: policy_named_def find_None_iff)
  then show ?thesis using index_by_unique [OF assms(1), of x id] by auto
qed

lemma reference_objects_mem:
  fixes cd asSelector now cluster dists groups policies exceptions
  defines "objs \<equiv> reference_objects cd asSelector now cluster dists groups policies exceptions"
    and "contr \<equiv> contributes asSelector now cluster groups policies dists"
  shows "distinct (map object_key objs)"
    and "distinct (map pol_Name policies) \<Longrightarrow> contr n p m \<Longrightarrow> x \<in> set policies \<Longrightarrow> pol_Name x = p \<Longrightarrow> policy_object cd p x \<in> set objs"
    and "d \<in> set dists \<Longrightarrow> lists_group asSelector cluster groups d n g \<Longrightarrow> reference_group cd groups (contr n) n \<in> set objs"
proof -
  let ?pn = "index_by pol_Name id policies"
  have fin: "finite {p \<in> dom (map_of ?pn). \<exists>n m. contr n p m}" by (simp add: finite_dom_map_of)
  have "{n. \<exists>d \<in> set dists. \<exists>g. lists_group asSelector cluster groups d n g} \<subseteq> fst ` set (index_by grp_Name id groups)"
  proof
    fix n assume "n \<in> {n. \<exists>d \<in> set dists. \<exists>g. lists_group asSelector cluster groups d n g}"
    then have "map_of (index_by grp_Name id groups) n \<noteq> None" by (auto simp: lists_group_def simp del: map_of_eq_Some_iff)
    then show "n \<in> fst ` set (index_by grp_Name id groups)" by (simp add: map_of_eq_None_iff)
  qed
  then have fing: "finite {n. \<exists>d \<in> set dists. \<exists>g. lists_group asSelector cluster groups d n g}"
    by (rule finite_subset) simp
  show "distinct (map object_key objs)"
    by (auto simp: objs_def reference_objects_def Let_def comp_def policy_object_def reference_group_def exception_object_def
        distinct_map intro!: inj_onI)
  show "policy_object cd p x \<in> set objs"
    if "distinct (map pol_Name policies)" "contr n p m" "x \<in> set policies" "pol_Name x = p"
  proof -
    have "map_of ?pn p = Some x" using index_by_unique [OF that(1,3), of id] that(4) by simp
    then have "p \<in> {p \<in> dom (map_of ?pn). \<exists>n m. contr n p m}" "the (map_of ?pn p) = x" using that(2) by auto
    then show ?thesis
      unfolding objs_def reference_objects_def contr_def [symmetric] Let_def set_append set_map set_sorted_list_of_set [OF fin] by blast
  qed
  show "reference_group cd groups (contr n) n \<in> set objs" if "d \<in> set dists" "lists_group asSelector cluster groups d n g"
    unfolding objs_def reference_objects_def contr_def [symmetric] Let_def set_append set_map set_sorted_list_of_set [OF fing]
    using that by blast
qed

section \<open>Witnesses\<close>

definition ex_codec :: codec where
  "ex_codec = \<lparr>enc_policy = ps_Rego, enc_group = gs_DisplayName, enc_exception = xs_Reason,
     enc_objects = (\<lambda>objs. Join (map mo_Name objs) '',''), sha256_hex = rev\<rparr>"

definition ex_cluster :: Cluster where
  "ex_cluster = \<lparr>clu_Name = ''c1'', clu_DisplayName = '''', clu_Labels = Some [(''env'', ''prod'')]\<rparr>"

definition ex_dist :: "string \<Rightarrow> string list \<Rightarrow> string \<Rightarrow> PolicyDistribution" where
  "ex_dist n names mode = \<lparr>dist_Meta = ex_meta n [], dist_Spec = \<lparr>pd_ByName = names,
     pd_ClusterSelector = Some \<lparr>ls_MatchLabels = [(''env'', ''dev'')], ls_MatchExpressions = []\<rparr>,
     pd_PolicyGroups = [''base'', ''lost''], pd_PolicyExceptions = [],
     pd_Overrides = (if mode = '''' then [] else [\<lparr>do_Cluster = ''c1'', do_EnforcementMode = mode\<rparr>])\<rparr>\<rparr>"

definition ex_dists :: "PolicyDistribution list" where
  "ex_dists = [ex_dist ''d1'' [''c1''] ''audit'', ex_dist ''d2'' [''c1''] '''', ex_dist ''d3'' [''c9''] ''enforce'']"

definition ex_groups :: "PolicyGroup list" where
  "ex_groups = [\<lparr>grp_Meta = ex_meta ''base'' [], grp_Spec = ex_group_spec, grp_Status = \<lparr>gst_Phase = '''',
     gst_ObservedGeneration = 0, gst_ResolvedCount = 0, gst_ResolvedPolicies = [], gst_Conditions = []\<rparr>\<rparr>]"

lemma ex_modes_ok: "modes_ok (all_events ex_asSelector 0 ex_cluster ex_groups ex_policies ex_dists)"
  by code_simp

theorem Render_reference_witness:
  "map (\<lambda>mo. (mo_Kind mo, mo_Name mo)) (reference_objects ex_codec ex_asSelector 0 ex_cluster ex_dists ex_groups ex_policies [])
   = [(''Policy'', ''limits''), (''Policy'', ''probes''), (''PolicyGroup'', ''base'')]"
proof -
  have "map (\<lambda>mo. (mo_Kind mo, mo_Name mo)) (rr_Objects (RenderWithExceptions ex_codec ex_asSelector 0 ex_cluster ex_dists ex_groups ex_policies []))
    = [(''Policy'', ''limits''), (''Policy'', ''probes''), (''PolicyGroup'', ''base'')]" by code_simp
  then show ?thesis unfolding Render_reference [OF ex_modes_ok] .
qed

theorem Render_order_independent_witness:
  "rr_Hash (RenderWithExceptions ex_codec ex_asSelector 0 ex_cluster ex_dists ex_groups ex_policies [])
   = rr_Hash (RenderWithExceptions ex_codec ex_asSelector 0 ex_cluster (rev ex_dists) ex_groups ex_policies [])"
proof -
  have "distinct (map dist_Name ex_dists)" by code_simp
  then show ?thesis
    using Render_order_independent [OF mset_rev [symmetric] _ ex_modes_ok, of ex_codec "[]"] by (simp add: Let_def)
qed

end
