(* ===== verification/Gateway_Sessions.thy ===== *)
theory Gateway_Sessions
  imports KS_Prelude
begin

text \<open>
  The gateway's registries of live streams, \<^verbatim>\<open>internal/gateway/registry.go\<close>. A session is known by its
  identity (a pointer in the code). The registry of sessions is refined to a small specification:
  which instance holds which session, and which instance leads each cluster.
\<close>

section \<open>The session registry\<close>

type_synonym session = nat

record sessionEntry =
  se_session :: session
  se_role :: string
  se_updatedAt :: time

type_synonym sessionRegistry = "sessionEntry smap smap"

definition newSessionRegistry :: sessionRegistry where
  "newSessionRegistry = []"

definition leader_role :: string where "leader_role = ''leader''"
definition standby_role :: string where "standby_role = ''standby''"

definition instances_of :: "sessionRegistry \<Rightarrow> string \<Rightarrow> sessionEntry smap" where
  "instances_of r cluster = (case map_of r cluster of Some m \<Rightarrow> m | None \<Rightarrow> [])"

definition is_other_leader :: "string \<Rightarrow> string \<times> sessionEntry \<Rightarrow> bool" where
  "is_other_leader inst x \<longleftrightarrow> fst x \<noteq> inst \<and> se_role (snd x) = leader_role"

definition demote :: "string \<Rightarrow> string \<times> sessionEntry \<Rightarrow> string \<times> sessionEntry" where
  "demote inst x = (if is_other_leader inst x then (fst x, (snd x)\<lparr>se_role := standby_role\<rparr>) else x)"

definition put :: "time \<Rightarrow> string \<Rightarrow> string \<Rightarrow> string \<Rightarrow> session \<Rightarrow> sessionRegistry \<Rightarrow> sessionRegistry \<times> session list" where
  "put now cluster inst role s r =
    (let instances = AList.update inst \<lparr>se_session = s, se_role = role, se_updatedAt = now\<rparr> (instances_of r cluster)
     in if role \<noteq> leader_role then (AList.update cluster instances r, [])
        else (AList.update cluster (map (demote inst) instances) r,
              map (\<lambda>x. se_session (snd x)) (filter (is_other_leader inst) instances)))"

definition select_leader :: "string \<times> sessionEntry \<Rightarrow> sessionEntry option \<Rightarrow> sessionEntry option" where
  "select_leader x sel = (if se_role (snd x) = leader_role
     \<and> (case sel of None \<Rightarrow> True | Some y \<Rightarrow> se_updatedAt (snd x) > se_updatedAt y) then Some (snd x) else sel)"

definition leader :: "sessionRegistry \<Rightarrow> string \<Rightarrow> session option" where
  "leader r cluster = map_option se_session (fold select_leader (instances_of r cluster) None)"

definition get_session :: "sessionRegistry \<Rightarrow> string \<Rightarrow> session option" where
  "get_session r cluster = leader r cluster"

definition remove :: "string \<Rightarrow> string \<Rightarrow> session \<Rightarrow> sessionRegistry \<Rightarrow> sessionRegistry \<times> bool" where
  "remove cluster inst sess r =
    (let instances = instances_of r cluster
     in case map_of instances inst of
          None \<Rightarrow> (r, False)
        | Some entry \<Rightarrow>
            if se_session entry \<noteq> sess then (r, False)
            else let instances' = AList.delete inst instances
              in (if length instances' = 0 then AList.delete cluster r else AList.update cluster instances' r,
                  se_role entry = leader_role))"

section \<open>The registry of Connect streams\<close>

type_synonym connectRegistry = "nat smap"

definition newConnectRegistry :: connectRegistry where
  "newConnectRegistry = []"

definition register :: "string \<Rightarrow> nat \<Rightarrow> connectRegistry \<Rightarrow> connectRegistry" where
  "register i stream r = AList.update i stream r"

definition unregister :: "string \<Rightarrow> nat \<Rightarrow> connectRegistry \<Rightarrow> connectRegistry" where
  "unregister i stream r = (if map_of r i = Some stream then AList.delete i r else r)"

definition get_stream :: "connectRegistry \<Rightarrow> string \<Rightarrow> nat option" where
  "get_stream r i = map_of r i"

text \<open>A stale stream never evicts the one that replaced it.\<close>

lemma unregister_stale: "s \<noteq> t \<Longrightarrow> get_stream (unregister i s (register i t r)) i = Some t"
  by (simp add: unregister_def register_def get_stream_def)

section \<open>Specification\<close>

record registry_spec =
  sp_sessions :: "string \<Rightarrow> string \<Rightarrow> session option"
  sp_leader :: "string \<Rightarrow> string option"

datatype registry_op = Put time string string string session | Remove string string session

definition spec_op :: "registry_op \<Rightarrow> registry_spec \<Rightarrow> registry_spec" where
  "spec_op oper sp = (case oper of
      Put now c i role s \<Rightarrow> sp\<lparr>sp_sessions := (sp_sessions sp)(c := (sp_sessions sp c)(i := Some s)),
        sp_leader := (sp_leader sp)(c := (if role = leader_role then Some i
          else if sp_leader sp c = Some i then None else sp_leader sp c))\<rparr>
    | Remove c i s \<Rightarrow>
        if sp_sessions sp c i = Some s
        then sp\<lparr>sp_sessions := (sp_sessions sp)(c := (sp_sessions sp c)(i := None)),
          sp_leader := (sp_leader sp)(c := (if sp_leader sp c = Some i then None else sp_leader sp c))\<rparr>
        else sp)"

definition registry_step :: "sessionRegistry \<Rightarrow> registry_op \<Rightarrow> sessionRegistry" where
  "registry_step r oper = (case oper of
      Put now c i role s \<Rightarrow> fst (put now c i role s r)
    | Remove c i s \<Rightarrow> fst (remove c i s r))"

definition spec_init :: registry_spec where
  "spec_init = \<lparr>sp_sessions = (\<lambda>_ _. None), sp_leader = (\<lambda>_. None)\<rparr>"

text \<open>The abstraction relation: the same sessions, and the leading instance is the only entry with
  the role of leader.\<close>

definition cluster_refines :: "sessionEntry smap \<Rightarrow> (string \<Rightarrow> session option) \<Rightarrow> string option \<Rightarrow> bool" where
  "cluster_refines m ss l \<longleftrightarrow> wf_map m \<and> (\<forall>i. map_option se_session (map_of m i) = ss i)
     \<and> (\<forall>i e. map_of m i = Some e \<longrightarrow> (se_role e = leader_role \<longleftrightarrow> l = Some i)) \<and> (\<forall>i. l = Some i \<longrightarrow> map_of m i \<noteq> None)"

definition registry_refines :: "sessionRegistry \<Rightarrow> registry_spec \<Rightarrow> bool" where
  "registry_refines r sp \<longleftrightarrow> (\<forall>c. cluster_refines (instances_of r c) (sp_sessions sp c) (sp_leader sp c))"

lemma instances_update [simp]: "instances_of (AList.update c m r) c' = (if c' = c then m else instances_of r c')"
  by (simp add: instances_of_def)

lemma instances_delete [simp]: "instances_of (AList.delete c r) c' = (if c' = c then [] else instances_of r c')"
  by (simp add: instances_of_def)

lemma demote_keys: "map fst (map (demote i) m) = map fst m"
  by (simp add: demote_def)

lemma map_of_demote: "map_of (map (demote i) m) k = map_option (\<lambda>e. if k \<noteq> i \<and> se_role e = leader_role then e\<lparr>se_role := standby_role\<rparr> else e) (map_of m k)"
  by (induction m) (auto simp: demote_def is_other_leader_def)

lemma leader_standby [simp]: "standby_role \<noteq> leader_role"
  by (simp add: standby_role_def leader_role_def)

lemma cluster_put_leader:
  assumes "cluster_refines m ss l"
  shows "cluster_refines (map (demote i) (AList.update i \<lparr>se_session = s, se_role = leader_role, se_updatedAt = now\<rparr> m)) (ss(i := Some s)) (Some i)"
  unfolding cluster_refines_def
proof (intro conjI allI impI)
  let ?m = "map (demote i) (AList.update i \<lparr>se_session = s, se_role = leader_role, se_updatedAt = now\<rparr> m)"
  have at: "map_of ?m k = (if k = i then Some \<lparr>se_session = s, se_role = leader_role, se_updatedAt = now\<rparr>
      else map_option (\<lambda>e. if se_role e = leader_role then e\<lparr>se_role := standby_role\<rparr> else e) (map_of m k))" for k
    by (simp add: map_of_demote)
  show "wf_map ?m" using assms unfolding cluster_refines_def demote_keys by simp
  fix k
  have "map_option se_session (map_of m k) = ss k" using assms unfolding cluster_refines_def by blast
  then show "map_option se_session (map_of ?m k) = (ss(i := Some s)) k"
    unfolding at by (cases "map_of m k") auto
  show "(se_role e = leader_role) = (Some i = Some k)" if "map_of ?m k = Some e" for e
    using that unfolding at by (cases "map_of m k") (auto split: if_splits)
  show "map_of ?m k \<noteq> None" if "Some i = Some k" using that unfolding at by simp
qed

lemma cluster_put_other:
  assumes "cluster_refines m ss l" "role \<noteq> leader_role"
  shows "cluster_refines (AList.update i \<lparr>se_session = s, se_role = role, se_updatedAt = now\<rparr> m) (ss(i := Some s))
    (if l = Some i then None else l)"
  using assms unfolding cluster_refines_def by (auto simp del: map_of_eq_Some_iff)

lemma cluster_remove:
  assumes "cluster_refines m ss l"
  shows "cluster_refines (AList.delete i m) (ss(i := None)) (if l = Some i then None else l)"
  using assms unfolding cluster_refines_def by (auto simp del: map_of_eq_Some_iff)

lemma put_refines:
  assumes "registry_refines r sp"
  shows "registry_refines (fst (put now c i role s r)) (spec_op (Put now c i role s) sp)"
proof -
  have r: "cluster_refines (instances_of r c') (sp_sessions sp c') (sp_leader sp c')" for c'
    using assms by (simp add: registry_refines_def)
  show ?thesis
    using r cluster_put_leader [OF r [of c], of i s now] cluster_put_other [OF r [of c], of role i s now]
    by (cases "role = leader_role") (simp_all add: registry_refines_def put_def spec_op_def Let_def split: if_splits)
qed

lemma remove_refines:
  assumes "registry_refines r sp"
  shows "registry_refines (fst (remove c i s r)) (spec_op (Remove c i s) sp)"
proof (cases "sp_sessions sp c i = Some s")
  case True
  then obtain e where e: "map_of (instances_of r c) i = Some e" "se_session e = s"
    using assms unfolding registry_refines_def cluster_refines_def by (metis map_option_eq_Some)
  have "instances_of (fst (remove c i s r)) c' = (if c' = c then AList.delete i (instances_of r c) else instances_of r c')" for c'
    using e by (auto simp: remove_def Let_def)
  then show ?thesis
    using assms True cluster_remove [of "instances_of r c" "sp_sessions sp c" "sp_leader sp c" i]
    unfolding registry_refines_def by (auto simp: spec_op_def)
next
  case False
  have "map_option se_session (map_of (instances_of r c) i) = sp_sessions sp c i"
    using assms unfolding registry_refines_def cluster_refines_def by blast
  then have "fst (remove c i s r) = r"
    using False by (auto simp: remove_def Let_def split: option.split)
  then show ?thesis using assms False by (simp add: spec_op_def)
qed

text \<open>The registry together with its specification is a machine that keeps the relation.\<close>

interpretation registry: machine "(newSessionRegistry, spec_init)"
  "\<lambda>(r, sp) oper. (registry_step r oper, spec_op oper sp)" "\<lambda>_. True" "\<lambda>(r, sp). registry_refines r sp"
proof unfold_locales
  show "case (newSessionRegistry, spec_init) of (r, sp) \<Rightarrow> registry_refines r sp"
    by (simp add: registry_refines_def cluster_refines_def newSessionRegistry_def spec_init_def instances_of_def)
next
  fix s oper
  assume "case s of (r, sp) \<Rightarrow> registry_refines r sp"
  then show "case (case s of (r, sp) \<Rightarrow> \<lambda>oper. (registry_step r oper, spec_op oper sp)) oper of (r, sp) \<Rightarrow> registry_refines r sp"
    by (cases s; cases oper) (simp_all add: registry_step_def put_refines remove_refines)
qed

lemma run_pair:
  "foldl (\<lambda>(r, sp) oper. (registry_step r oper, spec_op oper sp)) (r, sp) ops
   = (foldl registry_step r ops, foldl (\<lambda>sp oper. spec_op oper sp) sp ops)"
  by (induction ops arbitrary: r sp) simp_all

lemma select_leader_fold:
  assumes "\<And>x. x \<in> set m \<Longrightarrow> se_role (snd x) = leader_role \<Longrightarrow> snd x = e"
    and "sel = None \<or> sel = Some e"
  shows "fold select_leader m sel = (if sel = Some e \<or> (\<exists>x \<in> set m. se_role (snd x) = leader_role) then Some e else None)"
  using assms
proof (induction m arbitrary: sel)
  case (Cons x m)
  have "select_leader x sel = (if sel = Some e \<or> se_role (snd x) = leader_role then Some e else None)"
    using Cons.prems(1) [of x] Cons.prems(2) by (auto simp: select_leader_def)
  then show ?case using Cons.IH [of "select_leader x sel"] Cons.prems by auto
qed auto

lemma leader_refines:
  assumes "cluster_refines (instances_of r c) ss l"
  shows "leader r c = (case l of None \<Rightarrow> None | Some i \<Rightarrow> ss i)"
proof (cases l)
  case None
  have "se_role (snd x) \<noteq> leader_role" if "x \<in> set (instances_of r c)" for x
    using assms that None unfolding cluster_refines_def
    by (metis map_of_is_SomeI option.distinct(1) prod.collapse)
  then have "fold select_leader (instances_of r c) None = None"
    using select_leader_fold [of "instances_of r c" undefined None] by auto
  then show ?thesis by (simp add: leader_def None)
next
  case (Some i)
  then obtain e where e: "map_of (instances_of r c) i = Some e" using assms unfolding cluster_refines_def by blast
  have role: "se_role e = leader_role" and ss: "ss i = Some (se_session e)"
    using assms e Some unfolding cluster_refines_def by (blast, metis option.simps(9))
  have only: "snd x = e" if x: "x \<in> set (instances_of r c)" "se_role (snd x) = leader_role" for x
  proof -
    have "map_of (instances_of r c) (fst x) = Some (snd x)"
      using assms x(1) unfolding cluster_refines_def by (metis map_of_is_SomeI prod.collapse)
    moreover from this have "l = Some (fst x)" using assms x(2) unfolding cluster_refines_def by blast
    ultimately show ?thesis using e Some by simp
  qed
  have "(i, e) \<in> set (instances_of r c)" using e by (rule map_of_SomeD)
  then have "fold select_leader (instances_of r c) None = Some e"
    using select_leader_fold [OF only, of "instances_of r c" None] role by force
  then show ?thesis by (simp add: leader_def Some ss)
qed

text \<open>The registry routes to the right session. After any sequence of registrations and removals
  the leader of a cluster is the session of the instance that claimed leadership last and has
  neither stepped down nor left, at most one entry per cluster has the role of leader, and removing
  a session that was already replaced changes nothing.\<close>

theorem registry_leader:
  fixes ops :: "registry_op list"
  defines "r \<equiv> foldl registry_step newSessionRegistry ops"
    and "sp \<equiv> foldl (\<lambda>sp oper. spec_op oper sp) spec_init ops"
  shows "leader r c = (case sp_leader sp c of None \<Rightarrow> None | Some i \<Rightarrow> sp_sessions sp c i)
    \<and> length (filter (\<lambda>x. se_role (snd x) = leader_role) (instances_of r c)) \<le> 1
    \<and> (sp_sessions sp c i \<noteq> Some s \<longrightarrow> remove c i s r = (r, False))"
proof -
  have ref: "cluster_refines (instances_of r c) (sp_sessions sp c) (sp_leader sp c)" for c
    using registry.inv_run [of ops] by (simp add: run_pair registry_refines_def r_def sp_def list_all_iff)
  have "length (filter (\<lambda>x. se_role (snd x) = leader_role) (instances_of r c)) \<le> 1"
  proof -
    let ?f = "filter (\<lambda>x. se_role (snd x) = leader_role) (instances_of r c)"
    have "sp_leader sp c = Some (fst x)" if "x \<in> set ?f" for x
      using ref [of c] that unfolding cluster_refines_def by (auto simp del: map_of_eq_Some_iff) (metis map_of_is_SomeI prod.collapse)
    then have "fst ` set ?f \<subseteq> set_option (sp_leader sp c)" by auto
    then have "card (fst ` set ?f) \<le> card (set_option (sp_leader sp c))" by (intro card_mono) auto
    also have "\<dots> \<le> 1" by (cases "sp_leader sp c") simp_all
    finally have "card (fst ` set ?f) \<le> 1" .
    moreover have "distinct (map fst ?f)" using ref [of c] by (simp add: cluster_refines_def distinct_map_filter)
    ultimately show ?thesis by (metis distinct_card length_map set_map)
  qed
  moreover have "remove c i s r = (r, False)" if "sp_sessions sp c i \<noteq> Some s"
  proof -
    have "map_option se_session (map_of (instances_of r c) i) = sp_sessions sp c i"
      using ref [of c] unfolding cluster_refines_def by blast
    then show ?thesis using that by (auto simp: remove_def Let_def split: option.split)
  qed
  ultimately show ?thesis using leader_refines [OF ref] by blast
qed

section \<open>Witness\<close>

definition ex_registry_ops :: "registry_op list" where
  "ex_registry_ops = [Put 1 ''c'' ''op-a'' ''leader'' 10, Put 2 ''c'' ''op-b'' ''leader'' 11, Put 3 ''c'' ''op-a'' ''standby'' 12]"

theorem registry_leader_witness:
  "leader (foldl registry_step newSessionRegistry ex_registry_ops) ''c'' = Some 11
   \<and> remove ''c'' ''op-a'' 10 (foldl registry_step newSessionRegistry ex_registry_ops)
       = (foldl registry_step newSessionRegistry ex_registry_ops, False)"
  using registry_leader [of ex_registry_ops "''c''" "''op-a''" 10]
  by (simp add: ex_registry_ops_def spec_op_def spec_init_def leader_role_def)

end
