(* ===== verification/Gateway_Status.thy ===== *)
theory Gateway_Status
  imports Gateway_Render
begin

text \<open>
  The clusters table and the columns the gateway writes to it
  (\<^verbatim>\<open>internal/database/repository/cluster_repo.go\<close>), the heartbeat tracker and its flusher
  (\<^verbatim>\<open>internal/gateway/heartbeats.go\<close>), and the status of a distribution per cluster
  (\<^verbatim>\<open>internal/gateway/diststatus.go\<close>). A table is the list of its live rows; an update by id sets the
  named columns of the rows with that id. The row upsert of the ORM is an argument.
\<close>

section \<open>The clusters table\<close>

record cluster_row =
  cr_ID :: int
  cr_TenantID :: "int option"
  cr_Name :: string
  cr_ClusterUID :: string
  cr_Labels :: labels
  cr_Phase :: string
  cr_OperatorVersion :: string
  cr_KubernetesVersion :: string
  cr_APIServerAddress :: string
  cr_NodeCount :: int
  cr_ReadyNodeCount :: int
  cr_LastHeartbeatAt :: "time option"
  cr_ObservabilityOnboardedAt :: "time option"
  cr_RegTokenHash :: string
  cr_AuthTokenHash :: string

type_synonym cluster_table = "cluster_row list"

definition update_row :: "int \<Rightarrow> (cluster_row \<Rightarrow> cluster_row) \<Rightarrow> cluster_table \<Rightarrow> cluster_table" where
  "update_row i f t = map (\<lambda>r. if cr_ID r = i then f r else r) t"

definition UpdateHeartbeat :: "int \<Rightarrow> string \<Rightarrow> time option \<Rightarrow> string \<Rightarrow> cluster_table \<Rightarrow> cluster_table" where
  "UpdateHeartbeat i phase seen version t =
     update_row i (\<lambda>r. r\<lparr>cr_Phase := phase, cr_LastHeartbeatAt := seen, cr_OperatorVersion := version\<rparr>) t"

record ClusterInventory =
  ci_KubernetesVersion :: string
  ci_APIServerAddress :: string
  ci_NodeCount :: int
  ci_ReadyNodeCount :: int

definition inventory_columns :: "ClusterInventory \<Rightarrow> cluster_row \<Rightarrow> cluster_row" where
  "inventory_columns iv r =
    (let r1 = (if ci_KubernetesVersion iv \<noteq> '''' then r\<lparr>cr_KubernetesVersion := ci_KubernetesVersion iv\<rparr> else r);
         r2 = (if ci_APIServerAddress iv \<noteq> '''' then r1\<lparr>cr_APIServerAddress := ci_APIServerAddress iv\<rparr> else r1)
     in if ci_NodeCount iv > 0 then r2\<lparr>cr_NodeCount := ci_NodeCount iv, cr_ReadyNodeCount := ci_ReadyNodeCount iv\<rparr> else r2)"

definition UpdateInventory :: "int \<Rightarrow> ClusterInventory \<Rightarrow> cluster_table \<Rightarrow> cluster_table" where
  "UpdateInventory i iv t = update_row i (inventory_columns iv) t"

definition UpdateLabels :: "int \<Rightarrow> labels \<Rightarrow> cluster_table \<Rightarrow> cluster_table" where
  "UpdateLabels i ls t = update_row i (\<lambda>r. r\<lparr>cr_Labels := ls\<rparr>) t"

definition UpdateRegToken :: "int \<Rightarrow> string \<Rightarrow> cluster_table \<Rightarrow> cluster_table" where
  "UpdateRegToken i h t = update_row i (\<lambda>r. r\<lparr>cr_RegTokenHash := h\<rparr>) t"

definition UpdatePhase :: "int \<Rightarrow> string \<Rightarrow> cluster_table \<Rightarrow> cluster_table" where
  "UpdatePhase i phase t = update_row i (\<lambda>r. r\<lparr>cr_Phase := phase\<rparr>) t"

definition AssignTenant :: "int \<Rightarrow> int option \<Rightarrow> cluster_table \<Rightarrow> cluster_table" where
  "AssignTenant i tenant t = update_row i (\<lambda>r. r\<lparr>cr_TenantID := tenant\<rparr>) t"

record ClusterPhaseCounts =
  cpc_Total :: int
  cpc_Online :: int
  cpc_Offline :: int
  cpc_Registering :: int

definition ClusterPhaseRegistering :: string where "ClusterPhaseRegistering = ''Registering''"
definition ClusterPhaseOnline :: string where "ClusterPhaseOnline = ''Online''"
definition ClusterPhaseOffline :: string where "ClusterPhaseOffline = ''Offline''"
definition ClusterPhaseUninstalling :: string where "ClusterPhaseUninstalling = ''Uninstalling''"
definition ClusterPhaseUninstalled :: string where "ClusterPhaseUninstalled = ''Uninstalled''"

definition phase_count :: "string \<Rightarrow> cluster_table \<Rightarrow> int" where
  "phase_count ph t = int (length (filter (\<lambda>r. cr_Phase r = ph) t))"

definition CountByPhase :: "cluster_table \<Rightarrow> ClusterPhaseCounts" where
  "CountByPhase t = \<lparr>cpc_Total = int (length t), cpc_Online = phase_count ClusterPhaseOnline t,
     cpc_Offline = phase_count ClusterPhaseOffline t, cpc_Registering = phase_count ClusterPhaseRegistering t\<rparr>"

section \<open>Clusters of a tenant\<close>

datatype sync_error = ErrInactiveTenant | ErrClusterTenantTransferRequired | ErrClusterNotFound | ErrTenantNotFound

definition sync_row :: "int \<Rightarrow> string list \<Rightarrow> cluster_row \<Rightarrow> cluster_row" where
  "sync_row tenant names r =
    (let selected = (cr_Name r \<in> set names); owned = (cr_TenantID r = Some tenant)
     in if selected \<and> \<not> owned then r\<lparr>cr_TenantID := Some tenant\<rparr>
        else if \<not> selected \<and> owned then r\<lparr>cr_TenantID := None\<rparr> else r)"

text \<open>The transaction, over the tenant's status (\<open>None\<close> when the tenant does not exist): all rows or,
  on an error, none. A foreign cluster is refused before the missing ones are counted.\<close>

definition SyncTenantClusters ::
  "string option \<Rightarrow> int \<Rightarrow> string list \<Rightarrow> bool \<Rightarrow> cluster_table \<Rightarrow> sync_error + cluster_table" where
  "SyncTenantClusters status tenant names allowTransfer t = (case status of
      None \<Rightarrow> Inl ErrTenantNotFound
    | Some st \<Rightarrow>
        if st \<noteq> ''active'' then Inl ErrInactiveTenant
        else
          (let wanted = filter (\<lambda>r. cr_Name r \<in> set names) t
           in if \<not> allowTransfer \<and> list_ex (\<lambda>r. cr_TenantID r \<noteq> None \<and> cr_TenantID r \<noteq> Some tenant) wanted
              then Inl ErrClusterTenantTransferRequired
              else if length (remdups (map cr_Name wanted)) \<noteq> length (remdups names) then Inl ErrClusterNotFound
              else Inr (map (sync_row tenant names) t)))"

definition distributionTargetsCluster :: "as_selector \<Rightarrow> PolicyDistributionSpec \<Rightarrow> cluster_row \<Rightarrow> bool" where
  "distributionTargetsCluster asSelector d c \<longleftrightarrow> cr_Name c \<in> set (pd_ByName d)
     \<or> (case pd_ClusterSelector d of None \<Rightarrow> False
        | Some ls \<Rightarrow> (case asSelector ls of Inl _ \<Rightarrow> False | Inr sel \<Rightarrow> sel (cr_Labels c)))"

section \<open>Heartbeats\<close>

record StatusReport =
  sr_AppliedVersion :: string
  sr_ApplyError :: string
  sr_PoliciesReady :: int
  sr_PoliciesInvalid :: int
  sr_KubernetesVersion :: string
  sr_ApiServerAddress :: string
  sr_NodeCount :: int
  sr_ReadyNodeCount :: int

record HeartbeatInfo =
  hb_LastSeen :: time
  hb_OperatorVersion :: string
  hb_Summary :: "(int \<times> int) option"
  hb_Inventory :: "ClusterInventory option"

type_synonym HeartbeatTracker = "HeartbeatInfo smap"

definition NewHeartbeatTracker :: HeartbeatTracker where
  "NewHeartbeatTracker = []"

definition inventoryOf :: "StatusReport option \<Rightarrow> ClusterInventory option" where
  "inventoryOf rep = (case rep of
      None \<Rightarrow> None
    | Some s \<Rightarrow>
        if sr_KubernetesVersion s = '''' \<and> sr_ApiServerAddress s = '''' \<and> sr_NodeCount s = 0 then None
        else Some \<lparr>ci_KubernetesVersion = sr_KubernetesVersion s, ci_APIServerAddress = sr_ApiServerAddress s,
          ci_NodeCount = sr_NodeCount s, ci_ReadyNodeCount = sr_ReadyNodeCount s\<rparr>)"

definition zero_beat :: HeartbeatInfo where
  "zero_beat = \<lparr>hb_LastSeen = 0, hb_OperatorVersion = '''', hb_Summary = None, hb_Inventory = None\<rparr>"

definition MarkAlive :: "time \<Rightarrow> string \<Rightarrow> string \<Rightarrow> HeartbeatTracker \<Rightarrow> HeartbeatTracker" where
  "MarkAlive now cluster version h = AList.update cluster
     ((lookup_or zero_beat h cluster)\<lparr>hb_LastSeen := now, hb_OperatorVersion := version, hb_Summary := None\<rparr>) h"

definition RecordStatus :: "time \<Rightarrow> string \<Rightarrow> int \<Rightarrow> int \<Rightarrow> ClusterInventory option \<Rightarrow> HeartbeatTracker \<Rightarrow> HeartbeatTracker" where
  "RecordStatus now cluster ready invalid inventory h =
    (let info = (lookup_or zero_beat h cluster)\<lparr>hb_LastSeen := now, hb_Summary := Some (ready, invalid)\<rparr>
     in AList.update cluster (if inventory \<noteq> None then info\<lparr>hb_Inventory := inventory\<rparr> else info) h)"

text \<open>One row of \<open>flushOnce\<close>: what the pass writes for a row it listed. \<open>offline\<close> is the configured
  timeout.\<close>

definition flush_phase :: "time \<Rightarrow> duration \<Rightarrow> HeartbeatTracker \<Rightarrow> cluster_row \<Rightarrow> (string \<times> time option \<times> string) option" where
  "flush_phase now offlineAfter snap cl =
    (if cr_Phase cl = ClusterPhaseUninstalling \<or> cr_Phase cl = ClusterPhaseUninstalled then None
     else case map_of snap (cr_Name cl) of
       Some info \<Rightarrow>
         if time_sub now (hb_LastSeen info) \<le> offlineAfter
         then Some (ClusterPhaseOnline, Some (hb_LastSeen info), hb_OperatorVersion info)
         else if cr_Phase cl = ClusterPhaseOnline then Some (ClusterPhaseOffline, cr_LastHeartbeatAt cl, cr_OperatorVersion cl)
         else None
     | None \<Rightarrow>
         if cr_Phase cl = ClusterPhaseOnline then Some (ClusterPhaseOffline, cr_LastHeartbeatAt cl, cr_OperatorVersion cl)
         else None)"

text \<open>The two writes for a row the pass changes; \<open>hb_ok\<close> and \<open>inv_ok\<close> say for which row ids the
  database accepts them. The result is the table and whether the pass goes on.\<close>

definition flush_row ::
  "(int \<Rightarrow> bool) \<Rightarrow> (int \<Rightarrow> bool) \<Rightarrow> time \<Rightarrow> duration \<Rightarrow> HeartbeatTracker \<Rightarrow> cluster_row \<Rightarrow> cluster_table \<Rightarrow> cluster_table \<times> bool" where
  "flush_row hb_ok inv_ok now offlineAfter snap cl t = (case flush_phase now offlineAfter snap cl of
      None \<Rightarrow> (t, True)
    | Some (phase, seen, version) \<Rightarrow>
        if \<not> hb_ok (cr_ID cl) then (t, False)
        else
          (let t1 = UpdateHeartbeat (cr_ID cl) phase seen version t
           in case map_of snap (cr_Name cl) of
                None \<Rightarrow> (t1, True)
              | Some info \<Rightarrow>
                  (case hb_Inventory info of
                     None \<Rightarrow> (t1, True)
                   | Some iv \<Rightarrow> if inv_ok (cr_ID cl) then (UpdateInventory (cr_ID cl) iv t1, True) else (t1, False))))"

text \<open>The pass works off the list it read first, which may be older than the table; an error ends it.\<close>

fun flushOnce ::
  "(int \<Rightarrow> bool) \<Rightarrow> (int \<Rightarrow> bool) \<Rightarrow> time \<Rightarrow> duration \<Rightarrow> HeartbeatTracker \<Rightarrow> cluster_table \<Rightarrow> cluster_table \<Rightarrow> cluster_table \<times> bool" where
  "flushOnce hb_ok inv_ok now offlineAfter snap [] t = (t, True)"
| "flushOnce hb_ok inv_ok now offlineAfter snap (cl # listed) t =
    (case flush_row hb_ok inv_ok now offlineAfter snap cl t of
       (t', False) \<Rightarrow> (t', False)
     | (t', True) \<Rightarrow> flushOnce hb_ok inv_ok now offlineAfter snap listed t')"

section \<open>Distribution status\<close>

record status_row =
  ds_Status :: string
  ds_AppliedVersionHash :: string
  ds_LastError :: string

definition DistributionSynced :: string where "DistributionSynced = ''Synced''"
definition DistributionPending :: string where "DistributionPending = ''Pending''"
definition DistributionError :: string where "DistributionError = ''Error''"

definition empty_status :: status_row where
  "empty_status = \<lparr>ds_Status = '''', ds_AppliedVersionHash = '''', ds_LastError = ''''\<rparr>"

text \<open>The rows of one cluster by distribution, and the calls the repository answers: \<open>db_cluster\<close> for
  the cluster itself, \<open>db_list\<close> the distributions' names, then by distribution the read, the write and the
  deletion of its row and the read of the distribution. \<open>db_upsert\<close> is the row the ORM's
  assign-or-create leaves, given the row there was and the entry to write.\<close>

type_synonym status_table = "status_row smap"

record status_db =
  db_cluster :: bool
  db_list :: "string list option"
  db_get :: "string \<Rightarrow> bool"
  db_put :: "string \<Rightarrow> bool"
  db_delete :: "string \<Rightarrow> bool"
  db_dist :: "string \<Rightarrow> bool"
  db_upsert :: "status_row option \<Rightarrow> status_row \<Rightarrow> status_row"

definition setClusterStatus :: "status_db \<Rightarrow> string \<Rightarrow> (status_row \<Rightarrow> status_row) \<Rightarrow> status_table \<Rightarrow> status_table" where
  "setClusterStatus db dist mutate t =
    (if \<not> db_get db dist then t
     else let before = lookup_or empty_status t dist; entry = mutate before
          in if ds_Status before = ds_Status entry \<and> ds_AppliedVersionHash before = ds_AppliedVersionHash entry
                \<and> ds_LastError before = ds_LastError entry then t
             else if db_put db dist then AList.update dist (db_upsert db (map_of t dist) entry) t
             else t)"

definition fail_with :: "string \<Rightarrow> status_row \<Rightarrow> status_row" where
  "fail_with err e = e\<lparr>ds_Status := DistributionError, ds_LastError := err\<rparr>"

definition await_ack :: "string \<Rightarrow> status_row \<Rightarrow> status_row" where
  "await_ack hash e =
    (if ds_AppliedVersionHash e = hash \<and> (ds_Status e = DistributionSynced \<or> ds_Status e = DistributionError)
     then e else e\<lparr>ds_Status := DistributionPending, ds_LastError := ''''\<rparr>)"

definition push_dist :: "status_db \<Rightarrow> RenderResult \<Rightarrow> string \<Rightarrow> status_table \<Rightarrow> status_table" where
  "push_dist db res d t =
    (if d \<in> set (rr_Matched res) \<and> lookup_or '''' (rr_Errors res) d \<noteq> ''''
     then setClusterStatus db d (fail_with (lookup_or '''' (rr_Errors res) d)) t
     else if d \<in> set (rr_Matched res) then setClusterStatus db d (await_ack (rr_Hash res)) t
     else if db_delete db d then AList.delete d t else t)"

definition markPushed :: "status_db \<Rightarrow> RenderResult \<Rightarrow> status_table \<Rightarrow> status_table" where
  "markPushed db res t =
    (if \<not> db_cluster db then t
     else case db_list db of None \<Rightarrow> t | Some dists \<Rightarrow> fold (push_dist db res) dists t)"

definition report_entry :: "StatusReport \<Rightarrow> status_row \<Rightarrow> status_row" where
  "report_entry rep e =
    (if sr_ApplyError rep \<noteq> ''''
     then e\<lparr>ds_Status := DistributionError, ds_AppliedVersionHash := sr_AppliedVersion rep, ds_LastError := sr_ApplyError rep\<rparr>
     else e\<lparr>ds_Status := DistributionSynced, ds_AppliedVersionHash := sr_AppliedVersion rep, ds_LastError := ''''\<rparr>)"

definition report_dist :: "status_db \<Rightarrow> RenderResult \<Rightarrow> StatusReport \<Rightarrow> string \<Rightarrow> status_table \<Rightarrow> status_table" where
  "report_dist db res rep d t =
    (if lookup_or '''' (rr_Errors res) d \<noteq> '''' then t
     else if \<not> db_dist db d then t
     else setClusterStatus db d (report_entry rep) t)"

definition markReported :: "status_db \<Rightarrow> RenderResult \<Rightarrow> StatusReport \<Rightarrow> status_table \<Rightarrow> status_table" where
  "markReported db prev rep t =
    (if sr_AppliedVersion rep = '''' \<or> sr_AppliedVersion rep \<noteq> rr_Hash prev then t
     else if \<not> db_cluster db then t
     else fold (report_dist db prev rep) (rr_Matched prev) t)"


section \<open>What a flush writes\<close>

text \<open>The columns one listed row's writes set in a row, and whether the pass goes on after them: neither
  depends on the table.\<close>

definition flush_columns ::
  "(int \<Rightarrow> bool) \<Rightarrow> (int \<Rightarrow> bool) \<Rightarrow> time \<Rightarrow> duration \<Rightarrow> HeartbeatTracker \<Rightarrow> cluster_row \<Rightarrow> cluster_row \<Rightarrow> cluster_row" where
  "flush_columns hb_ok inv_ok now off snap cl r = (case flush_phase now off snap cl of
      None \<Rightarrow> r
    | Some (phase, seen, version) \<Rightarrow>
        if \<not> hb_ok (cr_ID cl) then r
        else (let r1 = r\<lparr>cr_Phase := phase, cr_LastHeartbeatAt := seen, cr_OperatorVersion := version\<rparr>
              in case Option.bind (map_of snap (cr_Name cl)) hb_Inventory of
                   Some iv \<Rightarrow> if inv_ok (cr_ID cl) then inventory_columns iv r1 else r1
                 | None \<Rightarrow> r1))"

definition flush_continues ::
  "(int \<Rightarrow> bool) \<Rightarrow> (int \<Rightarrow> bool) \<Rightarrow> time \<Rightarrow> duration \<Rightarrow> HeartbeatTracker \<Rightarrow> cluster_row \<Rightarrow> bool" where
  "flush_continues hb_ok inv_ok now off snap cl \<longleftrightarrow> flush_phase now off snap cl = None
     \<or> hb_ok (cr_ID cl) \<and> (Option.bind (map_of snap (cr_Name cl)) hb_Inventory = None \<or> inv_ok (cr_ID cl))"

fun up_to_failure :: "('a \<Rightarrow> bool) \<Rightarrow> 'a list \<Rightarrow> 'a list" where
  "up_to_failure ok [] = []"
| "up_to_failure ok (x # xs) = (if ok x then x # up_to_failure ok xs else [x])"

lemma set_up_to_failure: "set (up_to_failure ok xs) \<subseteq> set xs"
  by (induction xs) auto

lemma up_to_failure_all: "list_all ok xs \<Longrightarrow> up_to_failure ok xs = xs"
  by (induction xs) auto

lemma distinct_up_to_failure: "distinct (map f xs) \<Longrightarrow> distinct (map f (up_to_failure ok xs))"
  using set_up_to_failure [of ok] by (induction xs) fastforce+

lemma update_row_compose:
  assumes "\<And>r. cr_ID (f r) = cr_ID r"
  shows "update_row i g (update_row i f t) = update_row i (g \<circ> f) t"
  by (simp add: update_row_def assms)

lemma inventory_columns_ID [simp]: "cr_ID (inventory_columns iv r) = cr_ID r"
  by (simp add: inventory_columns_def Let_def)

lemma flush_columns_ID [simp]: "cr_ID (flush_columns hb_ok inv_ok now off snap cl r) = cr_ID r"
  by (simp add: flush_columns_def Let_def split: option.split prod.split)

lemma flush_row_columns:
  "flush_row hb_ok inv_ok now off snap cl t =
    (update_row (cr_ID cl) (flush_columns hb_ok inv_ok now off snap cl) t, flush_continues hb_ok inv_ok now off snap cl)"
proof (cases "flush_phase now off snap cl")
  case None
  then have "flush_columns hb_ok inv_ok now off snap cl = (\<lambda>r. r)"
    by (simp add: flush_columns_def fun_eq_iff)
  with None show ?thesis by (simp add: flush_row_def flush_continues_def update_row_def)
next
  case (Some p)
  then obtain phase seen version where p: "flush_phase now off snap cl = Some (phase, seen, version)"
    by (cases p) auto
  show ?thesis
    by (cases "map_of snap (cr_Name cl)"; cases "hb_Inventory (the (map_of snap (cr_Name cl)))")
      (auto simp: flush_row_def flush_columns_def [abs_def] flush_continues_def p UpdateHeartbeat_def UpdateInventory_def
        Let_def update_row_def cong: if_cong)
qed

lemma flushOnce_fold:
  "flushOnce hb_ok inv_ok now off snap listed t =
    (fold (\<lambda>cl. update_row (cr_ID cl) (flush_columns hb_ok inv_ok now off snap cl))
       (up_to_failure (flush_continues hb_ok inv_ok now off snap) listed) t,
     list_all (flush_continues hb_ok inv_ok now off snap) listed)"
  by (induction listed arbitrary: t) (simp_all add: flush_row_columns)

text \<open>Updates by id with different ids touch different rows: each row gets the columns of the listed row
  with its id.\<close>

lemma fold_update_row:
  assumes "distinct (map cr_ID xs)" "\<And>cl r. cr_ID (f cl r) = cr_ID r"
  shows "fold (\<lambda>cl. update_row (cr_ID cl) (f cl)) xs t =
    map (\<lambda>r. case find (\<lambda>cl. cr_ID cl = cr_ID r) xs of None \<Rightarrow> r | Some cl \<Rightarrow> f cl r) t"
  using assms(1)
proof (induction xs arbitrary: t)
  case (Cons cl xs)
  have none: "find (\<lambda>c. cr_ID c = cr_ID cl) xs = None"
    using Cons.prems by (simp add: find_None_iff image_iff) metis
  show ?case
    using Cons none by (auto simp: update_row_def assms(2) eq_commute [of "cr_ID cl"])
qed (simp add: update_row_def)


lemma fold_update_row_rel:
  assumes "\<And>cl r. Q r (f cl r)" "\<And>r. Q r r" "\<And>a b c. Q a b \<Longrightarrow> Q b c \<Longrightarrow> Q a c"
  shows "list_all2 Q t (fold (\<lambda>cl. update_row (cr_ID cl) (f cl)) xs t)"
proof (induction xs arbitrary: t)
  case Nil
  show ?case by (simp add: list.rel_refl assms(2))
next
  case (Cons cl xs)
  have "list_all2 Q t (update_row (cr_ID cl) (f cl) t)"
    by (simp add: update_row_def list_all2_conv_all_nth assms(1,2))
  then show ?case using list_all2_trans [of Q Q Q, OF assms(3)] Cons by fastforce
qed


text \<open>What a flush may change in a row: the phase, the heartbeat, the operator version and the inventory,
  where a known inventory value is never blanked.\<close>

definition heartbeat_columns_only :: "cluster_row \<Rightarrow> cluster_row \<Rightarrow> bool" where
  "heartbeat_columns_only r r' \<longleftrightarrow>
     r' = r\<lparr>cr_Phase := cr_Phase r', cr_OperatorVersion := cr_OperatorVersion r', cr_KubernetesVersion := cr_KubernetesVersion r',
       cr_APIServerAddress := cr_APIServerAddress r', cr_NodeCount := cr_NodeCount r', cr_ReadyNodeCount := cr_ReadyNodeCount r',
       cr_LastHeartbeatAt := cr_LastHeartbeatAt r'\<rparr> \<and>
     (cr_KubernetesVersion r \<noteq> '''' \<longrightarrow> cr_KubernetesVersion r' \<noteq> '''') \<and>
     (cr_APIServerAddress r \<noteq> '''' \<longrightarrow> cr_APIServerAddress r' \<noteq> '''') \<and>
     (cr_NodeCount r > 0 \<longrightarrow> cr_NodeCount r' > 0)"

lemma heartbeat_columns_refl: "heartbeat_columns_only r r"
  by (simp add: heartbeat_columns_only_def)

lemma heartbeat_columns_trans:
  "heartbeat_columns_only a b \<Longrightarrow> heartbeat_columns_only b c \<Longrightarrow> heartbeat_columns_only a c"
  by (cases a; cases b; cases c) (simp add: heartbeat_columns_only_def)

lemma flush_columns_only: "heartbeat_columns_only r (flush_columns hb_ok inv_ok now off snap cl r)"
  by (cases r) (simp add: heartbeat_columns_only_def flush_columns_def inventory_columns_def Let_def
      split: option.split prod.split)

text \<open>A flush pass, however old the list it works from and whichever of its writes fail, keeps every row
  of the table in place and touches only the columns heartbeats own: tenant, name, labels, cluster uid and
  credentials stay what concurrent writers made them, and a known Kubernetes version, API server address or
  node count is never blanked.\<close>

theorem flushOnce_columns:
  "list_all2 heartbeat_columns_only t (fst (flushOnce hb_ok inv_ok now offlineAfter snap listed t))"
  unfolding flushOnce_fold fst_conv
  by (rule fold_update_row_rel) (rule flush_columns_only heartbeat_columns_refl heartbeat_columns_trans, assumption?)+

definition uninstall_owned :: "cluster_row \<Rightarrow> bool" where
  "uninstall_owned r \<longleftrightarrow> cr_Phase r = ClusterPhaseUninstalling \<or> cr_Phase r = ClusterPhaseUninstalled"

definition beat_of :: "time \<Rightarrow> duration \<Rightarrow> HeartbeatTracker \<Rightarrow> cluster_row \<Rightarrow> HeartbeatInfo option" where
  "beat_of now off snap r = (case map_of snap (cr_Name r) of
     Some info \<Rightarrow> if time_sub now (hb_LastSeen info) \<le> off then Some info else None | None \<Rightarrow> None)"

lemma find_hit: "find P xs = Some x \<Longrightarrow> x \<in> set xs \<and> P x"
  by (induction xs) (auto split: if_splits)

lemma flushOnce_current:
  assumes "distinct (map cr_ID t)" "i < length t"
  shows "fst (flushOnce hb_ok inv_ok now off snap t t) ! i \<in> {t ! i, flush_columns hb_ok inv_ok now off snap (t ! i) (t ! i)}"
    and "snd (flushOnce hb_ok inv_ok now off snap t t) \<Longrightarrow>
      fst (flushOnce hb_ok inv_ok now off snap t t) ! i = flush_columns hb_ok inv_ok now off snap (t ! i) (t ! i)"
proof -
  let ?ok = "flush_continues hb_ok inv_ok now off snap"
  let ?c = "flush_columns hb_ok inv_ok now off snap"
  let ?find = "\<lambda>xs. find (\<lambda>cl. cr_ID cl = cr_ID (t ! i)) xs"
  have row: "fst (flushOnce hb_ok inv_ok now off snap t t) ! i =
      (case ?find (up_to_failure ?ok t) of None \<Rightarrow> t ! i | Some cl \<Rightarrow> ?c cl (t ! i))"
    using assms(2) by (simp add: flushOnce_fold fold_update_row distinct_up_to_failure [OF assms(1)])
  have same: "cl = t ! i" if "cl \<in> set t" "cr_ID cl = cr_ID (t ! i)" for cl
    using assms that by (auto simp: distinct_map dest: inj_onD)
  show "fst (flushOnce hb_ok inv_ok now off snap t t) ! i \<in> {t ! i, ?c (t ! i) (t ! i)}"
    unfolding row using same set_up_to_failure [of ?ok t]
    by (auto dest!: find_hit split: option.split)
  assume "snd (flushOnce hb_ok inv_ok now off snap t t)"
  then have all: "up_to_failure ?ok t = t"
    by (simp add: flushOnce_fold up_to_failure_all)
  have "?find t \<noteq> None"
    using nth_mem [OF assms(2)] by (auto simp: find_None_iff)
  then obtain cl where "?find t = Some cl" by blast
  moreover from this have "cl = t ! i" using same [of cl] by (auto dest!: find_hit)
  ultimately show "fst (flushOnce hb_ok inv_ok now off snap t t) ! i = ?c (t ! i) (t ! i)"
    unfolding row all by simp
qed


lemma flush_columns_owned: "uninstall_owned cl \<Longrightarrow> flush_columns hb_ok inv_ok now off snap cl r = r"
  by (auto simp: flush_columns_def flush_phase_def uninstall_owned_def)

lemma inventory_columns_heartbeat [simp]:
  "cr_Phase (inventory_columns iv r) = cr_Phase r"
  "cr_LastHeartbeatAt (inventory_columns iv r) = cr_LastHeartbeatAt r"
  "cr_OperatorVersion (inventory_columns iv r) = cr_OperatorVersion r"
  by (simp_all add: inventory_columns_def Let_def)

lemma flush_columns_alive:
  assumes "\<not> uninstall_owned r" "beat_of now off snap r = Some info" "flush_continues hb_ok inv_ok now off snap r"
  shows "cr_Phase (flush_columns hb_ok inv_ok now off snap r r) = ClusterPhaseOnline"
    "cr_LastHeartbeatAt (flush_columns hb_ok inv_ok now off snap r r) = Some (hb_LastSeen info)"
    "cr_OperatorVersion (flush_columns hb_ok inv_ok now off snap r r) = hb_OperatorVersion info"
  using assms
  by (auto simp: flush_columns_def flush_phase_def uninstall_owned_def beat_of_def flush_continues_def Let_def
      split: option.splits if_splits)

lemma flush_columns_silent:
  assumes "\<not> uninstall_owned r" "beat_of now off snap r = None" "flush_continues hb_ok inv_ok now off snap r"
  shows "cr_Phase (flush_columns hb_ok inv_ok now off snap r r) =
      (if cr_Phase r = ClusterPhaseOnline then ClusterPhaseOffline else cr_Phase r)"
    "cr_LastHeartbeatAt (flush_columns hb_ok inv_ok now off snap r r) = cr_LastHeartbeatAt r"
    "cr_OperatorVersion (flush_columns hb_ok inv_ok now off snap r r) = cr_OperatorVersion r"
  using assms
  by (auto simp: flush_columns_def flush_phase_def uninstall_owned_def beat_of_def flush_continues_def Let_def
      split: option.splits if_splits)

text \<open>A flush that works from the table as it is. A row whose uninstall is in progress or finished is
  left alone, even when the cluster still beats. When every write succeeds, a cluster with a beat inside
  the timeout is Online with that beat and version, and of the others the Online ones become Offline and
  keep their last beat.\<close>

theorem flushOnce_lifecycle:
  fixes t :: cluster_table and snap :: HeartbeatTracker
  assumes "flushOnce hb_ok inv_ok now offlineAfter snap t t = (t', ok)" "distinct (map cr_ID t)" "i < length t"
  shows "(uninstall_owned (t ! i) \<longrightarrow> t' ! i = t ! i) \<and>
    (ok \<and> \<not> uninstall_owned (t ! i) \<longrightarrow>
      (case beat_of now offlineAfter snap (t ! i) of
         Some info \<Rightarrow> cr_Phase (t' ! i) = ClusterPhaseOnline \<and> cr_LastHeartbeatAt (t' ! i) = Some (hb_LastSeen info) \<and>
           cr_OperatorVersion (t' ! i) = hb_OperatorVersion info
       | None \<Rightarrow> cr_Phase (t' ! i) = (if cr_Phase (t ! i) = ClusterPhaseOnline then ClusterPhaseOffline else cr_Phase (t ! i)) \<and>
           cr_LastHeartbeatAt (t' ! i) = cr_LastHeartbeatAt (t ! i)))"
proof -
  note row = flushOnce_current [OF assms(2,3), of hb_ok inv_ok now offlineAfter snap, unfolded assms(1) fst_conv snd_conv]
  have "flush_continues hb_ok inv_ok now offlineAfter snap (t ! i)" if ok
    using that assms(1,3) by (auto simp: flushOnce_fold list_all_length)
  then show ?thesis
    using row flush_columns_alive [of "t ! i"] flush_columns_silent [of "t ! i"]
    by (auto simp: flush_columns_owned split: option.split)
qed

definition ex_row :: "int \<Rightarrow> string \<Rightarrow> string \<Rightarrow> cluster_row" where
  "ex_row i name phase = \<lparr>cr_ID = i, cr_TenantID = None, cr_Name = name, cr_ClusterUID = '''', cr_Labels = [], cr_Phase = phase,
     cr_OperatorVersion = ''v1'', cr_KubernetesVersion = '''', cr_APIServerAddress = '''', cr_NodeCount = 0,
     cr_ReadyNodeCount = 0, cr_LastHeartbeatAt = None, cr_ObservabilityOnboardedAt = None, cr_RegTokenHash = '''', cr_AuthTokenHash = ''''\<rparr>"

definition ex_table :: cluster_table where
  "ex_table = [ex_row 1 ''a'' ''Registering'', ex_row 2 ''b'' ''Online'', ex_row 3 ''c'' ''Uninstalling'']"

definition ex_beats :: HeartbeatTracker where
  "ex_beats = MarkAlive 90 ''c'' ''v2'' (MarkAlive 95 ''a'' ''v2'' NewHeartbeatTracker)"

text \<open>A beat that is flushed from a list read before the uninstall began writes Online over the
  uninstall's phase.\<close>

lemma stale_flush_resurrects:
  "cr_Phase (fst (flushOnce (\<lambda>_. True) (\<lambda>_. True) 100 30 ex_beats [ex_row 3 ''c'' ''Online''] ex_table) ! 2) = ClusterPhaseOnline"
  by code_simp


theorem flushOnce_lifecycle_witness:
  "fst (flushOnce (\<lambda>_. True) (\<lambda>_. True) 100 30 ex_beats ex_table ex_table) ! 2 = ex_table ! 2 \<and>
   cr_Phase (fst (flushOnce (\<lambda>_. True) (\<lambda>_. True) 100 30 ex_beats ex_table ex_table) ! 0) = ''Online'' \<and>
   cr_Phase (fst (flushOnce (\<lambda>_. True) (\<lambda>_. True) 100 30 ex_beats ex_table ex_table) ! 1) = ''Offline''"
proof -
  let ?res = "flushOnce (\<lambda>_. True) (\<lambda>_. True) 100 30 ex_beats ex_table ex_table"
  have res: "?res = (fst ?res, True)" by code_simp
  have d: "distinct (map cr_ID ex_table)" "length ex_table = 3" by code_simp+
  have facts: "uninstall_owned (ex_table ! 2)" "\<not> uninstall_owned (ex_table ! 0)" "\<not> uninstall_owned (ex_table ! 1)"
    "map_option hb_LastSeen (beat_of 100 30 ex_beats (ex_table ! 0)) = Some 95" "beat_of 100 30 ex_beats (ex_table ! 1) = None"
    "cr_Phase (ex_table ! 1) = ClusterPhaseOnline"
    by code_simp+
  show ?thesis
    using flushOnce_lifecycle [OF res d(1), of 0] flushOnce_lifecycle [OF res d(1), of 1]
      flushOnce_lifecycle [OF res d(1), of 2] facts d(2)
    by (auto simp: ClusterPhaseOnline_def ClusterPhaseOffline_def)
qed

section \<open>Tenants keep their clusters\<close>

text \<open>Assigning clusters to a tenant. When it succeeds every requested name exists, the tenant owns exactly
  the requested clusters, no other tenant's cluster changes hands unless it was requested and transfers are
  allowed, and nothing but the owner changes in any row. It fails without a change when the tenant is
  unknown or inactive, when a requested cluster belongs to another tenant and transfers are not allowed, or
  when a requested cluster does not exist.\<close>

theorem SyncTenantClusters_exact:
  assumes "SyncTenantClusters status tenant names allowTransfer t = Inr t'"
  shows "status = Some ''active'' \<and> set names \<subseteq> cr_Name ` set t \<and>
    cr_Name ` set (filter (\<lambda>r. cr_TenantID r = Some tenant) t') = set names \<and>
    list_all2 (\<lambda>r r'. r' = r\<lparr>cr_TenantID := cr_TenantID r'\<rparr> \<and>
      (cr_TenantID r \<noteq> None \<and> cr_TenantID r \<noteq> Some tenant \<and> (\<not> allowTransfer \<or> cr_Name r \<notin> set names) \<longrightarrow> r' = r)) t t'"
proof -
  let ?w = "filter (\<lambda>r. cr_Name r \<in> set names) t"
  have st: "status = Some ''active''" and t': "t' = map (sync_row tenant names) t"
    and keep: "allowTransfer \<or> (\<forall>r \<in> set ?w. cr_TenantID r = None \<or> cr_TenantID r = Some tenant)"
    and len: "card (cr_Name ` set ?w) = card (set names)"
    using assms
    by (auto simp: SyncTenantClusters_def Let_def list_ex_iff length_remdups_card_conv split: option.splits if_splits)
  have "cr_Name ` set ?w \<subseteq> set names" by auto
  then have found: "cr_Name ` set ?w = set names" using len by (simp add: card_subset_eq)
  have own: "cr_TenantID (sync_row tenant names r) = Some tenant \<longleftrightarrow> cr_Name r \<in> set names" for r
    by (simp add: sync_row_def Let_def)
  have name: "cr_Name (sync_row tenant names r) = cr_Name r" for r
    by (simp add: sync_row_def Let_def)
  have "cr_Name ` set (filter (\<lambda>r. cr_TenantID r = Some tenant) t') = cr_Name ` set ?w"
    by (simp add: t' filter_map comp_def own name image_image)
  moreover have "list_all2 (\<lambda>r r'. r' = r\<lparr>cr_TenantID := cr_TenantID r'\<rparr> \<and>
      (cr_TenantID r \<noteq> None \<and> cr_TenantID r \<noteq> Some tenant \<and> (\<not> allowTransfer \<or> cr_Name r \<notin> set names) \<longrightarrow> r' = r)) t t'"
    unfolding t' list.rel_map
    by (rule list.rel_refl_strong) (use keep in \<open>auto simp: sync_row_def Let_def\<close>)
  ultimately show ?thesis using st found by auto
qed

theorem SyncTenantClusters_exact_witness:
  "SyncTenantClusters (Some ''active'') 7 [''b''] False ex_table =
     Inr [ex_row 1 ''a'' ''Registering'', (ex_row 2 ''b'' ''Online'')\<lparr>cr_TenantID := Some 7\<rparr>, ex_row 3 ''c'' ''Uninstalling''] \<and>
   set [''b''] \<subseteq> cr_Name ` set ex_table"
proof
  show *: "SyncTenantClusters (Some ''active'') 7 [''b''] False ex_table =
     Inr [ex_row 1 ''a'' ''Registering'', (ex_row 2 ''b'' ''Online'')\<lparr>cr_TenantID := Some 7\<rparr>, ex_row 3 ''c'' ''Uninstalling'']"
    by code_simp
  show "set [''b''] \<subseteq> cr_Name ` set ex_table"
    using SyncTenantClusters_exact [OF *] by blast
qed

lemma SyncTenantClusters_errors:
  "SyncTenantClusters None tenant names tr t = Inl ErrTenantNotFound"
  "st \<noteq> ''active'' \<Longrightarrow> SyncTenantClusters (Some st) tenant names tr t = Inl ErrInactiveTenant"
  "\<lbrakk>r \<in> set t; cr_Name r \<in> set names; cr_TenantID r = Some other; other \<noteq> tenant\<rbrakk> \<Longrightarrow>
     SyncTenantClusters (Some ''active'') tenant names False t = Inl ErrClusterTenantTransferRequired"
  by (auto simp: SyncTenantClusters_def Let_def list_ex_iff)


section \<open>A reported snapshot stays resolved\<close>

text \<open>What the ORM documents of assign-or-create with a struct: a missing row is created from the entry;
  an existing one takes the struct's non-zero fields and keeps its own value for the others.\<close>

definition or_keep :: "string \<Rightarrow> string \<Rightarrow> string" where
  "or_keep new old = (if new \<noteq> '''' then new else old)"

definition assigns_nonzero :: "(status_row option \<Rightarrow> status_row \<Rightarrow> status_row) \<Rightarrow> bool" where
  "assigns_nonzero up \<longleftrightarrow> (\<forall>e. up None e = e) \<and>
     (\<forall>r e. up (Some r) e = \<lparr>ds_Status = or_keep (ds_Status e) (ds_Status r),
        ds_AppliedVersionHash = or_keep (ds_AppliedVersionHash e) (ds_AppliedVersionHash r),
        ds_LastError = or_keep (ds_LastError e) (ds_LastError r)\<rparr>)"

text \<open>The row a report leaves, from the row there was.\<close>

definition reported :: "StatusReport \<Rightarrow> status_row option \<Rightarrow> status_row" where
  "reported rep row =
     \<lparr>ds_Status = (if sr_ApplyError rep \<noteq> '''' then DistributionError else DistributionSynced),
      ds_AppliedVersionHash = sr_AppliedVersion rep,
      ds_LastError = or_keep (sr_ApplyError rep) (case row of None \<Rightarrow> '''' | Some r \<Rightarrow> ds_LastError r)\<rparr>"

lemma status_words: "DistributionSynced \<noteq> ''''" "DistributionError \<noteq> ''''" "DistributionSynced \<noteq> DistributionError"
  by (simp_all add: DistributionSynced_def DistributionError_def)

lemma reported_again: "reported rep (Some (reported rep row)) = reported rep row"
  by (simp add: reported_def or_keep_def)

lemma setClusterStatus_other: "d' \<noteq> d \<Longrightarrow> map_of (setClusterStatus db d' f t) d = map_of t d"
  by (simp add: setClusterStatus_def Let_def)

lemma report_dist_other: "d' \<noteq> d \<Longrightarrow> map_of (report_dist db prev rep d' t) d = map_of t d"
  by (simp add: report_dist_def setClusterStatus_other)

lemma report_dist_row:
  assumes "assigns_nonzero (db_upsert db)" "db_get db d" "db_put db d" "db_dist db d"
    "sr_AppliedVersion rep \<noteq> ''''" "lookup_or '''' (rr_Errors prev) d = ''''"
  shows "map_of (report_dist db prev rep d t) d = Some (reported rep (map_of t d))"
proof (cases "map_of t d")
  case None
  have new: "db_upsert db None e = e" for e
    using assms(1) by (simp add: assigns_nonzero_def)
  have "lookup_or empty_status t d = empty_status" by (simp add: lookup_or_def None)
  moreover have "ds_Status empty_status \<noteq> ds_Status (report_entry rep empty_status)"
    using status_words by (simp add: report_entry_def empty_status_def)
  moreover have "report_entry rep empty_status = reported rep None"
    by (simp add: report_entry_def empty_status_def reported_def or_keep_def)
  ultimately show ?thesis
    by (simp add: None new assms(2-4,6) report_dist_def setClusterStatus_def Let_def)
next
  case (Some r)
  have old: "db_upsert db (Some r) e = \<lparr>ds_Status = or_keep (ds_Status e) (ds_Status r),
      ds_AppliedVersionHash = or_keep (ds_AppliedVersionHash e) (ds_AppliedVersionHash r),
      ds_LastError = or_keep (ds_LastError e) (ds_LastError r)\<rparr>" for e
    using assms(1) by (simp add: assigns_nonzero_def)
  have written: "db_upsert db (Some r) (report_entry rep r) = reported rep (Some r)"
    using assms(5) status_words by (simp add: old report_entry_def reported_def or_keep_def)
  have kept: "report_entry rep r = r \<Longrightarrow> reported rep (Some r) = r"
    by (cases r) (simp add: report_entry_def reported_def or_keep_def split: if_splits)
  have same: "ds_Status r = ds_Status e \<and> ds_AppliedVersionHash r = ds_AppliedVersionHash e \<and> ds_LastError r = ds_LastError e
      \<longleftrightarrow> e = r" for e
    by (cases r; cases e) auto
  have "lookup_or empty_status t d = r" by (simp add: lookup_or_def Some)
  then have "report_dist db prev rep d t = (if report_entry rep r = r then t else AList.update d (reported rep (Some r)) t)"
    by (simp only: report_dist_def setClusterStatus_def Let_def same Some written assms(2-4,6) if_True if_False simp_thms)
  then show ?thesis using Some kept by simp
qed

lemma report_fold_row:
  assumes "assigns_nonzero (db_upsert db)" "db_get db d" "db_put db d" "db_dist db d"
    "sr_AppliedVersion rep \<noteq> ''''" "lookup_or '''' (rr_Errors prev) d = ''''"
  shows "map_of (fold (report_dist db prev rep) ds t) d =
    (if d \<in> set ds then Some (reported rep (map_of t d)) else map_of t d)"
proof (induction ds arbitrary: t)
  case (Cons x ds)
  then show ?case
    by (cases "x = d") (auto simp: report_dist_row [OF assms] report_dist_other reported_again)
qed simp

lemma push_dist_resolved:
  assumes "d \<in> set (rr_Matched res)" "lookup_or '''' (rr_Errors res) d = ''''" "map_of t d = Some r"
    "ds_AppliedVersionHash r = rr_Hash res" "ds_Status r \<in> {DistributionSynced, DistributionError}"
  shows "map_of (push_dist db res d' t) d = Some r"
proof (cases "d' = d")
  case True
  have "lookup_or empty_status t d = r" by (simp add: lookup_or_def assms(3))
  moreover have "await_ack (rr_Hash res) r = r" using assms(4,5) by (auto simp: await_ack_def)
  ultimately have "setClusterStatus db d (await_ack (rr_Hash res)) t = t"
    by (simp add: setClusterStatus_def Let_def)
  then show ?thesis using assms(1-3) True by (simp add: push_dist_def)
next
  case False
  then show ?thesis using assms(3) by (simp add: push_dist_def setClusterStatus_other)
qed

lemma markPushed_resolved:
  assumes "d \<in> set (rr_Matched res)" "lookup_or '''' (rr_Errors res) d = ''''" "map_of t d = Some r"
    "ds_AppliedVersionHash r = rr_Hash res" "ds_Status r \<in> {DistributionSynced, DistributionError}"
  shows "map_of (markPushed db' res t) d = Some r"
proof -
  have "map_of (fold (push_dist db' res) ds t) d = Some r" for ds
    using assms(3)
    by (induction ds arbitrary: t) (simp_all add: push_dist_resolved [OF assms(1,2) _ assms(4,5)])
  then show ?thesis using assms(3) by (simp add: markPushed_def split: option.split)
qed

text \<open>The member's report of the snapshot that was last pushed. Every matched distribution without a render
  error, for which the database answers, is Synced at that hash, or in Error with the member's message; and
  it stays exactly so however often the same snapshot is pushed again. The last error of a distribution
  that has become Synced is the one of the row there was: the ORM does not write an empty string.\<close>

theorem report_resolves:
  assumes "assigns_nonzero (db_upsert db)" "db_cluster db" "db_get db d" "db_put db d" "db_dist db d"
    "sr_AppliedVersion rep = rr_Hash prev" "rr_Hash prev \<noteq> ''''"
    "d \<in> set (rr_Matched prev)" "lookup_or '''' (rr_Errors prev) d = ''''"
  shows "map_of (((markPushed db' prev) ^^ n) (markReported db prev rep t)) d = Some
    \<lparr>ds_Status = (if sr_ApplyError rep \<noteq> '''' then DistributionError else DistributionSynced),
     ds_AppliedVersionHash = rr_Hash prev,
     ds_LastError = (if sr_ApplyError rep \<noteq> '''' then sr_ApplyError rep else ds_LastError (lookup_or empty_status t d))\<rparr>"
proof -
  have "map_of (markReported db prev rep t) d = Some (reported rep (map_of t d))"
    using assms by (simp add: markReported_def report_fold_row)
  then have "map_of (((markPushed db' prev) ^^ n) (markReported db prev rep t)) d = Some (reported rep (map_of t d))"
    by (induction n) (simp_all add: markPushed_resolved [OF assms(8,9)] reported_def assms(6))
  then show ?thesis
    by (simp add: reported_def or_keep_def assms(6) lookup_or_def empty_status_def split: option.split)
qed


definition ex_db :: status_db where
  "ex_db = \<lparr>db_cluster = True, db_list = Some [''d''], db_get = (\<lambda>_. True), db_put = (\<lambda>_. True), db_delete = (\<lambda>_. True),
     db_dist = (\<lambda>_. True),
     db_upsert = (\<lambda>row e. case row of None \<Rightarrow> e | Some r \<Rightarrow>
       \<lparr>ds_Status = or_keep (ds_Status e) (ds_Status r),
        ds_AppliedVersionHash = or_keep (ds_AppliedVersionHash e) (ds_AppliedVersionHash r),
        ds_LastError = or_keep (ds_LastError e) (ds_LastError r)\<rparr>)\<rparr>"

definition ex_pushed :: RenderResult where
  "ex_pushed = \<lparr>rr_Hash = ''h2'', rr_Objects = [], rr_Matched = [''d''], rr_Errors = []\<rparr>"

definition ex_report :: StatusReport where
  "ex_report = \<lparr>sr_AppliedVersion = ''h2'', sr_ApplyError = '''', sr_PoliciesReady = 1, sr_PoliciesInvalid = 0,
     sr_KubernetesVersion = '''', sr_ApiServerAddress = '''', sr_NodeCount = 0, sr_ReadyNodeCount = 0\<rparr>"

theorem report_resolves_witness:
  "map_of (((markPushed ex_db ex_pushed) ^^ 3) (markReported ex_db ex_pushed ex_report
     [(''d'', \<lparr>ds_Status = ''Error'', ds_AppliedVersionHash = ''h1'', ds_LastError = ''conflict''\<rparr>)])) ''d'' =
   Some \<lparr>ds_Status = ''Synced'', ds_AppliedVersionHash = ''h2'', ds_LastError = ''conflict''\<rparr>"
proof -
  have "assigns_nonzero (db_upsert ex_db)"
    by (simp add: assigns_nonzero_def ex_db_def)
  from report_resolves [OF this, of "''d''" ex_report ex_pushed 3 ex_db
      "[(''d'', \<lparr>ds_Status = ''Error'', ds_AppliedVersionHash = ''h1'', ds_LastError = ''conflict''\<rparr>)]"]
  show ?thesis
    by (simp add: ex_report_def ex_pushed_def lookup_or_def DistributionSynced_def)
      (simp add: ex_db_def)
qed

lemma markReported_stale: "sr_AppliedVersion rep \<noteq> rr_Hash prev \<Longrightarrow> markReported db prev rep t = t"
  by (simp add: markReported_def)

lemma markPushed_untargeted:
  assumes "db_cluster db" "db_list db = Some ds" "distinct ds" "d \<in> set ds" "d \<notin> set (rr_Matched res)" "db_delete db d"
  shows "map_of (markPushed db res t) d = None"
proof -
  have gone: "map_of (fold (push_dist db res) xs t) d = None" if "map_of t d = None \<or> d \<in> set xs" for xs t
    using that
  proof (induction xs arbitrary: t)
    case (Cons x xs)
    have "map_of (push_dist db res x t) d = None \<or> d \<in> set xs"
      using Cons.prems assms(5,6) by (cases "x = d") (auto simp: push_dist_def setClusterStatus_other)
    then show ?case using Cons.IH by simp
  qed simp
  show ?thesis using gone [of t ds] assms by (simp add: markPushed_def)
qed

lemma CountByPhase_bounds:
  "cpc_Online (CountByPhase t) + cpc_Offline (CountByPhase t) + cpc_Registering (CountByPhase t) \<le> cpc_Total (CountByPhase t)"
  by (induction t) (auto simp: CountByPhase_def phase_count_def ClusterPhaseOnline_def ClusterPhaseOffline_def ClusterPhaseRegistering_def)

text \<open>Heartbeats and reports in the tracker: a beat keeps the inventory of the last report, and a report
  without one keeps it too.\<close>

lemma tracker_keeps_inventory:
  "Option.bind (map_of (MarkAlive now c v h) c') hb_Inventory = Option.bind (map_of h c') hb_Inventory"
  "Option.bind (map_of (RecordStatus now c rd nv None h) c') hb_Inventory = Option.bind (map_of h c') hb_Inventory"
  by (auto simp: MarkAlive_def RecordStatus_def Let_def lookup_or_def zero_beat_def split: option.split)

end
