(* ===== verification/Event_Queue.thy ===== *)
theory Event_Queue
  imports Event_Report Storage_Policy
begin

text \<open>
  The operator's queue of admission events between the webhook and the gateway,
  \<^verbatim>\<open>internal/operator/hublink/client.go\<close>: submission, the sending tick with its timeouts, the
  gateway's acknowledgements and the bounded retries.

  A step is what runs under the queue's lock. It returns the queue and the incidents it records, as the
  operations \<open>tracker_op\<close> of the link's tracker in the order of the calls. The order in which Go ranges
  over the map is the argument \<open>order\<close>, and \<open>clk\<close> is the clock read while an event is handled.
\<close>

section \<open>State\<close>

record LinkEvent = AdmissionEvent +
  ae_StoragePolicyVersion :: string
  ae_DeliveryAttempt :: "32 word"

record AdmissionEventConfig =
  ec_Version :: string
  ec_StoragePolicies :: "Rule option list"
  ec_RetryEnabled :: bool
  ec_MaxRetryAttempts :: int
  ec_QueueCapacity :: int
  ec_ObservationEnabled :: bool

record queuedAdmissionEvent =
  qa_event :: LinkEvent
  qa_retryCount :: int
  qa_attempt :: "32 word"
  qa_inFlight :: bool
  qa_ackDeadline :: time

record event_link =
  el_leader :: bool
  el_ClusterName :: string
  el_prefix :: string
  el_eventConfig :: "AdmissionEventConfig option"
  el_events :: "queuedAdmissionEvent smap"

definition defaultEventMaxRetryAttempts :: int where "defaultEventMaxRetryAttempts = 3"
definition defaultEventQueueCapacity :: int where "defaultEventQueueCapacity = 1024"
definition eventAckTimeout :: duration where "eventAckTimeout = 5 * second"
definition ReasonGatewayACKTimeout :: string where "ReasonGatewayACKTimeout = ''gateway_ack_timeout''"

definition new_event_link :: "string \<Rightarrow> event_link" where
  "new_event_link cluster = \<lparr>el_leader = False, el_ClusterName = cluster, el_prefix = '''', el_eventConfig = None, el_events = []\<rparr>"

definition admissionDeliveryConfig :: "AdmissionEventConfig option \<Rightarrow> bool \<times> int \<times> int" where
  "admissionDeliveryConfig config = (case config of
      None \<Rightarrow> (False, defaultEventMaxRetryAttempts, defaultEventQueueCapacity)
    | Some c \<Rightarrow> (ec_RetryEnabled c,
        if ec_MaxRetryAttempts c > 0 then ec_MaxRetryAttempts c else defaultEventMaxRetryAttempts,
        if ec_QueueCapacity c > 0 then ec_QueueCapacity c else defaultEventQueueCapacity))"

definition retry_enabled :: "event_link \<Rightarrow> bool" where
  "retry_enabled l = fst (admissionDeliveryConfig (el_eventConfig l))"

definition max_retries :: "event_link \<Rightarrow> int" where
  "max_retries l = fst (snd (admissionDeliveryConfig (el_eventConfig l)))"

definition queue_capacity :: "event_link \<Rightarrow> int" where
  "queue_capacity l = snd (snd (admissionDeliveryConfig (el_eventConfig l)))"

section \<open>Submission\<close>

definition shouldDiscardAdmissionEvent :: "event_link \<Rightarrow> LinkEvent \<Rightarrow> bool" where
  "shouldDiscardAdmissionEvent l event = (case el_eventConfig l of
      None \<Rightarrow> False
    | Some config \<Rightarrow> \<not> ShouldStore (List.map_filter (\<lambda>r. r) (ec_StoragePolicies config))
        \<lparr>ev_Verdict = ae_Verdict event, ev_ClusterName = el_ClusterName l, ev_APIGroup = ae_ApiGroup event,
         ev_Resource = ae_Resource event, ev_Namespace = ae_Namespace event\<rparr>)"

definition stored_event :: "event_link \<Rightarrow> LinkEvent \<Rightarrow> LinkEvent" where
  "stored_event l event =
    (let versioned = (case el_eventConfig l of None \<Rightarrow> event | Some c \<Rightarrow> event\<lparr>ae_StoragePolicyVersion := ec_Version c\<rparr>)
     in if el_prefix l \<noteq> '''' then versioned\<lparr>ae_EventId := el_prefix l @ ''-'' @ ae_EventId event\<rparr> else versioned)"

type_synonym event_result = "string \<times> ack_status \<times> string"

definition submit_event ::
  "(string \<Rightarrow> time) \<Rightarrow> LinkEvent option \<Rightarrow> event_link \<times> event_result list \<times> tracker_op list \<Rightarrow> event_link \<times> event_result list \<times> tracker_op list" where
  "submit_event clk arg = (\<lambda>(l, results, notes). case arg of
      None \<Rightarrow> (l, results, notes)
    | Some event \<Rightarrow>
        if ae_EventId event = '''' then (l, results, notes)
        else if shouldDiscardAdmissionEvent l event
          then (l, results @ [(ae_EventId event, DISCARDED, ''storage_policy_no_retain'')], notes)
        else
          (let stored = stored_event l event
           in if map_of (el_events l) (ae_EventId stored) \<noteq> None
                then (l, results @ [(ae_EventId event, ACCEPTED, '''')], notes)
              else if int (length (el_events l)) \<ge> queue_capacity l
                then (l, results @ [(ae_EventId event, RETRYABLE, ''operator_event_queue_full'')],
                  notes @ [TRecord ReasonQueueFull 1 (ae_EventId event) ''operator admission event queue is full'' (clk (ae_EventId event))])
              else (l\<lparr>el_events := AList.update (ae_EventId stored)
                    \<lparr>qa_event = stored, qa_retryCount = 0, qa_attempt = 0, qa_inFlight = False, qa_ackDeadline = 0\<rparr> (el_events l)\<rparr>,
                  results @ [(ae_EventId event, ACCEPTED, '''')], notes)))"

text \<open>\<open>None\<close> is the result \<open>false\<close>: not the leader, or nothing to submit.\<close>

definition SubmitAdmissionEvents ::
  "(string \<Rightarrow> time) \<Rightarrow> LinkEvent option list \<Rightarrow> event_link \<Rightarrow> (event_link \<times> event_result list \<times> tracker_op list) option" where
  "SubmitAdmissionEvents clk events l =
    (if \<not> el_leader l \<or> events = [] then None else Some (fold (submit_event clk) events (l, [], [])))"

section \<open>Failures and acknowledgements\<close>

definition failAdmissionEventLocked ::
  "(string \<Rightarrow> time) \<Rightarrow> string \<Rightarrow> string \<Rightarrow> event_link \<Rightarrow> event_link \<times> tracker_op list" where
  "failAdmissionEventLocked clk eventID reason l = (case map_of (el_events l) eventID of
      None \<Rightarrow> (l, [])
    | Some queued \<Rightarrow>
        (let notes = (if reason = ReasonGatewayACKTimeout then [TRecord ReasonACKTimeout 1 eventID reason (clk eventID)] else [])
         in if \<not> retry_enabled l \<or> qa_retryCount queued \<ge> max_retries l
            then (l\<lparr>el_events := AList.delete eventID (el_events l)\<rparr>,
              notes @ [TRecord ReasonRetryExhausted 1 eventID reason (clk eventID)])
            else (l\<lparr>el_events := AList.update eventID
                (queued\<lparr>qa_retryCount := qa_retryCount queued + 1, qa_inFlight := False, qa_ackDeadline := 0\<rparr>) (el_events l)\<rparr>, notes)))"

text \<open>A step that may fail one event, run for each of a list of keys.\<close>

fun each_event :: "(string \<Rightarrow> event_link \<Rightarrow> event_link \<times> tracker_op list) \<Rightarrow> string list \<Rightarrow> event_link \<Rightarrow> event_link \<times> tracker_op list" where
  "each_event f [] l = (l, [])"
| "each_event f (k # ks) l = (let (l1, n1) = f k l; (l2, n2) = each_event f ks l1 in (l2, n1 @ n2))"

definition fail_in_flight :: "(string \<Rightarrow> time) \<Rightarrow> string \<Rightarrow> (queuedAdmissionEvent \<Rightarrow> bool) \<Rightarrow> string \<Rightarrow> event_link \<Rightarrow> event_link \<times> tracker_op list" where
  "fail_in_flight clk reason due eventID l = (case map_of (el_events l) eventID of
      None \<Rightarrow> (l, [])
    | Some queued \<Rightarrow> if qa_inFlight queued \<and> due queued then failAdmissionEventLocked clk eventID reason l else (l, []))"

definition failInFlightAdmissionEvents :: "(string \<Rightarrow> time) \<Rightarrow> string list \<Rightarrow> string \<Rightarrow> event_link \<Rightarrow> event_link \<times> tracker_op list" where
  "failInFlightAdmissionEvents clk order reason l = each_event (fail_in_flight clk reason (\<lambda>_. True)) order l"

record event_ack =
  ea_EventId :: string
  ea_Status :: "ack_status option"
  ea_Reason :: string
  ea_DeliveryAttempt :: "32 word"

definition terminal_status :: "ack_status option \<Rightarrow> bool" where
  "terminal_status s \<longleftrightarrow> s = Some ACCEPTED \<or> s = Some DISCARDED"

definition ack_event :: "(string \<Rightarrow> time) \<Rightarrow> event_ack \<Rightarrow> event_link \<Rightarrow> event_link \<times> tracker_op list" where
  "ack_event clk result l = (case map_of (el_events l) (ea_EventId result) of
      None \<Rightarrow> (l, [])
    | Some queued \<Rightarrow>
        if ea_DeliveryAttempt result \<noteq> 0 \<and> ea_DeliveryAttempt result \<noteq> qa_attempt queued then (l, [])
        else if terminal_status (ea_Status result) then (l\<lparr>el_events := AList.delete (ea_EventId result) (el_events l)\<rparr>, [])
        else if ea_Status result = Some RETRYABLE then failAdmissionEventLocked clk (ea_EventId result) (ea_Reason result) l
        else (l, []))"

text \<open>The results of an acknowledgement without its nil entries.\<close>

fun ackAdmissionEvents :: "(string \<Rightarrow> time) \<Rightarrow> event_ack list \<Rightarrow> event_link \<Rightarrow> event_link \<times> tracker_op list" where
  "ackAdmissionEvents clk [] l = (l, [])"
| "ackAdmissionEvents clk (r # rs) l =
    (let (l1, n1) = ack_event clk r l; (l2, n2) = ackAdmissionEvents clk rs l1 in (l2, n1 @ n2))"

section \<open>The sending tick\<close>

definition mark_sent :: "time \<Rightarrow> queuedAdmissionEvent \<Rightarrow> queuedAdmissionEvent" where
  "mark_sent now queued = queued\<lparr>qa_inFlight := True, qa_ackDeadline := now + eventAckTimeout, qa_attempt := qa_attempt queued + 1\<rparr>"

definition collect_event :: "time \<Rightarrow> string \<Rightarrow> event_link \<times> LinkEvent list \<Rightarrow> event_link \<times> LinkEvent list" where
  "collect_event now eventID = (\<lambda>(l, out). case map_of (el_events l) eventID of
      None \<Rightarrow> (l, out)
    | Some queued \<Rightarrow>
        if qa_inFlight queued then (l, out)
        else (l\<lparr>el_events := AList.update eventID (mark_sent now queued) (el_events l)\<rparr>,
          out @ [(qa_event queued)\<lparr>ae_DeliveryAttempt := qa_attempt queued + 1\<rparr>]))"

definition send_tick :: "(string \<Rightarrow> time) \<Rightarrow> string list \<Rightarrow> string list \<Rightarrow> time \<Rightarrow> event_link \<Rightarrow> event_link \<times> LinkEvent list \<times> tracker_op list" where
  "send_tick clk order order' now l =
    (let (l1, notes) = each_event (fail_in_flight clk ReasonGatewayACKTimeout (\<lambda>q. qa_ackDeadline q \<le> now)) order l;
         (l2, out) = fold (collect_event now) order' (l1, [])
     in (l2, out, notes))"

text \<open>After the batch could not be sent: its events that are still in flight fail.\<close>

definition send_failed :: "(string \<Rightarrow> time) \<Rightarrow> string list \<Rightarrow> event_link \<Rightarrow> event_link \<times> tracker_op list" where
  "send_failed clk eventIDs l = each_event (fail_in_flight clk ''send_failed'' (\<lambda>_. True)) eventIDs l"


section \<open>The queue as a state machine\<close>

datatype link_op =
    OSubmit "LinkEvent option list"
  | OTick "string list" "string list" time
  | OSendFailed "string list"
  | OAck "event_ack list"
  | OClosed "string list"
  | OConfig "AdmissionEventConfig option"
  | OLeader bool

fun link_exec :: "(string \<Rightarrow> time) \<Rightarrow> link_op \<Rightarrow> event_link \<Rightarrow> event_link \<times> tracker_op list" where
  "link_exec clk (OSubmit events) l = (case SubmitAdmissionEvents clk events l of None \<Rightarrow> (l, []) | Some (l', _, notes) \<Rightarrow> (l', notes))"
| "link_exec clk (OTick order order' now) l = (case send_tick clk order order' now l of (l', _, notes) \<Rightarrow> (l', notes))"
| "link_exec clk (OSendFailed ids) l = send_failed clk ids l"
| "link_exec clk (OAck results) l = ackAdmissionEvents clk results l"
| "link_exec clk (OClosed order) l = failInFlightAdmissionEvents clk order ''sync_stream_closed'' l"
| "link_exec clk (OConfig c) l = (l\<lparr>el_eventConfig := c\<rparr>, [])"
| "link_exec clk (OLeader b) l = (l\<lparr>el_leader := b\<rparr>, [])"

definition link_step :: "(string \<Rightarrow> time) \<Rightarrow> event_link \<Rightarrow> link_op \<Rightarrow> event_link" where
  "link_step clk l op = fst (link_exec clk op l)"

text \<open>An entry was sent at most once more than it failed, and failed at most \<open>M\<close> times.\<close>

definition entry_ok :: "int \<Rightarrow> queuedAdmissionEvent \<Rightarrow> bool" where
  "entry_ok M q \<longleftrightarrow> 0 \<le> qa_retryCount q \<and> qa_retryCount q \<le> M \<and>
     int (unat (qa_attempt q)) \<le> qa_retryCount q + (if qa_inFlight q then 1 else 0)"

definition events_ok :: "int \<Rightarrow> int \<Rightarrow> event_link \<Rightarrow> bool" where
  "events_ok M C l \<longleftrightarrow> wf_map (el_events l) \<and> int (length (el_events l)) \<le> C \<and>
     (\<forall>k q. map_of (el_events l) k = Some q \<longrightarrow> entry_ok M q)"

definition config_ok :: "int \<Rightarrow> int \<Rightarrow> event_link \<Rightarrow> bool" where
  "config_ok M C l \<longleftrightarrow> max_retries l \<le> M \<and> queue_capacity l \<le> C"

definition link_inv :: "int \<Rightarrow> int \<Rightarrow> event_link \<Rightarrow> bool" where
  "link_inv M C l \<longleftrightarrow> events_ok M C l \<and> config_ok M C l"

definition link_admissible :: "int \<Rightarrow> int \<Rightarrow> link_op \<Rightarrow> bool" where
  "link_admissible M C op = (case op of OConfig (Some c) \<Rightarrow> ec_MaxRetryAttempts c \<le> M \<and> ec_QueueCapacity c \<le> C | _ \<Rightarrow> True)"

lemma frame [simp]:
  "max_retries (l\<lparr>el_events := e\<rparr>) = max_retries l" "queue_capacity (l\<lparr>el_events := e\<rparr>) = queue_capacity l"
  "retry_enabled (l\<lparr>el_events := e\<rparr>) = retry_enabled l"
  "max_retries (l\<lparr>el_leader := b\<rparr>) = max_retries l" "queue_capacity (l\<lparr>el_leader := b\<rparr>) = queue_capacity l"
  by (simp_all add: max_retries_def queue_capacity_def retry_enabled_def)

lemma link_inv_delete: "link_inv M C l \<Longrightarrow> link_inv M C (l\<lparr>el_events := AList.delete k (el_events l)\<rparr>)"
  using length_delete_le [of k "el_events l"]
  by (auto simp: link_inv_def events_ok_def config_ok_def split: if_splits)

lemma link_inv_replace:
  "link_inv M C l \<Longrightarrow> map_of (el_events l) k \<noteq> None \<Longrightarrow> entry_ok M q \<Longrightarrow>
   link_inv M C (l\<lparr>el_events := AList.update k q (el_events l)\<rparr>)"
  by (auto simp: link_inv_def events_ok_def config_ok_def length_update map_of_eq_None_iff)

lemma link_inv_insert:
  "link_inv M C l \<Longrightarrow> int (length (el_events l)) < queue_capacity l \<Longrightarrow> entry_ok M q \<Longrightarrow>
   link_inv M C (l\<lparr>el_events := AList.update k q (el_events l)\<rparr>)"
  by (auto simp: link_inv_def events_ok_def config_ok_def length_update)

lemma link_inv_entry: "link_inv M C l \<Longrightarrow> map_of (el_events l) k = Some q \<Longrightarrow> entry_ok M q"
  by (simp add: link_inv_def events_ok_def)

lemma fail_inv: "link_inv M C l \<Longrightarrow> link_inv M C (fst (failAdmissionEventLocked clk k reason l))"
proof (cases "map_of (el_events l) k")
  case (Some q)
  assume inv: "link_inv M C l"
  have "entry_ok M (q\<lparr>qa_retryCount := qa_retryCount q + 1, qa_inFlight := False, qa_ackDeadline := 0\<rparr>)"
    if "qa_retryCount q < max_retries l"
    using that inv link_inv_entry [OF inv Some] by (auto simp: entry_ok_def link_inv_def config_ok_def split: if_splits)
  then show ?thesis
    using inv Some by (auto simp: failAdmissionEventLocked_def Let_def intro!: link_inv_delete link_inv_replace)
qed (simp add: failAdmissionEventLocked_def)

lemma each_event_inv:
  assumes "\<And>k l. P l \<Longrightarrow> P (fst (f k l))" "P l"
  shows "P (fst (each_event f ks l))"
  using assms(2) by (induction ks arbitrary: l) (simp_all add: Let_def case_prod_unfold assms(1))

lemma fail_in_flight_inv: "link_inv M C l \<Longrightarrow> link_inv M C (fst (fail_in_flight clk reason due k l))"
  by (simp add: fail_in_flight_def fail_inv split: option.split)

lemma ack_event_inv: "link_inv M C l \<Longrightarrow> link_inv M C (fst (ack_event clk r l))"
  by (simp add: ack_event_def fail_inv link_inv_delete split: option.split)

lemma ack_inv: "link_inv M C l \<Longrightarrow> link_inv M C (fst (ackAdmissionEvents clk rs l))"
  by (induction rs arbitrary: l) (simp_all add: Let_def case_prod_unfold ack_event_inv)

lemma uint_Suc_le: "uint (w + 1 :: 32 word) \<le> uint w + 1"
  by (simp add: uint_word_ariths zmod_le_nonneg_dividend)

lemma mark_sent_ok: "entry_ok M q \<Longrightarrow> \<not> qa_inFlight q \<Longrightarrow> entry_ok M (mark_sent now q)"
  using uint_Suc_le [of "qa_attempt q"] by (auto simp: entry_ok_def mark_sent_def)

lemma collect_inv: "link_inv M C (fst s) \<Longrightarrow> link_inv M C (fst (collect_event now k s))"
  by (auto simp: collect_event_def split: prod.split option.split intro!: link_inv_replace mark_sent_ok dest: link_inv_entry)

lemma submit_inv: "link_inv M C (fst s) \<Longrightarrow> 0 \<le> M \<Longrightarrow> link_inv M C (fst (submit_event clk arg s))"
  by (auto simp: submit_event_def Let_def entry_ok_def split: prod.split option.split intro!: link_inv_insert)

lemma fold_fst_inv:
  assumes "\<And>x s. P (fst s) \<Longrightarrow> P (fst (f x s))"
  shows "P (fst s) \<Longrightarrow> P (fst (fold f xs s))"
  by (induction xs arbitrary: s) (simp_all add: assms)


lemma link_step_inv:
  assumes "link_inv M C l" "link_admissible M C op" "defaultEventMaxRetryAttempts \<le> M" "defaultEventQueueCapacity \<le> C"
  shows "link_inv M C (link_step clk l op)"
proof (cases op)
  case (OSubmit events)
  have "0 \<le> M" using assms(3) by (simp add: defaultEventMaxRetryAttempts_def)
  have "link_inv M C (fst (fold (submit_event clk) events (l, [], [])))"
    by (rule fold_fst_inv) (simp_all add: submit_inv assms(1) \<open>0 \<le> M\<close>)
  then show ?thesis
    using assms(1) by (simp add: OSubmit link_step_def SubmitAdmissionEvents_def case_prod_unfold)
next
  case (OTick order order' now)
  let ?l1 = "fst (each_event (fail_in_flight clk ReasonGatewayACKTimeout (\<lambda>q. qa_ackDeadline q \<le> now)) order l)"
  have "link_inv M C ?l1"
    by (rule each_event_inv) (simp_all add: fail_in_flight_inv assms(1))
  then have "link_inv M C (fst (fold (collect_event now) order' (?l1, [])))"
    using fold_fst_inv [where P = "link_inv M C", OF collect_inv] by force
  then show ?thesis
    by (simp add: OTick link_step_def send_tick_def Let_def case_prod_unfold)
next
  case (OConfig c)
  then show ?thesis
    using assms
    by (auto simp: link_step_def link_inv_def events_ok_def config_ok_def link_admissible_def max_retries_def
        queue_capacity_def admissionDeliveryConfig_def split: option.splits)
next
  case (OLeader b)
  then show ?thesis using assms(1) by (simp add: link_step_def link_inv_def events_ok_def config_ok_def)
qed (simp_all add: link_step_def send_failed_def failInFlightAdmissionEvents_def ack_inv assms(1) each_event_inv [where P = "link_inv M C"] fail_in_flight_inv)

interpretation operator_queue: machine "new_event_link cluster" "link_step clk" "link_admissible (max M 3) (max C 1024)"
    "link_inv (max M 3) (max C 1024)"
proof unfold_locales
  show "link_inv (max M 3) (max C 1024) (new_event_link cluster)"
    by (simp add: defaultEventMaxRetryAttempts_def defaultEventQueueCapacity_def new_event_link_def link_inv_def
        events_ok_def config_ok_def max_retries_def queue_capacity_def admissionDeliveryConfig_def)
qed (simp add: link_step_inv defaultEventMaxRetryAttempts_def defaultEventQueueCapacity_def)

text \<open>The operator's event queue is bounded, whatever the webhook submits, the gateway answers and the
  hub configures: with configured capacities up to C and retries up to M (and the defaults), it never holds
  more than C events, an event fails at most M times before it is dropped, and is sent at most M + 1 times.\<close>

theorem operator_queue_bounded:
  assumes "list_all (link_admissible (max M 3) (max C 1024)) ops"
    and "map_of (el_events (foldl (link_step clk) (new_event_link cluster) ops)) k = Some q"
  shows "int (length (el_events (foldl (link_step clk) (new_event_link cluster) ops))) \<le> max C 1024 \<and>
    qa_retryCount q \<le> max M 3 \<and> int (unat (qa_attempt q)) \<le> max M 3 + 1"
  using operator_queue.inv_run [OF assms(1)] link_inv_entry [OF operator_queue.inv_run [OF assms(1)] assms(2)]
  by (auto simp: link_inv_def events_ok_def entry_ok_def split: if_splits)


section \<open>The fate of an event\<close>

definition exhausted :: "string \<Rightarrow> tracker_op list \<Rightarrow> bool" where
  "exhausted k ns \<longleftrightarrow>
     list_ex (\<lambda>n. case n of TRecord reason _ eventID _ _ \<Rightarrow> reason = ReasonRetryExhausted \<and> eventID = k | _ \<Rightarrow> False) ns"

definition queued_in :: "event_link \<Rightarrow> string \<Rightarrow> bool" where
  "queued_in l k \<longleftrightarrow> map_of (el_events l) k \<noteq> None"

text \<open>The acknowledgements of an operation that end an event.\<close>

definition settled_by :: "link_op \<Rightarrow> string \<Rightarrow> bool" where
  "settled_by op k \<longleftrightarrow> (case op of OAck rs \<Rightarrow> list_ex (\<lambda>r. ea_EventId r = k \<and> terminal_status (ea_Status r)) rs | _ \<Rightarrow> False)"

lemma exhausted_append [simp]: "exhausted k (n1 @ n2) \<longleftrightarrow> exhausted k n1 \<or> exhausted k n2"
  by (auto simp: exhausted_def)

lemma fail_fate: "queued_in l k \<Longrightarrow> failAdmissionEventLocked clk k' reason l = (l', ns) \<Longrightarrow> queued_in l' k \<or> exhausted k ns"
  by (auto simp: failAdmissionEventLocked_def queued_in_def exhausted_def Let_def split: option.splits if_splits)

lemma fail_in_flight_fate: "queued_in l k \<Longrightarrow> fail_in_flight clk reason due k' l = (l', ns) \<Longrightarrow> queued_in l' k \<or> exhausted k ns"
  by (auto simp: fail_in_flight_def split: option.splits if_splits dest: fail_fate)

lemma each_event_fate:
  assumes "\<And>k' l l' ns. queued_in l k \<Longrightarrow> f k' l = (l', ns) \<Longrightarrow> queued_in l' k \<or> exhausted k ns"
  shows "queued_in l k \<Longrightarrow> each_event f ks l = (l', ns) \<Longrightarrow> queued_in l' k \<or> exhausted k ns"
proof (induction ks arbitrary: l ns)
  case (Cons x xs)
  obtain l1 n1 where s1: "f x l = (l1, n1)" by fastforce
  obtain l2 n2 where s2: "each_event f xs l1 = (l2, n2)" by fastforce
  have "queued_in l1 k \<or> exhausted k n1" using assms [OF Cons.prems(1) s1] .
  moreover have "queued_in l2 k \<or> exhausted k n2" if "queued_in l1 k"
    using Cons.IH [of l1 n2] that s2 Cons.prems(2) s1 by (simp add: Let_def)
  ultimately show ?case using Cons.prems(2) s1 s2 by (auto simp: Let_def)
qed simp

lemma each_fail_fate:
  "queued_in l k \<Longrightarrow> each_event (fail_in_flight clk reason due) ks l = (l', ns) \<Longrightarrow> queued_in l' k \<or> exhausted k ns"
  by (rule each_event_fate [where f = "fail_in_flight clk reason due"]) (rule fail_in_flight_fate)

lemma ack_event_fate:
  "queued_in l k \<Longrightarrow> ack_event clk r l = (l', ns) \<Longrightarrow>
   queued_in l' k \<or> exhausted k ns \<or> ea_EventId r = k \<and> terminal_status (ea_Status r)"
  by (auto simp: ack_event_def split: option.splits if_splits dest: fail_fate) (auto simp: queued_in_def split: if_splits)

lemma ack_fate:
  "queued_in l k \<Longrightarrow> ackAdmissionEvents clk rs l = (l', ns) \<Longrightarrow>
   queued_in l' k \<or> exhausted k ns \<or> (\<exists>r \<in> set rs. ea_EventId r = k \<and> terminal_status (ea_Status r))"
proof (induction rs arbitrary: l ns)
  case (Cons r rs)
  obtain l1 n1 where s1: "ack_event clk r l = (l1, n1)" by fastforce
  obtain l2 n2 where s2: "ackAdmissionEvents clk rs l1 = (l2, n2)" by fastforce
  have l': "l' = l2" "ns = n1 @ n2" using Cons.prems(2) s1 s2 by (simp_all add: Let_def)
  from ack_event_fate [OF Cons.prems(1) s1] show ?case
    using Cons.IH [of l1 n2] s2 l' by auto
qed simp

lemma collect_keeps: "queued_in (fst s) k \<Longrightarrow> queued_in (fst (collect_event now k' s)) k"
  by (auto simp: collect_event_def queued_in_def split: prod.split option.split)

lemma submit_keeps: "queued_in (fst s) k \<Longrightarrow> queued_in (fst (submit_event clk arg s)) k"
  by (auto simp: submit_event_def queued_in_def Let_def split: prod.split option.split)


lemma fold_keeps:
  assumes "\<And>x s. queued_in (fst s) k \<Longrightarrow> queued_in (fst (f x s)) k"
  shows "queued_in (fst s) k \<Longrightarrow> queued_in (fst (fold f xs s)) k"
  by (rule fold_fst_inv [where P = "\<lambda>l. queued_in l k", OF assms])

lemma submit_fold_keeps: "queued_in l k \<Longrightarrow> queued_in (fst (fold (submit_event clk) es (l, rs, ns))) k"
  by (rule fold_keeps) (simp_all add: submit_keeps)

lemma tick_fate:
  assumes "queued_in l k" "send_tick clk order order' now l = (l', out, ns)"
  shows "queued_in l' k \<or> exhausted k ns"
proof -
  obtain l1 n1 where l1: "each_event (fail_in_flight clk ReasonGatewayACKTimeout (\<lambda>q. qa_ackDeadline q \<le> now)) order l = (l1, n1)"
    by fastforce
  have l': "l' = fst (fold (collect_event now) order' (l1, []))" "ns = n1"
    using assms(2) by (auto simp: send_tick_def Let_def case_prod_unfold l1)
  have "queued_in l1 k \<or> exhausted k n1"
    by (rule each_fail_fate [OF assms(1) l1])
  then show ?thesis
    using fold_keeps [OF collect_keeps, where s = "(l1, [])" and k = k and xs = order'] by (auto simp: l')
qed

text \<open>C30: No admission event disappears from the operator's queue unnoticed. Whatever the operation, an event
  that was queued is still queued afterwards, or the gateway has acknowledged it as accepted or discarded,
  or the operation recorded that its retries were exhausted.\<close>

theorem operator_events_accounted:
  assumes "queued_in l k" "link_exec clk op l = (l', ns)"
  shows "queued_in l' k \<or> settled_by op k \<or> exhausted k ns"
proof (cases op)
  case (OSubmit events)
  then show ?thesis
    using assms submit_fold_keeps [of l k clk events "[]" "[]"]
    by (auto simp: SubmitAdmissionEvents_def case_prod_unfold split: if_splits)
next
  case (OTick order order' now)
  then show ?thesis using assms tick_fate [OF assms(1), of clk order order' now] by (auto split: prod.splits)
next
  case (OSendFailed ids)
  then show ?thesis
    using assms(2) each_fail_fate [OF assms(1)] by (fastforce simp: send_failed_def)
next
  case (OAck rs)
  then show ?thesis using assms ack_fate [OF assms(1)] by (fastforce simp: settled_by_def list_ex_iff)
next
  case (OClosed order)
  then show ?thesis
    using assms(2) each_fail_fate [OF assms(1)] by (fastforce simp: failInFlightAdmissionEvents_def)
qed (use assms in \<open>auto simp: queued_in_def\<close>)

section \<open>Unanswered events end\<close>

text \<open>The entry of one event through a tick in which it is visited: an expired delivery fails, and what is
  not in flight is sent.\<close>

definition tick_entry :: "event_link \<Rightarrow> time \<Rightarrow> queuedAdmissionEvent \<Rightarrow> queuedAdmissionEvent option" where
  "tick_entry l now q =
    (if qa_inFlight q \<and> qa_ackDeadline q \<le> now
     then if \<not> retry_enabled l \<or> qa_retryCount q \<ge> max_retries l then None
          else Some (mark_sent now (q\<lparr>qa_retryCount := qa_retryCount q + 1, qa_inFlight := False, qa_ackDeadline := 0\<rparr>))
     else if qa_inFlight q then Some q else Some (mark_sent now q))"

lemma fail_other: "k \<noteq> k' \<Longrightarrow> map_of (el_events (fst (fail_in_flight clk reason due k' l))) k = map_of (el_events l) k"
  by (simp add: fail_in_flight_def failAdmissionEventLocked_def Let_def split: option.split)

lemma fail_config: "el_eventConfig (fst (fail_in_flight clk reason due k' l)) = el_eventConfig l"
  by (simp add: fail_in_flight_def failAdmissionEventLocked_def Let_def split: option.split)

lemma each_other:
  "k \<notin> set ks \<Longrightarrow> map_of (el_events (fst (each_event (fail_in_flight clk reason due) ks l))) k = map_of (el_events l) k"
  by (induction ks arbitrary: l) (simp_all add: Let_def case_prod_unfold fail_other)

lemma each_config: "el_eventConfig (fst (each_event (fail_in_flight clk reason due) ks l)) = el_eventConfig l"
  by (induction ks arbitrary: l) (simp_all add: Let_def case_prod_unfold fail_config)

lemma collect_other: "k \<noteq> k' \<Longrightarrow> map_of (el_events (fst (collect_event now k' s))) k = map_of (el_events (fst s)) k"
  by (simp add: collect_event_def split: prod.split option.split)

lemma collect_config: "el_eventConfig (fst (collect_event now k' s)) = el_eventConfig (fst s)"
  by (simp add: collect_event_def split: prod.split option.split)

lemma fold_collect_config: "el_eventConfig (fst (fold (collect_event now) ks s)) = el_eventConfig (fst s)"
  by (induction ks arbitrary: s) (simp_all add: collect_config)

lemma fold_collect_other: "k \<notin> set ks \<Longrightarrow> map_of (el_events (fst (fold (collect_event now) ks s))) k = map_of (el_events (fst s)) k"
  by (induction ks arbitrary: s) (simp_all add: collect_other)


lemma each_visited:
  assumes "distinct ks" "k \<in> set ks" "map_of (el_events l) k = Some q" "\<not> retry_enabled l \<or> qa_retryCount q \<ge> max_retries l \<longrightarrow> r = None"
    "retry_enabled l \<Longrightarrow> qa_retryCount q < max_retries l \<Longrightarrow>
      r = Some (q\<lparr>qa_retryCount := qa_retryCount q + 1, qa_inFlight := False, qa_ackDeadline := 0\<rparr>)"
  shows "map_of (el_events (fst (each_event (fail_in_flight clk reason due) ks l))) k =
    (if qa_inFlight q \<and> due q then r else Some q)"
  using assms
proof (induction ks arbitrary: l)
  case (Cons x xs)
  show ?case
  proof (cases "x = k")
    case True
    have "map_of (el_events (fst (fail_in_flight clk reason due k l))) k = (if qa_inFlight q \<and> due q then r else Some q)"
      using Cons.prems(3-5) by (auto simp: fail_in_flight_def failAdmissionEventLocked_def Let_def not_le)
    then show ?thesis using Cons.prems(1) True by (simp add: Let_def case_prod_unfold each_other)
  next
    case False
    then show ?thesis
      using Cons.prems Cons.IH [of "fst (fail_in_flight clk reason due x l)"]
      by (simp add: Let_def case_prod_unfold fail_other retry_enabled_def max_retries_def fail_config)
  qed
qed simp

lemma collect_visited:
  assumes "distinct ks" "k \<in> set ks" "map_of (el_events (fst s)) k = Some q"
  shows "map_of (el_events (fst (fold (collect_event now) ks s))) k = Some (if qa_inFlight q then q else mark_sent now q)"
  using assms
proof (induction ks arbitrary: s)
  case (Cons x xs)
  show ?case
  proof (cases "x = k")
    case True
    have "map_of (el_events (fst (collect_event now k s))) k = Some (if qa_inFlight q then q else mark_sent now q)"
      using Cons.prems(3) by (cases s) (simp add: collect_event_def)
    then show ?thesis using Cons.prems(1) True by (simp add: fold_collect_other)
  next
    case False
    then show ?thesis using Cons.prems Cons.IH [of "collect_event now x s"] by (simp add: collect_other)
  qed
qed simp

lemma collect_absent: "map_of (el_events (fst s)) k = None \<Longrightarrow> map_of (el_events (fst (fold (collect_event now) ks s))) k = None"
proof (induction ks arbitrary: s)
  case (Cons x xs)
  have "map_of (el_events (fst (collect_event now x s))) k = None"
    using Cons.prems by (auto simp: collect_event_def split: prod.split option.split)
  then show ?case using Cons.IH by simp
qed simp

lemma each_absent: "map_of (el_events l) k = None \<Longrightarrow> map_of (el_events (fst (each_event (fail_in_flight clk reason due) ks l))) k = None"
proof (induction ks arbitrary: l)
  case (Cons x xs)
  have "map_of (el_events (fst (fail_in_flight clk reason due x l))) k = None"
    using Cons.prems by (cases "k = x") (simp add: fail_in_flight_def, simp add: fail_other)
  then show ?case using Cons.IH by (simp add: Let_def case_prod_unfold)
qed simp

lemma send_tick_entry:
  assumes "distinct order" "distinct order'" "k \<in> set order" "k \<in> set order'"
  shows "map_of (el_events (fst (send_tick clk order order' now l))) k = Option.bind (map_of (el_events l) k) (tick_entry l now)"
    and "el_eventConfig (fst (send_tick clk order order' now l)) = el_eventConfig l"
proof -
  let ?E = "each_event (fail_in_flight clk ReasonGatewayACKTimeout (\<lambda>q. qa_ackDeadline q \<le> now)) order l"
  have res: "fst (send_tick clk order order' now l) = fst (fold (collect_event now) order' (fst ?E, []))"
    by (simp add: send_tick_def Let_def case_prod_unfold)
  show "el_eventConfig (fst (send_tick clk order order' now l)) = el_eventConfig l"
    by (simp add: res fold_collect_config each_config)
  show "map_of (el_events (fst (send_tick clk order order' now l))) k = Option.bind (map_of (el_events l) k) (tick_entry l now)"
  proof (cases "map_of (el_events l) k")
    case None
    then show ?thesis by (simp add: res collect_absent each_absent)
  next
    case (Some q)
    let ?r = "if \<not> retry_enabled l \<or> qa_retryCount q \<ge> max_retries l then None
      else Some (q\<lparr>qa_retryCount := qa_retryCount q + 1, qa_inFlight := False, qa_ackDeadline := 0\<rparr>)"
    have E: "map_of (el_events (fst ?E)) k = (if qa_inFlight q \<and> qa_ackDeadline q \<le> now then ?r else Some q)"
      by (rule each_visited [OF assms(1,3) Some]) auto
    show ?thesis
    proof (cases "map_of (el_events (fst ?E)) k")
      case None
      then show ?thesis using E by (auto simp: res collect_absent Some tick_entry_def split: if_splits)
    next
      case (Some q')
      then show ?thesis
        using E \<open>map_of (el_events l) k = Some q\<close>
        by (auto simp: res collect_visited [OF assms(2,4)] tick_entry_def split: if_splits)
    qed
  qed
qed


text \<open>The ticks of a connection on which the gateway never answers, at the given times.\<close>

definition quiet_tick :: "(string \<Rightarrow> time) \<Rightarrow> string list \<Rightarrow> time \<Rightarrow> event_link \<Rightarrow> event_link" where
  "quiet_tick clk order now l = fst (send_tick clk order order now l)"

lemma quiet_tick_config: "distinct order \<Longrightarrow> k \<in> set order \<Longrightarrow> el_eventConfig (quiet_tick clk order now l) = el_eventConfig l"
  by (simp add: quiet_tick_def send_tick_entry)

lemma quiet_ticks_end:
  assumes "distinct order" "k \<in> set order" "0 \<le> r" "sorted_wrt (\<lambda>a b. a + eventAckTimeout \<le> b) ts"
    "max_retries l - r < int (length ts)"
    "\<And>q. map_of (el_events l) k = Some q \<Longrightarrow> qa_inFlight q \<and> r \<le> qa_retryCount q \<and> (\<forall>t \<in> set ts. qa_ackDeadline q \<le> t)"
    "0 < length ts"
  shows "map_of (el_events (fold (quiet_tick clk order) ts l)) k = None"
  using assms(3-)
proof (induction ts arbitrary: l r)
  case (Cons t ts)
  let ?l = "quiet_tick clk order t l"
  have step: "map_of (el_events ?l) k = Option.bind (map_of (el_events l) k) (tick_entry l t)"
    by (simp add: quiet_tick_def send_tick_entry assms(1,2))
  have cfg: "max_retries ?l = max_retries l"
    by (simp add: max_retries_def quiet_tick_config [OF assms(1,2)])
  have next_entry: "qa_inFlight q' \<and> r + 1 \<le> qa_retryCount q' \<and> qa_ackDeadline q' = t + eventAckTimeout \<and> qa_retryCount q' \<le> max_retries l"
    if q': "map_of (el_events ?l) k = Some q'" for q'
  proof -
    obtain q where q: "map_of (el_events l) k = Some q" "tick_entry l t q = Some q'"
      using step q' by (cases "map_of (el_events l) k") auto
    then show ?thesis
      using Cons.prems(4) [OF q(1)] by (auto simp: tick_entry_def mark_sent_def split: if_splits)
  qed
  show ?case
  proof (cases "ts = []")
    case True
    have "map_of (el_events ?l) k \<noteq> Some q'" for q'
      using next_entry [of q'] Cons.prems(3) True by auto
    then show ?thesis using True by (cases "map_of (el_events ?l) k") auto
  next
    case False
    then show ?thesis
      using Cons.prems(1-3) next_entry by (auto simp: cfg intro!: Cons.IH [of "r + 1"])
  qed
qed simp


text \<open>An event the gateway never answers does not stay for ever: with ticks at least one acknowledgement
  timeout apart and M configured retries it has left the operator's queue after M + 2 ticks, whether or not
  retries are enabled.\<close>

theorem unanswered_event_ends:
  assumes "distinct order" "k \<in> set order" "sorted_wrt (\<lambda>a b. a + eventAckTimeout \<le> b) ts"
    and "map_of (el_events l) k = Some q" "0 \<le> qa_retryCount q" "\<not> qa_inFlight q"
    and "max_retries l + 2 \<le> int (length ts)" "0 \<le> max_retries l"
  shows "map_of (el_events (fold (quiet_tick clk order) ts l)) k = None"
proof -
  obtain t ts' where ts: "ts = t # ts'" using assms(7,8) by (cases ts) auto
  let ?l = "quiet_tick clk order t l"
  have "map_of (el_events ?l) k = Some (mark_sent t q)"
    using assms(4,6) by (simp add: quiet_tick_def send_tick_entry assms(1,2) tick_entry_def)
  moreover have "max_retries ?l = max_retries l"
    by (simp add: max_retries_def quiet_tick_config [OF assms(1,2)])
  ultimately have "map_of (el_events (fold (quiet_tick clk order) ts' ?l)) k = None"
    using assms(3,5,7,8) by (intro quiet_ticks_end [OF assms(1,2), of 0]) (auto simp: ts mark_sent_def)
  then show ?thesis by (simp add: ts)
qed

section \<open>Submission answers\<close>

text \<open>A batch submitted to the leader. The answers are those of its events that are not nil and have an
  identifier, in order; an event that is answered as accepted is in the queue, under its prefixed
  identifier, and nothing that was queued is lost.\<close>

theorem accepted_events_queued:
  assumes "SubmitAdmissionEvents clk events l = Some (l', results, ns)"
  shows "map fst results = map ae_EventId (filter (\<lambda>e. ae_EventId e \<noteq> '''') (List.map_filter (\<lambda>e. e) events)) \<and>
    (\<forall>k. queued_in l k \<longrightarrow> queued_in l' k) \<and>
    (\<forall>(k, status, reason) \<in> set results. status = ACCEPTED \<longrightarrow>
      queued_in l' (if el_prefix l \<noteq> '''' then el_prefix l @ ''-'' @ k else k))"
proof -
  define name where "name k = (if el_prefix l \<noteq> '''' then el_prefix l @ ''-'' @ k else k)" for k
  have stored: "ae_EventId (stored_event l0 e) = name (ae_EventId e)" if "el_prefix l0 = el_prefix l" for l0 and e :: LinkEvent
    using that by (simp add: stored_event_def name_def Let_def split: option.split)
  have run: "map fst results' = map fst results0 @ map ae_EventId (filter (\<lambda>e. ae_EventId e \<noteq> '''') (List.map_filter (\<lambda>e. e) es)) \<and>
      (\<forall>(k, status, reason) \<in> set results'. status = ACCEPTED \<longrightarrow> queued_in l1 (name k))"
    if "fold (submit_event clk) es (l0, results0, ns0) = (l1, results', ns1)" "el_prefix l0 = el_prefix l"
      "\<forall>(k, status, reason) \<in> set results0. status = ACCEPTED \<longrightarrow> queued_in l0 (name k)" for es l0 results0 ns0 l1 results' ns1
    using that
  proof (induction es arbitrary: l0 results0 ns0)
    case (Cons e es)
    obtain l2 r2 n2 where s: "submit_event clk e (l0, results0, ns0) = (l2, r2, n2)" by (metis prod_cases3)
    have p: "el_prefix l2 = el_prefix l"
      using s Cons.prems(2) by (auto simp: submit_event_def Let_def split: option.splits if_splits)
    have keep: "queued_in l2 k" if "queued_in l0 k" for k
      using submit_keeps [of "(l0, results0, ns0)" k clk e] that s by simp
    have ok: "\<forall>(k, status, reason) \<in> set r2. status = ACCEPTED \<longrightarrow> queued_in l2 (name k)"
      using s Cons.prems(2,3) keep stored
      by (fastforce simp: submit_event_def Let_def queued_in_def split: option.splits if_splits)
    have "map fst r2 = map fst results0 @ map ae_EventId (filter (\<lambda>e. ae_EventId e \<noteq> '''') (List.map_filter (\<lambda>e. e) [e]))"
      using s by (auto simp: submit_event_def Let_def List.map_filter_simps split: option.splits if_splits)
    moreover note Cons.IH [OF _ p ok, of n2] 
    ultimately show ?case using Cons.prems(1) s by (cases e) (auto simp: List.map_filter_simps)
  qed (auto simp: List.map_filter_simps)
  have f: "fold (submit_event clk) events (l, [], []) = (l', results, ns)"
    using assms by (simp add: SubmitAdmissionEvents_def split: if_splits)
  have "\<forall>k. queued_in l k \<longrightarrow> queued_in l' k"
    using submit_fold_keeps [of l _ clk events "[]" "[]"] f by simp
  then show ?thesis using run [OF f] by (simp add: name_def)
qed


section \<open>Examples\<close>

definition ex_link_event :: "string \<Rightarrow> LinkEvent" where
  "ex_link_event k = \<lparr>ae_EventId = k, ae_RequestUid = '''', ae_OccurredAt = 1, ae_Verdict = ''deny'', ae_ApiGroup = '''',
     ae_ApiVersion = ''v1'', ae_Resource = ''pods'', ae_Operation = ''CREATE'', ae_Namespace = ''default'', ae_ResourceName = ''p'',
     ae_Username = ''u'', ae_UserGroups = [], ae_PolicyNames = [], ae_PolicyGroupNames = [], ae_Violations = [],
     ae_MetadataSnapshot = None, ae_SpecSnapshot = None, ae_StoragePolicyVersion = '''', ae_DeliveryAttempt = 0\<rparr>"

definition ex_link_config :: AdmissionEventConfig where
  "ex_link_config = \<lparr>ec_Version = ''7'', ec_StoragePolicies = [], ec_RetryEnabled = True, ec_MaxRetryAttempts = 1,
     ec_QueueCapacity = 2, ec_ObservationEnabled = True\<rparr>"

definition ex_link_ops :: "link_op list" where
  "ex_link_ops = [OLeader True, OConfig (Some ex_link_config),
     OSubmit [Some (ex_link_event ''a''), None, Some (ex_link_event ''b''), Some (ex_link_event ''c'')],
     OTick [''a'', ''b''] [''b'', ''a''] 10,
     OAck [\<lparr>ea_EventId = ''b'', ea_Status = Some ACCEPTED, ea_Reason = '''', ea_DeliveryAttempt = 1\<rparr>]]"

definition ex_link :: event_link where
  "ex_link = foldl (link_step (\<lambda>_. 10)) (new_event_link ''prod'') ex_link_ops"

lemma ex_link_entry: "map_option qa_inFlight (map_of (el_events ex_link) ''a'') = Some True"
  by code_simp

theorem operator_queue_bounded_witness:
  "int (length (el_events ex_link)) \<le> 1024 \<and> map_option (\<lambda>q. qa_retryCount q \<le> 3) (map_of (el_events ex_link) ''a'') = Some True"
proof -
  obtain q where q: "map_of (el_events ex_link) ''a'' = Some q" using ex_link_entry by auto
  have "list_all (link_admissible (max 3 3) (max 1024 1024)) ex_link_ops" by code_simp
  from operator_queue_bounded [OF this, of "\<lambda>_. 10" "''prod''" "''a''" q] q show ?thesis
    by (simp add: ex_link_def)
qed

theorem operator_events_accounted_witness:
  "exhausted ''a'' (snd (link_exec (\<lambda>_. 99) (OClosed [''a'']) (ex_link\<lparr>el_eventConfig := None\<rparr>)))"
proof -
  let ?l = "ex_link\<lparr>el_eventConfig := None\<rparr>"
  let ?r = "link_exec (\<lambda>_. 99) (OClosed [''a'']) ?l"
  have "queued_in ?l ''a''" "\<not> queued_in (fst ?r) ''a''" "\<not> settled_by (OClosed [''a'']) ''a''" by code_simp+
  with operator_events_accounted [of ?l "''a''" "\<lambda>_. 99" "OClosed [''a'']" "fst ?r" "snd ?r"] show ?thesis by simp
qed

definition ex_waiting :: event_link where
  "ex_waiting = foldl (link_step (\<lambda>_. 10)) (new_event_link ''prod'') (take 3 ex_link_ops)"

theorem unanswered_event_ends_witness:
  "map_of (el_events (fold (quiet_tick (\<lambda>_. 10) [''a'', ''b'']) [10, 6000000000, 12000000000] ex_waiting)) ''a'' = None"
proof -
  obtain q where q: "map_of (el_events ex_waiting) ''a'' = Some q" "qa_retryCount q = 0" "\<not> qa_inFlight q"
  proof -
    have "map_option (\<lambda>q. (qa_retryCount q, qa_inFlight q)) (map_of (el_events ex_waiting) ''a'') = Some (0, False)" by code_simp
    then show ?thesis using that by auto
  qed
  have m: "max_retries ex_waiting = 1" by code_simp
  show ?thesis
    by (rule unanswered_event_ends [OF _ _ _ q(1)]) (simp_all add: m q(2,3) eventAckTimeout_def)
qed

theorem accepted_events_queued_witness:
  "map_option (\<lambda>(l, results, ns). (map fst results, queued_in l ''b''))
     (SubmitAdmissionEvents (\<lambda>_. 10) [Some (ex_link_event ''b'')] (ex_link\<lparr>el_prefix := ''''\<rparr>)) = Some ([''b''], True)"
proof -
  let ?s = "SubmitAdmissionEvents (\<lambda>_. 10) [Some (ex_link_event ''b'')] (ex_link\<lparr>el_prefix := ''''\<rparr>)"
  have "map_option (\<lambda>(l, results, ns). results) ?s = Some [(''b'', ACCEPTED, '''')]" by code_simp
  then obtain l' ns where s: "?s = Some (l', [(''b'', ACCEPTED, '''')], ns)" by auto
  from accepted_events_queued [OF this] s show ?thesis by simp
qed

end
