(* ===== verification/Link_Incidents.thy ===== *)
theory Link_Incidents
  imports Event_Queue
begin

text \<open>
  The operator's relay of link incidents to the gateway, \<^verbatim>\<open>internal/operator/hublink/observability.go\<close>:
  incidents of the webhooks and of the operator's own tracker wait in one bounded map until the gateway
  acknowledges them.

  The tracker is the one of \<open>Incident_Tracker\<close>; \<open>None\<close> stands for its panic. Go's order over the map is
  the argument \<open>order\<close>. A protobuf timestamp is missing, invalid or an instant.
\<close>

section \<open>State\<close>

datatype timestamp = Missing | Malformed | At time

record LinkIncident =
  li_IncidentKey :: string
  li_ReporterInstanceId :: string
  li_Revision :: nat
  li_Component :: string
  li_Reason :: string
  li_StartedAt :: timestamp
  li_LastSeenAt :: timestamp
  li_AffectedCount :: int
  li_SampleEventIds :: "string list"
  li_Detail :: string
  li_Closed :: bool

record queuedLinkIncident =
  qi_incident :: LinkIncident
  qi_inFlight :: bool
  qi_inFlightRevision :: nat
  qi_ackDeadline :: time

record incident_link =
  il_leader :: bool
  il_eventConfig :: "AdmissionEventConfig option"
  il_incidents :: "queuedLinkIncident smap"
  il_tracker :: "Tracker option"

definition operatorIncidentCapacity :: nat where "operatorIncidentCapacity = 256"
definition ReasonNotLeader :: string where "ReasonNotLeader = ''not_leader''"
definition ReasonInvalidReport :: string where "ReasonInvalidReport = ''invalid_report''"

definition new_incident_link :: "fresh_ids \<Rightarrow> string \<Rightarrow> incident_link" where
  "new_incident_link fresh inst = \<lparr>il_leader = False, il_eventConfig = None, il_incidents = [],
     il_tracker = NewTracker fresh ComponentOperator inst\<rparr>"

definition track :: "fresh_ids \<Rightarrow> tracker_op \<Rightarrow> incident_link \<Rightarrow> incident_link" where
  "track fresh op l = l\<lparr>il_tracker := tracker_step fresh (il_tracker l) op\<rparr>"

section \<open>Conversions\<close>

definition incidentModel :: "LinkIncident option \<Rightarrow> string + Incident" where
  "incidentModel wire = (case wire of
      None \<Rightarrow> Inl ''missing incident fields''
    | Some w \<Rightarrow> (case (li_StartedAt w, li_LastSeenAt w) of
        (Missing, _) \<Rightarrow> Inl ''missing incident fields''
      | (_, Missing) \<Rightarrow> Inl ''missing incident fields''
      | (Malformed, _) \<Rightarrow> Inl ''invalid timestamp''
      | (_, Malformed) \<Rightarrow> Inl ''invalid timestamp''
      | (At s, At t) \<Rightarrow>
          (let model = \<lparr>ic_IncidentKey = li_IncidentKey w, ic_ReporterInstanceID = li_ReporterInstanceId w,
             ic_Revision = li_Revision w, ic_Component = li_Component w, ic_Reason = li_Reason w, ic_StartedAt = s,
             ic_LastSeenAt = t, ic_AffectedCount = li_AffectedCount w, ic_SampleEventIDs = li_SampleEventIds w,
             ic_Detail = li_Detail w, ic_Closed = li_Closed w\<rparr>
           in case Incident_Validate model of None \<Rightarrow> Inr model | Some err \<Rightarrow> Inl err)))"

definition incidentProto :: "Incident \<Rightarrow> LinkIncident" where
  "incidentProto i = \<lparr>li_IncidentKey = ic_IncidentKey i, li_ReporterInstanceId = ic_ReporterInstanceID i,
     li_Revision = ic_Revision i, li_Component = ic_Component i, li_Reason = ic_Reason i, li_StartedAt = At (ic_StartedAt i),
     li_LastSeenAt = At (ic_LastSeenAt i), li_AffectedCount = ic_AffectedCount i, li_SampleEventIds = ic_SampleEventIDs i,
     li_Detail = ic_Detail i, li_Closed = ic_Closed i\<rparr>"

definition normalizeWebhookIncident :: "LinkIncident option \<Rightarrow> string + LinkIncident" where
  "normalizeWebhookIncident incoming = (case incidentModel incoming of
      Inl err \<Rightarrow> Inl err
    | Inr model \<Rightarrow> if ic_Component model \<noteq> ComponentWebhook then Inl ''HTTP incidents must come from webhook''
        else (case incoming of None \<Rightarrow> Inl '''' | Some w \<Rightarrow> Inr w))"

record incident_ack =
  ia_IncidentKey :: string
  ia_Revision :: nat
  ia_Status :: "ack_status option"
  ia_Reason :: string

definition linkIncidentACK :: "string \<Rightarrow> nat \<Rightarrow> ack_status \<Rightarrow> string \<Rightarrow> incident_ack" where
  "linkIncidentACK key revision status reason =
    \<lparr>ia_IncidentKey = key, ia_Revision = revision, ia_Status = Some status, ia_Reason = reason\<rparr>"

definition incidentIdentity :: "LinkIncident option \<Rightarrow> string" where
  "incidentIdentity i = (case i of None \<Rightarrow> '''' | Some w \<Rightarrow> li_IncidentKey w)"

definition incidentRevision :: "LinkIncident option \<Rightarrow> nat" where
  "incidentRevision i = (case i of None \<Rightarrow> 0 | Some w \<Rightarrow> li_Revision w)"

definition answer_all :: "ack_status \<Rightarrow> string \<Rightarrow> LinkIncident option list \<Rightarrow> incident_ack list" where
  "answer_all status reason batch = map (\<lambda>i. linkIncidentACK (incidentIdentity i) (incidentRevision i) status reason) batch"

section \<open>Submission\<close>

definition admissionObservationEnabled :: "incident_link \<Rightarrow> bool" where
  "admissionObservationEnabled l = (case il_eventConfig l of None \<Rightarrow> False | Some c \<Rightarrow> ec_ObservationEnabled c)"

definition RecordLinkIncident :: "fresh_ids \<Rightarrow> string \<Rightarrow> int \<Rightarrow> string \<Rightarrow> time \<Rightarrow> incident_link \<Rightarrow> incident_link" where
  "RecordLinkIncident fresh reason affected detail now l =
    (if \<not> admissionObservationEnabled l then l else track fresh (TRecord reason affected '''' detail now) l)"

definition queue_incident :: "LinkIncident \<Rightarrow> queuedLinkIncident" where
  "queue_incident w = \<lparr>qi_incident = w, qi_inFlight = False, qi_inFlightRevision = 0, qi_ackDeadline = 0\<rparr>"

text \<open>What \<^verbatim>\<open>incident.Revision > queued.incident.Revision\<close> decides for an incident that is queued.\<close>

definition newer :: "LinkIncident \<Rightarrow> queuedLinkIncident \<Rightarrow> queuedLinkIncident" where
  "newer w q = (if li_Revision w > li_Revision (qi_incident q) then q\<lparr>qi_incident := w\<rparr> else q)"

definition submit_incident :: "LinkIncident option \<Rightarrow> queuedLinkIncident smap \<times> incident_ack list \<Rightarrow> queuedLinkIncident smap \<times> incident_ack list" where
  "submit_incident incoming = (\<lambda>(m, results). case normalizeWebhookIncident incoming of
      Inl _ \<Rightarrow> (m, results @ [linkIncidentACK (incidentIdentity incoming) (incidentRevision incoming) DISCARDED ReasonInvalidReport])
    | Inr w \<Rightarrow>
        (case map_of m (li_IncidentKey w) of
           Some q \<Rightarrow> (AList.update (li_IncidentKey w) (newer w q) m, results @ [linkIncidentACK (li_IncidentKey w) (li_Revision w) ACCEPTED ''''])
         | None \<Rightarrow>
             if length m \<ge> operatorIncidentCapacity
             then (m, results @ [linkIncidentACK (li_IncidentKey w) (li_Revision w) RETRYABLE ReasonQueueFull])
             else (AList.update (li_IncidentKey w) (queue_incident w) m,
                   results @ [linkIncidentACK (li_IncidentKey w) (li_Revision w) ACCEPTED ''''])))"

definition SubmitLinkIncidents :: "fresh_ids \<Rightarrow> time \<Rightarrow> LinkIncident option list \<Rightarrow> incident_link \<Rightarrow> incident_link \<times> incident_ack list" where
  "SubmitLinkIncidents fresh now batch l =
    (if batch = [] then (l, [])
     else if length batch > MaxBatchSize then (l, answer_all DISCARDED ''batch_too_large'' batch)
     else if \<not> admissionObservationEnabled l then (l, answer_all DISCARDED ''admission_pipeline_observation_disabled'' batch)
     else if \<not> il_leader l
       then (RecordLinkIncident fresh ReasonBatchFailure (int (length batch)) ReasonNotLeader now l, answer_all RETRYABLE ReasonNotLeader batch)
     else (case fold submit_incident batch (il_incidents l, []) of (m, results) \<Rightarrow> (l\<lparr>il_incidents := m\<rparr>, results)))"

section \<open>Configuration and the operator's own incidents\<close>

definition setEventConfig :: "fresh_ids \<Rightarrow> AdmissionEventConfig option \<Rightarrow> incident_link \<Rightarrow> incident_link" where
  "setEventConfig fresh config l =
    (let l1 = l\<lparr>il_eventConfig := config\<rparr>
     in if \<not> admissionObservationEnabled l1 then track fresh TReset (l1\<lparr>il_incidents := []\<rparr>) else l1)"

fun enqueue_items :: "fresh_ids \<Rightarrow> time \<Rightarrow> Incident list \<Rightarrow> incident_link \<Rightarrow> incident_link" where
  "enqueue_items fresh now [] l = l"
| "enqueue_items fresh now (item # items) l = (case map_of (il_incidents l) (ic_IncidentKey item) of
      Some q \<Rightarrow> enqueue_items fresh now items
        (l\<lparr>il_incidents := AList.update (ic_IncidentKey item) (newer (incidentProto item) q) (il_incidents l)\<rparr>)
    | None \<Rightarrow>
        if length (il_incidents l) \<ge> operatorIncidentCapacity
        then track fresh (TRecord ReasonReportDropped 1 '''' ''operator incident queue reached capacity'' now) l
        else enqueue_items fresh now items
          (l\<lparr>il_incidents := AList.update (ic_IncidentKey item) (queue_incident (incidentProto item)) (il_incidents l)\<rparr>))"

definition enqueueLocalIncidents :: "fresh_ids \<Rightarrow> time \<Rightarrow> incident_link \<Rightarrow> incident_link" where
  "enqueueLocalIncidents fresh now l = (case Option.bind (il_tracker l) (Snapshot fresh now) of
      None \<Rightarrow> l\<lparr>il_tracker := None\<rparr>
    | Some (items, t) \<Rightarrow> enqueue_items fresh now items (l\<lparr>il_tracker := Some t\<rparr>))"

text \<open>One turn of the generating loop.\<close>

definition generate_tick :: "fresh_ids \<Rightarrow> time \<Rightarrow> incident_link \<Rightarrow> incident_link" where
  "generate_tick fresh now l = (if il_leader l \<and> admissionObservationEnabled l then enqueueLocalIncidents fresh now l else l)"

section \<open>Sending and acknowledgements\<close>

definition expire_incident :: "fresh_ids \<Rightarrow> time \<Rightarrow> string \<Rightarrow> queuedLinkIncident \<Rightarrow> incident_link \<Rightarrow> queuedLinkIncident \<times> incident_link" where
  "expire_incident fresh now key q l =
    (if qi_inFlight q \<and> qi_ackDeadline q \<le> now
     then (q\<lparr>qi_inFlight := False, qi_ackDeadline := 0\<rparr>, track fresh (TRecord ReasonACKTimeout 1 '''' key now) l)
     else (q, l))"

definition collect_incident ::
  "fresh_ids \<Rightarrow> time \<Rightarrow> string \<Rightarrow> incident_link \<times> (string \<times> LinkIncident) list \<Rightarrow> incident_link \<times> (string \<times> LinkIncident) list" where
  "collect_incident fresh now key = (\<lambda>(l, out). case map_of (il_incidents l) key of
      None \<Rightarrow> (l, out)
    | Some q \<Rightarrow> (case expire_incident fresh now key q l of (q, l) \<Rightarrow>
        if qi_inFlight q \<or> length out \<ge> MaxBatchSize
        then (l\<lparr>il_incidents := AList.update key q (il_incidents l)\<rparr>, out)
        else (l\<lparr>il_incidents := AList.update key
              (q\<lparr>qi_inFlight := True, qi_inFlightRevision := li_Revision (qi_incident q), qi_ackDeadline := now + eventAckTimeout\<rparr>)
              (il_incidents l)\<rparr>,
            out @ [(key, qi_incident q)])))"

text \<open>The queue is unlocked while the batch is sent: the failure branch is a step of its own.\<close>

definition collectLinkIncidents :: "fresh_ids \<Rightarrow> string list \<Rightarrow> time \<Rightarrow> incident_link \<Rightarrow> incident_link \<times> (string \<times> LinkIncident) list" where
  "collectLinkIncidents fresh order now l = fold (collect_incident fresh now) order (l, [])"

definition unsend_incident :: "string \<Rightarrow> incident_link \<Rightarrow> incident_link" where
  "unsend_incident key l = (case map_of (il_incidents l) key of
      None \<Rightarrow> l
    | Some q \<Rightarrow> l\<lparr>il_incidents := AList.update key (q\<lparr>qi_inFlight := False\<rparr>) (il_incidents l)\<rparr>)"

definition sendLinkIncidents :: "fresh_ids \<Rightarrow> string list \<Rightarrow> time \<Rightarrow> (LinkIncident list \<Rightarrow> bool) \<Rightarrow> incident_link \<Rightarrow> incident_link \<times> bool" where
  "sendLinkIncidents fresh order now send l = (case collectLinkIncidents fresh order now l of
      (l', out) \<Rightarrow> if out = [] then (l', True)
        else if send (map snd out) then (l', True)
        else (fold unsend_incident (map fst out) l', False))"

definition ack_incident :: "fresh_ids \<Rightarrow> incident_ack \<Rightarrow> incident_link \<Rightarrow> incident_link" where
  "ack_incident fresh result l = (case map_of (il_incidents l) (ia_IncidentKey result) of
      None \<Rightarrow> l
    | Some q \<Rightarrow>
        if ia_Revision result < qi_inFlightRevision q then l
        else if terminal_status (ia_Status result)
          then (let l1 = track fresh (TAcknowledge (ia_IncidentKey result) (ia_Revision result) True) l
                in if li_Revision (qi_incident q) \<le> ia_Revision result
                   then l1\<lparr>il_incidents := AList.delete (ia_IncidentKey result) (il_incidents l1)\<rparr>
                   else l1\<lparr>il_incidents := AList.update (ia_IncidentKey result) (q\<lparr>qi_inFlight := False\<rparr>) (il_incidents l1)\<rparr>)
        else l\<lparr>il_incidents := AList.update (ia_IncidentKey result) (q\<lparr>qi_inFlight := False, qi_ackDeadline := 0\<rparr>) (il_incidents l)\<rparr>)"

definition ackLinkIncidents :: "fresh_ids \<Rightarrow> incident_ack list \<Rightarrow> incident_link \<Rightarrow> incident_link" where
  "ackLinkIncidents fresh results l = fold (ack_incident fresh) results l"

definition failInFlightLinkIncidents :: "incident_link \<Rightarrow> incident_link" where
  "failInFlightLinkIncidents l =
    l\<lparr>il_incidents := map (\<lambda>(k, q). (k, q\<lparr>qi_inFlight := False, qi_ackDeadline := 0\<rparr>)) (il_incidents l)\<rparr>"


section \<open>The relay as a state machine\<close>

datatype incident_op =
    ISubmit "LinkIncident option list" time
  | IRecord string int string time
  | IGenerate time
  | ICollect "string list" time
  | IUnsend "string list"
  | IAck "incident_ack list"
  | IClosed
  | IConfig "AdmissionEventConfig option"
  | ILeader bool

fun incident_exec :: "fresh_ids \<Rightarrow> incident_op \<Rightarrow> incident_link \<Rightarrow> incident_link \<times> incident_ack list" where
  "incident_exec fresh (ISubmit batch now) l = SubmitLinkIncidents fresh now batch l"
| "incident_exec fresh (IRecord reason n detail now) l = (RecordLinkIncident fresh reason n detail now l, [])"
| "incident_exec fresh (IGenerate now) l = (generate_tick fresh now l, [])"
| "incident_exec fresh (ICollect order now) l = (fst (collectLinkIncidents fresh order now l), [])"
| "incident_exec fresh (IUnsend keys) l = (fold unsend_incident keys l, [])"
| "incident_exec fresh (IAck results) l = (ackLinkIncidents fresh results l, [])"
| "incident_exec fresh IClosed l = (failInFlightLinkIncidents l, [])"
| "incident_exec fresh (IConfig c) l = (setEventConfig fresh c l, [])"
| "incident_exec fresh (ILeader b) l = (l\<lparr>il_leader := b\<rparr>, [])"

definition incident_step :: "fresh_ids \<Rightarrow> incident_link \<Rightarrow> incident_op \<Rightarrow> incident_link" where
  "incident_step fresh l op = fst (incident_exec fresh op l)"

definition queue_ok :: "queuedLinkIncident smap \<Rightarrow> bool" where
  "queue_ok m \<longleftrightarrow> wf_map m \<and> length m \<le> operatorIncidentCapacity \<and>
     (\<forall>k q. map_of m k = Some q \<longrightarrow> li_IncidentKey (qi_incident q) = k)"

definition incident_inv :: "fresh_ids \<Rightarrow> string \<Rightarrow> incident_link \<Rightarrow> bool" where
  "incident_inv fresh inst l \<longleftrightarrow> queue_ok (il_incidents l) \<and> tracker_state_inv fresh ComponentOperator inst (il_tracker l)"

lemma queue_ok_replace:
  "queue_ok m \<Longrightarrow> map_of m k \<noteq> None \<Longrightarrow> li_IncidentKey (qi_incident q) = k \<Longrightarrow> queue_ok (AList.update k q m)"
  by (auto simp: queue_ok_def length_update map_of_eq_None_iff)

lemma queue_ok_insert:
  "queue_ok m \<Longrightarrow> length m < operatorIncidentCapacity \<Longrightarrow> li_IncidentKey (qi_incident q) = k \<Longrightarrow> queue_ok (AList.update k q m)"
  by (auto simp: queue_ok_def length_update)

lemma queue_ok_delete: "queue_ok m \<Longrightarrow> queue_ok (AList.delete k m)"
  using length_delete_le [of k m] by (auto simp: queue_ok_def split: if_splits)

lemma queue_ok_key: "queue_ok m \<Longrightarrow> map_of m k = Some q \<Longrightarrow> li_IncidentKey (qi_incident q) = k"
  by (simp add: queue_ok_def)

lemma newer_key: "li_IncidentKey w = k \<Longrightarrow> li_IncidentKey (qi_incident q) = k \<Longrightarrow> li_IncidentKey (qi_incident (newer w q)) = k"
  by (simp add: newer_def)

lemma track_fields [simp]:
  "il_incidents (track fresh op l) = il_incidents l" "il_leader (track fresh op l) = il_leader l"
  "il_eventConfig (track fresh op l) = il_eventConfig l"
  by (simp_all add: track_def)

lemma track_inv: "incident_inv fresh inst l \<Longrightarrow> incident_inv fresh inst (track fresh op l)"
  using tracker.inv_step [of fresh ComponentOperator inst "il_tracker l" op] by (simp add: incident_inv_def track_def)

lemma inv_incidents: "incident_inv fresh inst l \<Longrightarrow> queue_ok m \<Longrightarrow> incident_inv fresh inst (l\<lparr>il_incidents := m\<rparr>)"
  by (simp add: incident_inv_def)

lemma inv_queue: "incident_inv fresh inst l \<Longrightarrow> queue_ok (il_incidents l)"
  by (simp add: incident_inv_def)

lemma submit_incident_ok: "queue_ok (fst s) \<Longrightarrow> queue_ok (fst (submit_incident incoming s))"
proof (cases s)
  case (Pair m results)
  assume "queue_ok (fst s)"
  then have ok: "queue_ok m" by (simp add: Pair)
  show ?thesis
  proof (cases "normalizeWebhookIncident incoming")
    case (Inr w)
    have "queue_ok (AList.update (li_IncidentKey w) (newer w q) m)" if "map_of m (li_IncidentKey w) = Some q" for q
      using ok that queue_ok_key [OF ok that] by (simp add: queue_ok_replace newer_key)
    moreover have "queue_ok (AList.update (li_IncidentKey w) (queue_incident w) m)" if "length m < operatorIncidentCapacity"
      using ok that by (simp add: queue_ok_insert queue_incident_def)
    ultimately show ?thesis using ok by (simp add: Pair submit_incident_def Inr not_le split: option.split)
  qed (simp add: Pair submit_incident_def ok)
qed

lemma enqueue_items_inv: "incident_inv fresh inst l \<Longrightarrow> incident_inv fresh inst (enqueue_items fresh now items l)"
proof (induction items arbitrary: l)
  case (Cons i items)
  have key: "li_IncidentKey (incidentProto i) = ic_IncidentKey i" by (simp add: incidentProto_def)
  show ?case
  proof (cases "map_of (il_incidents l) (ic_IncidentKey i)")
    case None
    have "queue_ok (AList.update (ic_IncidentKey i) (queue_incident (incidentProto i)) (il_incidents l))"
      if "length (il_incidents l) < operatorIncidentCapacity"
      using inv_queue [OF Cons.prems] that key by (simp add: queue_ok_insert queue_incident_def)
    then show ?thesis using None by (simp add: track_inv Cons.IH inv_incidents Cons.prems not_le)
  next
    case (Some q)
    then have "queue_ok (AList.update (ic_IncidentKey i) (newer (incidentProto i) q) (il_incidents l))"
      using inv_queue [OF Cons.prems] key by (intro queue_ok_replace newer_key) (auto dest: queue_ok_key)
    then show ?thesis using Some by (simp add: Cons.IH inv_incidents Cons.prems)
  qed
qed simp


lemma generate_inv:
  assumes "incident_inv fresh inst l"
  shows "incident_inv fresh inst (generate_tick fresh now l)"
proof (cases "il_leader l \<and> admissionObservationEnabled l")
  case True
  have t: "tracker_state_inv fresh ComponentOperator inst (il_tracker l)" and q: "queue_ok (il_incidents l)"
    using assms by (simp_all add: incident_inv_def)
  have step: "tracker_state_inv fresh ComponentOperator inst (tracker_step fresh (il_tracker l) (TSnapshot now))"
    by (rule tracker.inv_step [OF t]) simp
  show ?thesis
  proof (cases "Option.bind (il_tracker l) (Snapshot fresh now)")
    case None
    then have "tracker_step fresh (il_tracker l) (TSnapshot now) = None" by (cases "il_tracker l") auto
    then show ?thesis using step q True None by (simp add: generate_tick_def enqueueLocalIncidents_def incident_inv_def)
  next
    case (Some p)
    then obtain items t' where p: "Option.bind (il_tracker l) (Snapshot fresh now) = Some (items, t')" by (cases p) auto
    then have "tracker_step fresh (il_tracker l) (TSnapshot now) = Some t'" by (cases "il_tracker l") auto
    then have "incident_inv fresh inst (l\<lparr>il_tracker := Some t'\<rparr>)" using step q by (simp add: incident_inv_def)
    then show ?thesis using True p by (simp add: generate_tick_def enqueueLocalIncidents_def enqueue_items_inv)
  qed
qed (use assms in \<open>auto simp: generate_tick_def\<close>)

lemma collect_incident_inv:
  assumes "incident_inv fresh inst (fst s)"
  shows "incident_inv fresh inst (fst (collect_incident fresh now key s))"
proof (cases "map_of (il_incidents (fst s)) key")
  case (Some q)
  obtain q' l' where e: "expire_incident fresh now key q (fst s) = (q', l')" by fastforce
  have q': "qi_incident q' = qi_incident q" and l': "incident_inv fresh inst l'" "il_incidents l' = il_incidents (fst s)"
    using e assms by (auto simp: expire_incident_def track_inv split: if_splits)
  have key: "li_IncidentKey (qi_incident q') = key" using queue_ok_key [OF inv_queue [OF assms] Some] q' by simp
  have "queue_ok (AList.update key r (il_incidents l'))" if "qi_incident r = qi_incident q'" for r
    using inv_queue [OF l'(1)] Some key that l'(2) by (intro queue_ok_replace) auto
  then show ?thesis
    using Some e l'(1) by (cases s) (auto simp: collect_incident_def inv_incidents)
qed (use assms in \<open>cases s; simp add: collect_incident_def\<close>)

lemma unsend_inv: "incident_inv fresh inst l \<Longrightarrow> incident_inv fresh inst (unsend_incident key l)"
  using queue_ok_key [OF inv_queue, of fresh inst l key]
  by (auto simp: unsend_incident_def split: option.split intro!: inv_incidents queue_ok_replace dest: inv_queue)

lemma ack_incident_inv:
  assumes "incident_inv fresh inst l"
  shows "incident_inv fresh inst (ack_incident fresh r l)"
proof (cases "map_of (il_incidents l) (ia_IncidentKey r)")
  case (Some q)
  note ok = inv_queue [OF assms]
  have "queue_ok (AList.update (ia_IncidentKey r) q' (il_incidents l))" if "qi_incident q' = qi_incident q" for q'
    using ok Some queue_ok_key [OF ok Some] that by (intro queue_ok_replace) auto
  then show ?thesis
    using Some assms ok
    by (simp add: ack_incident_def Let_def inv_incidents queue_ok_delete track_inv)
qed (simp add: ack_incident_def assms)

lemma fold_inv:
  assumes "\<And>x l. P l \<Longrightarrow> P (f x l)"
  shows "P l \<Longrightarrow> P (fold f xs l)"
  by (induction xs arbitrary: l) (simp_all add: assms)

lemma closed_inv:
  assumes "incident_inv fresh inst l"
  shows "incident_inv fresh inst (failInFlightLinkIncidents l)"
proof -
  have "queue_ok (map (\<lambda>(k, q). (k, q\<lparr>qi_inFlight := False, qi_ackDeadline := 0\<rparr>)) (il_incidents l))"
    using inv_queue [OF assms] by (auto simp: queue_ok_def map_of_map comp_def case_prod_unfold)
  then show ?thesis using assms by (simp add: failInFlightLinkIncidents_def inv_incidents)
qed

lemma submit_link_inv:
  assumes "incident_inv fresh inst l"
  shows "incident_inv fresh inst (fst (SubmitLinkIncidents fresh now batch l))"
proof -
  have "queue_ok (fst (fold submit_incident batch (il_incidents l, [])))"
    by (rule fold_fst_inv) (simp_all add: submit_incident_ok inv_queue [OF assms])
  then show ?thesis
    using assms by (simp add: SubmitLinkIncidents_def RecordLinkIncident_def track_inv inv_incidents case_prod_unfold)
qed

lemma set_config_inv: "incident_inv fresh inst l \<Longrightarrow> incident_inv fresh inst (setEventConfig fresh c l)"
  using track_inv [of fresh inst "l\<lparr>il_eventConfig := c, il_incidents := []\<rparr>" TReset]
  by (auto simp: setEventConfig_def Let_def incident_inv_def queue_ok_def)

lemma incident_step_inv: "incident_inv fresh inst l \<Longrightarrow> incident_inv fresh inst (incident_step fresh l op)"
  by (cases op)
    (simp_all add: incident_step_def submit_link_inv RecordLinkIncident_def track_inv generate_inv closed_inv set_config_inv
      collectLinkIncidents_def ackLinkIncidents_def fold_inv [where P = "incident_inv fresh inst"] unsend_inv ack_incident_inv
      fold_fst_inv [where P = "incident_inv fresh inst"] collect_incident_inv, simp add: incident_inv_def)

interpretation incident_relay: machine "new_incident_link fresh inst" "incident_step fresh" "\<lambda>_. True" "incident_inv fresh inst"
  for fresh inst
proof
  show "incident_inv fresh inst (new_incident_link fresh inst)"
    using tracker.inv_init [of fresh ComponentOperator inst]
    by (simp add: new_incident_link_def incident_inv_def queue_ok_def)
qed (simp add: incident_step_inv)


text \<open>The operator's incident relay is bounded and never panics: whatever webhooks submit, the gateway
  answers and the hub configures, at most 256 incidents wait, each under its own key, and the tracker
  keeps its own bound.\<close>

theorem incident_relay_bounded:
  assumes "tracker_start_ok fresh ComponentOperator inst"
  shows "length (il_incidents (foldl (incident_step fresh) (new_incident_link fresh inst) ops)) \<le> 256 \<and>
    (\<forall>k q. map_of (il_incidents (foldl (incident_step fresh) (new_incident_link fresh inst) ops)) k = Some q \<longrightarrow>
       li_IncidentKey (qi_incident q) = k) \<and>
    (\<exists>t. il_tracker (foldl (incident_step fresh) (new_incident_link fresh inst) ops) = Some t \<and> PendingCount t \<le> 256)"
proof -
  have inv: "incident_inv fresh inst (foldl (incident_step fresh) (new_incident_link fresh inst) ops)"
    by (rule incident_relay.inv_run) (simp add: list_all_iff)
  then obtain t where t: "il_tracker (foldl (incident_step fresh) (new_incident_link fresh inst) ops) = Some t"
    "tracker_inv fresh t" "tr_limit t = DefaultPendingLimit"
    using assms by (auto simp: incident_inv_def tracker_state_inv_def)
  have "PendingCount t \<le> 256"
    using tracker_invD(6) [OF t(2)] t(3) by (simp add: PendingCount_def DefaultPendingLimit_def)
  then show ?thesis
    using t(1) inv_queue [OF inv] by (simp add: queue_ok_def operatorIncidentCapacity_def)
qed

section \<open>The fate of an incident\<close>

definition held :: "queuedLinkIncident smap \<Rightarrow> string \<Rightarrow> nat \<Rightarrow> bool" where
  "held m k v \<longleftrightarrow> (case map_of m k of None \<Rightarrow> False | Some q \<Rightarrow> v \<le> li_Revision (qi_incident q))"

lemma held_update: "held (AList.update k' q m) k v \<longleftrightarrow> (if k = k' then v \<le> li_Revision (qi_incident q) else held m k v)"
  by (simp add: held_def)

lemma newer_revision: "li_Revision (qi_incident (newer w q)) = max (li_Revision w) (li_Revision (qi_incident q))"
  by (simp add: newer_def)

lemma submit_incident_held: "held (fst s) k v \<Longrightarrow> held (fst (submit_incident incoming s)) k v"
  by (cases s) (auto simp: submit_incident_def held_def newer_revision split: sum.split option.split)

lemma submit_incident_accepted:
  assumes "\<forall>r \<in> set (snd s). ia_Status r = Some ACCEPTED \<longrightarrow> held (fst s) (ia_IncidentKey r) (ia_Revision r)"
    and "r \<in> set (snd (submit_incident incoming s))" "ia_Status r = Some ACCEPTED"
  shows "held (fst (submit_incident incoming s)) (ia_IncidentKey r) (ia_Revision r)"
proof (cases "r \<in> set (snd s)")
  case True
  then show ?thesis using assms submit_incident_held by blast
next
  case False
  then show ?thesis
    using assms(2,3)
    by (cases s) (auto simp: submit_incident_def held_def newer_revision linkIncidentACK_def queue_incident_def
        split: sum.splits option.splits if_splits)
qed

lemma submit_fold_held: "held (fst s) k v \<Longrightarrow> held (fst (fold submit_incident batch s)) k v"
  by (induction batch arbitrary: s) (simp_all add: submit_incident_held)

lemma submit_fold_accepted:
  "\<forall>r \<in> set (snd s). ia_Status r = Some ACCEPTED \<longrightarrow> held (fst s) (ia_IncidentKey r) (ia_Revision r) \<Longrightarrow>
   r \<in> set (snd (fold submit_incident batch s)) \<Longrightarrow> ia_Status r = Some ACCEPTED \<Longrightarrow>
   held (fst (fold submit_incident batch s)) (ia_IncidentKey r) (ia_Revision r)"
proof (induction batch arbitrary: s)
  case (Cons i batch)
  show ?case using Cons.IH [of "submit_incident i s"] Cons.prems submit_incident_accepted [OF Cons.prems(1)] by simp
qed simp

lemma answer_all_refuses: "st \<noteq> ACCEPTED \<Longrightarrow> r \<in> set (answer_all st reason batch) \<Longrightarrow> ia_Status r \<noteq> Some ACCEPTED"
  by (auto simp: answer_all_def linkIncidentACK_def)

lemma enqueue_items_held: "held (il_incidents l) k v \<Longrightarrow> held (il_incidents (enqueue_items fresh now items l)) k v"
proof (induction items arbitrary: l)
  case (Cons i items)
  have known: "v \<le> li_Revision (qi_incident q)" if "map_of (il_incidents l) k = Some q" for q
    using Cons.prems that by (simp add: held_def)
  have absent: "map_of (il_incidents l) (ic_IncidentKey i) = None \<Longrightarrow> k \<noteq> ic_IncidentKey i"
    using Cons.prems by (auto simp: held_def)
  show ?case
    using Cons.prems known absent
    by (cases "map_of (il_incidents l) (ic_IncidentKey i)") (auto simp: held_update newer_revision intro!: Cons.IH)
qed simp

lemma collect_incident_held: "held (il_incidents (fst s)) k v \<Longrightarrow> held (il_incidents (fst (collect_incident fresh now key s))) k v"
  by (cases s) (auto simp: collect_incident_def expire_incident_def held_def split: option.splits if_splits)

lemma unsend_held: "held (il_incidents l) k v \<Longrightarrow> held (il_incidents (unsend_incident key l)) k v"
  by (auto simp: unsend_incident_def held_def split: option.splits)

lemma ack_incident_held:
  "held (il_incidents l) k v \<Longrightarrow> held (il_incidents (ack_incident fresh r l)) k v
   \<or> ia_IncidentKey r = k \<and> terminal_status (ia_Status r) \<and> v \<le> ia_Revision r"
  by (auto simp: ack_incident_def held_def Let_def split: option.splits)

lemma ack_fold_held:
  "held (il_incidents l) k v \<Longrightarrow> held (il_incidents (fold (ack_incident fresh) rs l)) k v
   \<or> list_ex (\<lambda>r. ia_IncidentKey r = k \<and> terminal_status (ia_Status r) \<and> v \<le> ia_Revision r) rs"
proof (induction rs arbitrary: l)
  case (Cons r rs)
  then show ?case using ack_incident_held [OF Cons.prems, of fresh r] by auto
qed simp


definition turned_off :: "incident_op \<Rightarrow> bool" where
  "turned_off op = (case op of IConfig c \<Rightarrow> (case c of None \<Rightarrow> True | Some c \<Rightarrow> \<not> ec_ObservationEnabled c) | _ \<Rightarrow> False)"

definition finally_acked :: "incident_op \<Rightarrow> string \<Rightarrow> nat \<Rightarrow> bool" where
  "finally_acked op k v = (case op of
     IAck rs \<Rightarrow> list_ex (\<lambda>r. ia_IncidentKey r = k \<and> terminal_status (ia_Status r) \<and> v \<le> ia_Revision r) rs | _ \<Rightarrow> False)"

lemma generate_held: "held (il_incidents l) k v \<Longrightarrow> held (il_incidents (generate_tick fresh now l)) k v"
  by (auto simp: generate_tick_def enqueueLocalIncidents_def enqueue_items_held split: option.split)

lemma closed_held: "held (il_incidents l) k v \<Longrightarrow> held (il_incidents (failInFlightLinkIncidents l)) k v"
  by (auto simp: failInFlightLinkIncidents_def held_def map_of_map split: option.splits)

lemma collect_fold_held:
  "held (il_incidents (fst s)) k v \<Longrightarrow> held (il_incidents (fst (fold (collect_incident fresh now) ks s))) k v"
  by (induction ks arbitrary: s) (simp_all add: collect_incident_held)

lemma unsend_fold_held: "held (il_incidents l) k v \<Longrightarrow> held (il_incidents (fold unsend_incident ks l)) k v"
  by (induction ks arbitrary: l) (simp_all add: unsend_held)

text \<open>C31: No incident report is lost on its way through the operator. A report the operator has answered as
  accepted is queued in that revision or a newer one, and a queued revision stays queued, or is replaced by
  a newer one, until the gateway gives a final answer to that revision or a newer one, or the hub turns the
  observation off.\<close>

theorem incidents_accounted:
  assumes "incident_exec fresh op l = (l', results)"
  shows "(held (il_incidents l) k v \<longrightarrow> held (il_incidents l') k v \<or> finally_acked op k v \<or> turned_off op) \<and>
    (\<forall>r \<in> set results. ia_Status r = Some ACCEPTED \<longrightarrow> held (il_incidents l') (ia_IncidentKey r) (ia_Revision r))"
proof (cases op)
  case (ISubmit batch now)
  then show ?thesis
    using assms submit_fold_held [of "(il_incidents l, [])" k v batch] submit_fold_accepted [of "(il_incidents l, [])" _ batch]
      answer_all_refuses [of DISCARDED] answer_all_refuses [of RETRYABLE]
    by (auto simp: SubmitLinkIncidents_def RecordLinkIncident_def case_prod_unfold split: if_splits)
next
  case (IConfig c)
  then show ?thesis
    using assms
    by (auto simp: setEventConfig_def Let_def turned_off_def admissionObservationEnabled_def split: option.splits if_splits)
qed (use assms in \<open>auto simp: RecordLinkIncident_def generate_held closed_held collectLinkIncidents_def
      collect_fold_held unsend_fold_held ackLinkIncidents_def finally_acked_def dest: ack_fold_held\<close>)

section \<open>Conversions\<close>

lemma incident_roundtrip: "Incident_Validate i = None \<Longrightarrow> incidentModel (Some (incidentProto i)) = Inr i"
  by (cases i) (simp add: incidentModel_def incidentProto_def Let_def)


section \<open>Examples\<close>

definition ex_wire :: "nat \<Rightarrow> LinkIncident" where
  "ex_wire v = \<lparr>li_IncidentKey = ''k1'', li_ReporterInstanceId = ''webhook-0'', li_Revision = v, li_Component = ComponentWebhook,
     li_Reason = ReasonQueueFull, li_StartedAt = At 5, li_LastSeenAt = At 9, li_AffectedCount = 2, li_SampleEventIds = [],
     li_Detail = '''', li_Closed = False\<rparr>"

definition ex_relay_ops :: "incident_op list" where
  "ex_relay_ops = [ILeader True, IConfig (Some ex_link_config), ISubmit [Some (ex_wire 1), None] 10, ICollect [''k1''] 11,
     ISubmit [Some (ex_wire 2)] 12,
     IAck [\<lparr>ia_IncidentKey = ''k1'', ia_Revision = 1, ia_Status = Some ACCEPTED, ia_Reason = ''''\<rparr>]]"

definition ex_relay :: incident_link where
  "ex_relay = foldl (incident_step ex_fresh) (new_incident_link ex_fresh ''op-0'') ex_relay_ops"

theorem incident_relay_bounded_witness: "length (il_incidents ex_relay) \<le> 256 \<and> held (il_incidents ex_relay) ''k1'' 2"
proof -
  have start: "tracker_start_ok ex_fresh ComponentOperator ''op-0''"
    by (simp add: tracker_start_ok_def ex_fresh_inj Component_Valid_def)
  have "held (il_incidents ex_relay) ''k1'' 2" by code_simp
  then show ?thesis using incident_relay_bounded [OF start, of ex_relay_ops] by (simp add: ex_relay_def)
qed

theorem incidents_accounted_witness:
  "held (il_incidents (fst (incident_exec ex_fresh (IAck [\<lparr>ia_IncidentKey = ''k1'', ia_Revision = 1, ia_Status = Some DISCARDED, ia_Reason = ''''\<rparr>]) ex_relay))) ''k1'' 2"
proof -
  let ?op = "IAck [\<lparr>ia_IncidentKey = ''k1'', ia_Revision = 1, ia_Status = Some DISCARDED, ia_Reason = ''''\<rparr>]"
  have "held (il_incidents ex_relay) ''k1'' 2" by code_simp
  moreover have "\<not> finally_acked ?op ''k1'' 2" "\<not> turned_off ?op" by code_simp+
  ultimately show ?thesis
    using incidents_accounted [of ex_fresh ?op ex_relay "fst (incident_exec ex_fresh ?op ex_relay)" "snd (incident_exec ex_fresh ?op ex_relay)" "''k1''" 2]
    by simp
qed

end
