(* ===== verification/Member_Uninstall.thy ===== *)
theory Member_Uninstall
  imports Kube_Api
begin

text \<open>
  The removal of a member installation, \<^verbatim>\<open>internal/operator/uninstall/runner.go\<close>: a fixed list of objects
  and all objects of the custom kinds.

  The cluster is the list of its objects with their finalizers. What the API server refuses is a
  parameter; a deletion it accepts removes an object without finalizers at once and leaves another one
  terminating. The error strings keep the kind and the name.
\<close>

section \<open>Objects\<close>

record object_ref =
  ob_Kind :: string
  ob_Namespace :: string
  ob_Name :: string

record stored_object =
  so_Finalizers :: "string list"
  so_Terminating :: bool

type_synonym objects = "(object_ref \<times> stored_object) list"

record uninstall_env =
  ue_delete :: "object_ref \<Rightarrow> api_error option"
  ue_list :: "string \<Rightarrow> api_error option"
  ue_patch :: "object_ref \<Rightarrow> api_error option"

definition objectMeta :: "string \<Rightarrow> string \<Rightarrow> object_ref" where
  "objectMeta kind name = \<lparr>ob_Kind = kind, ob_Namespace = '''', ob_Name = name\<rparr>"

definition namespacedMeta :: "string \<Rightarrow> string \<Rightarrow> string \<Rightarrow> object_ref" where
  "namespacedMeta namespace kind name = \<lparr>ob_Kind = kind, ob_Namespace = namespace, ob_Name = name\<rparr>"

definition server_delete :: "object_ref \<Rightarrow> objects \<Rightarrow> objects" where
  "server_delete ref s = (case map_of s ref of
      None \<Rightarrow> s
    | Some x \<Rightarrow> if so_Finalizers x = [] then AList.delete ref s else AList.update ref (x\<lparr>so_Terminating := True\<rparr>) s)"

text \<open>The API's answer to a deletion: its own refusal, or NotFound, or success.\<close>

definition Delete :: "uninstall_env \<Rightarrow> object_ref \<Rightarrow> objects \<Rightarrow> objects \<times> api_error option" where
  "Delete env ref s = (case ue_delete env ref of
      Some e \<Rightarrow> (s, Some e)
    | None \<Rightarrow> if map_of s ref = None then (s, Some (NotFound (ob_Name ref))) else (server_delete ref s, None))"

definition delete_error :: "object_ref \<Rightarrow> api_error \<Rightarrow> string" where
  "delete_error ref e = ''delete '' @ ob_Kind ref @ '' '' @ ob_Name ref @ '': '' @ error_text e"

definition remove_object :: "uninstall_env \<Rightarrow> object_ref \<Rightarrow> objects \<times> string list \<Rightarrow> objects \<times> string list" where
  "remove_object env ref = (\<lambda>(s, errs). case Delete env ref s of
      (s', None) \<Rightarrow> (s', errs)
    | (s', Some e) \<Rightarrow> (s', if IsNotFound e then errs else errs @ [delete_error ref e]))"

section \<open>The custom resources\<close>

definition policyGroupFinalizer :: string where "policyGroupFinalizer = ''kubesentry.io/policygroup-cleanup''"

definition clearPolicyGroupCleanupFinalizer :: "uninstall_env \<Rightarrow> object_ref \<Rightarrow> objects \<Rightarrow> objects \<times> api_error option" where
  "clearPolicyGroupCleanupFinalizer env ref s = (case map_of s ref of
      None \<Rightarrow> (s, None)
    | Some x \<Rightarrow>
        if policyGroupFinalizer \<notin> set (so_Finalizers x) then (s, None)
        else case ue_patch env ref of
          Some e \<Rightarrow> (s, Some e)
        | None \<Rightarrow>
            (let rest = remove1 policyGroupFinalizer (so_Finalizers x)
             in if rest = [] \<and> so_Terminating x then (AList.delete ref s, None)
                else (AList.update ref (x\<lparr>so_Finalizers := rest\<rparr>) s, None)))"

definition delete_group :: "uninstall_env \<Rightarrow> object_ref \<Rightarrow> objects \<times> string list \<Rightarrow> objects \<times> string list" where
  "delete_group env ref = (\<lambda>(s, errs). case clearPolicyGroupCleanupFinalizer env ref s of
      (s', Some e) \<Rightarrow> (s', errs @ [''clear PolicyGroup '' @ ob_Name ref @ '' finalizer: '' @ error_text e])
    | (s', None) \<Rightarrow> remove_object env ref (s', errs))"

definition deleteAll ::
  "uninstall_env \<Rightarrow> string \<Rightarrow> (object_ref \<Rightarrow> objects \<times> string list \<Rightarrow> objects \<times> string list) \<Rightarrow> objects \<times> string list \<Rightarrow> objects \<times> string list" where
  "deleteAll env kind del = (\<lambda>(s, errs). case ue_list env kind of
      Some e \<Rightarrow> (s, errs @ [''list '' @ kind @ '': '' @ error_text e])
    | None \<Rightarrow> fold del (filter (\<lambda>ref. ob_Kind ref = kind) (map fst s)) (s, errs))"

definition deleteCRs :: "uninstall_env \<Rightarrow> objects \<times> string list \<Rightarrow> objects \<times> string list" where
  "deleteCRs env st =
    deleteAll env ''PolicyVersion'' (remove_object env)
      (deleteAll env ''PolicyException'' (remove_object env)
        (deleteAll env ''PolicyGroup'' (delete_group env)
          (deleteAll env ''Policy'' (remove_object env) st)))"

section \<open>Run and Finalize\<close>

definition admission_objects :: "object_ref list" where
  "admission_objects =
    [objectMeta ''ValidatingWebhookConfiguration'' ''kubesentry'',
     objectMeta ''ValidatingAdmissionPolicy'' ''kubesentry-policyexception-immutability'',
     objectMeta ''ValidatingAdmissionPolicyBinding'' ''kubesentry-policyexception-immutability-binding'']"

definition tls_secret :: "string \<Rightarrow> string" where
  "tls_secret tlsSecretName = (if tlsSecretName = '''' then ''kubesentry-tls'' else tlsSecretName)"

definition release_objects :: "string \<Rightarrow> string \<Rightarrow> object_ref list" where
  "release_objects namespace tlsSecretName =
    (let own = namespacedMeta namespace
     in [own ''Deployment'' ''kubesentry-webhook'', own ''Job'' ''kubesentry-tls-setup'',
         own ''Lease'' ''kubesentry-operator-leader'', own ''Service'' ''kubesentry-webhook'']
        @ map (own ''Secret'') [''kubesentry-webhook-tls'', tls_secret tlsSecretName, ''kubesentry-hub-register'', ''kubesentry-hub-ca'']
        @ map (own ''ServiceAccount'') [''kubesentry-webhook'', ''kubesentry-tls-setup'', ''kubesentry-crd-installer'']
        @ [own ''ConfigMap'' ''kubesentry-crd-installer'']
        @ concat (map (\<lambda>n. [own ''Role'' n, own ''RoleBinding'' n]) [''kubesentry-tls-setup'', ''kubesentry-crd-installer''])
        @ concat (map (\<lambda>n. [objectMeta ''ClusterRole'' n, objectMeta ''ClusterRoleBinding'' n])
            [''kubesentry-webhook'', ''kubesentry-tls-setup'', ''kubesentry-crd-installer''])
        @ map (objectMeta ''CustomResourceDefinition'')
            [''policies.kubesentry.io'', ''policygroups.kubesentry.io'', ''policyexceptions.kubesentry.io'', ''policyversions.kubesentry.io''])"

definition final_objects :: "string \<Rightarrow> object_ref list" where
  "final_objects namespace =
    (let own = namespacedMeta namespace
     in [own ''Secret'' ''kubesentry-hub-auth'', own ''Deployment'' ''kubesentry-operator'', own ''ServiceAccount'' ''kubesentry-operator'',
         own ''Role'' ''kubesentry-operator'', own ''RoleBinding'' ''kubesentry-operator'',
         objectMeta ''ClusterRole'' ''kubesentry-operator'', objectMeta ''ClusterRoleBinding'' ''kubesentry-operator''])"

definition join_errors :: "string \<Rightarrow> string list \<Rightarrow> string option" where
  "join_errors what errs = (if errs = [] then None else Some (what @ '': '' @ Join errs ''; ''))"

definition Run :: "uninstall_env \<Rightarrow> string \<Rightarrow> string \<Rightarrow> objects \<Rightarrow> objects \<times> string option" where
  "Run env namespace tlsSecretName s =
    (if namespace = '''' then (s, Some ''client and namespace are required'')
     else case fold (remove_object env) (release_objects namespace tlsSecretName)
            (deleteCRs env (fold (remove_object env) admission_objects (s, []))) of
       (s', errs) \<Rightarrow> (s', join_errors ''uninstall KubeSentry resources'' errs))"

definition Finalize :: "uninstall_env \<Rightarrow> string \<Rightarrow> objects \<Rightarrow> objects \<times> string option" where
  "Finalize env namespace s =
    (if namespace = '''' then (s, Some ''client and namespace are required'')
     else case fold (remove_object env) (final_objects namespace) (s, []) of
       (s', errs) \<Rightarrow> (s', join_errors ''finalize KubeSentry uninstall'' errs))"


section \<open>What is touched\<close>

definition custom_kinds :: "string list" where
  "custom_kinds = [''Policy'', ''PolicyGroup'', ''PolicyException'', ''PolicyVersion'']"

definition in_release :: "string \<Rightarrow> string \<Rightarrow> object_ref \<Rightarrow> bool" where
  "in_release namespace tlsSecretName ref \<longleftrightarrow> ref \<in> set (admission_objects @ release_objects namespace tlsSecretName)
     \<or> ob_Kind ref \<in> set custom_kinds"

text \<open>A step from one state and error list to another that touches only the objects in \<open>T\<close>, adds
  errors at the end and creates nothing.\<close>

definition confined :: "object_ref set \<Rightarrow> objects \<times> string list \<Rightarrow> objects \<times> string list \<Rightarrow> bool" where
  "confined T a b \<longleftrightarrow> (\<forall>r. r \<notin> T \<longrightarrow> map_of (fst b) r = map_of (fst a) r) \<and> (\<exists>es. snd b = snd a @ es) \<and>
     (\<forall>r. map_of (fst a) r = None \<longrightarrow> map_of (fst b) r = None)"

lemma confined_refl: "confined T a a"
  by (simp add: confined_def)

lemma confined_trans: "confined T a b \<Longrightarrow> confined T b c \<Longrightarrow> confined T a c"
  by (auto simp: confined_def)

lemma confined_mono: "confined T a b \<Longrightarrow> T \<subseteq> U \<Longrightarrow> confined U a b"
  by (auto simp: confined_def)

lemma confined_fold:
  assumes "\<And>x a. x \<in> set xs \<Longrightarrow> confined T a (f x a)"
  shows "confined T a (fold f xs a)"
  using assms
proof (induction xs arbitrary: a)
  case (Cons x xs)
  have "confined T a (f x a)" "confined T (f x a) (fold f xs (f x a))" using Cons by simp_all
  then show ?case using confined_trans by simp
qed (simp add: confined_refl)

lemma server_delete_other: "r \<noteq> ref \<Longrightarrow> map_of (server_delete ref s) r = map_of s r"
  by (simp add: server_delete_def split: option.split)

lemma server_delete_absent: "map_of s r = None \<Longrightarrow> map_of (server_delete ref s) r = None"
  by (cases "r = ref") (simp add: server_delete_def, simp add: server_delete_other)

lemma remove_object_confined: "confined {ref} a (remove_object env ref a)"
  by (cases a) (auto simp: confined_def remove_object_def Delete_def server_delete_other server_delete_absent split: option.split)

lemma clear_confined:
  "confined {ref} (s, errs) (fst (clearPolicyGroupCleanupFinalizer env ref s), errs @ es)"
  by (auto simp: confined_def clearPolicyGroupCleanupFinalizer_def Let_def split: option.split)

lemma delete_group_confined: "confined {ref} a (delete_group env ref a)"
proof (cases a)
  case (Pair s errs)
  obtain s' r where c: "clearPolicyGroupCleanupFinalizer env ref s = (s', r)" by fastforce
  show ?thesis
  proof (cases r)
    case None
    have "confined {ref} (s, errs) (s', errs)" using clear_confined [of ref s errs env "[]"] c by simp
    then show ?thesis
      using confined_trans remove_object_confined by (fastforce simp: Pair delete_group_def c None)
  next
    case (Some e)
    then show ?thesis using clear_confined [of ref s errs env] c by (simp add: Pair delete_group_def)
  qed
qed

lemma deleteAll_confined:
  assumes "\<And>ref a. confined {ref} a (del ref a)"
  shows "confined {r. ob_Kind r = kind} a (deleteAll env kind del a)"
proof (cases a)
  case (Pair s errs)
  have "confined {r. ob_Kind r = kind} (s, errs) (fold del (filter (\<lambda>ref. ob_Kind ref = kind) (map fst s)) (s, errs))"
    by (rule confined_fold) (auto intro: confined_mono [OF assms])
  then show ?thesis
    by (simp add: Pair deleteAll_def confined_def split: option.split)
qed

lemma deleteCRs_confined: "confined {r. ob_Kind r \<in> set custom_kinds} a (deleteCRs env a)"
proof -
  have all: "confined {r. ob_Kind r \<in> set custom_kinds} b (deleteAll env kind del b)"
    if "kind \<in> set custom_kinds" "\<And>ref a. confined {ref} a (del ref a)" for b kind del
    by (rule confined_mono [OF deleteAll_confined [OF that(2)]]) (use that(1) in auto)
  show ?thesis
    unfolding deleteCRs_def
    by (intro confined_trans [OF confined_trans [OF confined_trans [OF all all] all] all])
      (simp_all add: custom_kinds_def remove_object_confined delete_group_confined)
qed

lemma Run_confined:
  "confined {r. in_release namespace tls r} (s, [])
     (fold (remove_object env) (release_objects namespace tls) (deleteCRs env (fold (remove_object env) admission_objects (s, []))))"
proof -
  have one: "confined {r. in_release namespace tls r} a (remove_object env ref a)"
    if "ref \<in> set (admission_objects @ release_objects namespace tls)" for ref a
    by (rule confined_mono [OF remove_object_confined]) (use that in \<open>auto simp: in_release_def\<close>)
  have crs: "confined {r. in_release namespace tls r} a (deleteCRs env a)" for a
    by (rule confined_mono [OF deleteCRs_confined]) (auto simp: in_release_def)
  have adm: "confined {r. in_release namespace tls r} a (fold (remove_object env) admission_objects a)" for a
    by (rule confined_fold) (simp add: one)
  have rel: "confined {r. in_release namespace tls r} a (fold (remove_object env) (release_objects namespace tls) a)" for a
    by (rule confined_fold) (simp add: one)
  show ?thesis
    by (rule confined_trans [OF adm confined_trans [OF crs rel]])
qed


section \<open>What is removed\<close>

text \<open>No deletion is refused as not found when the object is there, and the only finalizer on an object
  that is to go is the group reconciler's.\<close>

definition truthful :: "uninstall_env \<Rightarrow> bool" where
  "truthful env \<longleftrightarrow> (\<forall>ref e. ue_delete env ref = Some e \<longrightarrow> \<not> IsNotFound e)"

definition finalizers_ok :: "objects \<Rightarrow> object_ref \<Rightarrow> bool" where
  "finalizers_ok s ref \<longleftrightarrow> (case map_of s ref of None \<Rightarrow> True
     | Some x \<Rightarrow> so_Finalizers x = [] \<or> ob_Kind ref = ''PolicyGroup'' \<and> so_Finalizers x = [policyGroupFinalizer])"

text \<open>A step that, when it adds no error, leaves no object of \<open>T\<close>, given the finalizers.\<close>

definition clears :: "object_ref set \<Rightarrow> objects \<times> string list \<Rightarrow> objects \<times> string list \<Rightarrow> bool" where
  "clears T a b \<longleftrightarrow> confined T a b \<and> (snd b = snd a \<longrightarrow> (\<forall>r \<in> T. map_of (fst b) r = None)) \<and>
     (\<forall>r. finalizers_ok (fst a) r \<longrightarrow> finalizers_ok (fst b) r)"

lemma clears_trans:
  assumes "clears T a b" "clears U b c"
  shows "clears (T \<union> U) a c"
proof -
  have ab: "confined T a b" "snd b = snd a \<Longrightarrow> r \<in> T \<Longrightarrow> map_of (fst b) r = None"
      "finalizers_ok (fst a) r \<Longrightarrow> finalizers_ok (fst b) r" for r
    using assms(1) unfolding clears_def by blast+
  have bc: "confined U b c" "snd c = snd b \<Longrightarrow> r \<in> U \<Longrightarrow> map_of (fst c) r = None"
      "finalizers_ok (fst b) r \<Longrightarrow> finalizers_ok (fst c) r" for r
    using assms(2) unfolding clears_def by blast+
  have ac: "confined (T \<union> U) a c"
    by (rule confined_trans [OF confined_mono [OF ab(1)] confined_mono [OF bc(1)]]) simp_all
  have absent: "map_of (fst b) r = None \<Longrightarrow> map_of (fst c) r = None" for r
    using bc(1) unfolding confined_def by blast
  have same: "snd b = snd a \<and> snd c = snd b" if "snd c = snd a"
  proof -
    obtain es es' where "snd b = snd a @ es" "snd c = snd b @ es'" using ab(1) bc(1) unfolding confined_def by blast
    then show ?thesis using that by simp
  qed
  have "map_of (fst c) r = None" if "snd c = snd a" "r \<in> T \<union> U" for r
    using same [OF that(1)] that(2) ab(2) bc(2) absent by blast
  then show ?thesis using ac ab(3) bc(3) unfolding clears_def by blast
qed

lemma remove_object_finalizers: "finalizers_ok (fst a) r \<Longrightarrow> finalizers_ok (fst (remove_object env ref a)) r"
  by (cases a) (auto simp: remove_object_def Delete_def server_delete_def finalizers_ok_def split: option.split)

lemma clear_finalizers: "finalizers_ok s r \<Longrightarrow> finalizers_ok (fst (clearPolicyGroupCleanupFinalizer env ref s)) r"
  by (auto simp: clearPolicyGroupCleanupFinalizer_def finalizers_ok_def Let_def split: option.splits if_splits)

lemma delete_group_finalizers:
  assumes "finalizers_ok (fst a) r"
  shows "finalizers_ok (fst (delete_group env ref a)) r"
proof (cases a)
  case (Pair s errs)
  have "finalizers_ok (fst (clearPolicyGroupCleanupFinalizer env ref s)) r" using assms Pair by (simp add: clear_finalizers)
  then show ?thesis
    using remove_object_finalizers by (fastforce simp: Pair delete_group_def split: prod.split option.split)
qed

lemma remove_object_clears:
  assumes "truthful env" "\<And>x. map_of (fst a) ref = Some x \<Longrightarrow> so_Finalizers x = []"
  shows "clears {ref} a (remove_object env ref a)"
proof -
  have "snd (remove_object env ref a) = snd a \<longrightarrow> map_of (fst (remove_object env ref a)) ref = None"
    using assms by (cases a) (auto simp: truthful_def remove_object_def Delete_def server_delete_def split: option.split)
  then show ?thesis by (simp add: clears_def remove_object_confined remove_object_finalizers)
qed

lemma delete_group_clears:
  assumes "truthful env" "finalizers_ok (fst a) ref" "ob_Kind ref = ''PolicyGroup''"
  shows "clears {ref} a (delete_group env ref a)"
proof (cases a)
  case (Pair s errs)
  show ?thesis
  proof (cases "map_of s ref")
    case None
    then show ?thesis
      using remove_object_clears [OF assms(1), of "(s, errs)" ref]
      by (simp add: Pair delete_group_def clearPolicyGroupCleanupFinalizer_def)
  next
    case (Some x)
    let ?c = "clearPolicyGroupCleanupFinalizer env ref s"
    have "snd (delete_group env ref a) = snd a \<longrightarrow> map_of (fst (delete_group env ref a)) ref = None"
    proof (cases "snd ?c")
      case None
      have "so_Finalizers y = []" if "map_of (fst ?c) ref = Some y" for y
        using that assms(2) Some None
        by (auto simp: Pair finalizers_ok_def clearPolicyGroupCleanupFinalizer_def Let_def split: if_splits option.splits)
      then have "clears {ref} (fst ?c, errs) (remove_object env ref (fst ?c, errs))"
        by (intro remove_object_clears [OF assms(1)]) simp
      then show ?thesis using None by (cases ?c) (simp add: Pair delete_group_def clears_def)
    next
      case (Some e)
      then show ?thesis by (cases ?c) (simp add: Pair delete_group_def)
    qed
    then show ?thesis by (simp add: clears_def delete_group_confined delete_group_finalizers)
  qed
qed

lemma clears_fold:
  assumes "\<And>x a. x \<in> set xs \<Longrightarrow> finalizers_ok (fst a) x \<Longrightarrow> clears {x} a (f x a)" "\<And>x. x \<in> set xs \<Longrightarrow> finalizers_ok (fst a) x"
  shows "clears (set xs) a (fold f xs a)"
  using assms
proof (induction xs arbitrary: a)
  case (Cons x xs)
  have first: "clears {x} a (f x a)" using Cons.prems by simp
  have "finalizers_ok (fst (f x a)) y" if "y \<in> set xs" for y
    using first Cons.prems(2) that by (simp add: clears_def)
  then have "clears (set xs) (f x a) (fold f xs (f x a))" using Cons by simp
  from clears_trans [OF first this] show ?case by simp
qed (simp add: clears_def confined_refl)


lemma remove_fold_clears:
  assumes "truthful env" "\<And>r. r \<in> set refs \<Longrightarrow> finalizers_ok (fst a) r \<and> ob_Kind r \<noteq> ''PolicyGroup''"
  shows "clears (set refs) a (fold (remove_object env) refs a)"
proof (rule clears_fold)
  fix x and b :: "objects \<times> string list"
  assume x: "x \<in> set refs" "finalizers_ok (fst b) x"
  then have "ob_Kind x \<noteq> ''PolicyGroup''" using assms(2) by blast
  then show "clears {x} b (remove_object env x b)"
    using x(2) by (intro remove_object_clears [OF assms(1)]) (simp add: finalizers_ok_def)
qed (use assms(2) in blast)

lemma deleteAll_clears:
  assumes "\<And>ref b. ob_Kind ref = kind \<Longrightarrow> finalizers_ok (fst b) ref \<Longrightarrow> clears {ref} b (del ref b)"
    and "\<And>ref. ob_Kind ref = kind \<Longrightarrow> finalizers_ok (fst a) ref"
    and "\<And>ref b. confined {ref} b (del ref b)"
  shows "clears {r. ob_Kind r = kind} a (deleteAll env kind del a)"
proof (cases "ue_list env kind")
  case (Some e)
  then show ?thesis by (cases a) (simp add: deleteAll_def clears_def confined_def)
next
  case None
  let ?refs = "filter (\<lambda>ref. ob_Kind ref = kind) (map fst (fst a))"
  have res: "deleteAll env kind del a = fold del ?refs a" by (cases a) (simp add: deleteAll_def None)
  have all: "clears (set ?refs) a (fold del ?refs a)"
    by (rule clears_fold) (use assms(1,2) in auto)
  have conf: "confined {r. ob_Kind r = kind} a (fold del ?refs a)"
    using deleteAll_confined [OF assms(3), of kind a env] by (simp add: res)
  have "map_of (fst (fold del ?refs a)) r = None" if "snd (fold del ?refs a) = snd a" "ob_Kind r = kind" for r
  proof (cases "map_of (fst a) r")
    case None
    then show ?thesis using conf by (simp add: confined_def)
  next
    case (Some x)
    then have "r \<in> set ?refs" using that(2) by (force dest: map_of_SomeD)
    then show ?thesis using all that(1) unfolding clears_def by blast
  qed
  moreover have "finalizers_ok (fst (fold del ?refs a)) r" if "finalizers_ok (fst a) r" for r
    using all that by (simp add: clears_def)
  ultimately show ?thesis using conf by (simp add: clears_def res)
qed

definition removable :: "objects \<Rightarrow> bool" where
  "removable s \<longleftrightarrow> (\<forall>ref. finalizers_ok s ref)"

lemma clears_removable: "clears T a b \<Longrightarrow> removable (fst a) \<Longrightarrow> removable (fst b)"
  by (simp add: clears_def removable_def)

lemma deleteCRs_clears:
  assumes "truthful env" "removable (fst a)"
  shows "clears {r. ob_Kind r \<in> set custom_kinds} a (deleteCRs env a)"
proof -
  have plain: "clears {r. ob_Kind r = kind} b (deleteAll env kind (remove_object env) b)"
    if "kind \<noteq> ''PolicyGroup''" "removable (fst b)" for kind b
    by (rule deleteAll_clears)
      (use that in \<open>auto simp: removable_def finalizers_ok_def remove_object_confined intro!: remove_object_clears [OF assms(1)]\<close>)
  have groups: "clears {r. ob_Kind r = ''PolicyGroup''} b (deleteAll env ''PolicyGroup'' (delete_group env) b)"
    if "removable (fst b)" for b
    by (rule deleteAll_clears)
      (use that in \<open>auto simp: removable_def delete_group_confined intro!: delete_group_clears [OF assms(1)]\<close>)
  define b where "b = deleteAll env ''Policy'' (remove_object env) a"
  define c where "c = deleteAll env ''PolicyGroup'' (delete_group env) b"
  define d where "d = deleteAll env ''PolicyException'' (remove_object env) c"
  have b: "clears {r. ob_Kind r = ''Policy''} a b" unfolding b_def by (rule plain) (simp_all add: assms(2))
  have c: "clears {r. ob_Kind r = ''PolicyGroup''} b c" unfolding c_def by (rule groups) (rule clears_removable [OF b assms(2)])
  have rc: "removable (fst c)" by (rule clears_removable [OF c clears_removable [OF b assms(2)]])
  have d: "clears {r. ob_Kind r = ''PolicyException''} c d" unfolding d_def by (rule plain) (simp_all add: rc)
  have e: "clears {r. ob_Kind r = ''PolicyVersion''} d (deleteCRs env a)"
    unfolding deleteCRs_def b_def [symmetric] c_def [symmetric] d_def [symmetric]
    by (rule plain) (simp_all add: clears_removable [OF d rc])
  have "{r. ob_Kind r \<in> set custom_kinds} = {r. ob_Kind r = ''Policy''} \<union> {r. ob_Kind r = ''PolicyGroup''}
      \<union> {r. ob_Kind r = ''PolicyException''} \<union> {r. ob_Kind r = ''PolicyVersion''}"
    by (auto simp: custom_kinds_def)
  then show ?thesis using clears_trans [OF clears_trans [OF clears_trans [OF b c] d] e] by (rule ssubst)
qed

lemma release_kinds: "r \<in> set (admission_objects @ release_objects namespace tls) \<Longrightarrow> ob_Kind r \<noteq> ''PolicyGroup''"
  by (auto simp: admission_objects_def release_objects_def Let_def objectMeta_def namespacedMeta_def)

lemma in_release_set:
  "{r. in_release namespace tls r} = set admission_objects \<union> {r. ob_Kind r \<in> set custom_kinds} \<union> set (release_objects namespace tls)"
  by (auto simp: in_release_def)

lemma Run_clears:
  assumes "truthful env" "removable s"
  shows "clears {r. in_release namespace tls r} (s, [])
     (fold (remove_object env) (release_objects namespace tls) (deleteCRs env (fold (remove_object env) admission_objects (s, []))))"
proof -
  let ?b = "fold (remove_object env) admission_objects (s, [])"
  have b: "clears (set admission_objects) (s, []) ?b"
    using assms release_kinds by (intro remove_fold_clears) (auto simp: removable_def)
  have c: "clears {r. ob_Kind r \<in> set custom_kinds} ?b (deleteCRs env ?b)"
    using clears_removable [OF b] assms by (intro deleteCRs_clears) simp_all
  have rc: "removable (fst (deleteCRs env ?b))"
    using clears_removable [OF c clears_removable [OF b]] assms by simp
  have d: "clears (set (release_objects namespace tls)) (deleteCRs env ?b)
      (fold (remove_object env) (release_objects namespace tls) (deleteCRs env ?b))"
    using rc release_kinds by (intro remove_fold_clears assms(1)) (auto simp: removable_def)
  show ?thesis unfolding in_release_set by (rule clears_trans [OF clears_trans [OF b c] d])
qed


lemma join_errors_None: "join_errors what errs = None \<longleftrightarrow> errs = []"
  by (simp add: join_errors_def)


definition ex_release :: objects where
  "ex_release =
    [(\<lparr>ob_Kind = ''PolicyGroup'', ob_Namespace = '''', ob_Name = ''g''\<rparr>, \<lparr>so_Finalizers = [policyGroupFinalizer], so_Terminating = False\<rparr>),
     (\<lparr>ob_Kind = ''Namespace'', ob_Namespace = '''', ob_Name = ''kubesentry''\<rparr>, \<lparr>so_Finalizers = [], so_Terminating = False\<rparr>),
     (\<lparr>ob_Kind = ''Deployment'', ob_Namespace = ''kubesentry'', ob_Name = ''kubesentry-webhook''\<rparr>, \<lparr>so_Finalizers = [], so_Terminating = False\<rparr>),
     (\<lparr>ob_Kind = ''Secret'', ob_Namespace = ''kubesentry'', ob_Name = ''kubesentry-hub-auth''\<rparr>, \<lparr>so_Finalizers = [], so_Terminating = False\<rparr>)]"

definition ex_uninstall_env :: uninstall_env where
  "ex_uninstall_env = \<lparr>ue_delete = (\<lambda>_. None), ue_list = (\<lambda>_. None), ue_patch = (\<lambda>_. None)\<rparr>"


text \<open>Two objects of the chart are on neither list: the events Secret and the operator's events Service
  outlive \<open>Run\<close> and \<open>Finalize\<close>.\<close>

lemma events_objects_survive:
  assumes "ref \<in> {namespacedMeta ns ''Secret'' ''kubesentry-admission-events'', namespacedMeta ns ''Service'' ''kubesentry-operator-events''}"
    and "tlsSecretName \<noteq> ''kubesentry-admission-events''"
  shows "\<not> in_release ns tlsSecretName ref" "ref \<notin> set (final_objects ns)"
  using assms
  by (auto simp: in_release_def admission_objects_def release_objects_def custom_kinds_def Let_def objectMeta_def namespacedMeta_def
      tls_secret_def final_objects_def)

end
