(* ===== verification/Event_Store.thy ===== *)
theory Event_Store
  imports Event_Queue
begin

text \<open>
  Admission events at the gateway: \<^verbatim>\<open>internal/gateway/admission_events.go\<close> answers a member's batch,
  \<^verbatim>\<open>internal/database/repository/admission_repo.go\<close> stores, lists and cleans up the events.

  A table is the list of its rows, in the order of their identifiers. Which statements the database
  refuses and the JSON encoding of the violations are parameters.
\<close>

section \<open>Rows and settings\<close>

record event_row =
  er_ID :: int
  er_CreatedAt :: time
  er_EventID :: string
  er_RequestUID :: string
  er_ClusterID :: int
  er_ClusterName :: string
  er_OccurredAt :: time
  er_Verdict :: string
  er_APIGroup :: string
  er_APIVersion :: string
  er_Resource :: string
  er_Operation :: string
  er_Namespace :: string
  er_ResourceName :: string
  er_Username :: string
  er_UserGroups :: "string list option"
  er_PolicyNames :: "string list option"
  er_PolicyGroupNames :: "string list option"
  er_Violations :: string
  er_MetadataSnapshot :: string
  er_SpecSnapshot :: string
  er_StoragePolicyVersion :: string

type_synonym event_table = "event_row list"

record AdmissionStoragePolicy =
  sp_Priority :: int
  sp_MatchMode :: string
  sp_Verdicts :: "string list option"
  sp_Clusters :: "string list option"
  sp_GVKs :: "string list option"
  sp_Namespaces :: "string list option"

record AdmissionEventSettings =
  as_DefaultRetentionDays :: int
  as_RetryEnabled :: bool
  as_MaxRetryAttempts :: int
  as_QueueCapacity :: int
  as_IncidentRetentionDays :: int
  as_StoragePolicyVersion :: int
  as_ObservationEnabled :: bool

abbreviation (input) day :: duration where "day \<equiv> 86400000000000"

definition nil_list :: "string list option \<Rightarrow> string list" where
  "nil_list l = (case l of None \<Rightarrow> [] | Some xs \<Rightarrow> xs)"

definition admissionRulesOf :: "AdmissionStoragePolicy list \<Rightarrow> Rule list" where
  "admissionRulesOf policies = map (\<lambda>p. \<lparr>rl_MatchMode = sp_MatchMode p, rl_Verdicts = nil_list (sp_Verdicts p),
     rl_Clusters = nil_list (sp_Clusters p), rl_GVKs = nil_list (sp_GVKs p), rl_Namespaces = nil_list (sp_Namespaces p)\<rparr>) policies"

definition storageEvent :: "event_row \<Rightarrow> Event" where
  "storageEvent e = \<lparr>ev_Verdict = er_Verdict e, ev_ClusterName = er_ClusterName e, ev_APIGroup = er_APIGroup e,
     ev_Resource = er_Resource e, ev_Namespace = er_Namespace e\<rparr>"

definition ShouldStoreAdmissionEvent :: "AdmissionStoragePolicy list \<Rightarrow> event_row \<Rightarrow> bool" where
  "ShouldStoreAdmissionEvent policies e = ShouldStore (admissionRulesOf policies) (storageEvent e)"

section \<open>Writing events\<close>

definition normalizeAdmissionJSON :: "string \<Rightarrow> string \<Rightarrow> string" where
  "normalizeAdmissionJSON value fallback = (if value = '''' \<or> TrimSpace value = ''null'' then fallback else value)"

definition not_null :: "string list option \<Rightarrow> string list option" where
  "not_null l = (case l of None \<Rightarrow> Some [] | Some xs \<Rightarrow> Some xs)"

definition normalizeAdmissionEvent :: "event_row \<Rightarrow> event_row" where
  "normalizeAdmissionEvent e = e\<lparr>er_UserGroups := not_null (er_UserGroups e), er_PolicyNames := not_null (er_PolicyNames e),
     er_PolicyGroupNames := not_null (er_PolicyGroupNames e), er_Violations := normalizeAdmissionJSON (er_Violations e) ''[]'',
     er_MetadataSnapshot := normalizeAdmissionJSON (er_MetadataSnapshot e) ''{}'',
     er_SpecSnapshot := normalizeAdmissionJSON (er_SpecSnapshot e) ''{}''\<rparr>"

text \<open>Insert-or-ignore on the unique event identifier; \<open>now\<close> and \<open>next_id\<close> are the database's.\<close>

definition insert_event :: "time \<Rightarrow> int \<Rightarrow> event_row \<Rightarrow> event_table \<Rightarrow> event_table \<times> bool" where
  "insert_event now next_id e t =
    (if er_EventID e \<in> set (map er_EventID t) then (t, False)
     else (t @ [(normalizeAdmissionEvent e)\<lparr>er_ID := next_id, er_CreatedAt := now\<rparr>], True))"

text \<open>The transaction: all rows, or none when a statement fails. \<open>fails\<close> gives the error of inserting an
  event.\<close>

fun create_events ::
  "(string \<Rightarrow> string option) \<Rightarrow> time \<Rightarrow> (event_table \<Rightarrow> int) \<Rightarrow> event_row list \<Rightarrow> event_table \<times> int \<times> int \<Rightarrow> string + event_table \<times> int \<times> int" where
  "create_events fails now newID [] st = Inr st"
| "create_events fails now newID (e # es) (t, written, duplicates) = (case fails (er_EventID e) of
      Some err \<Rightarrow> Inl err
    | None \<Rightarrow> (case insert_event now (newID t) e t of
        (t', True) \<Rightarrow> create_events fails now newID es (t', written + 1, duplicates)
      | (t', False) \<Rightarrow> create_events fails now newID es (t', written, duplicates + 1)))"

definition CreateEventsIdempotentCount ::
  "(string \<Rightarrow> string option) \<Rightarrow> time \<Rightarrow> (event_table \<Rightarrow> int) \<Rightarrow> event_row list \<Rightarrow> event_table \<Rightarrow> event_table \<times> (string + int \<times> int)" where
  "CreateEventsIdempotentCount fails now newID es t = (case create_events fails now newID es (t, 0, 0) of
      Inl err \<Rightarrow> (t, Inl err)
    | Inr (t', written, duplicates) \<Rightarrow> (t', Inr (written, duplicates)))"

section \<open>The gateway's answer to a batch\<close>

definition acceptedAdmissionEvent :: "LinkEvent \<Rightarrow> event_ack" where
  "acceptedAdmissionEvent e = \<lparr>ea_EventId = ae_EventId e, ea_Status = Some ACCEPTED, ea_Reason = '''', ea_DeliveryAttempt = ae_DeliveryAttempt e\<rparr>"

definition discardedAdmissionEvent :: "LinkEvent \<Rightarrow> string \<Rightarrow> event_ack" where
  "discardedAdmissionEvent e reason = \<lparr>ea_EventId = ae_EventId e, ea_Status = Some DISCARDED, ea_Reason = reason, ea_DeliveryAttempt = ae_DeliveryAttempt e\<rparr>"

text \<open>\<open>marshal\<close> is the JSON text of the violations. An absent time of occurrence is the zero time, an absent
  repeated field is empty on the wire and NULL in the row.\<close>

definition wire_list :: "string list \<Rightarrow> string list option" where
  "wire_list xs = (if xs = [] then None else Some xs)"

definition wire_bytes :: "string option \<Rightarrow> string" where
  "wire_bytes b = (case b of None \<Rightarrow> '''' | Some s \<Rightarrow> s)"

definition event_of :: "(string list \<Rightarrow> string) \<Rightarrow> int \<times> string \<Rightarrow> time \<Rightarrow> LinkEvent \<Rightarrow> event_row" where
  "event_of marshal cluster now e = \<lparr>er_ID = 0, er_CreatedAt = 0, er_EventID = ae_EventId e, er_RequestUID = ae_RequestUid e,
     er_ClusterID = fst cluster, er_ClusterName = snd cluster, er_OccurredAt = (if ae_OccurredAt e = 0 then now else ae_OccurredAt e),
     er_Verdict = ae_Verdict e, er_APIGroup = ae_ApiGroup e, er_APIVersion = ae_ApiVersion e, er_Resource = ae_Resource e,
     er_Operation = ae_Operation e, er_Namespace = ae_Namespace e, er_ResourceName = ae_ResourceName e, er_Username = ae_Username e,
     er_UserGroups = wire_list (ae_UserGroups e), er_PolicyNames = wire_list (ae_PolicyNames e),
     er_PolicyGroupNames = wire_list (ae_PolicyGroupNames e), er_Violations = marshal (ae_Violations e),
     er_MetadataSnapshot = wire_bytes (ae_MetadataSnapshot e), er_SpecSnapshot = wire_bytes (ae_SpecSnapshot e),
     er_StoragePolicyVersion = ae_StoragePolicyVersion e\<rparr>"

definition valid_verdict :: "LinkEvent \<Rightarrow> bool" where
  "valid_verdict e \<longleftrightarrow> ae_Verdict e = ''audit'' \<or> ae_Verdict e = ''deny''"

text \<open>One event: the answer, and the row to write.\<close>

definition judge_event ::
  "(string list \<Rightarrow> string) \<Rightarrow> int \<times> string \<Rightarrow> AdmissionEventSettings \<Rightarrow> AdmissionStoragePolicy list \<Rightarrow> time \<Rightarrow> LinkEvent \<Rightarrow> event_ack \<times> event_row option" where
  "judge_event marshal cluster settings policies now e =
    (if \<not> valid_verdict e then (discardedAdmissionEvent e ''invalid_event'', None)
     else let row = event_of marshal cluster now e
          in if \<not> ShouldStoreAdmissionEvent policies row then (discardedAdmissionEvent e ''storage_policy_no_match'', None)
             else if \<not> er_OccurredAt row + as_DefaultRetentionDays settings * day > now
               then (discardedAdmissionEvent e ''retention_already_elapsed'', None)
             else (acceptedAdmissionEvent e, Some row))"

definition ReasonInvalidEvent :: string where "ReasonInvalidEvent = ''invalid_event''"

definition judge_notes :: "bool \<Rightarrow> time \<Rightarrow> LinkEvent \<Rightarrow> tracker_op list" where
  "judge_notes observing now e =
    (if \<not> valid_verdict e \<and> observing then [TRecord ReasonBatchFailure 1 (ae_EventId e) ReasonInvalidEvent now] else [])"

definition gateway_incident :: "bool \<Rightarrow> string \<Rightarrow> int \<Rightarrow> string \<Rightarrow> time \<Rightarrow> tracker_op list" where
  "gateway_incident observing reason affected detail now = (if observing then [TRecord reason affected '''' detail now] else [])"

definition batch_events :: "LinkEvent option list \<Rightarrow> LinkEvent list" where
  "batch_events events = filter (\<lambda>e. ae_EventId e \<noteq> '''') (List.map_filter (\<lambda>e. e) events)"

record gateway_db =
  gd_cluster :: "string + int \<times> string"
  gd_settings :: "string + AdmissionEventSettings"
  gd_policies :: "string + AdmissionStoragePolicy list"
  gd_insert :: "string \<Rightarrow> string option"
  gd_newID :: "event_table \<Rightarrow> int"
  gd_marshal :: "string list \<Rightarrow> string"
  gd_observing :: bool

text \<open>The handler's result: the table, the answers (\<open>None\<close> is nil), the error, and what it records in the
  gateway's tracker.\<close>

definition handleAdmissionEventBatch ::
  "gateway_db \<Rightarrow> time \<Rightarrow> LinkEvent option list \<Rightarrow> event_table \<Rightarrow> event_table \<times> event_ack list option \<times> string option \<times> tracker_op list" where
  "handleAdmissionEventBatch db now events t =
    (let write_failed = (\<lambda>n err. gateway_incident (gd_observing db) ReasonWriteFailed n err now)
     in if events = [] then (t, Some [], None, [])
        else case gd_cluster db of
          Inl err \<Rightarrow> (t, None, Some err, [])
        | Inr cluster \<Rightarrow> (case gd_settings db of
            Inl err \<Rightarrow> (t, None, Some err, write_failed 1 err)
          | Inr settings \<Rightarrow> (case gd_policies db of
              Inl err \<Rightarrow> (t, None, Some err, write_failed 1 err)
            | Inr policies \<Rightarrow>
                (let judged = map (judge_event (gd_marshal db) cluster settings policies now) (batch_events events);
                     accepted = List.map_filter snd judged;
                     ack = map fst judged;
                     invalid = concat (map (judge_notes (gd_observing db) now) (batch_events events))
                 in case CreateEventsIdempotentCount (gd_insert db) now (gd_newID db) accepted t of
                      (t', Inl err) \<Rightarrow> (t', Some ack, Some err, invalid @ write_failed (int (length accepted)) err)
                    | (t', Inr _) \<Rightarrow> (t', Some ack, None, invalid)))))"

definition fail_accepted :: "string \<Rightarrow> event_ack \<Rightarrow> event_ack" where
  "fail_accepted reason r = (if ea_Status r = Some ACCEPTED then r\<lparr>ea_Status := Some RETRYABLE, ea_Reason := reason\<rparr> else r)"

definition retryable_event :: "string \<Rightarrow> LinkEvent \<Rightarrow> event_ack" where
  "retryable_event reason e = \<lparr>ea_EventId = ae_EventId e, ea_Status = Some RETRYABLE, ea_Reason = reason, ea_DeliveryAttempt = ae_DeliveryAttempt e\<rparr>"

definition admissionEventFailureAck :: "event_ack list option \<Rightarrow> LinkEvent option list \<Rightarrow> string \<Rightarrow> event_ack list" where
  "admissionEventFailureAck ack events reason =
    (let results = (case ack of None \<Rightarrow> [] | Some rs \<Rightarrow> rs)
     in map (fail_accepted reason) results
        @ map (retryable_event reason) (filter (\<lambda>e. ae_EventId e \<notin> set (map ea_EventId results)) (batch_events events)))"

text \<open>What the receive loop sends back.\<close>

definition answer_event_batch :: "gateway_db \<Rightarrow> time \<Rightarrow> LinkEvent option list \<Rightarrow> event_table \<Rightarrow> event_table \<times> event_ack list" where
  "answer_event_batch db now events t = (case handleAdmissionEventBatch db now events t of
      (t', ack, None, _) \<Rightarrow> (t', case ack of None \<Rightarrow> [] | Some rs \<Rightarrow> rs)
    | (t', ack, Some err, _) \<Rightarrow> (t', admissionEventFailureAck ack events ''gateway_storage_failed''))"

section \<open>Cleaning up\<close>

definition admissionCleanupBatchSize :: nat where "admissionCleanupBatchSize = 1000"
definition minAdmissionRetention :: duration where "minAdmissionRetention = day"

text \<open>One page of candidates: the rows after the cursor that are old enough, by identifier.\<close>

definition cleanup_page :: "nat \<Rightarrow> time \<Rightarrow> int \<Rightarrow> event_table \<Rightarrow> event_row list" where
  "cleanup_page limit notAfter cursor t =
     take limit (sort_key er_ID (filter (\<lambda>e. er_CreatedAt e \<le> notAfter \<and> er_ID e > cursor) t))"

definition expired_event :: "Rule list \<Rightarrow> duration \<Rightarrow> time \<Rightarrow> event_row \<Rightarrow> bool" where
  "expired_event rules retention now e \<longleftrightarrow> \<not> ShouldStore rules (storageEvent e) \<or> \<not> er_CreatedAt e + retention > now"

definition delete_rows :: "int list \<Rightarrow> event_table \<Rightarrow> event_table" where
  "delete_rows ids t = filter (\<lambda>e. er_ID e \<notin> set ids) t"

text \<open>The loop over the pages. \<open>scan\<close> and \<open>del\<close> give the error of a statement at a cursor.\<close>

function cleanup_loop ::
  "nat \<Rightarrow> (int \<Rightarrow> string option) \<Rightarrow> (int \<Rightarrow> string option) \<Rightarrow> Rule list \<Rightarrow> duration \<Rightarrow> time \<Rightarrow> time \<Rightarrow> int \<Rightarrow> int \<Rightarrow> event_table \<Rightarrow>
     event_table \<times> int \<times> string option" where
  "cleanup_loop limit scan del rules retention now notAfter cursor deleted t = (case scan cursor of
      Some err \<Rightarrow> (t, deleted, Some err)
    | None \<Rightarrow>
        (let candidates = cleanup_page limit notAfter cursor t
         in if candidates = [] then (t, deleted, None)
            else let cursor' = er_ID (last candidates);
                     expired = map er_ID (filter (expired_event rules retention now) candidates)
                 in if expired \<noteq> [] \<and> del cursor \<noteq> None then (t, deleted, del cursor)
                    else let t' = delete_rows expired t;
                             deleted' = deleted + int (length t) - int (length t')
                         in if length candidates < limit then (t', deleted', None)
                            else cleanup_loop limit scan del rules retention now notAfter cursor' deleted' t'))"
  by pat_completeness auto


lemma cleanup_page_set: "e \<in> set (cleanup_page limit notAfter cursor t) \<Longrightarrow> e \<in> set t \<and> er_CreatedAt e \<le> notAfter \<and> er_ID e > cursor"
  by (auto simp: cleanup_page_def dest: in_set_takeD)

lemma length_filter_less:
  assumes "x \<in> set t" "P x" "\<not> Q x" "\<And>y. Q y \<Longrightarrow> P y"
  shows "length (filter Q t) < length (filter P t)"
proof -
  have "length (filter Q t) \<le> length (filter P t)" for t
    using assms(4) by (induction t) (auto simp: le_SucI)
  then show ?thesis using assms(1-3)
  proof (induction t)
    case (Cons y t)
    then show ?case using assms(4) by (cases "x = y") (auto simp: less_Suc_eq_le dest: less_SucI)
  qed simp
qed

lemma delete_rows_length: "length (filter P (delete_rows ids t)) \<le> length (filter P t)"
  by (induction t) (auto simp: delete_rows_def)

termination cleanup_loop
proof (relation "measure (\<lambda>(limit, scan, del, rules, retention, now, notAfter, cursor, deleted, t). length (filter (\<lambda>e. er_ID e > cursor) t))",
    goal_cases)
  case (2 limit scan del rules retention now notAfter cursor deleted t candidates cursor' expired t' deleted')
  have last: "last candidates \<in> set t" "er_ID (last candidates) > cursor"
    using cleanup_page_set [of "last candidates" limit notAfter cursor t] 2 by auto
  have "length (filter (\<lambda>e. er_ID e > cursor') t) < length (filter (\<lambda>e. er_ID e > cursor) t)"
    by (rule length_filter_less [OF last(1)]) (use 2 last(2) in auto)
  then show ?case
    using delete_rows_length [of "\<lambda>e. er_ID e > cursor'" expired t] 2 by simp
qed simp

declare cleanup_loop.simps [simp del]

text \<open>\<^verbatim>\<open>cleanup\<close>, the routine pass and the full one.\<close>

definition cleanup ::
  "gateway_db \<Rightarrow> (int \<Rightarrow> string option) \<Rightarrow> (int \<Rightarrow> string option) \<Rightarrow> time \<Rightarrow> time \<Rightarrow> event_table \<Rightarrow> event_table \<times> int \<times> string option" where
  "cleanup db scan del now notAfter t = (case gd_settings db of
      Inl err \<Rightarrow> (t, 0, Some err)
    | Inr settings \<Rightarrow> (case gd_policies db of
        Inl err \<Rightarrow> (t, 0, Some err)
      | Inr policies \<Rightarrow> cleanup_loop admissionCleanupBatchSize scan del (admissionRulesOf policies)
          (as_DefaultRetentionDays settings * day) now notAfter 0 0 t))"

definition Cleanup :: "gateway_db \<Rightarrow> (int \<Rightarrow> string option) \<Rightarrow> (int \<Rightarrow> string option) \<Rightarrow> time \<Rightarrow> event_table \<Rightarrow> event_table \<times> int \<times> string option" where
  "Cleanup db scan del now t = cleanup db scan del now (now - minAdmissionRetention) t"

definition CleanupAll :: "gateway_db \<Rightarrow> (int \<Rightarrow> string option) \<Rightarrow> (int \<Rightarrow> string option) \<Rightarrow> time \<Rightarrow> event_table \<Rightarrow> event_table \<times> int \<times> string option" where
  "CleanupAll db scan del now t = cleanup db scan del now now t"

section \<open>Listing\<close>

record event_query =
  eq_TenantClusters :: "int list option"
  eq_ClusterNames :: "string list"
  eq_Verdicts :: "string list"
  eq_PolicyName :: string
  eq_Namespaces :: "string list"
  eq_GVKs :: "string list"
  eq_ResourceName :: string
  eq_Username :: string
  eq_From :: "time option"
  eq_To :: "time option"

text \<open>The conditions of a listing; \<open>eq_TenantClusters\<close> holds the identifiers the tenant's subquery selects.\<close>

definition in_if_any :: "string list \<Rightarrow> string \<Rightarrow> bool" where
  "in_if_any xs x \<longleftrightarrow> xs = [] \<or> x \<in> set xs"

definition event_selected :: "event_query \<Rightarrow> event_row \<Rightarrow> bool" where
  "event_selected q e \<longleftrightarrow>
     (case eq_TenantClusters q of None \<Rightarrow> True | Some ids \<Rightarrow> er_ClusterID e \<in> set ids) \<and>
     in_if_any (eq_ClusterNames q) (er_ClusterName e) \<and> in_if_any (eq_Verdicts q) (er_Verdict e) \<and>
     (eq_PolicyName q \<noteq> '''' \<longrightarrow> eq_PolicyName q \<in> set (nil_list (er_PolicyNames e))) \<and>
     in_if_any (eq_Namespaces q) (er_Namespace e) \<and>
     in_if_any (eq_GVKs q) (if er_APIGroup e = '''' then er_Resource e else er_APIGroup e @ ''/'' @ er_Resource e) \<and>
     (eq_ResourceName q \<noteq> '''' \<longrightarrow> er_ResourceName e = eq_ResourceName q) \<and>
     (eq_Username q \<noteq> '''' \<longrightarrow> er_Username e = eq_Username q) \<and>
     (case eq_From q of None \<Rightarrow> True | Some t \<Rightarrow> er_OccurredAt e \<ge> t) \<and>
     (case eq_To q of None \<Rightarrow> True | Some t \<Rightarrow> er_OccurredAt e \<le> t)"


section \<open>Answers are honest\<close>

text \<open>The rows a list of events can leave.\<close>

definition written_from :: "time \<Rightarrow> event_row list \<Rightarrow> event_row \<Rightarrow> bool" where
  "written_from now es r \<longleftrightarrow> (\<exists>e \<in> set es. \<exists>i. r = (normalizeAdmissionEvent e)\<lparr>er_ID := i, er_CreatedAt := now\<rparr>)"

lemma normalize_fields [simp]:
  "er_EventID (normalizeAdmissionEvent e) = er_EventID e" "er_ClusterID (normalizeAdmissionEvent e) = er_ClusterID e"
  "er_ClusterName (normalizeAdmissionEvent e) = er_ClusterName e"
  by (simp_all add: normalizeAdmissionEvent_def)

lemma create_events_ok:
  assumes "create_events fails now newID es (t, w, d) = Inr (t', w', d')"
  shows "\<exists>rows. t' = t @ rows \<and> list_all (written_from now es) rows \<and> w' + d' = w + d + int (length es) \<and> w' = w + int (length rows) \<and>
    set (map er_EventID t') = set (map er_EventID t) \<union> set (map er_EventID es)"
  using assms
proof (induction es arbitrary: t w d)
  case (Cons e es)
  have nofail: "fails (er_EventID e) = None" using Cons.prems by (auto split: option.splits)
  show ?case
  proof (cases "er_EventID e \<in> set (map er_EventID t)")
    case True
    then have "create_events fails now newID es (t, w, d + 1) = Inr (t', w', d')"
      using Cons.prems nofail by (simp add: insert_event_def)
    from Cons.IH [OF this] True show ?thesis
      by (auto simp: written_from_def list_all_iff)
  next
    case False
    let ?r = "(normalizeAdmissionEvent e)\<lparr>er_ID := newID t, er_CreatedAt := now\<rparr>"
    have "create_events fails now newID es (t @ [?r], w + 1, d) = Inr (t', w', d')"
      using Cons.prems nofail False by (simp add: insert_event_def)
    from Cons.IH [OF this] obtain rows where rows: "t' = (t @ [?r]) @ rows" "list_all (written_from now es) rows"
      "w' + d' = w + 1 + d + int (length es)" "w' = w + 1 + int (length rows)"
      "set (map er_EventID t') = set (map er_EventID (t @ [?r])) \<union> set (map er_EventID es)" by blast
    have "list_all (written_from now (e # es)) (?r # rows)"
      using rows(2) by (auto simp: written_from_def list_all_iff)
    then show ?thesis using rows by (intro exI [of _ "?r # rows"]) auto
  qed
qed simp

lemma judge_ids: "ea_EventId (fst (judge_event m c s p now e)) = ae_EventId e"
  by (simp add: judge_event_def Let_def discardedAdmissionEvent_def acceptedAdmissionEvent_def)

lemma judge_accepted:
  "ea_Status (fst (judge_event m c s p now e)) = Some ACCEPTED \<longleftrightarrow> snd (judge_event m c s p now e) = Some (event_of m c now e)"
  "snd (judge_event m c s p now e) = Some r \<Longrightarrow> r = event_of m c now e"
  by (auto simp: judge_event_def Let_def discardedAdmissionEvent_def acceptedAdmissionEvent_def split: if_splits)

lemma failure_ack_never_accepts: "r \<in> set (admissionEventFailureAck ack events reason) \<Longrightarrow> ea_Status r \<noteq> Some ACCEPTED"
  by (auto simp: admissionEventFailureAck_def Let_def fail_accepted_def retryable_event_def split: if_splits)

lemma failure_ack_ids:
  "set (map ea_EventId (case ack of None \<Rightarrow> [] | Some rs \<Rightarrow> rs)) \<subseteq> set (map ae_EventId (batch_events events)) \<Longrightarrow>
   set (map ea_EventId (admissionEventFailureAck ack events reason)) = set (map ae_EventId (batch_events events))"
  by (auto simp: admissionEventFailureAck_def Let_def fail_accepted_def retryable_event_def image_iff split: option.splits) force+

lemma CreateEvents_cases:
  assumes "CreateEventsIdempotentCount fails now newID es t = (t', r)"
  obtains (failed) err where "r = Inl err" "t' = t"
  | (stored) counts rows where "r = Inr counts" "t' = t @ rows" "list_all (written_from now es) rows"
      "set (map er_EventID t') = set (map er_EventID t) \<union> set (map er_EventID es)"
proof (cases "create_events fails now newID es (t, 0, 0)")
  case (Inl err)
  then show ?thesis using assms by (intro failed) (auto simp: CreateEventsIdempotentCount_def)
next
  case (Inr p)
  then obtain t1 w d where p: "create_events fails now newID es (t, 0, 0) = Inr (t1, w, d)" by (cases p) auto
  then have "r = Inr (w, d)" "t' = t1" using assms by (auto simp: CreateEventsIdempotentCount_def)
  then show ?thesis using create_events_ok [OF p] stored by blast
qed


text \<open>What the judgement of a batch hands to the repository, and what its answers say of it.\<close>

definition kept_event :: "gateway_db \<Rightarrow> time \<Rightarrow> LinkEvent \<Rightarrow> event_row \<Rightarrow> bool" where
  "kept_event db now e r \<longleftrightarrow> (\<exists>cluster settings policies. gd_cluster db = Inr cluster \<and> gd_settings db = Inr settings \<and>
     gd_policies db = Inr policies \<and> valid_verdict e \<and> ShouldStoreAdmissionEvent policies (event_of (gd_marshal db) cluster now e) \<and>
     now < er_OccurredAt r + as_DefaultRetentionDays settings * day \<and>
     er_EventID r = ae_EventId e \<and> er_ClusterID r = fst cluster \<and> er_ClusterName r = snd cluster)"

lemma judged_origin:
  assumes "row \<in> set (List.map_filter snd (map (judge_event m c s p now) es))"
  shows "\<exists>e \<in> set es. row = event_of m c now e \<and> valid_verdict e \<and> ShouldStoreAdmissionEvent p row \<and>
    now < er_OccurredAt row + as_DefaultRetentionDays s * day"
  using assms by (fastforce simp: in_set_map_filter judge_event_def Let_def split: if_splits)

lemma judged_kept:
  assumes "a \<in> set (map fst (map (judge_event m c s p now) es))" "ea_Status a = Some ACCEPTED"
  shows "ea_EventId a \<in> set (map er_EventID (List.map_filter snd (map (judge_event m c s p now) es)))"
proof -
  obtain e where e: "e \<in> set es" "a = fst (judge_event m c s p now e)" using assms(1) by auto
  then have "snd (judge_event m c s p now e) = Some (event_of m c now e)"
    using assms(2) judge_accepted(1) by blast
  then have "event_of m c now e \<in> set (List.map_filter snd (map (judge_event m c s p now) es))"
    using e(1) by (auto simp: in_set_map_filter intro: bexI [of _ e])
  then show ?thesis using e(2) by (force simp: judge_ids event_of_def)
qed

lemma handle_cases:
  assumes "handleAdmissionEventBatch db now events t = (t', ack, err, ns)" "events \<noteq> []"
  obtains (failed) reason where "err = Some reason" "t' = t"
      "set (map ea_EventId (case ack of None \<Rightarrow> [] | Some rs \<Rightarrow> rs)) \<subseteq> set (map ae_EventId (batch_events events))"
  | (stored) acks rows where "err = None" "ack = Some acks" "t' = t @ rows"
      "set (map ea_EventId acks) = set (map ae_EventId (batch_events events))"
      "\<forall>a \<in> set acks. ea_Status a = Some ACCEPTED \<longrightarrow> ea_EventId a \<in> set (map er_EventID t')"
      "\<forall>r \<in> set rows. \<exists>e \<in> set (batch_events events). kept_event db now e r"
proof (cases "\<exists>cluster settings policies. gd_cluster db = Inr cluster \<and> gd_settings db = Inr settings \<and> gd_policies db = Inr policies")
  case False
  then have "t' = t \<and> ack = None \<and> (\<exists>e. err = Some e)"
    using assms
    by (cases "gd_cluster db"; cases "gd_settings db"; cases "gd_policies db") (auto simp: handleAdmissionEventBatch_def Let_def)
  then show ?thesis using failed by auto
next
  case True
  then obtain c s p where ok: "gd_cluster db = Inr c" "gd_settings db = Inr s" "gd_policies db = Inr p" by blast
  define judged where "judged = map (judge_event (gd_marshal db) c s p now) (batch_events events)"
  define accepted where "accepted = List.map_filter snd judged"
  obtain t1 r where create: "CreateEventsIdempotentCount (gd_insert db) now (gd_newID db) accepted t = (t1, r)" by fastforce
  have ids: "set (map ea_EventId (map fst judged)) = set (map ae_EventId (batch_events events))"
    by (simp add: judged_def judge_ids image_image)
  from create show ?thesis
  proof (cases rule: CreateEvents_cases)
    case (failed err')
    then show ?thesis
      using assms create ok ids by (intro that(1)) (auto simp: handleAdmissionEventBatch_def Let_def judged_def accepted_def judge_ids)
  next
    case (stored counts rows)
    then have res: "t' = t @ rows" "ack = Some (map fst judged)" "err = None"
      using assms create ok by (auto simp: handleAdmissionEventBatch_def Let_def judged_def accepted_def judge_ids)
    have "\<exists>e \<in> set (batch_events events). kept_event db now e r" if "r \<in> set rows" for r
    proof -
      obtain row i where row: "row \<in> set accepted" "r = (normalizeAdmissionEvent row)\<lparr>er_ID := i, er_CreatedAt := now\<rparr>"
        using stored(3) \<open>r \<in> set rows\<close> by (auto simp: list_all_iff written_from_def)
      have "er_OccurredAt r = er_OccurredAt row" using row(2) by (simp add: normalizeAdmissionEvent_def)
      then show ?thesis
        using judged_origin [OF row(1) [unfolded accepted_def judged_def]] ok row(2)
        by (auto simp: kept_event_def event_of_def)
    qed
    then show ?thesis
      using res ids stored(2,4) judged_kept [of _ "gd_marshal db" c s p now "batch_events events"]
      by (intro that(2) [of "map fst judged" rows]) (auto simp: judged_def accepted_def)
  qed
qed

text \<open>C18: The gateway acknowledges an admission event as accepted only when it is stored. Every event with an
  identifier gets an answer; an accepted one has a row; existing rows are kept; each new row belongs to
  the cluster of the authenticated stream, whatever the member wrote, and comes from an event that the
  rules and the retention keep. When a statement fails nothing is written and nothing is accepted.\<close>

theorem gateway_answers_honest:
  assumes "handleAdmissionEventBatch db now events t = (t', ack, err, ns)"
    "answer_event_batch db now events t = (t', acks)" "events \<noteq> []"
  shows "set (map ea_EventId acks) = set (map ae_EventId (batch_events events)) \<and>
    (\<forall>a \<in> set acks. ea_Status a = Some ACCEPTED \<longrightarrow> ea_EventId a \<in> set (map er_EventID t') \<and> err = None) \<and>
    (err \<noteq> None \<longrightarrow> t' = t) \<and>
    (\<exists>rows. t' = t @ rows \<and> (\<forall>r \<in> set rows. \<exists>e \<in> set (batch_events events). kept_event db now e r))"
  using assms(1,3)
proof (cases rule: handle_cases)
  case (failed reason)
  then have "acks = admissionEventFailureAck ack events ''gateway_storage_failed''"
    using assms by (auto simp: answer_event_batch_def)
  then show ?thesis
    using failed failure_ack_ids [OF failed(3)] failure_ack_never_accepts [of _ ack events] by auto
next
  case (stored acks' rows)
  then have "acks = acks'" using assms by (auto simp: answer_event_batch_def)
  then show ?thesis using stored by auto
qed

section \<open>Cleaning up is exact\<close>

lemma sorted_le_last: "sorted (map f xs) \<Longrightarrow> a \<in> set xs \<Longrightarrow> f a \<le> (f (last xs) :: int)"
  by (induction xs) auto

lemma cleanup_page_mem:
  assumes "distinct (map er_ID t)" "cleanup_page limit notAfter cursor t \<noteq> []" "e \<in> set t"
  shows "e \<in> set (cleanup_page limit notAfter cursor t) \<longleftrightarrow>
    er_CreatedAt e \<le> notAfter \<and> cursor < er_ID e \<and> er_ID e \<le> er_ID (last (cleanup_page limit notAfter cursor t))"
proof -
  define xs where "xs = sort_key er_ID (filter (\<lambda>e. er_CreatedAt e \<le> notAfter \<and> er_ID e > cursor) t)"
  define page rest where "page = take limit xs" and "rest = drop limit xs"
  have page: "cleanup_page limit notAfter cursor t = page" by (simp add: cleanup_page_def page_def xs_def)
  have xs: "xs = page @ rest" by (simp add: page_def rest_def)
  have mem: "e \<in> set xs \<longleftrightarrow> er_CreatedAt e \<le> notAfter \<and> er_ID e > cursor" using assms(3) by (auto simp: xs_def)
  have "distinct (map er_ID xs)"
    using assms(1) by (auto simp: xs_def distinct_map intro: inj_on_subset)
  then have dist: "distinct (map er_ID page @ map er_ID rest)" by (simp only: xs map_append)
  have "sorted (map er_ID xs)" by (simp add: xs_def)
  then have sorted: "sorted (map er_ID page)" "\<forall>a \<in> set page. \<forall>b \<in> set rest. er_ID a \<le> er_ID b"
    unfolding xs by (auto simp: sorted_append)
  have ne: "last page \<in> set page" using assms(2) page by auto
  have "er_ID (last page) < er_ID b" if "b \<in> set rest" for b
  proof -
    have "er_ID (last page) \<in> set (map er_ID page)" "er_ID b \<in> set (map er_ID rest)" using ne that by auto
    then have "er_ID (last page) \<noteq> er_ID b" using dist by (metis disjoint_iff distinct_append)
    moreover have "er_ID (last page) \<le> er_ID b" using sorted(2) ne that by blast
    ultimately show ?thesis by simp
  qed
  then show ?thesis
    using sorted_le_last [OF sorted(1), of e] mem unfolding page xs by (auto dest: leD)
qed

definition outdated :: "Rule list \<Rightarrow> duration \<Rightarrow> time \<Rightarrow> time \<Rightarrow> event_row \<Rightarrow> bool" where
  "outdated rules retention now notAfter e \<longleftrightarrow> er_CreatedAt e \<le> notAfter \<and> expired_event rules retention now e"

lemma page_deletion:
  assumes "distinct (map er_ID t)" "cleanup_page limit notAfter cursor t = page" "page \<noteq> []"
  shows "delete_rows (map er_ID (filter (expired_event rules retention now) page)) t =
    filter (\<lambda>e. cursor < er_ID e \<and> er_ID e \<le> er_ID (last page) \<longrightarrow> \<not> outdated rules retention now notAfter e) t"
  unfolding delete_rows_def
proof (rule filter_cong [OF refl])
  fix e assume e: "e \<in> set t"
  have "e = r" if "r \<in> set page" "er_ID r = er_ID e" for r
    using assms(1,2) e that cleanup_page_set [of r limit notAfter cursor t] by (metis distinct_map inj_on_eq_iff)
  then have "er_ID e \<in> set (map er_ID (filter (expired_event rules retention now) page)) \<longleftrightarrow> e \<in> set page \<and> expired_event rules retention now e"
    by (auto simp: image_iff)
  then show "er_ID e \<notin> set (map er_ID (filter (expired_event rules retention now) page)) \<longleftrightarrow>
      (cursor < er_ID e \<and> er_ID e \<le> er_ID (last page) \<longrightarrow> \<not> outdated rules retention now notAfter e)"
    using cleanup_page_mem [of t limit notAfter cursor e] assms e by (auto simp: outdated_def)
qed

lemma short_page_complete:
  assumes "length (cleanup_page limit notAfter cursor t) < limit" "e \<in> set t" "er_CreatedAt e \<le> notAfter" "cursor < er_ID e"
  shows "e \<in> set (cleanup_page limit notAfter cursor t)"
  using assms by (auto simp: cleanup_page_def)

definition trimmed :: "(event_row \<Rightarrow> bool) \<Rightarrow> event_table \<Rightarrow> event_table \<Rightarrow> bool" where
  "trimmed P t t' \<longleftrightarrow> (\<exists>Q. t' = filter Q t \<and> (\<forall>e \<in> set t. \<not> Q e \<longrightarrow> P e))"

lemma trimmed_refl: "trimmed P t t"
  by (auto simp: trimmed_def intro: exI [of _ "\<lambda>_. True"])

lemma trimmed_filter: "(\<And>e. e \<in> set t \<Longrightarrow> \<not> Q e \<Longrightarrow> P e) \<Longrightarrow> trimmed P t (filter Q t)"
  by (auto simp: trimmed_def)

lemma trimmed_trans:
  assumes "trimmed P t t1" "trimmed P t1 t2"
  shows "trimmed P t t2"
proof -
  obtain Q1 Q2 where "t1 = filter Q1 t" "\<forall>e \<in> set t. \<not> Q1 e \<longrightarrow> P e" "t2 = filter Q2 t1" "\<forall>e \<in> set t1. \<not> Q2 e \<longrightarrow> P e"
    using assms by (auto simp: trimmed_def)
  then show ?thesis unfolding trimmed_def by (intro exI [of _ "\<lambda>e. Q1 e \<and> Q2 e"]) auto
qed

lemma page_trims:
  assumes "distinct (map er_ID t)" "cleanup_page limit notAfter cursor t = page" "page \<noteq> []"
    "t1 = delete_rows (map er_ID (filter (expired_event rules retention now) page)) t"
  shows "trimmed (outdated rules retention now notAfter) t t1"
    "distinct (map er_ID t1)"
    "filter (\<lambda>e. er_ID (last page) < er_ID e \<longrightarrow> \<not> outdated rules retention now notAfter e) t1 =
     filter (\<lambda>e. cursor < er_ID e \<longrightarrow> \<not> outdated rules retention now notAfter e) t"
    "length page < limit \<Longrightarrow> t1 = filter (\<lambda>e. cursor < er_ID e \<longrightarrow> \<not> outdated rules retention now notAfter e) t"
proof -
  let ?out = "outdated rules retention now notAfter"
  have t1: "t1 = filter (\<lambda>e. cursor < er_ID e \<and> er_ID e \<le> er_ID (last page) \<longrightarrow> \<not> ?out e) t"
    unfolding assms(4) by (rule page_deletion) (use assms in auto)
  show "trimmed ?out t t1" unfolding t1 by (rule trimmed_filter) auto
  show "distinct (map er_ID t1)" unfolding t1 using assms(1) by (simp add: distinct_map_filter)
  have "cursor < er_ID (last page)"
    using cleanup_page_set [of "last page" limit notAfter cursor t] assms(2,3) by simp
  then show "filter (\<lambda>e. er_ID (last page) < er_ID e \<longrightarrow> \<not> ?out e) t1 = filter (\<lambda>e. cursor < er_ID e \<longrightarrow> \<not> ?out e) t"
    unfolding t1 filter_filter by (intro filter_cong) auto
  show "t1 = filter (\<lambda>e. cursor < er_ID e \<longrightarrow> \<not> ?out e) t" if short: "length page < limit"
  proof -
    have "er_ID e \<le> er_ID (last page)" if "e \<in> set t" "er_CreatedAt e \<le> notAfter" "cursor < er_ID e" for e
      using short_page_complete [of limit notAfter cursor t e] cleanup_page_mem [of t limit notAfter cursor e] assms short that by simp
    then show ?thesis unfolding t1 by (intro filter_cong) (auto simp: outdated_def)
  qed
qed

lemma cleanup_loop_exact:
  assumes "cleanup_loop limit scan del rules retention now notAfter cursor deleted t = (t', n, err)"
    "distinct (map er_ID t)" "limit > 0"
  shows "trimmed (outdated rules retention now notAfter) t t' \<and> n = deleted + int (length t) - int (length t') \<and>
    (err = None \<longrightarrow> t' = filter (\<lambda>e. cursor < er_ID e \<longrightarrow> \<not> outdated rules retention now notAfter e) t)"
  using assms
proof (induction limit scan del rules retention now notAfter cursor deleted t arbitrary: t' n err rule: cleanup_loop.induct)
  case (1 limit scan del rules retention now notAfter cursor deleted t)
  let ?out = "outdated rules retention now notAfter"
  define page where "page = cleanup_page limit notAfter cursor t"
  define gone where "gone = map er_ID (filter (expired_event rules retention now) page)"
  define t1 where "t1 = delete_rows gone t"
  note step = 1(2) [unfolded cleanup_loop.simps [of limit scan del rules retention now notAfter cursor deleted t] Let_def,
      folded page_def, folded gone_def, folded t1_def]
  note t1 = page_trims [OF 1(3) page_def [symmetric] _ t1_def [unfolded gone_def]]
  consider (scan) err' where "scan cursor = Some err'" | (empty) "scan cursor = None" "page = []"
    | (del) err' where "scan cursor = None" "page \<noteq> []" "gone \<noteq> []" "del cursor = Some err'"
    | (short) "scan cursor = None" "page \<noteq> []" "gone = [] \<or> del cursor = None" "length page < limit"
    | (full) "scan cursor = None" "page \<noteq> []" "gone = [] \<or> del cursor = None" "\<not> length page < limit" by blast
  then show ?case
  proof cases
    case empty
    have "\<not> (er_CreatedAt e \<le> notAfter \<and> cursor < er_ID e)" if "e \<in> set t" for e
      using short_page_complete [of limit notAfter cursor t e] empty(2) 1(4) that by (auto simp: page_def)
    then have "filter (\<lambda>e. cursor < er_ID e \<longrightarrow> \<not> ?out e) t = t" by (auto simp: outdated_def intro: filter_True)
    then show ?thesis using step empty by (simp add: trimmed_refl)
  next
    case short
    then have "t' = t1" "n = deleted + int (length t) - int (length t1)" using step by auto
    then show ?thesis using t1(1) t1(4) short by simp
  next
    case full
    then have "cleanup_loop limit scan del rules retention now notAfter (er_ID (last page)) (deleted + int (length t) - int (length t1)) t1 = (t', n, err)"
      using step by auto
    from 1(1) [OF full(1) page_def full(2) refl gone_def _ t1_def refl full(4) this t1(2) 1(4)] full(2,3) t1(1,3)
    show ?thesis by (auto intro: trimmed_trans)
  qed (use step in \<open>auto simp: trimmed_refl\<close>)
qed

text \<open>C32: A cleanup pass deletes exactly the events that are outdated. Over a table with distinct positive
  identifiers, a pass that reports no error leaves the rows that are younger than the shortest retention
  or that the rules and the retention still keep, in order, however many pages it takes; a pass stopped by
  an error has only deleted outdated rows. The count it returns is the number of rows it deleted, and an
  event of the last day always survives.\<close>

theorem Cleanup_exact:
  assumes "Cleanup db scan del now t = (t', n, err)" "gd_settings db = Inr settings" "gd_policies db = Inr policies"
    "distinct (map er_ID t)" "list_all (\<lambda>e. 0 < er_ID e) t"
  shows "trimmed (outdated (admissionRulesOf policies) (as_DefaultRetentionDays settings * day) now (now - minAdmissionRetention)) t t' \<and>
    (err = None \<longrightarrow> t' = filter (\<lambda>e. \<not> outdated (admissionRulesOf policies) (as_DefaultRetentionDays settings * day) now (now - minAdmissionRetention) e) t) \<and>
    n = int (length t) - int (length t') \<and>
    (\<forall>e \<in> set t. now - minAdmissionRetention < er_CreatedAt e \<longrightarrow> e \<in> set t')"
proof -
  let ?out = "outdated (admissionRulesOf policies) (as_DefaultRetentionDays settings * day) now (now - minAdmissionRetention)"
  have "cleanup_loop admissionCleanupBatchSize scan del (admissionRulesOf policies)
      (as_DefaultRetentionDays settings * day) now (now - minAdmissionRetention) 0 0 t = (t', n, err)"
    using assms(1-3) by (simp add: Cleanup_def cleanup_def)
  from cleanup_loop_exact [OF this assms(4)]
  have *: "trimmed ?out t t'" "n = int (length t) - int (length t')" "err = None \<longrightarrow> t' = filter (\<lambda>e. 0 < er_ID e \<longrightarrow> \<not> ?out e) t"
    by (simp_all add: admissionCleanupBatchSize_def)
  have "filter (\<lambda>e. 0 < er_ID e \<longrightarrow> \<not> ?out e) t = filter (\<lambda>e. \<not> ?out e) t"
    using assms(5) by (intro filter_cong) (auto simp: list_all_iff)
  moreover have "e \<in> set t'" if "e \<in> set t" "now - minAdmissionRetention < er_CreatedAt e" for e
    using *(1) that by (auto simp: trimmed_def outdated_def)
  ultimately show ?thesis using * by auto
qed

section \<open>From the member's queue to the table\<close>

lemma accepted_is_stored:
  assumes "answer_event_batch db now events t = (t', acks)" "a \<in> set acks" "ea_Status a = Some ACCEPTED"
  shows "ea_EventId a \<in> set (map er_EventID t')"
proof (cases "events = []")
  case True
  then show ?thesis using assms by (simp add: answer_event_batch_def handleAdmissionEventBatch_def)
next
  case False
  obtain t1 ack err ns where h: "handleAdmissionEventBatch db now events t = (t1, ack, err, ns)" by (metis prod_cases4)
  from h False show ?thesis
  proof (cases rule: handle_cases)
    case (failed reason)
    then have "acks = admissionEventFailureAck ack events ''gateway_storage_failed''"
      using assms(1) h by (auto simp: answer_event_batch_def)
    then show ?thesis using failure_ack_never_accepts assms(2,3) by blast
  next
    case (stored acks' rows)
    then show ?thesis using assms h by (auto simp: answer_event_batch_def)
  qed
qed

text \<open>C29: An admission event leaves a member's queue on the gateway's answer only when it is stored, when the
  gateway judged it not worth storing, or when its retries ran out, which is recorded as an incident.
  Nothing is lost between the two queues, whatever the batch and whichever statements fail.\<close>

theorem event_reaches_table:
  assumes "answer_event_batch db now events t = (t', acks)" "link_exec clk (OAck acks) l = (l', ns)"
    "queued_in l k" "\<not> queued_in l' k"
  shows "k \<in> set (map er_EventID t') \<or> exhausted k ns \<or> (\<exists>a \<in> set acks. ea_EventId a = k \<and> ea_Status a = Some DISCARDED)"
proof -
  have "ackAdmissionEvents clk acks l = (l', ns)" using assms(2) by simp
  from ack_fate [OF assms(3) this] assms(4) have "exhausted k ns \<or> (\<exists>r \<in> set acks. ea_EventId r = k \<and> terminal_status (ea_Status r))"
    by blast
  then show ?thesis using accepted_is_stored [OF assms(1)] by (auto simp: terminal_status_def)
qed

section \<open>Stored events: examples\<close>

definition ex_gateway_db :: gateway_db where
  "ex_gateway_db = \<lparr>gd_cluster = Inr (7, ''prod''), gd_settings = Inr \<lparr>as_DefaultRetentionDays = 2, as_RetryEnabled = True,
     as_MaxRetryAttempts = 3, as_QueueCapacity = 1024, as_IncidentRetentionDays = 7, as_StoragePolicyVersion = 1, as_ObservationEnabled = True\<rparr>,
     gd_policies = Inr [], gd_insert = (\<lambda>_. None), gd_newID = (\<lambda>t. int (length t) + 1), gd_marshal = (\<lambda>_. ''[]''), gd_observing = True\<rparr>"

definition ex_batch :: "LinkEvent option list" where
  "ex_batch = [Some (ex_link_event ''a''), None, Some ((ex_link_event ''b'')\<lparr>ae_Verdict := ''maybe''\<rparr>), Some (ex_link_event ''a'')]"

definition ex_table :: event_table where
  "ex_table = fst (answer_event_batch ex_gateway_db 10 ex_batch [])"

theorem gateway_answers_honest_witness:
  "ea_EventId ` set (snd (answer_event_batch ex_gateway_db 10 ex_batch [])) = {''a'', ''b''} \<and> map er_EventID ex_table = [''a'']"
proof -
  obtain t' ack err ns where h: "handleAdmissionEventBatch ex_gateway_db 10 ex_batch [] = (t', ack, err, ns)" by (metis prod_cases4)
  have "fst (answer_event_batch ex_gateway_db 10 ex_batch []) = t'"
    using h by (auto simp: answer_event_batch_def split: option.splits)
  then have a: "answer_event_batch ex_gateway_db 10 ex_batch [] = (t', snd (answer_event_batch ex_gateway_db 10 ex_batch []))"
    by (simp add: prod_eq_iff)
  have "set (map ae_EventId (batch_events ex_batch)) = {''a'', ''b''}" "ex_batch \<noteq> []" by code_simp+
  moreover have "map er_EventID ex_table = [''a'']" by code_simp
  ultimately show ?thesis using gateway_answers_honest [OF h a] by simp
qed

theorem Cleanup_exact_witness:
  "Cleanup ex_gateway_db (\<lambda>_. None) (\<lambda>_. None) (10 + 3 * day) ex_table = ([], 1, None)"
proof -
  let ?r = "Cleanup ex_gateway_db (\<lambda>_. None) (\<lambda>_. None) (10 + 3 * day) ex_table"
  obtain t' n err where r: "?r = (t', n, err)" by (metis prod_cases3)
  have pre: "distinct (map er_ID ex_table)" "list_all (\<lambda>e. 0 < er_ID e) ex_table" "length ex_table = 1" by code_simp+
  have "snd (snd ?r) = None" by code_simp
  then have ok: "err = None" using r by simp
  obtain s p where sp: "gd_settings ex_gateway_db = Inr s" "gd_policies ex_gateway_db = Inr p" by (simp add: ex_gateway_db_def)
  have "list_all (outdated [] (2 * day) (10 + 3 * day) (10 + 2 * day)) ex_table" by code_simp
  then have "filter (\<lambda>e. \<not> outdated (admissionRulesOf p) (as_DefaultRetentionDays s * day) (10 + 3 * day) (10 + 3 * day - minAdmissionRetention) e) ex_table = []"
    using sp by (auto simp: ex_gateway_db_def filter_empty_conv list_all_iff minAdmissionRetention_def admissionRulesOf_def)
  then show ?thesis using Cleanup_exact [OF r sp pre(1,2)] ok pre(3) r by simp
qed

theorem event_reaches_table_witness:
  "''a'' \<in> set (map er_EventID ex_table) \<or>
   exhausted ''a'' (snd (link_exec (\<lambda>_. 99) (OAck [\<lparr>ea_EventId = ''a'', ea_Status = Some ACCEPTED, ea_Reason = '''', ea_DeliveryAttempt = 1\<rparr>]) ex_link))"
proof -
  let ?acks = "[\<lparr>ea_EventId = ''a'', ea_Status = Some ACCEPTED, ea_Reason = '''', ea_DeliveryAttempt = 1\<rparr>]"
  let ?sent = "[Some ((ex_link_event ''a'')\<lparr>ae_DeliveryAttempt := 1\<rparr>)]"
  let ?op = "link_exec (\<lambda>_. 99) (OAck ?acks) ex_link"
  have a: "answer_event_batch ex_gateway_db 10 ?sent [] = (ex_table, ?acks)" by code_simp
  have "queued_in ex_link ''a''" "\<not> queued_in (fst ?op) ''a''" by code_simp+
  then show ?thesis using event_reaches_table [OF a, of "\<lambda>_. 99" ex_link "fst ?op" "snd ?op" "''a''"] by simp
qed

end
