(* ===== verification/Console_Access.thy ===== *)
theory Console_Access
  imports Go_Time "HOL-Library.Multiset"
begin

text \<open>
  Who may see and change what in the console (\<^verbatim>\<open>internal/console/service/authorization.go\<close>, the principal of
  \<^verbatim>\<open>internal/database/repository/models.go\<close>), and the paging every listing shares
  (\<^verbatim>\<open>internal/database/repository/pagination.go\<close>).
\<close>

section \<open>Principals\<close>

definition RoleSystemAdmin :: string where "RoleSystemAdmin = ''system_admin''"
definition RoleTenantAdmin :: string where "RoleTenantAdmin = ''tenant_admin''"
definition RoleViewer :: string where "RoleViewer = ''viewer''"

lemmas role_defs = RoleSystemAdmin_def RoleTenantAdmin_def RoleViewer_def

record Principal =
  pr_UserID :: int
  pr_Username :: string
  pr_Role :: string
  pr_TenantID :: "int option"
  pr_LastLoginAt :: "time option"
  pr_PasswordExpiresAt :: "time option"
  pr_MustChangePassword :: bool

datatype service_error =
    ErrForbidden | ErrNotFound | ErrUnavailable | ValidationError string | StorageError string
  | ErrIdentityNotFound | ErrInvalidIdentity | ErrDefaultAdmin | ErrLastSystemAdmin | ErrInvalidCredentials | ErrInvalidPassword
  | ErrAlreadyInitialized | ErrAuthentication | ErrActivationInvalid | ErrAccountLocked | ErrPasswordReused
  | ErrCurrentPasswordIncorrect | ErrInactiveSession | ErrRecordNotFound | ErrUniqueViolation | ErrConflict | ConflictError string

text \<open>The context carries a principal or none.\<close>

definition requestPrincipal :: "Principal option \<Rightarrow> Principal" where
  "requestPrincipal ctx = (case ctx of Some p \<Rightarrow> p
    | None \<Rightarrow> \<lparr>pr_UserID = 0, pr_Username = '''', pr_Role = RoleSystemAdmin, pr_TenantID = None, pr_LastLoginAt = None,
        pr_PasswordExpiresAt = None, pr_MustChangePassword = False\<rparr>)"

definition requireSystemAdmin :: "Principal option \<Rightarrow> service_error option" where
  "requireSystemAdmin ctx = (if pr_Role (requestPrincipal ctx) \<noteq> RoleSystemAdmin then Some ErrForbidden else None)"

definition requireEditor :: "Principal option \<Rightarrow> service_error option" where
  "requireEditor ctx = (if pr_Role (requestPrincipal ctx) = RoleViewer then Some ErrForbidden else None)"

definition ownerSystem :: string where "ownerSystem = ''system''"
definition ownerTenant :: string where "ownerTenant = ''tenant''"

definition authorizeOwner :: "Principal option \<Rightarrow> string \<Rightarrow> int option \<Rightarrow> service_error option" where
  "authorizeOwner ctx ownerType tenantID =
    (let principal = requestPrincipal ctx
     in if pr_Role principal = RoleSystemAdmin then None
        else if pr_Role principal \<noteq> RoleTenantAdmin \<or> ownerType \<noteq> ownerTenant \<or> pr_TenantID principal = None \<or> tenantID = None
          \<or> pr_TenantID principal \<noteq> tenantID then Some ErrForbidden
        else None)"

definition visibleTo :: "Principal option \<Rightarrow> string \<Rightarrow> int option \<Rightarrow> bool" where
  "visibleTo ctx ownerType tenantID =
    (let principal = requestPrincipal ctx
     in pr_Role principal = RoleSystemAdmin \<or> ownerType = ownerSystem
        \<or> (pr_TenantID principal \<noteq> None \<and> tenantID \<noteq> None \<and> pr_TenantID principal = tenantID))"

text \<open>The owner of a row is consistent: a tenant's row names its tenant, a system row none. Whoever may change a
  row may see it, and a tenant's principal never changes a system row or another tenant's.\<close>

lemma authorizeOwner_visible:
  "authorizeOwner ctx ownerType tenantID = None \<Longrightarrow> visibleTo ctx ownerType tenantID"
  by (auto simp: authorizeOwner_def visibleTo_def Let_def split: if_splits)

lemma authorizeOwner_confined:
  assumes "authorizeOwner (Some p) ownerType tenantID = None" "pr_Role p \<noteq> RoleSystemAdmin"
  shows "pr_Role p = RoleTenantAdmin \<and> ownerType = ownerTenant \<and> tenantID = pr_TenantID p \<and> tenantID \<noteq> None"
  using assms by (auto simp: authorizeOwner_def requestPrincipal_def Let_def split: if_splits)

section \<open>Pages\<close>

text \<open>Ordering by a column, ascending or descending; both keep the order of equal rows, so that ordering by the
  tie-breaker first and by the column next is what \<^verbatim>\<open>ORDER BY column, tie-breaker\<close> gives.\<close>

definition order_by :: "('a \<Rightarrow> 'k::linorder) \<Rightarrow> bool \<Rightarrow> 'a list \<Rightarrow> 'a list" where
  "order_by key desc rows = (if desc then rev (sort_key key (rev rows)) else sort_key key rows)"

record PageOptions =
  po_Limit :: int
  po_Offset :: int
  po_SortBy :: string
  po_Desc :: bool

text \<open>\<open>rows\<close> are the rows the base query selects, \<open>tiebreak\<close> their order by the tie-breaker. \<open>count_err\<close> and \<open>find_err\<close> are the
  errors of the two statements.\<close>

definition queryPage ::
  "string option \<Rightarrow> string option \<Rightarrow> PageOptions \<Rightarrow> (string \<times> ('a \<Rightarrow> 'k::linorder)) list \<Rightarrow> ('a list \<Rightarrow> 'a list) \<Rightarrow> 'a list \<Rightarrow>
     string + 'a list \<times> int" where
  "queryPage count_err find_err options sortFields tiebreak rows =
    (if po_Limit options < 1 \<or> po_Limit options > 100 then Inl ''invalid page limit''
     else if po_Offset options < 0 then Inl ''invalid page offset''
     else case map_of sortFields (po_SortBy options) of
       None \<Rightarrow> Inl ''invalid sort field''
     | Some key \<Rightarrow> (case count_err of
         Some err \<Rightarrow> Inl err
       | None \<Rightarrow> (case find_err of
           Some err \<Rightarrow> Inl err
         | None \<Rightarrow> Inr (take (nat (po_Limit options)) (drop (nat (po_Offset options)) (order_by key (po_Desc options) (tiebreak rows))),
             int (length rows)))))"

lemma order_by_perm: "mset (order_by key desc rows) = mset rows"
  by (simp add: order_by_def)

lemma order_by_sorted: "if desc then sorted (rev (map key (order_by key desc rows))) else sorted (map key (order_by key desc rows))"
  by (simp add: order_by_def rev_map)

lemma concat_pages: "psize > 0 \<Longrightarrow> concat (map (\<lambda>p. take psize (drop (p * psize) xs)) [0..<n]) = take (n * psize) xs"
proof (induction n)
  case (Suc n)
  have "take (n * psize + psize) xs = take (n * psize) xs @ take psize (drop (n * psize) xs)" by (rule take_add)
  then show ?case using Suc by (simp add: add.commute)
qed simp

definition page_at :: "int \<Rightarrow> nat \<Rightarrow> string \<Rightarrow> bool \<Rightarrow> PageOptions" where
  "page_at psize p sortBy desc = \<lparr>po_Limit = psize, po_Offset = int p * psize, po_SortBy = sortBy, po_Desc = desc\<rparr>"

text \<open>Paging neither loses nor repeats a row: the pages of a listing, laid end to end, are the selected rows
  in the requested order, whatever the page size, as soon as there are enough pages for the total that
  every page reports.\<close>

theorem pages_partition:
  assumes "1 \<le> psize" "psize \<le> 100" "map_of sortFields sortBy = Some key" "int (length rows) \<le> int n * psize"
    "mset (tiebreak rows) = mset rows"
  shows "\<exists>pages. map (\<lambda>p. queryPage None None (page_at psize p sortBy desc) sortFields tiebreak rows) [0..<n]
       = map (\<lambda>items. Inr (items, int (length rows))) pages \<and>
     concat pages = order_by key desc (tiebreak rows) \<and> mset (concat pages) = mset rows"
proof (intro exI conjI)
  let ?pages = "map (\<lambda>p. take (nat psize) (drop (p * nat psize) (order_by key desc (tiebreak rows)))) [0..<n]"
  have "nat (int p * psize) = p * nat psize" "\<not> int p * psize < 0" for p using assms(1) by (simp_all add: nat_mult_distrib not_less)
  then show "map (\<lambda>p. queryPage None None (page_at psize p sortBy desc) sortFields tiebreak rows) [0..<n]
      = map (\<lambda>items. Inr (items, int (length rows))) ?pages"
    using assms(1-3) by (simp add: queryPage_def page_at_def)
  have len: "length (order_by key desc (tiebreak rows)) = length rows" using assms(5) by (metis order_by_perm size_mset)
  have "int (length rows) \<le> int (n * nat psize)" using assms(1,4) by simp
  then have "length rows \<le> n * nat psize" by linarith
  then show "concat ?pages = order_by key desc (tiebreak rows)" using assms(1) len by (simp add: concat_pages)
  then show "mset (concat ?pages) = mset rows" using assms(5) by (simp add: order_by_perm)
qed

theorem pages_partition_witness:
  "map (\<lambda>p. queryPage None None (page_at 2 p ''k'' True) [(''k'', \<lambda>x::int. x)] (\<lambda>r. r) [5, 9, 7]) [0..<2] = [Inr ([9, 7], 3), Inr ([5], 3)]"
proof -
  have "map_of [(''k'', \<lambda>x::int. x)] ''k'' = Some (\<lambda>x. x)" by simp
  from pages_partition [OF _ _ this, of 2 "[5, 9, 7]" 2 "\<lambda>r. r" True]
  obtain pages where "map (\<lambda>p. queryPage None None (page_at 2 p ''k'' True) [(''k'', \<lambda>x::int. x)] (\<lambda>r. r) [5, 9, 7]) [0..<2]
      = map (\<lambda>items. Inr (items, 3)) pages" by auto
  moreover have "map (\<lambda>p. queryPage None None (page_at 2 p ''k'' True) [(''k'', \<lambda>x::int. x)] (\<lambda>r. r) [5, 9, 7]) [0..<2] = [Inr ([9, 7], 3), Inr ([5], 3)]"
    by code_simp
  ultimately show ?thesis by simp
qed

end
