(* ===== verification/Incident_Store.thy ===== *)
theory Incident_Store
  imports Event_Store Link_Incidents Console_Access
begin

text \<open>
  Link incidents at the gateway and in the console: \<^verbatim>\<open>internal/gateway/observability_reports.go\<close> answers a member's
  batch and flushes the gateway's own incidents, \<^verbatim>\<open>internal/database/repository/observability_repo.go\<close> merges,
  lists and cleans up the rows, \<^verbatim>\<open>internal/console/service/incident.go\<close> shows them.

  The gateway's \<^verbatim>\<open>incidentModel\<close>, \<^verbatim>\<open>linkIncidentACK\<close>, \<^verbatim>\<open>incidentIdentity\<close> and \<^verbatim>\<open>incidentRevision\<close> are the operator's, line
  for line, and are modelled there. All times are instants, so that conversions to UTC change nothing.
\<close>

section \<open>Rows\<close>

record incident_row =
  ir_ID :: int
  ir_ClusterID :: int
  ir_ClusterName :: string
  ir_IncidentKey :: string
  ir_ReporterInstanceID :: string
  ir_Component :: string
  ir_Reason :: string
  ir_StartedAt :: time
  ir_LastSeenAt :: time
  ir_AffectedCount :: int
  ir_SampleEventIDs :: "string list"
  ir_Detail :: string
  ir_Closed :: bool
  ir_FirstReceivedAt :: time
  ir_LastReceivedAt :: time

type_synonym incident_table = "incident_row list"

definition maxTime :: "time \<Rightarrow> time \<Rightarrow> time" where
  "maxTime left right = (if right > left then right else left)"

definition new_incident_row :: "int \<Rightarrow> int \<Rightarrow> string \<Rightarrow> Incident \<Rightarrow> time \<Rightarrow> incident_row" where
  "new_incident_row newID clusterID clusterName i receivedAt =
    \<lparr>ir_ID = newID, ir_ClusterID = clusterID, ir_ClusterName = clusterName, ir_IncidentKey = ic_IncidentKey i,
     ir_ReporterInstanceID = ic_ReporterInstanceID i, ir_Component = ic_Component i, ir_Reason = ic_Reason i,
     ir_StartedAt = ic_StartedAt i, ir_LastSeenAt = ic_LastSeenAt i, ir_AffectedCount = ic_AffectedCount i,
     ir_SampleEventIDs = ic_SampleEventIDs i, ir_Detail = ic_Detail i, ir_Closed = ic_Closed i,
     ir_FirstReceivedAt = receivedAt, ir_LastReceivedAt = receivedAt\<rparr>"

definition merge_incident :: "string \<Rightarrow> Incident \<Rightarrow> time \<Rightarrow> incident_row \<Rightarrow> incident_row" where
  "merge_incident clusterName i receivedAt stored =
    (let merged = stored\<lparr>ir_ClusterName := clusterName, ir_ReporterInstanceID := ic_ReporterInstanceID i,
           ir_AffectedCount := max (ir_AffectedCount stored) (ic_AffectedCount i),
           ir_LastSeenAt := maxTime (ir_LastSeenAt stored) (ic_LastSeenAt i),
           ir_LastReceivedAt := maxTime (ir_LastReceivedAt stored) receivedAt,
           ir_SampleEventIDs := MergeSampleEventIDs (ir_SampleEventIDs stored) (ic_SampleEventIDs i),
           ir_Closed := ir_Closed stored \<or> ic_Closed i\<rparr>
     in if \<not> ic_LastSeenAt i < ir_LastSeenAt stored then merged\<lparr>ir_Detail := ic_Detail i\<rparr> else merged)"

definition same_incident :: "int \<Rightarrow> string \<Rightarrow> incident_row \<Rightarrow> bool" where
  "same_incident clusterID key r \<longleftrightarrow> ir_ClusterID r = clusterID \<and> ir_IncidentKey r = key"

text \<open>\<open>fails\<close> is the error of the transaction, which leaves the table as it was; \<open>newID\<close> the fresh identifier.\<close>

definition Upsert ::
  "string option \<Rightarrow> int \<Rightarrow> int \<Rightarrow> string \<Rightarrow> Incident \<Rightarrow> time \<Rightarrow> incident_table \<Rightarrow> incident_table \<times> string option" where
  "Upsert fails newID clusterID clusterName i receivedAt t = (case Incident_Validate i of
      Some err \<Rightarrow> (t, Some err)
    | None \<Rightarrow> (case fails of
        Some err \<Rightarrow> (t, Some err)
      | None \<Rightarrow>
          (if list_ex (same_incident clusterID (ic_IncidentKey i)) t
           then (map (\<lambda>r. if same_incident clusterID (ic_IncidentKey i) r then merge_incident clusterName i receivedAt r else r) t, None)
           else (t @ [new_incident_row newID clusterID clusterName i receivedAt], None))))"

section \<open>The gateway's answers\<close>

definition maxMemberClockLead :: duration where "maxMemberClockLead = 5 * 60 * second"

definition clamp_start :: "time \<Rightarrow> Incident \<Rightarrow> Incident" where
  "clamp_start receivedAt i =
    (if ic_StartedAt i > receivedAt + maxMemberClockLead then i\<lparr>ic_StartedAt := receivedAt\<rparr> else i)"

definition clamp_seen :: "time \<Rightarrow> Incident \<Rightarrow> Incident" where
  "clamp_seen receivedAt i =
    (if ic_LastSeenAt i > receivedAt + maxMemberClockLead then i\<lparr>ic_LastSeenAt := receivedAt\<rparr> else i)"

definition order_times :: "Incident \<Rightarrow> Incident" where
  "order_times i = (if ic_LastSeenAt i < ic_StartedAt i then i\<lparr>ic_StartedAt := ic_LastSeenAt i\<rparr> else i)"

definition incidentFromProto :: "LinkIncident option \<Rightarrow> time \<Rightarrow> string + Incident" where
  "incidentFromProto wire receivedAt = (case incidentModel wire of
      Inl err \<Rightarrow> Inl err
    | Inr model \<Rightarrow>
        (let i = order_times (clamp_seen receivedAt (clamp_start receivedAt model))
         in case Incident_Validate i of Some err \<Rightarrow> Inl err | None \<Rightarrow> Inr i))"

text \<open>What the handler sees of the database: the settings (no repository is \<open>None\<close>), whether the incident and
  cluster repositories are there, the stream's cluster, and the error of each write.\<close>

record incident_env =
  ie_settings :: "(string + AdmissionEventSettings) option"
  ie_present :: bool
  ie_cluster :: "string + int \<times> string"
  ie_upsert :: "string \<Rightarrow> string option"
  ie_newID :: "incident_table \<Rightarrow> int"
  ie_observing :: bool

definition store_incident ::
  "incident_env \<Rightarrow> int \<times> string \<Rightarrow> time \<Rightarrow> LinkIncident option \<Rightarrow> incident_table \<Rightarrow> incident_table \<times> incident_ack \<times> tracker_op list" where
  "store_incident env cluster now wire t =
    (case incidentFromProto wire now of
      Inl err \<Rightarrow> (t, linkIncidentACK (incidentIdentity wire) (incidentRevision wire) DISCARDED ReasonInvalidReport, [])
    | Inr model \<Rightarrow>
        (if \<not> Component_ValidMember (ic_Component model)
         then (t, linkIncidentACK (incidentIdentity wire) (incidentRevision wire) DISCARDED ReasonInvalidReport, [])
         else case Upsert (ie_upsert env (ic_IncidentKey model)) (ie_newID env t) (fst cluster) (snd cluster) model now t of
           (t', Some err) \<Rightarrow> (t', linkIncidentACK (ic_IncidentKey model) (ic_Revision model) RETRYABLE ReasonWriteFailed,
             gateway_incident (ie_observing env) ReasonWriteFailed 1 err now)
         | (t', None) \<Rightarrow> (t', linkIncidentACK (ic_IncidentKey model) (ic_Revision model) ACCEPTED '''', [])))"

fun store_incidents ::
  "incident_env \<Rightarrow> int \<times> string \<Rightarrow> time \<Rightarrow> LinkIncident option list \<Rightarrow> incident_table \<Rightarrow> incident_table \<times> incident_ack list \<times> tracker_op list" where
  "store_incidents env cluster now [] t = (t, [], [])"
| "store_incidents env cluster now (wire # ws) t =
    (let (t1, ack, ns1) = store_incident env cluster now wire t;
         (t2, acks, ns2) = store_incidents env cluster now ws t1
     in (t2, ack # acks, ns1 @ ns2))"

definition handleLinkIncidentBatch ::
  "incident_env \<Rightarrow> time \<Rightarrow> LinkIncident option list \<Rightarrow> incident_table \<Rightarrow> incident_table \<times> incident_ack list \<times> tracker_op list" where
  "handleLinkIncidentBatch env now incidents t =
    (if incidents = [] then (t, [], [])
     else if length incidents > MaxBatchSize then (t, answer_all DISCARDED ''batch_too_large'' incidents, [])
     else if (case ie_settings env of None \<Rightarrow> False | Some (Inl err) \<Rightarrow> True | Some (Inr settings) \<Rightarrow> \<not> as_ObservationEnabled settings)
       then (t, answer_all DISCARDED ''admission_pipeline_observation_disabled'' incidents, [])
     else if \<not> ie_present env then (t, answer_all RETRYABLE ReasonWriteFailed incidents, [])
     else case ie_cluster env of
       Inl err \<Rightarrow> (t, answer_all RETRYABLE ReasonWriteFailed incidents, [])
     | Inr cluster \<Rightarrow> store_incidents env cluster now incidents t)"

text \<open>The gateway's own incidents: each is written under cluster 0, and a closed one leaves the tracker. The
  first write that fails stops the pass.\<close>

fun flush_incidents :: "(string \<Rightarrow> string option) \<Rightarrow> (incident_table \<Rightarrow> int) \<Rightarrow> time \<Rightarrow> Incident list \<Rightarrow> incident_table \<times> Tracker \<Rightarrow> incident_table \<times> Tracker" where
  "flush_incidents fails newID now [] st = st"
| "flush_incidents fails newID now (i # is) (t, tracker) =
    (case Upsert (fails (ic_IncidentKey i)) (newID t) 0 ''platform'' i now t of
      (t', Some err) \<Rightarrow> (t', tracker)
    | (t', None) \<Rightarrow> flush_incidents fails newID now is
        (t', if ic_Closed i then Acknowledge (ic_IncidentKey i) (ic_Revision i) True tracker else tracker))"

definition flushGatewayIncidents ::
  "fresh_ids \<Rightarrow> bool \<Rightarrow> (string \<Rightarrow> string option) \<Rightarrow> (incident_table \<Rightarrow> int) \<Rightarrow> time \<Rightarrow> incident_table \<Rightarrow> Tracker \<Rightarrow> (incident_table \<times> Tracker) option" where
  "flushGatewayIncidents fresh enabled fails newID now t tracker =
    (if \<not> enabled then Some (t, tracker)
     else case Snapshot fresh now tracker of
       None \<Rightarrow> None
     | Some (incidents, tracker') \<Rightarrow> Some (flush_incidents fails newID now incidents (t, tracker')))"

section \<open>Cleaning up and listing\<close>

definition incident_cleanup :: "string option \<Rightarrow> time \<Rightarrow> int \<Rightarrow> incident_table \<Rightarrow> incident_table \<times> (string + int)" where
  "incident_cleanup fails now retentionDays t =
    (if retentionDays < 1 \<or> retentionDays > 365 then (t, Inl ''incident retention days must be between 1 and 365'')
     else case fails of
       Some err \<Rightarrow> (t, Inl err)
     | None \<Rightarrow>
         (let cutoff = now - retentionDays * day;
              t' = filter (\<lambda>r. \<not> ir_LastReceivedAt r < cutoff) t
          in (t', Inr (int (length t) - int (length t')))))"

text \<open>One pass of the cleaner: the error it reports, if any.\<close>

definition incident_cleaner_run ::
  "(string + AdmissionEventSettings) \<Rightarrow> string option \<Rightarrow> time \<Rightarrow> incident_table \<Rightarrow> incident_table \<times> string option" where
  "incident_cleaner_run settings fails now t = (case settings of
      Inl err \<Rightarrow> (t, Some err)
    | Inr s \<Rightarrow> (case incident_cleanup fails now (as_IncidentRetentionDays s) t of
        (t', Inl err) \<Rightarrow> (t', Some err)
      | (t', Inr deleted) \<Rightarrow> (t', None)))"

definition ActiveFreshness :: duration where "ActiveFreshness = 2 * 60 * second"

definition status_clause :: "time \<Rightarrow> string \<Rightarrow> (incident_row \<Rightarrow> bool) option" where
  "status_clause fresh status =
    (if status = ''active'' then Some (\<lambda>r. \<not> ir_Closed r \<and> ir_LastReceivedAt r \<ge> fresh)
     else if status = ''interrupted'' then Some (\<lambda>r. \<not> ir_Closed r \<and> ir_LastReceivedAt r < fresh)
     else if status = ''closed'' then Some ir_Closed
     else None)"

text \<open>No clause means no condition.\<close>

definition statusPredicate :: "string list \<Rightarrow> time \<Rightarrow> (incident_row \<Rightarrow> bool) option" where
  "statusPredicate statuses fresh =
    (let predicates = List.map_filter (status_clause fresh) statuses
     in if predicates = [] then None else Some (\<lambda>r. list_ex (\<lambda>p. p r) predicates))"

record IncidentPageOptions =
  io_Page :: PageOptions
  io_TenantID :: "int option"
  io_ClusterNames :: "string list"
  io_Components :: "string list"
  io_Reasons :: "string list"
  io_Statuses :: "string list"
  io_From :: "time option"
  io_To :: "time option"
  io_Now :: time

text \<open>\<open>owns tenant cluster\<close> is the subquery on the clusters table.\<close>

definition incident_selected :: "(int \<Rightarrow> int \<Rightarrow> bool) \<Rightarrow> IncidentPageOptions \<Rightarrow> incident_row \<Rightarrow> bool" where
  "incident_selected owns q r \<longleftrightarrow>
     (case io_TenantID q of None \<Rightarrow> True | Some tenant \<Rightarrow> owns tenant (ir_ClusterID r)) \<and>
     in_if_any (io_ClusterNames q) (ir_ClusterName r) \<and> in_if_any (io_Components q) (ir_Component r) \<and>
     in_if_any (io_Reasons q) (ir_Reason r) \<and>
     (case statusPredicate (io_Statuses q) (io_Now q - ActiveFreshness) of
        None \<Rightarrow> True | Some p \<Rightarrow> io_Statuses q \<noteq> [] \<longrightarrow> p r) \<and>
     (case io_From q of None \<Rightarrow> True | Some start \<Rightarrow> ir_LastSeenAt r \<ge> start) \<and>
     (case io_To q of None \<Rightarrow> True | Some stop \<Rightarrow> ir_StartedAt r \<le> stop)"

definition incident_sort_fields :: "(string \<times> (incident_row \<Rightarrow> int)) list" where
  "incident_sort_fields = [(''startedAt'', ir_StartedAt), (''lastSeenAt'', ir_LastSeenAt), (''affectedCount'', ir_AffectedCount)]"

definition incident_tiebreak :: "incident_row list \<Rightarrow> incident_row list" where
  "incident_tiebreak rows = order_by ir_LastSeenAt True (order_by ir_ID True rows)"

definition ListPage ::
  "(int \<Rightarrow> int \<Rightarrow> bool) \<Rightarrow> string option \<Rightarrow> string option \<Rightarrow> IncidentPageOptions \<Rightarrow> incident_table \<Rightarrow> string + incident_row list \<times> int" where
  "ListPage owns count_err find_err q t =
     queryPage count_err find_err (io_Page q) incident_sort_fields incident_tiebreak (filter (incident_selected owns q) t)"

section \<open>The console's view\<close>

definition incidentStatus :: "incident_row \<Rightarrow> time \<Rightarrow> string" where
  "incidentStatus r now = (if ir_Closed r then ''closed''
     else if ir_LastReceivedAt r < now - ActiveFreshness then ''interrupted'' else ''active'')"

record IncidentItem =
  ii_ID :: string
  ii_ClusterName :: string
  ii_ReporterInstanceID :: string
  ii_Component :: string
  ii_Reason :: string
  ii_StartedAt :: time
  ii_LastSeenAt :: time
  ii_AffectedCount :: int
  ii_Status :: string

definition incidentItemDTO :: "incident_row \<Rightarrow> time \<Rightarrow> IncidentItem" where
  "incidentItemDTO r now = \<lparr>ii_ID = Itoa (ir_ID r), ii_ClusterName = ir_ClusterName r, ii_ReporterInstanceID = ir_ReporterInstanceID r,
     ii_Component = ir_Component r, ii_Reason = ir_Reason r, ii_StartedAt = ir_StartedAt r, ii_LastSeenAt = ir_LastSeenAt r,
     ii_AffectedCount = ir_AffectedCount r, ii_Status = incidentStatus r now\<rparr>"

record IncidentListOptions =
  lo_Page :: int
  lo_PageSize :: int
  lo_Clusters :: "string list"
  lo_Components :: "string list"
  lo_Reasons :: "string list"
  lo_Statuses :: "string list"
  lo_From :: "time option"
  lo_To :: "time option"

text \<open>The offset is computed in 64 bits.\<close>

definition page_offset :: "int \<Rightarrow> int \<Rightarrow> int" where
  "page_offset page psize = sint (word_of_int ((page - 1) * psize) :: 64 word)"

text \<open>\<open>now\<close> is read for the query, \<open>shown\<close> for the items.\<close>

definition incident_List ::
  "bool \<Rightarrow> (int \<Rightarrow> int \<Rightarrow> bool) \<Rightarrow> string option \<Rightarrow> string option \<Rightarrow> time \<Rightarrow> time \<Rightarrow> Principal option \<Rightarrow> IncidentListOptions \<Rightarrow> incident_table \<Rightarrow>
     service_error + IncidentItem list \<times> int" where
  "incident_List present owns count_err find_err now shown ctx p t =
    (if \<not> present then Inl ErrUnavailable
     else if \<not> list_all Component_Valid (lo_Components p) then Inl (ValidationError ''invalid component'')
     else if \<not> list_all ValidReason (lo_Reasons p) then Inl (ValidationError ''invalid reason'')
     else if \<not> list_all (\<lambda>v. v = ''active'' \<or> v = ''interrupted'' \<or> v = ''closed'') (lo_Statuses p) then Inl (ValidationError ''invalid status'')
     else let principal = requestPrincipal ctx;
              options = \<lparr>io_Page = \<lparr>po_Limit = lo_PageSize p, po_Offset = page_offset (lo_Page p) (lo_PageSize p), po_SortBy = ''lastSeenAt'', po_Desc = True\<rparr>,
                io_TenantID = (if pr_Role principal = RoleSystemAdmin then None else pr_TenantID principal),
                io_ClusterNames = lo_Clusters p, io_Components = lo_Components p, io_Reasons = lo_Reasons p,
                io_Statuses = lo_Statuses p, io_From = lo_From p, io_To = lo_To p, io_Now = now\<rparr>
          in if pr_Role principal \<noteq> RoleSystemAdmin \<and> pr_TenantID principal = None then Inl ErrForbidden
             else case ListPage owns count_err find_err options t of
               Inl err \<Rightarrow> Inl (StorageError err)
             | Inr (items, n) \<Rightarrow> Inr (map (\<lambda>r. incidentItemDTO r shown) items, n))"

text \<open>A positive identifier in decimal, the only ones \<^verbatim>\<open>Get\<close> accepts.\<close>

definition parse_id :: "string \<Rightarrow> int option" where
  "parse_id s =
    (let body = (if s \<noteq> [] \<and> hd s = CHR ''+'' then tl s else s)
     in if body = [] then None
        else case scan_uint body 0 of
          None \<Rightarrow> None
        | Some n \<Rightarrow> if n \<ge> 2 ^ 63 \<or> n \<le> 0 then None else Some n)"

record IncidentSampleView =
  sv_EventID :: string
  sv_EventDatabaseID :: "string option"
  sv_Expired :: bool

record IncidentView =
  iv_Item :: IncidentItem
  iv_Detail :: string
  iv_Samples :: "IncidentSampleView list"

text \<open>\<^verbatim>\<open>EventDatabaseIDs\<close>: the stored events of the given identifiers, the last row of an identifier winning.\<close>

definition EventDatabaseIDs :: "string option \<Rightarrow> string list \<Rightarrow> event_table \<Rightarrow> string + int smap" where
  "EventDatabaseIDs fails eventIDs events =
    (if eventIDs = [] then Inr []
     else case fails of
       Some err \<Rightarrow> Inl err
     | None \<Rightarrow> Inr (rev (map (\<lambda>e. (er_EventID e, er_ID e)) (filter (\<lambda>e. er_EventID e \<in> set eventIDs) events))))"

definition sample_view :: "int smap \<Rightarrow> string \<Rightarrow> IncidentSampleView" where
  "sample_view resolved eventID = \<lparr>sv_EventID = eventID, sv_EventDatabaseID = map_option Itoa (map_of resolved eventID),
     sv_Expired = (map_of resolved eventID = None)\<rparr>"

text \<open>\<open>fails\<close> is the storage error of reading the incident, \<open>events_err\<close> of resolving the samples.\<close>

definition incident_Get ::
  "bool \<Rightarrow> (int \<Rightarrow> int \<Rightarrow> bool) \<Rightarrow> string option \<Rightarrow> string option \<Rightarrow> time \<Rightarrow> Principal option \<Rightarrow> string \<Rightarrow> event_table \<Rightarrow> incident_table \<Rightarrow> service_error + IncidentView" where
  "incident_Get present owns fails events_err now ctx resourceID events t =
    (if \<not> present then Inl ErrUnavailable
     else case parse_id resourceID of
       None \<Rightarrow> Inl (ValidationError ''invalid incident id'')
     | Some n \<Rightarrow>
         (let principal = requestPrincipal ctx;
              found = (\<lambda>P. case fails of Some err \<Rightarrow> Inl (StorageError err)
                | None \<Rightarrow> (case find (\<lambda>r. ir_ID r = n \<and> P r) t of None \<Rightarrow> Inl ErrNotFound | Some r \<Rightarrow> Inr r))
          in case (if pr_Role principal = RoleSystemAdmin then found (\<lambda>_. True)
                   else case pr_TenantID principal of
                     None \<Rightarrow> Inl ErrForbidden
                   | Some tenant \<Rightarrow> found (\<lambda>r. owns tenant (ir_ClusterID r))) of
               Inl err \<Rightarrow> Inl err
             | Inr r \<Rightarrow> (case EventDatabaseIDs events_err (ir_SampleEventIDs r) events of
                 Inl err \<Rightarrow> Inl (StorageError err)
               | Inr resolved \<Rightarrow> Inr \<lparr>iv_Item = incidentItemDTO r now, iv_Detail = ir_Detail r,
                   iv_Samples = map (sample_view resolved) (ir_SampleEventIDs r)\<rparr>)))"

section \<open>Merging is independent of the order of arrival\<close>

text \<open>Reports of one incident, as they reach the repository.\<close>

definition upsert_all :: "int \<Rightarrow> string \<Rightarrow> (incident_table \<Rightarrow> int) \<Rightarrow> (Incident \<times> time) list \<Rightarrow> incident_table \<Rightarrow> incident_table" where
  "upsert_all clusterID clusterName newID reports t =
     fold (\<lambda>(i, at) t. fst (Upsert None (newID t) clusterID clusterName i at t)) reports t"

definition summary :: "incident_row \<Rightarrow> int \<times> time \<times> time \<times> bool" where
  "summary r = (ir_AffectedCount r, ir_LastSeenAt r, ir_LastReceivedAt r, ir_Closed r)"

definition report_summary :: "Incident \<times> time \<Rightarrow> int \<times> time \<times> time \<times> bool" where
  "report_summary rep = (ic_AffectedCount (fst rep), ic_LastSeenAt (fst rep), snd rep, ic_Closed (fst rep))"

definition join_summary :: "int \<times> time \<times> time \<times> bool \<Rightarrow> int \<times> time \<times> time \<times> bool \<Rightarrow> int \<times> time \<times> time \<times> bool" where
  "join_summary x y = (case (x, y) of ((a, s, v, c), (a', s', v', c')) \<Rightarrow> (max a a', max s s', max v v', c \<or> c'))"

lemma merge_summary: "summary (merge_incident cn i at r) = join_summary (summary r) (report_summary (i, at))"
  by (simp add: merge_incident_def summary_def report_summary_def join_summary_def Let_def maxTime_def max_def)

lemma merge_keeps [simp]:
  "ir_ClusterID (merge_incident cn i at r) = ir_ClusterID r" "ir_IncidentKey (merge_incident cn i at r) = ir_IncidentKey r"
  "ir_ID (merge_incident cn i at r) = ir_ID r" "ir_StartedAt (merge_incident cn i at r) = ir_StartedAt r"
  "ir_FirstReceivedAt (merge_incident cn i at r) = ir_FirstReceivedAt r"
  by (simp_all add: merge_incident_def Let_def)

lemma find_map_same:
  assumes "\<And>r. P (f r) = P r"
  shows "find P (map (\<lambda>r. if P r then f r else r) t) = map_option f (find P t)"
  by (induction t) (auto simp: assms)

lemma find_append: "find P (xs @ ys) = (case find P xs of None \<Rightarrow> find P ys | Some x \<Rightarrow> Some x)"
  by (induction xs) auto

lemma list_ex_find: "list_ex P t \<longleftrightarrow> find P t \<noteq> None"
  by (induction t) auto

lemma Upsert_find:
  assumes "Incident_Validate i = None" "ic_IncidentKey i = k"
  shows "map_option summary (find (same_incident c k) (fst (Upsert None n c cn i at t))) =
    Some (case map_option summary (find (same_incident c k) t) of None \<Rightarrow> report_summary (i, at)
      | Some s \<Rightarrow> join_summary s (report_summary (i, at)))"
proof (cases "find (same_incident c k) t")
  case None
  then show ?thesis using assms
    by (simp add: Upsert_def list_ex_find find_append) (simp add: same_incident_def new_incident_row_def summary_def report_summary_def)
next
  case (Some r)
  have "same_incident c k (merge_incident cn i at r) = same_incident c k r" for r by (simp add: same_incident_def)
  then show ?thesis using Some assms find_map_same [of "same_incident c k" "merge_incident cn i at" t]
    by (simp add: Upsert_def list_ex_find merge_summary)
qed

lemma upsert_all_find:
  assumes "list_all (\<lambda>(i, at). Incident_Validate i = None \<and> ic_IncidentKey i = k) reports"
  shows "map_option summary (find (same_incident c k) (upsert_all c cn newID reports t)) =
    fold (\<lambda>rep s. Some (case s of None \<Rightarrow> report_summary rep | Some s \<Rightarrow> join_summary s (report_summary rep))) reports
      (map_option summary (find (same_incident c k) t))"
  using assms
proof (induction reports arbitrary: t)
  case (Cons rep reports)
  obtain i at where rep: "rep = (i, at)" by (cases rep)
  then have "upsert_all c cn newID (rep # reports) t = upsert_all c cn newID reports (fst (Upsert None (newID t) c cn i at t))"
    by (simp add: upsert_all_def)
  moreover have "Incident_Validate i = None" "ic_IncidentKey i = k"
    "list_all (\<lambda>(i, at). Incident_Validate i = None \<and> ic_IncidentKey i = k) reports" using Cons.prems rep by auto
  ultimately show ?case
    by (simp only: fold_simps Cons.IH rep Upsert_find)
qed (simp add: upsert_all_def)

lemma fold_join_Some:
  "fold (\<lambda>rep s. Some (case s of None \<Rightarrow> report_summary rep | Some s \<Rightarrow> join_summary s (report_summary rep))) reports (Some s) =
   Some (fold (\<lambda>rep s. join_summary s (report_summary rep)) reports s)"
  by (induction reports arbitrary: s) auto

lemma fold_join_Max:
  "fold (\<lambda>rep s. join_summary s (report_summary rep)) reports (report_summary rep) =
    (Max ((ic_AffectedCount \<circ> fst) ` set (rep # reports)), Max ((ic_LastSeenAt \<circ> fst) ` set (rep # reports)),
     Max (snd ` set (rep # reports)), list_ex (ic_Closed \<circ> fst) (rep # reports))"
proof (induction reports rule: rev_induct)
  case (snoc x xs)
  have "Max (f ` set (rep # xs @ [x])) = max (Max (f ` set (rep # xs))) (f x)" for f :: "Incident \<times> time \<Rightarrow> int"
  proof -
    have "f ` set (rep # xs @ [x]) = insert (f x) (f ` set (rep # xs))" by auto
    then show ?thesis by (simp add: max.commute max.left_commute)
  qed
  then show ?case using snoc by (simp add: join_summary_def report_summary_def del: set_simps)
qed (simp add: report_summary_def)

text \<open>The reports of one incident may arrive in any order and any number of times: the stored row ends with
  the largest count, the latest times, and closed when any report closed it. The columns depend only on
  the set of reports.\<close>

theorem Upsert_converges:
  assumes "list_all (\<lambda>(i, at). Incident_Validate i = None \<and> ic_IncidentKey i = k) reports" "reports \<noteq> []"
    "find (same_incident c k) t = None"
  shows "map_option summary (find (same_incident c k) (upsert_all c cn newID reports t)) =
    Some (Max ((ic_AffectedCount \<circ> fst) ` set reports), Max ((ic_LastSeenAt \<circ> fst) ` set reports), Max (snd ` set reports),
      list_ex (ic_Closed \<circ> fst) reports)"
proof -
  obtain rep reps where reps: "reports = rep # reps" using assms(2) by (cases reports) auto
  show ?thesis
    unfolding upsert_all_find [OF assms(1)] assms(3) unfolding reps
    by (simp add: fold_join_Some fold_join_Max del: list.set(2) set_simps)
qed

section \<open>An accepted incident is stored\<close>

definition row_le :: "incident_row \<Rightarrow> incident_row \<Rightarrow> bool" where
  "row_le r r' \<longleftrightarrow> ir_ClusterID r = ir_ClusterID r' \<and> ir_IncidentKey r = ir_IncidentKey r' \<and> ir_AffectedCount r \<le> ir_AffectedCount r' \<and>
     ir_LastSeenAt r \<le> ir_LastSeenAt r' \<and> (ir_Closed r \<longrightarrow> ir_Closed r')"

lemma row_le_refl [simp]: "row_le r r" by (simp add: row_le_def)

lemma row_le_trans: "row_le r r' \<Longrightarrow> row_le r' r'' \<Longrightarrow> row_le r r''" by (auto simp: row_le_def)

lemma merge_row_le: "row_le r (merge_incident cn i at r)"
  by (simp add: merge_incident_def row_le_def Let_def maxTime_def)

definition covers :: "int \<Rightarrow> Incident \<Rightarrow> incident_row \<Rightarrow> bool" where
  "covers c i r \<longleftrightarrow> same_incident c (ic_IncidentKey i) r \<and> ic_AffectedCount i \<le> ir_AffectedCount r \<and>
     ic_LastSeenAt i \<le> ir_LastSeenAt r \<and> (ic_Closed i \<longrightarrow> ir_Closed r)"

lemma covers_mono: "covers c i r \<Longrightarrow> row_le r r' \<Longrightarrow> covers c i r'"
  by (auto simp: covers_def row_le_def same_incident_def)

lemma covers_merge: "same_incident c (ic_IncidentKey i) r \<Longrightarrow> covers c i (merge_incident cn i at r)"
  by (simp add: covers_def same_incident_def merge_incident_def Let_def maxTime_def)

lemma Upsert_cases:
  assumes "Upsert fails n c cn i at t = (t', err)"
  obtains (failed) e where "err = Some e" "t' = t"
  | (merged) r where "err = None" "r \<in> set t" "same_incident c (ic_IncidentKey i) r"
      "t' = map (\<lambda>r. if same_incident c (ic_IncidentKey i) r then merge_incident cn i at r else r) t"
  | (created) "err = None" "t' = t @ [new_incident_row n c cn i at]"
proof (cases "Incident_Validate i = None \<and> fails = None")
  case False
  then have "(\<exists>e. err = Some e) \<and> t' = t" using assms by (auto simp: Upsert_def split: option.splits) metis+
  then show ?thesis using failed by blast
next
  case True
  show ?thesis
  proof (cases "list_ex (same_incident c (ic_IncidentKey i)) t")
    case ex: True
    then obtain r where "r \<in> set t" "same_incident c (ic_IncidentKey i) r" by (auto simp: list_ex_iff)
    then show ?thesis using merged assms True ex by (simp add: Upsert_def)
  next
    case False
    then show ?thesis using created assms True by (simp add: Upsert_def)
  qed
qed

lemma Upsert_mono:
  assumes "Upsert fails n c cn i at t = (t', err)" "r \<in> set t"
  shows "\<exists>r' \<in> set t'. row_le r r'"
  using assms(1)
proof (cases rule: Upsert_cases)
  case (merged r0)
  let ?f = "\<lambda>r. if same_incident c (ic_IncidentKey i) r then merge_incident cn i at r else r"
  have "?f r \<in> set t'" "row_le r (?f r)" using merged(4) assms(2) by (auto simp: merge_row_le)
  then show ?thesis by blast
qed (use assms(2) in \<open>auto intro: bexI [of _ r]\<close>)

lemma Upsert_covers:
  assumes "Upsert fails n c cn i at t = (t', None)"
  shows "\<exists>r \<in> set t'. covers c i r"
  using assms
proof (cases rule: Upsert_cases)
  case (merged r)
  then have "merge_incident cn i at r \<in> set t'" by (auto intro!: image_eqI [of _ _ r])
  then show ?thesis using covers_merge merged(3) by blast
next
  case created
  then show ?thesis by (simp add: covers_def same_incident_def new_incident_row_def)
qed simp

lemma Upsert_others: "Upsert fails n c cn i at t = (t', err) \<Longrightarrow> filter (\<lambda>r. ir_ClusterID r \<noteq> c) t' = filter (\<lambda>r. ir_ClusterID r \<noteq> c) t"
proof -
  have "filter (\<lambda>r. ir_ClusterID r \<noteq> c) (map (\<lambda>r. if same_incident c k r then f r else r) t) = filter (\<lambda>r. ir_ClusterID r \<noteq> c) t"
    if "\<And>r. ir_ClusterID (f r) = ir_ClusterID r" for k and f :: "incident_row \<Rightarrow> incident_row" and t
    by (induction t) (auto simp: that same_incident_def)
  then show "Upsert fails n c cn i at t = (t', err) \<Longrightarrow> ?thesis"
    by (auto simp: Upsert_def new_incident_row_def split: option.splits if_splits)
qed

lemma incidentFromProto_ok:
  assumes "incidentFromProto w now = Inr i"
  shows "ic_IncidentKey i = incidentIdentity w" "ic_Revision i = incidentRevision w" "Incident_Validate i = None"
    "ic_LastSeenAt i \<le> now + maxMemberClockLead"
proof -
  obtain m where m: "incidentModel w = Inr m" "i = order_times (clamp_seen now (clamp_start now m))" "Incident_Validate i = None"
    using assms by (auto simp: incidentFromProto_def Let_def split: sum.splits option.splits)
  then have "ic_IncidentKey m = incidentIdentity w \<and> ic_Revision m = incidentRevision w"
    by (auto simp: incidentModel_def incidentIdentity_def incidentRevision_def Let_def split: option.splits timestamp.splits)
  then show "ic_IncidentKey i = incidentIdentity w" "ic_Revision i = incidentRevision w"
    unfolding m(2) by (simp_all add: order_times_def clamp_seen_def clamp_start_def)
  show "ic_LastSeenAt i \<le> now + maxMemberClockLead"
    unfolding m(2) by (simp add: order_times_def clamp_seen_def maxMemberClockLead_def)
  show "Incident_Validate i = None" by (rule m(3))
qed

text \<open>What an accepted answer says of the table.\<close>

definition answered_by :: "int \<times> string \<Rightarrow> time \<Rightarrow> LinkIncident option list \<Rightarrow> incident_table \<Rightarrow> incident_ack \<Rightarrow> bool" where
  "answered_by cluster now incidents t a \<longleftrightarrow> (\<exists>w \<in> set incidents. \<exists>i r. incidentFromProto w now = Inr i \<and>
     ic_IncidentKey i = ia_IncidentKey a \<and> ic_Revision i = ia_Revision a \<and> ic_LastSeenAt i \<le> now + maxMemberClockLead \<and>
     r \<in> set t \<and> covers (fst cluster) i r)"

lemma store_incident_step:
  assumes "store_incident env cluster now w t = (t', a, ns)"
  shows "(ia_Status a = Some ACCEPTED \<longrightarrow> answered_by cluster now [w] t' a) \<and> (r \<in> set t \<longrightarrow> (\<exists>r' \<in> set t'. row_le r r')) \<and>
    filter (\<lambda>r. ir_ClusterID r \<noteq> fst cluster) t' = filter (\<lambda>r. ir_ClusterID r \<noteq> fst cluster) t \<and>
    ia_IncidentKey a = incidentIdentity w \<and> ia_Revision a = incidentRevision w"
proof (cases "\<exists>i. incidentFromProto w now = Inr i \<and> Component_ValidMember (ic_Component i)")
  case False
  then have "t' = t \<and> a = linkIncidentACK (incidentIdentity w) (incidentRevision w) DISCARDED ReasonInvalidReport"
    using assms by (auto simp: store_incident_def split: sum.splits if_splits)
  then show ?thesis by (auto simp: linkIncidentACK_def intro: bexI [of _ r])
next
  case True
  then obtain i where i: "incidentFromProto w now = Inr i" "Component_ValidMember (ic_Component i)" by blast
  obtain t1 err where u: "Upsert (ie_upsert env (ic_IncidentKey i)) (ie_newID env t) (fst cluster) (snd cluster) i now t = (t1, err)" by fastforce
  note ok = incidentFromProto_ok [OF i(1)]
  have res: "t' = t1" "a = (case err of None \<Rightarrow> linkIncidentACK (ic_IncidentKey i) (ic_Revision i) ACCEPTED ''''
      | Some _ \<Rightarrow> linkIncidentACK (ic_IncidentKey i) (ic_Revision i) RETRYABLE ReasonWriteFailed)"
    using assms i u by (auto simp: store_incident_def split: option.splits)
  have "answered_by cluster now [w] t' a" if "ia_Status a = Some ACCEPTED"
  proof -
    have "err = None" using that res(2) by (auto simp: linkIncidentACK_def split: option.splits)
    then show ?thesis using Upsert_covers [OF u [unfolded \<open>err = None\<close>]] i ok res
      by (auto simp: answered_by_def linkIncidentACK_def)
  qed
  moreover have "ia_IncidentKey a = incidentIdentity w \<and> ia_Revision a = incidentRevision w"
    using res(2) ok by (cases err) (auto simp: linkIncidentACK_def)
  ultimately show ?thesis using Upsert_mono [OF u] Upsert_others [OF u] res(1) by blast
qed

lemma answered_by_mono:
  "answered_by cluster now ws t a \<Longrightarrow> set ws \<subseteq> set ws' \<Longrightarrow> (\<And>r. r \<in> set t \<Longrightarrow> \<exists>r' \<in> set t'. row_le r r') \<Longrightarrow> answered_by cluster now ws' t' a"
  unfolding answered_by_def by (meson covers_mono subsetD)

lemma store_incidents_honest:
  assumes "store_incidents env cluster now ws t = (t', acks, ns)"
  shows "(\<forall>a \<in> set acks. ia_Status a = Some ACCEPTED \<longrightarrow> answered_by cluster now ws t' a) \<and> (\<forall>r \<in> set t. \<exists>r' \<in> set t'. row_le r r') \<and>
    filter (\<lambda>r. ir_ClusterID r \<noteq> fst cluster) t' = filter (\<lambda>r. ir_ClusterID r \<noteq> fst cluster) t \<and>
    map (\<lambda>a. (ia_IncidentKey a, ia_Revision a)) acks = map (\<lambda>w. (incidentIdentity w, incidentRevision w)) ws"
  using assms
proof (induction ws arbitrary: t acks ns)
  case (Cons w ws)
  obtain t1 a ns1 where s: "store_incident env cluster now w t = (t1, a, ns1)" by (metis prod_cases3)
  obtain t2 as ns2 where ss: "store_incidents env cluster now ws t1 = (t2, as, ns2)" by (metis prod_cases3)
  have res: "t' = t2" "acks = a # as" using Cons.prems s ss by auto
  note step = store_incident_step [OF s]
  note rest = Cons.IH [OF ss [folded res(1)]]
  have "answered_by cluster now (w # ws) t' a" if "ia_Status a = Some ACCEPTED"
    by (rule answered_by_mono [of _ _ "[w]" t1]) (use step rest that in auto)
  moreover have "answered_by cluster now (w # ws) t' b" if "b \<in> set as" "ia_Status b = Some ACCEPTED" for b
  proof (rule answered_by_mono)
    show "answered_by cluster now ws t' b" using rest that by blast
    show "\<exists>r' \<in> set t'. row_le r r'" if "r \<in> set t'" for r using that row_le_refl by blast
  qed auto
  moreover have "\<exists>r' \<in> set t'. row_le r r'" if "r \<in> set t" for r
    using step rest that row_le_trans by meson
  ultimately show ?case using step rest res by auto
next
  case Nil
  then show ?case by simp (metis row_le_refl)
qed

text \<open>The gateway accepts a member's incident only when the table covers it: a row of the stream's cluster
  with that key whose count and time of last sight are at least the reported ones, closed when the report
  closes it. A report's times are at most five minutes ahead of the gateway's clock. Every incident is
  answered under its key and revision, in order, and no row of another cluster changes.\<close>

theorem incident_answers_honest:
  assumes "handleLinkIncidentBatch env now incidents t = (t', acks, ns)" "ie_cluster env = Inr cluster"
  shows "(\<forall>a \<in> set acks. ia_Status a = Some ACCEPTED \<longrightarrow> answered_by cluster now incidents t' a) \<and>
    map (\<lambda>a. (ia_IncidentKey a, ia_Revision a)) acks = map (\<lambda>w. (incidentIdentity w, incidentRevision w)) incidents \<and>
    filter (\<lambda>r. ir_ClusterID r \<noteq> fst cluster) t' = filter (\<lambda>r. ir_ClusterID r \<noteq> fst cluster) t"
proof (cases "\<exists>status reason. status \<noteq> ACCEPTED \<and> t' = t \<and> acks = answer_all status reason incidents")
  case True
  then show ?thesis by (auto simp: answer_all_def linkIncidentACK_def)
next
  case False
  then have "store_incidents env cluster now incidents t = (t', acks, ns)"
    using assms by (auto simp: handleLinkIncidentBatch_def split: if_splits option.splits sum.splits)
  then show ?thesis using store_incidents_honest by blast
qed

text \<open>A settings row that cannot be read discards the whole batch, and a discarded incident leaves the member's
  queue for good; the event handler answers the same failure with a retry.\<close>

lemma settings_error_discards:
  assumes "ie_settings env = Some (Inl err)" "incidents \<noteq> []" "length incidents \<le> MaxBatchSize"
  shows "handleLinkIncidentBatch env now incidents t = (t, answer_all DISCARDED ''admission_pipeline_observation_disabled'' incidents, [])"
  using assms by (simp add: handleLinkIncidentBatch_def)

section \<open>What the console shows\<close>

lemma status_clause_shown:
  "status = ''active'' \<or> status = ''interrupted'' \<or> status = ''closed'' \<Longrightarrow>
   \<exists>p. status_clause (now - ActiveFreshness) status = Some p \<and> (p r \<longleftrightarrow> incidentStatus r now = status)"
  by (auto simp: status_clause_def incidentStatus_def)

lemma statusPredicate_shown:
  assumes "list_all (\<lambda>v. v = ''active'' \<or> v = ''interrupted'' \<or> v = ''closed'') statuses" "statuses \<noteq> []"
  shows "\<exists>p. statusPredicate statuses (now - ActiveFreshness) = Some p \<and> (p r \<longleftrightarrow> incidentStatus r now \<in> set statuses)"
proof -
  let ?ps = "List.map_filter (status_clause (now - ActiveFreshness)) statuses"
  have "(\<exists>p \<in> set ?ps. p r) \<longleftrightarrow> incidentStatus r now \<in> set statuses"
    using assms(1) status_clause_shown [of _ now r] by (fastforce simp: in_set_map_filter list_all_iff)
  moreover have "?ps \<noteq> []"
    using assms status_clause_shown [of "hd statuses" now r] by (cases statuses) (auto simp: map_filter_simps)
  ultimately show ?thesis by (simp add: statusPredicate_def list_ex_iff)
qed

lemma parse_id_Itoa:
  assumes "0 < n" "n < 2 ^ 63"
  shows "parse_id (Itoa n) = Some n"
proof -
  have "list_all is_digit (nat_string (nat n))" by (rule nat_string_digits)
  then have "hd (nat_string (nat n)) \<noteq> CHR ''+''" using digit_not_sign by (cases "nat_string (nat n)") auto
  moreover have "nat_string (nat n) \<noteq> []" by (subst nat_string.simps) simp
  ultimately show ?thesis using assms scan_nat_string [of "nat n"] by (simp add: parse_id_def Itoa_def Let_def)
qed

lemma queryPage_items:
  fixes fs :: "(string \<times> ('a \<Rightarrow> 'k::linorder)) list"
  assumes q: "queryPage ce fe opts fs tb rows = Inr (items, n)" "mset (tb rows) = mset rows" "r \<in> set items"
  shows "r \<in> set rows"
proof -
  obtain key :: "'a \<Rightarrow> 'k" and desc l d where "items = take l (drop d (order_by key desc (tb rows)))"
    using q(1)
    by (auto simp: queryPage_def split: if_splits option.splits)
  then have "r \<in> set (order_by key desc (tb rows))" using q(3) in_set_takeD in_set_dropD by metis
  then show "r \<in> set rows" using q(2) order_by_perm [of key desc "tb rows"] by (metis set_mset_mset)
qed

lemma find_unique: "distinct (map f t) \<Longrightarrow> r \<in> set t \<Longrightarrow> P r \<Longrightarrow> find (\<lambda>x. f x = f r \<and> P x) t = Some r"
  by (induction t) (auto simp: image_iff)

text \<open>The console shows an incident to whom it belongs, as what it is. Whoever is not a system administrator
  sees only incidents of their tenant's clusters; a listing filtered by status holds only incidents shown
  with one of those statuses; and the identifier of every listed incident opens it, for the same
  principal, as the same item.\<close>

theorem listed_incident_opens:
  assumes "incident_List present owns ce fe now now (Some p) q t = Inr (items, n)" "item \<in> set items"
    "distinct (map ir_ID t)" "list_all (\<lambda>r. 0 < ir_ID r \<and> ir_ID r < 2 ^ 63) t"
  shows "(lo_Statuses q \<noteq> [] \<longrightarrow> ii_Status item \<in> set (lo_Statuses q)) \<and>
    (\<exists>r \<in> set t. item = incidentItemDTO r now \<and> (pr_Role p \<noteq> RoleSystemAdmin \<longrightarrow> (\<exists>tenant. pr_TenantID p = Some tenant \<and> owns tenant (ir_ClusterID r)))) \<and>
    (\<exists>v. incident_Get present owns None None now (Some p) (ii_ID item) events t = Inr v \<and> iv_Item v = item)"
proof -
  have pres: "present" and roles: "pr_Role p = RoleSystemAdmin \<or> pr_TenantID p \<noteq> None"
    and st: "list_all (\<lambda>v. v = ''active'' \<or> v = ''interrupted'' \<or> v = ''closed'') (lo_Statuses q)"
    using assms(1) by (auto simp: incident_List_def requestPrincipal_def Let_def split: if_splits)
  obtain opts rows where page: "ListPage owns ce fe opts t = Inr (rows, n)" "items = map (\<lambda>r. incidentItemDTO r now) rows"
      "io_TenantID opts = (if pr_Role p = RoleSystemAdmin then None else pr_TenantID p)" "io_Statuses opts = lo_Statuses q" "io_Now opts = now"
    using assms(1) by (auto simp: incident_List_def requestPrincipal_def Let_def split: if_splits sum.splits)
  obtain r where r: "r \<in> set rows" "item = incidentItemDTO r now" using assms(2) page(2) by auto
  have "mset (incident_tiebreak xs) = mset xs" for xs by (simp add: incident_tiebreak_def order_by_perm)
  then have sel: "r \<in> set t" "incident_selected owns opts r"
    using queryPage_items [OF page(1) [unfolded ListPage_def] _ r(1)] by auto
  have mine: "pr_Role p \<noteq> RoleSystemAdmin \<Longrightarrow> \<exists>tenant. pr_TenantID p = Some tenant \<and> owns tenant (ir_ClusterID r)"
    using sel(2) page(3) roles by (auto simp: incident_selected_def split: option.splits)
  have "ii_Status item \<in> set (lo_Statuses q)" if "lo_Statuses q \<noteq> []"
    using statusPredicate_shown [OF st that, of now r] sel(2) page(4,5) that r(2)
    by (auto simp: incident_selected_def incidentItemDTO_def)
  moreover have "parse_id (ii_ID item) = Some (ir_ID r)"
    using parse_id_Itoa assms(4) sel(1) r(2) by (simp add: incidentItemDTO_def list_all_iff)
  then have "\<exists>v. incident_Get present owns None None now (Some p) (ii_ID item) events t = Inr v \<and> iv_Item v = item"
    using pres mine find_unique [OF assms(3) sel(1), of "\<lambda>_. True"] find_unique [OF assms(3) sel(1), of "\<lambda>x. owns (the (pr_TenantID p)) (ir_ClusterID x)"] r(2)
    by (cases "pr_Role p = RoleSystemAdmin") (auto simp: incident_Get_def requestPrincipal_def Let_def EventDatabaseIDs_def)
  ultimately show ?thesis using sel(1) r(2) mine by blast
qed

section \<open>Stored incidents: examples\<close>

definition ex_incident :: "nat \<Rightarrow> int \<Rightarrow> time \<Rightarrow> bool \<Rightarrow> Incident" where
  "ex_incident v n seen closed = \<lparr>ic_IncidentKey = ''k1'', ic_ReporterInstanceID = ''webhook-0'', ic_Revision = v, ic_Component = ComponentWebhook,
     ic_Reason = ReasonQueueFull, ic_StartedAt = 5, ic_LastSeenAt = seen, ic_AffectedCount = n, ic_SampleEventIDs = [],
     ic_Detail = '''', ic_Closed = closed\<rparr>"

theorem Upsert_converges_witness:
  "map_option summary (find (same_incident 7 ''k1'')
     (upsert_all 7 ''prod'' (\<lambda>t. int (length t) + 1) [(ex_incident 3 6 20 True, 40), (ex_incident 1 2 9 False, 41), (ex_incident 2 4 15 False, 42)] [])) =
   Some (6, 20, 42, True)"
proof -
  let ?reports = "[(ex_incident 3 6 20 True, 40), (ex_incident 1 2 9 False, 41), (ex_incident 2 4 15 False, 42)]"
  have "list_all (\<lambda>(i, at). Incident_Validate i = None \<and> ic_IncidentKey i = ''k1'') ?reports" by code_simp
  from Upsert_converges [OF this, of 7 "[]" "''prod''" "\<lambda>t. int (length t) + 1"] show ?thesis by (simp add: ex_incident_def)
qed

definition ex_incident_env :: incident_env where
  "ex_incident_env = \<lparr>ie_settings = None, ie_present = True, ie_cluster = Inr (7, ''prod''), ie_upsert = (\<lambda>_. None),
     ie_newID = (\<lambda>t. int (length t) + 1), ie_observing = True\<rparr>"

definition ex_incident_table :: incident_table where
  "ex_incident_table = fst (handleLinkIncidentBatch ex_incident_env 10 [Some (ex_wire 1), None] [])"

theorem incident_answers_honest_witness:
  "answered_by (7, ''prod'') 10 [Some (ex_wire 1), None] ex_incident_table \<lparr>ia_IncidentKey = ''k1'', ia_Revision = 1, ia_Status = Some ACCEPTED, ia_Reason = ''''\<rparr>"
proof -
  let ?r = "handleLinkIncidentBatch ex_incident_env 10 [Some (ex_wire 1), None] []"
  let ?a = "\<lparr>ia_IncidentKey = ''k1'', ia_Revision = 1, ia_Status = Some ACCEPTED, ia_Reason = ''''\<rparr>"
  have r: "?r = (ex_incident_table, fst (snd ?r), snd (snd ?r))" by (simp add: ex_incident_table_def)
  have "ie_cluster ex_incident_env = Inr (7, ''prod'')" by (simp add: ex_incident_env_def)
  from incident_answers_honest [OF r this] have h: "\<forall>a \<in> set (fst (snd ?r)). ia_Status a = Some ACCEPTED \<longrightarrow>
      answered_by (7, ''prod'') 10 [Some (ex_wire 1), None] ex_incident_table a" by blast
  have "fst (snd ?r) = [?a, \<lparr>ia_IncidentKey = '''', ia_Revision = 0, ia_Status = Some DISCARDED, ia_Reason = ReasonInvalidReport\<rparr>]" by code_simp
  then show ?thesis using h by simp
qed

definition ex_viewer :: Principal where
  "ex_viewer = \<lparr>pr_UserID = 3, pr_Username = ''eve'', pr_Role = RoleViewer, pr_TenantID = Some 5, pr_LastLoginAt = None,
     pr_PasswordExpiresAt = None, pr_MustChangePassword = False\<rparr>"

definition ex_incident_query :: IncidentListOptions where
  "ex_incident_query = \<lparr>lo_Page = 1, lo_PageSize = 20, lo_Clusters = [], lo_Components = [], lo_Reasons = [], lo_Statuses = [''active''],
     lo_From = None, lo_To = None\<rparr>"

definition ex_owns :: "int \<Rightarrow> int \<Rightarrow> bool" where "ex_owns tenant cluster \<longleftrightarrow> tenant = 5 \<and> cluster = 7"

theorem listed_incident_opens_witness:
  "map ii_Status (case incident_List True ex_owns None None 11 11 (Some ex_viewer) ex_incident_query ex_incident_table of Inr (items, n) \<Rightarrow> items | Inl _ \<Rightarrow> []) = [''active''] \<and>
   (\<exists>v. incident_Get True ex_owns None None 11 (Some ex_viewer) ''1'' [] ex_incident_table = Inr v)"
proof -
  let ?l = "incident_List True ex_owns None None 11 11 (Some ex_viewer) ex_incident_query ex_incident_table"
  let ?items = "case ?l of Inr (items, n) \<Rightarrow> items | Inl _ \<Rightarrow> []"
  have items: "map ii_ID ?items = [''1'']" "map ii_Status ?items = [''active'']" by code_simp+
  then obtain item where item: "?items = [item]" "ii_ID item = ''1''" by (cases ?items) auto
  then obtain n where l: "?l = Inr ([item], n)" by (auto split: sum.splits)
  have "distinct (map ir_ID ex_incident_table)" "list_all (\<lambda>r. 0 < ir_ID r \<and> ir_ID r < 2 ^ 63) ex_incident_table" by code_simp+
  from listed_incident_opens [OF l _ this, of item "[]"] item items show ?thesis by auto
qed

end
