(* ===== verification/Identity_Store.thy ===== *)
theory Identity_Store
  imports Console_Access
begin

text \<open>
  The identity tables of the console: \<^verbatim>\<open>internal/database/repository/identity_repo.go\<close> over the rows of
  \<^verbatim>\<open>internal/database/repository/models.go\<close>.

  A table is the list of its live rows; a soft-deleted row is one no query sees. Identifiers are drawn
  from a counter, since only that they are fresh matters. A transaction is a function that gives an error or
  the new database, so that a failed one changes nothing; \<open>en_fail\<close> names the calls the database refuses. The
  columns \<^verbatim>\<open>created_at\<close> and \<^verbatim>\<open>updated_at\<close> are kept only where they are read. The unique indexes on user names,
  tenant names, session tokens and activation tokens are the schema's.
\<close>

section \<open>Rows\<close>

definition UserStatusActive :: string where "UserStatusActive = ''active''"
definition UserStatusDisabled :: string where "UserStatusDisabled = ''disabled''"

record Tenant =
  tn_ID :: int
  tn_Name :: string
  tn_Status :: string

record User =
  us_ID :: int
  us_Username :: string
  us_PasswordHash :: string
  us_Role :: string
  us_Status :: string
  us_TenantID :: "int option"
  us_LastLoginAt :: "time option"
  us_LastLoginIP :: string
  us_PasswordChangedAt :: "time option"
  us_MustChangePassword :: bool
  us_FailedLoginCount :: int
  us_LockedUntil :: "time option"

record UserActivationToken =
  at_ID :: int
  at_UserID :: int
  at_TokenHash :: string
  at_ExpiresAt :: time
  at_UsedAt :: "time option"

record PasswordHistory =
  ph_ID :: int
  ph_UserID :: int
  ph_PasswordHash :: string
  ph_CreatedAt :: time

record SecuritySettings =
  ss_ActivationLifetimeHours :: int
  ss_PasswordLifetimeDays :: int
  ss_PasswordMinLength :: int
  ss_PasswordHistoryCount :: int
  ss_MaxFailedLoginAttempts :: int
  ss_LockoutDurationMinutes :: int
  ss_SessionIdleMinutes :: int
  ss_SessionAbsoluteMinutes :: int
  ss_AllowConcurrentSessions :: bool

record Session =
  se_ID :: int
  se_UserID :: int
  se_TokenHash :: string
  se_ExpiresAt :: time
  se_LastSeenAt :: time
  se_RevokedAt :: "time option"

record identity_db =
  db_tenants :: "Tenant list"
  db_users :: "User list"
  db_tokens :: "UserActivationToken list"
  db_history :: "PasswordHistory list"
  db_sessions :: "Session list"
  db_settings :: "SecuritySettings option"
  db_next :: int

text \<open>The surroundings of one operation: the calls that fail, the clock, bcrypt, the random source, SHA-256, the
  Unicode part of lower-casing, and the configured session durations.\<close>

record id_env =
  en_fail :: "string \<Rightarrow> string option"
  en_now :: time
  en_hash :: "string \<Rightarrow> string + string"
  en_match :: "string \<Rightarrow> string \<Rightarrow> bool"
  en_token :: "string + string"
  en_sha :: "string \<Rightarrow> string"
  en_unicode_lower :: "string \<Rightarrow> string"
  en_absolute :: duration
  en_idle :: duration

abbreviation (input) minute :: duration where "minute \<equiv> 60 * second"

definition storage :: "id_env \<Rightarrow> string \<Rightarrow> service_error + 'a \<Rightarrow> service_error + 'a" where
  "storage env call x = (case en_fail env call of Some err \<Rightarrow> Inl (StorageError err) | None \<Rightarrow> x)"

definition first_row :: "('a \<Rightarrow> bool) \<Rightarrow> 'a list \<Rightarrow> service_error + 'a" where
  "first_row P rows = (case find P rows of None \<Rightarrow> Inl ErrRecordNotFound | Some r \<Rightarrow> Inr r)"

definition update_where :: "('a \<Rightarrow> bool) \<Rightarrow> ('a \<Rightarrow> 'a) \<Rightarrow> 'a list \<Rightarrow> 'a list" where
  "update_where P f rows = map (\<lambda>r. if P r then f r else r) rows"

definition revoke_where :: "(Session \<Rightarrow> bool) \<Rightarrow> time \<Rightarrow> identity_db \<Rightarrow> identity_db" where
  "revoke_where P at db = db\<lparr>db_sessions := update_where (\<lambda>s. P s \<and> se_RevokedAt s = None) (\<lambda>s. s\<lparr>se_RevokedAt := Some at\<rparr>) (db_sessions db)\<rparr>"

definition update_user :: "int \<Rightarrow> (User \<Rightarrow> User) \<Rightarrow> identity_db \<Rightarrow> identity_db" where
  "update_user userID f db = db\<lparr>db_users := update_where (\<lambda>u. us_ID u = userID) f (db_users db)\<rparr>"

definition add_history :: "int \<Rightarrow> string \<Rightarrow> time \<Rightarrow> identity_db \<Rightarrow> identity_db" where
  "add_history userID passwordHash at db =
     db\<lparr>db_history := db_history db @ [\<lparr>ph_ID = db_next db, ph_UserID = userID, ph_PasswordHash = passwordHash, ph_CreatedAt = at\<rparr>],
        db_next := db_next db + 1\<rparr>"

section \<open>Reading\<close>

definition GetTenant :: "id_env \<Rightarrow> int \<Rightarrow> identity_db \<Rightarrow> service_error + Tenant" where
  "GetTenant env tenantID db = storage env ''GetTenant'' (first_row (\<lambda>t. tn_ID t = tenantID) (db_tenants db))"

definition GetUser :: "id_env \<Rightarrow> int \<Rightarrow> identity_db \<Rightarrow> service_error + User" where
  "GetUser env userID db = storage env ''GetUser'' (first_row (\<lambda>u. us_ID u = userID) (db_users db))"

definition GetUserByUsername :: "id_env \<Rightarrow> string \<Rightarrow> identity_db \<Rightarrow> service_error + User" where
  "GetUserByUsername env username db = storage env ''GetUserByUsername'' (first_row (\<lambda>u. us_Username u = username) (db_users db))"

definition GetSecuritySettings :: "id_env \<Rightarrow> identity_db \<Rightarrow> service_error + SecuritySettings" where
  "GetSecuritySettings env db = storage env ''GetSecuritySettings''
     (case db_settings db of None \<Rightarrow> Inl ErrRecordNotFound | Some s \<Rightarrow> Inr s)"

definition GetActivationToken :: "id_env \<Rightarrow> string \<Rightarrow> identity_db \<Rightarrow> service_error + UserActivationToken" where
  "GetActivationToken env tokenHash db = storage env ''GetActivationToken''
     (first_row (\<lambda>t. at_TokenHash t = tokenHash \<and> at_UsedAt t = None) (db_tokens db))"

definition ListPasswordHashes :: "id_env \<Rightarrow> int \<Rightarrow> int \<Rightarrow> identity_db \<Rightarrow> service_error + string list" where
  "ListPasswordHashes env userID limit db =
    (if limit \<le> 0 then Inr []
     else storage env ''ListPasswordHashes'' (Inr (map ph_PasswordHash (take (nat limit)
       (order_by ph_CreatedAt True (order_by ph_ID True (filter (\<lambda>h. ph_UserID h = userID) (db_history db))))))))"

text \<open>The session, its user and the user's tenant; all three must be active.\<close>

definition GetActiveSession :: "id_env \<Rightarrow> string \<Rightarrow> time \<Rightarrow> identity_db \<Rightarrow> service_error + Session \<times> User" where
  "GetActiveSession env tokenHash now db =
    (case storage env ''GetActiveSession''
        (first_row (\<lambda>s. se_TokenHash s = tokenHash \<and> se_RevokedAt s = None \<and> se_ExpiresAt s > now) (db_sessions db)) of
      Inl err \<Rightarrow> Inl (if err = ErrRecordNotFound then ErrInactiveSession else err)
    | Inr session \<Rightarrow> (case storage env ''GetActiveSession.user'' (first_row (\<lambda>u. us_ID u = se_UserID session) (db_users db)) of
        Inl err \<Rightarrow> Inl ErrInactiveSession
      | Inr user \<Rightarrow>
          (if us_Status user \<noteq> UserStatusActive then Inl ErrInactiveSession
           else case us_TenantID user of
             None \<Rightarrow> Inr (session, user)
           | Some tenantID \<Rightarrow> (case storage env ''GetActiveSession.tenant'' (first_row (\<lambda>t. tn_ID t = tenantID) (db_tenants db)) of
               Inl err \<Rightarrow> Inl ErrInactiveSession
             | Inr tenant \<Rightarrow> if tn_Status tenant \<noteq> UserStatusActive then Inl ErrInactiveSession else Inr (session, user)))))"

section \<open>Writing\<close>

definition CreateTenant :: "id_env \<Rightarrow> string \<Rightarrow> string \<Rightarrow> identity_db \<Rightarrow> service_error + identity_db" where
  "CreateTenant env name status db = storage env ''CreateTenant''
    (if name \<in> set (map tn_Name (db_tenants db)) then Inl ErrUniqueViolation
     else Inr (db\<lparr>db_tenants := db_tenants db @ [\<lparr>tn_ID = db_next db, tn_Name = name, tn_Status = status\<rparr>], db_next := db_next db + 1\<rparr>))"

definition SetTenantStatusAndRevoke :: "id_env \<Rightarrow> int \<Rightarrow> string \<Rightarrow> time \<Rightarrow> identity_db \<Rightarrow> service_error + identity_db" where
  "SetTenantStatusAndRevoke env tenantID status at db = storage env ''SetTenantStatusAndRevoke''
    (if tenantID \<notin> set (map tn_ID (db_tenants db)) then Inl ErrRecordNotFound
     else Inr (revoke_where (\<lambda>s. se_UserID s \<in> set (map us_ID (filter (\<lambda>u. us_TenantID u = Some tenantID) (db_users db)))) at
       (db\<lparr>db_tenants := update_where (\<lambda>t. tn_ID t = tenantID) (\<lambda>t. t\<lparr>tn_Status := status\<rparr>) (db_tenants db)\<rparr>)))"

definition CreateUserWithActivation :: "id_env \<Rightarrow> User \<Rightarrow> string \<Rightarrow> time \<Rightarrow> identity_db \<Rightarrow> service_error + User \<times> identity_db" where
  "CreateUserWithActivation env user tokenHash expiresAt db = storage env ''CreateUserWithActivation''
    (if us_Username user \<in> set (map us_Username (db_users db)) \<or> tokenHash \<in> set (map at_TokenHash (db_tokens db)) then Inl ErrUniqueViolation
     else let created = user\<lparr>us_ID := db_next db\<rparr>
          in Inr (created, db\<lparr>db_users := db_users db @ [created],
            db_tokens := db_tokens db @ [\<lparr>at_ID = db_next db + 1, at_UserID = db_next db, at_TokenHash = tokenHash, at_ExpiresAt = expiresAt, at_UsedAt = None\<rparr>],
            db_next := db_next db + 2\<rparr>))"

definition ReplaceActivationToken :: "id_env \<Rightarrow> int \<Rightarrow> string \<Rightarrow> time \<Rightarrow> time \<Rightarrow> identity_db \<Rightarrow> service_error + identity_db" where
  "ReplaceActivationToken env userID tokenHash expiresAt at db = storage env ''ReplaceActivationToken''
    (if tokenHash \<in> set (map at_TokenHash (db_tokens db)) then Inl ErrUniqueViolation
     else Inr (db\<lparr>db_tokens := update_where (\<lambda>t. at_UserID t = userID \<and> at_UsedAt t = None) (\<lambda>t. t\<lparr>at_UsedAt := Some at\<rparr>) (db_tokens db)
         @ [\<lparr>at_ID = db_next db, at_UserID = userID, at_TokenHash = tokenHash, at_ExpiresAt = expiresAt, at_UsedAt = None\<rparr>],
       db_next := db_next db + 1\<rparr>))"

definition activated :: "string \<Rightarrow> time \<Rightarrow> User \<Rightarrow> User" where
  "activated passwordHash at u = u\<lparr>us_PasswordHash := passwordHash, us_PasswordChangedAt := Some at, us_MustChangePassword := False,
     us_FailedLoginCount := 0, us_LockedUntil := None\<rparr>"

definition ActivateUser :: "id_env \<Rightarrow> int \<Rightarrow> string \<Rightarrow> string \<Rightarrow> time \<Rightarrow> identity_db \<Rightarrow> service_error + identity_db" where
  "ActivateUser env userID tokenHash passwordHash at db = storage env ''ActivateUser''
    (case first_row (\<lambda>t. at_UserID t = userID \<and> at_TokenHash t = tokenHash \<and> at_UsedAt t = None \<and> at_ExpiresAt t > at) (db_tokens db) of
      Inl err \<Rightarrow> Inl err
    | Inr token \<Rightarrow>
        (let P = (\<lambda>u. us_ID u = userID \<and> us_Status u = UserStatusActive \<and> us_PasswordHash u = '''')
         in if length (filter P (db_users db)) \<noteq> 1 then Inl ErrRecordNotFound
            else let db1 = add_history userID passwordHash at (db\<lparr>db_users := update_where P (activated passwordHash at) (db_users db)\<rparr>)
                 in Inr (db1\<lparr>db_tokens := update_where (\<lambda>t. at_ID t = at_ID token) (\<lambda>t. t\<lparr>at_UsedAt := Some at\<rparr>) (db_tokens db1)\<rparr>)))"

definition RecordLoginFailure :: "id_env \<Rightarrow> int \<Rightarrow> int \<Rightarrow> int \<Rightarrow> time \<Rightarrow> identity_db \<Rightarrow> service_error + identity_db" where
  "RecordLoginFailure env userID maxAttempts lockoutMinutes at db = storage env ''RecordLoginFailure''
    (case first_row (\<lambda>u. us_ID u = userID) (db_users db) of
      Inl err \<Rightarrow> Inl err
    | Inr user \<Rightarrow>
        (let n = us_FailedLoginCount user + 1
         in Inr (update_user userID (\<lambda>u. u\<lparr>us_FailedLoginCount := n,
              us_LockedUntil := (if n \<ge> maxAttempts then Some (at + lockoutMinutes * minute) else us_LockedUntil u)\<rparr>) db)))"

definition LoginSucceeded :: "id_env \<Rightarrow> int \<Rightarrow> string \<Rightarrow> time \<Rightarrow> time \<Rightarrow> string \<Rightarrow> bool \<Rightarrow> identity_db \<Rightarrow> service_error + identity_db" where
  "LoginSucceeded env userID tokenHash expiresAt at remoteIP allowConcurrent db = storage env ''LoginSucceeded''
    (case first_row (\<lambda>u. us_ID u = userID) (db_users db) of
      Inl err \<Rightarrow> Inl err
    | Inr user \<Rightarrow>
        (if tokenHash \<in> set (map se_TokenHash (db_sessions db)) then Inl ErrUniqueViolation
         else let db1 = (if allowConcurrent then db else revoke_where (\<lambda>s. se_UserID s = userID) at db);
                  db2 = update_user userID (\<lambda>u. u\<lparr>us_LastLoginAt := Some at, us_LastLoginIP := remoteIP, us_FailedLoginCount := 0, us_LockedUntil := None\<rparr>) db1
              in Inr (db2\<lparr>db_sessions := db_sessions db2 @ [\<lparr>se_ID = db_next db2, se_UserID = userID, se_TokenHash = tokenHash,
                     se_ExpiresAt = expiresAt, se_LastSeenAt = at, se_RevokedAt = None\<rparr>], db_next := db_next db2 + 1\<rparr>)))"

definition ChangePasswordRow :: "id_env \<Rightarrow> int \<Rightarrow> string \<Rightarrow> int option \<Rightarrow> time \<Rightarrow> identity_db \<Rightarrow> service_error + identity_db" where
  "ChangePasswordRow env userID passwordHash keepSessionID at db = storage env ''ChangePassword''
    (Inr (revoke_where (\<lambda>s. se_UserID s = userID \<and> keepSessionID \<noteq> Some (se_ID s)) at
       (add_history userID passwordHash at (update_user userID (activated passwordHash at) db))))"

definition UpdateSecuritySettings :: "id_env \<Rightarrow> SecuritySettings \<Rightarrow> identity_db \<Rightarrow> service_error + identity_db" where
  "UpdateSecuritySettings env settings db = storage env ''UpdateSecuritySettings''
    (Inr (db\<lparr>db_settings := map_option (\<lambda>_. settings) (db_settings db)\<rparr>))"

definition UnlockUserRow :: "id_env \<Rightarrow> int \<Rightarrow> identity_db \<Rightarrow> service_error + identity_db" where
  "UnlockUserRow env userID db = storage env ''UnlockUser''
    (Inr (update_user userID (\<lambda>u. u\<lparr>us_FailedLoginCount := 0, us_LockedUntil := None\<rparr>) db))"

definition RequirePasswordChange :: "id_env \<Rightarrow> int \<Rightarrow> identity_db \<Rightarrow> service_error + identity_db" where
  "RequirePasswordChange env userID db = storage env ''RequirePasswordChange''
    (Inr (update_user userID (\<lambda>u. u\<lparr>us_MustChangePassword := True\<rparr>) db))"

text \<open>Whether this call set the password.\<close>

definition InitializeAdminRow :: "id_env \<Rightarrow> string \<Rightarrow> time \<Rightarrow> identity_db \<Rightarrow> service_error + bool \<times> identity_db" where
  "InitializeAdminRow env passwordHash at db = storage env ''InitializeAdmin''
    (case first_row (\<lambda>u. us_Username u = ''admin'' \<and> us_Role u = RoleSystemAdmin) (db_users db) of
      Inl err \<Rightarrow> Inl err
    | Inr admin \<Rightarrow>
        (if us_PasswordHash admin \<noteq> '''' then Inr (False, db)
         else Inr (True, add_history (us_ID admin) passwordHash at
           (update_user (us_ID admin) (\<lambda>u. u\<lparr>us_PasswordHash := passwordHash, us_PasswordChangedAt := Some at\<rparr>) db))))"

definition TouchSession :: "id_env \<Rightarrow> int \<Rightarrow> time \<Rightarrow> identity_db \<Rightarrow> service_error + identity_db" where
  "TouchSession env sessionID at db = storage env ''TouchSession''
    (Inr (db\<lparr>db_sessions := update_where (\<lambda>s. se_ID s = sessionID \<and> se_RevokedAt s = None) (\<lambda>s. s\<lparr>se_LastSeenAt := at\<rparr>) (db_sessions db)\<rparr>))"

definition RevokeSession :: "id_env \<Rightarrow> int \<Rightarrow> time \<Rightarrow> identity_db \<Rightarrow> service_error + identity_db" where
  "RevokeSession env sessionID at db = storage env ''RevokeSession''
    (Inr (db\<lparr>db_sessions := update_where (\<lambda>s. se_ID s = sessionID) (\<lambda>s. s\<lparr>se_RevokedAt := Some at\<rparr>) (db_sessions db)\<rparr>))"

definition RevokeUserSessions :: "id_env \<Rightarrow> int \<Rightarrow> identity_db \<Rightarrow> service_error + identity_db" where
  "RevokeUserSessions env userID db = storage env ''RevokeUserSessions'' (Inr (revoke_where (\<lambda>s. se_UserID s = userID) (en_now env) db))"

definition enabled_admins :: "identity_db \<Rightarrow> User list" where
  "enabled_admins db = filter (\<lambda>u. us_Role u = RoleSystemAdmin \<and> us_Status u = UserStatusActive \<and> us_PasswordHash u \<noteq> '''') (db_users db)"

definition SetUserStatusAndRevoke :: "id_env \<Rightarrow> int \<Rightarrow> string \<Rightarrow> time \<Rightarrow> identity_db \<Rightarrow> service_error + identity_db" where
  "SetUserStatusAndRevoke env userID status at db = storage env ''SetUserStatusAndRevoke''
    (case first_row (\<lambda>u. us_ID u = userID) (db_users db) of
      Inl err \<Rightarrow> Inl err
    | Inr user \<Rightarrow>
        (if us_Role user = RoleSystemAdmin \<and> status = UserStatusDisabled \<and> length (enabled_admins db) \<le> 1 then Inl ErrLastSystemAdmin
         else Inr (revoke_where (\<lambda>s. se_UserID s = userID) at (update_user userID (\<lambda>u. u\<lparr>us_Status := status\<rparr>) db))))"

definition SetUserPasswordAndRevoke :: "id_env \<Rightarrow> int \<Rightarrow> string \<Rightarrow> time \<Rightarrow> identity_db \<Rightarrow> service_error + identity_db" where
  "SetUserPasswordAndRevoke env userID hash at db = storage env ''SetUserPasswordAndRevoke''
    (if userID \<notin> set (map us_ID (db_users db)) then Inl ErrRecordNotFound
     else Inr (revoke_where (\<lambda>s. se_UserID s = userID) at (update_user userID (\<lambda>u. u\<lparr>us_PasswordHash := hash\<rparr>) db)))"

definition DeleteUserAndRevoke :: "id_env \<Rightarrow> int \<Rightarrow> time \<Rightarrow> identity_db \<Rightarrow> service_error + identity_db" where
  "DeleteUserAndRevoke env userID at db = storage env ''DeleteUserAndRevoke''
    (case first_row (\<lambda>u. us_ID u = userID) (db_users db) of
      Inl err \<Rightarrow> Inl err
    | Inr user \<Rightarrow>
        (if us_Role user = RoleSystemAdmin \<and> us_Status user = UserStatusActive \<and> length (enabled_admins db) \<le> 1 then Inl ErrLastSystemAdmin
         else let db1 = revoke_where (\<lambda>s. se_UserID s = userID) at db
              in Inr (db1\<lparr>db_users := filter (\<lambda>u. us_ID u \<noteq> userID) (db_users db1)\<rparr>)))"

end
