(* ===== verification/Console_Identity.thy ===== *)
theory Console_Identity
  imports Identity_Store Go_Strings
begin

text \<open>
  Signing in and managing accounts: \<^verbatim>\<open>internal/console/service/auth.go\<close>, \<^verbatim>\<open>identity.go\<close>, \<^verbatim>\<open>password_policy.go\<close> and
  \<^verbatim>\<open>security_settings_service.go\<close> over the identity tables.

  An operation gives the database afterwards and its result; one that fails half-way keeps what it
  had written. bcrypt, SHA-256 and the random source are parameters of the environment.
\<close>

section \<open>Passwords\<close>

definition MinimumPasswordLength :: int where "MinimumPasswordLength = 12"

definition validatePasswordLength :: "string \<Rightarrow> SecuritySettings \<Rightarrow> service_error option" where
  "validatePasswordLength password settings =
    (let minimum = (if ss_PasswordMinLength settings > 0 then ss_PasswordMinLength settings else MinimumPasswordLength)
     in if int (length password) < minimum then Some ErrInvalidPassword else None)"

definition passwordWasUsed :: "id_env \<Rightarrow> string \<Rightarrow> string list \<Rightarrow> bool" where
  "passwordWasUsed env password hashes = list_ex (\<lambda>hash. hash \<noteq> '''' \<and> en_match env hash password) hashes"

definition passwordExpiry :: "User \<Rightarrow> SecuritySettings \<Rightarrow> time option \<times> bool" where
  "passwordExpiry user settings =
    (case us_PasswordChangedAt user of
      None \<Rightarrow> (None, us_MustChangePassword user)
    | Some changed \<Rightarrow>
        (if ss_PasswordLifetimeDays settings \<le> 0 then (None, us_MustChangePassword user)
         else (Some (changed + ss_PasswordLifetimeDays settings * 24 * 60 * minute), us_MustChangePassword user)))"

text \<open>Lower-casing a text of ASCII bytes; \<open>en_unicode_lower\<close> handles the others.\<close>

definition ToLower :: "id_env \<Rightarrow> string \<Rightarrow> string" where
  "ToLower env s = (if list_all (\<lambda>c. of_char c < (128::nat)) s
     then map (\<lambda>c. if (65::nat) \<le> of_char c \<and> of_char c \<le> (90::nat) then char_of (of_char c + 32 :: nat) else c) s
     else en_unicode_lower env s)"

section \<open>Signing in and out\<close>

definition InitializeAdmin :: "id_env \<Rightarrow> string \<Rightarrow> identity_db \<Rightarrow> identity_db \<times> service_error option" where
  "InitializeAdmin env password db = (case GetSecuritySettings env db of
      Inl err \<Rightarrow> (db, Some err)
    | Inr settings \<Rightarrow> (case validatePasswordLength password settings of
        Some err \<Rightarrow> (db, Some err)
      | None \<Rightarrow> (case en_hash env password of
          Inl err \<Rightarrow> (db, Some (StorageError err))
        | Inr hash \<Rightarrow> (case InitializeAdminRow env hash (en_now env) db of
            Inl err \<Rightarrow> (db, Some err)
          | Inr (won, db') \<Rightarrow> if won then (db', None) else (db', Some ErrAlreadyInitialized)))))"

definition locked :: "id_env \<Rightarrow> User \<Rightarrow> bool" where
  "locked env user \<longleftrightarrow> (case us_LockedUntil user of None \<Rightarrow> False | Some until \<Rightarrow> until > en_now env)"

definition Login :: "id_env \<Rightarrow> string \<Rightarrow> string \<Rightarrow> string \<Rightarrow> identity_db \<Rightarrow> identity_db \<times> (service_error + string \<times> User)" where
  "Login env username password remoteIP db =
    (case GetUserByUsername env (ToLower env (TrimSpace username)) db of
      Inl err \<Rightarrow> (db, Inl ErrInvalidCredentials)
    | Inr user \<Rightarrow>
        (if us_Status user \<noteq> UserStatusActive \<or> us_PasswordHash user = '''' then (db, Inl ErrInvalidCredentials)
         else if locked env user then (db, Inl ErrAccountLocked)
         else case GetSecuritySettings env db of
           Inl err \<Rightarrow> (db, Inl err)
         | Inr settings \<Rightarrow>
             (if \<not> en_match env (us_PasswordHash user) password
              then (case RecordLoginFailure env (us_ID user) (ss_MaxFailedLoginAttempts settings) (ss_LockoutDurationMinutes settings) (en_now env) db of
                  Inl err \<Rightarrow> db | Inr db' \<Rightarrow> db', Inl ErrInvalidCredentials)
              else if (case us_TenantID user of None \<Rightarrow> False
                  | Some tenantID \<Rightarrow> (case GetTenant env tenantID db of Inl err \<Rightarrow> True | Inr tenant \<Rightarrow> tn_Status tenant \<noteq> UserStatusActive))
                then (db, Inl ErrInvalidCredentials)
              else case en_token env of
                Inl err \<Rightarrow> (db, Inl (StorageError err))
              | Inr token \<Rightarrow>
                  (let absolute = (if ss_SessionAbsoluteMinutes settings * minute \<le> 0 then en_absolute env else ss_SessionAbsoluteMinutes settings * minute)
                   in case LoginSucceeded env (us_ID user) (en_sha env token) (en_now env + absolute) (en_now env) remoteIP
                          (ss_AllowConcurrentSessions settings) db of
                        Inl err \<Rightarrow> (db, Inl err)
                      | Inr db' \<Rightarrow> (db', Inr (token, user\<lparr>us_LastLoginAt := Some (en_now env), us_LastLoginIP := remoteIP,
                          us_FailedLoginCount := 0, us_LockedUntil := None\<rparr>))))))"

definition idle_limit :: "id_env \<Rightarrow> SecuritySettings \<Rightarrow> duration" where
  "idle_limit env settings = (if ss_SessionIdleMinutes settings * minute \<le> 0 then en_idle env else ss_SessionIdleMinutes settings * minute)"

definition principal_of :: "id_env \<Rightarrow> SecuritySettings \<Rightarrow> User \<Rightarrow> Principal" where
  "principal_of env settings user =
    (let (expiresAt, forced) = passwordExpiry user settings
     in \<lparr>pr_UserID = us_ID user, pr_Username = us_Username user, pr_Role = us_Role user, pr_TenantID = us_TenantID user,
         pr_LastLoginAt = us_LastLoginAt user, pr_PasswordExpiresAt = expiresAt,
         pr_MustChangePassword = (forced \<or> (case expiresAt of None \<Rightarrow> False | Some t \<Rightarrow> \<not> t > en_now env))\<rparr>)"

definition Authenticate :: "id_env \<Rightarrow> string \<Rightarrow> identity_db \<Rightarrow> identity_db \<times> (service_error + Principal)" where
  "Authenticate env token db =
    (case GetSecuritySettings env db of
      Inl err \<Rightarrow> (db, Inl err)
    | Inr settings \<Rightarrow> (case GetActiveSession env (en_sha env token) (en_now env) db of
        Inl err \<Rightarrow> (db, Inl ErrAuthentication)
      | Inr (session, user) \<Rightarrow>
          (if time_sub (en_now env) (se_LastSeenAt session) > idle_limit env settings
           then (case RevokeSession env (se_ID session) (en_now env) db of Inl err \<Rightarrow> db | Inr db' \<Rightarrow> db', Inl ErrAuthentication)
           else case TouchSession env (se_ID session) (en_now env) db of
             Inl err \<Rightarrow> (db, Inl err)
           | Inr db' \<Rightarrow> (db', Inr (principal_of env settings user)))))"

definition Logout :: "id_env \<Rightarrow> string \<Rightarrow> identity_db \<Rightarrow> identity_db \<times> service_error option" where
  "Logout env token db = (case GetActiveSession env (en_sha env token) (en_now env) db of
      Inl err \<Rightarrow> (db, None)
    | Inr (session, user) \<Rightarrow> (case RevokeSession env (se_ID session) (en_now env) db of Inl err \<Rightarrow> (db, Some err) | Inr db' \<Rightarrow> (db', None)))"

definition Activate :: "id_env \<Rightarrow> string \<Rightarrow> string \<Rightarrow> identity_db \<Rightarrow> identity_db \<times> service_error option" where
  "Activate env code password db = (case GetSecuritySettings env db of
      Inl err \<Rightarrow> (db, Some err)
    | Inr settings \<Rightarrow> (case validatePasswordLength password settings of
        Some err \<Rightarrow> (db, Some err)
      | None \<Rightarrow> (case GetActivationToken env (en_sha env code) db of
          Inl err \<Rightarrow> (db, Some ErrActivationInvalid)
        | Inr token \<Rightarrow>
            (if \<not> at_ExpiresAt token > en_now env then (db, Some ErrActivationInvalid)
             else case en_hash env password of
               Inl err \<Rightarrow> (db, Some (StorageError err))
             | Inr hash \<Rightarrow> (case ActivateUser env (at_UserID token) (en_sha env code) hash (en_now env) db of
                 Inl err \<Rightarrow> (db, Some ErrActivationInvalid)
               | Inr db' \<Rightarrow> (db', None))))))"

definition ChangePassword :: "id_env \<Rightarrow> Principal \<Rightarrow> string \<Rightarrow> string \<Rightarrow> string \<Rightarrow> identity_db \<Rightarrow> identity_db \<times> service_error option" where
  "ChangePassword env actor sessionToken currentPassword newPassword db =
    (case GetSecuritySettings env db of
      Inl err \<Rightarrow> (db, Some err)
    | Inr settings \<Rightarrow> (case GetUser env (pr_UserID actor) db of
        Inl err \<Rightarrow> (db, Some err)
      | Inr user \<Rightarrow>
          (if \<not> en_match env (us_PasswordHash user) currentPassword then (db, Some ErrCurrentPasswordIncorrect)
           else case validatePasswordLength newPassword settings of
             Some err \<Rightarrow> (db, Some err)
           | None \<Rightarrow> (case (if ss_PasswordHistoryCount settings > 0
                then (case ListPasswordHashes env (us_ID user) (ss_PasswordHistoryCount settings) db of
                    Inl err \<Rightarrow> Some err
                  | Inr hashes \<Rightarrow> if passwordWasUsed env newPassword (hashes @ [us_PasswordHash user]) then Some ErrPasswordReused else None)
                else None) of
               Some err \<Rightarrow> (db, Some err)
             | None \<Rightarrow> (case en_hash env newPassword of
                 Inl err \<Rightarrow> (db, Some (StorageError err))
               | Inr hash \<Rightarrow> (case (if sessionToken = '''' then Inr None
                    else (case GetActiveSession env (en_sha env sessionToken) (en_now env) db of
                        Inl err \<Rightarrow> Inl ErrAuthentication
                      | Inr (session, _) \<Rightarrow> if se_UserID session \<noteq> us_ID user then Inl ErrAuthentication else Inr (Some (se_ID session)))) of
                   Inl err \<Rightarrow> (db, Some err)
                 | Inr keepSessionID \<Rightarrow> (case ChangePasswordRow env (us_ID user) hash keepSessionID (en_now env) db of
                     Inl err \<Rightarrow> (db, Some err)
                   | Inr db' \<Rightarrow> (db', None))))))))"

section \<open>Managing accounts\<close>

definition validStatus :: "string \<Rightarrow> bool" where
  "validStatus status \<longleftrightarrow> status = UserStatusActive \<or> status = UserStatusDisabled"

definition authorizedUser :: "id_env \<Rightarrow> Principal \<Rightarrow> int \<Rightarrow> identity_db \<Rightarrow> service_error + User" where
  "authorizedUser env actor userID db =
    (if pr_Role actor = RoleViewer then Inl ErrForbidden
     else case GetUser env userID db of
       Inl err \<Rightarrow> Inl (if err = ErrRecordNotFound then ErrIdentityNotFound else err)
     | Inr user \<Rightarrow>
         (if pr_Role actor = RoleTenantAdmin \<and> (pr_TenantID actor = None \<or> us_TenantID user = None \<or> pr_TenantID actor \<noteq> us_TenantID user)
          then Inl ErrIdentityNotFound else Inr user))"

text \<open>The shape every change of an account has: the target, the checks on it in the source's order, the rule that a
  tenant administrator changes viewers only, and the write.\<close>

definition keep_db :: "identity_db \<Rightarrow> service_error + identity_db \<Rightarrow> identity_db \<times> service_error option" where
  "keep_db db r = (case r of Inl err \<Rightarrow> (db, Some err) | Inr db' \<Rightarrow> (db', None))"

definition beyond_tenant_admin :: "Principal \<Rightarrow> User \<Rightarrow> bool" where
  "beyond_tenant_admin actor target \<longleftrightarrow> pr_Role actor = RoleTenantAdmin \<and> us_Role target \<noteq> RoleViewer"

definition CreateTenantService :: "id_env \<Rightarrow> Principal \<Rightarrow> string \<Rightarrow> identity_db \<Rightarrow> identity_db \<times> service_error option" where
  "CreateTenantService env actor name db =
    (if pr_Role actor \<noteq> RoleSystemAdmin then (db, Some ErrForbidden)
     else if TrimSpace name = '''' then (db, Some ErrInvalidIdentity)
     else keep_db db (CreateTenant env (TrimSpace name) UserStatusActive db))"

definition SetTenantStatus :: "id_env \<Rightarrow> Principal \<Rightarrow> int \<Rightarrow> string \<Rightarrow> identity_db \<Rightarrow> identity_db \<times> service_error option" where
  "SetTenantStatus env actor tenantID status db =
    (if pr_Role actor \<noteq> RoleSystemAdmin then (db, Some ErrForbidden)
     else if \<not> validStatus status then (db, Some ErrInvalidIdentity)
     else keep_db db (SetTenantStatusAndRevoke env tenantID status (en_now env) db))"

definition new_user :: "string \<Rightarrow> string \<Rightarrow> int option \<Rightarrow> User" where
  "new_user username role tenantID = \<lparr>us_ID = 0, us_Username = username, us_PasswordHash = '''', us_Role = role, us_Status = UserStatusActive,
     us_TenantID = tenantID, us_LastLoginAt = None, us_LastLoginIP = '''', us_PasswordChangedAt = None, us_MustChangePassword = False,
     us_FailedLoginCount = 0, us_LockedUntil = None\<rparr>"

text \<open>The account and its activation code.\<close>

definition CreateUser ::
  "id_env \<Rightarrow> Principal \<Rightarrow> string \<Rightarrow> string \<Rightarrow> int option \<Rightarrow> identity_db \<Rightarrow> identity_db \<times> (service_error + User \<times> string \<times> time)" where
  "CreateUser env actor name role tenantID db =
    (let username = ToLower env (TrimSpace name)
     in if username = '''' then (db, Inl ErrInvalidIdentity)
        else if pr_Role actor = RoleTenantAdmin \<and> (pr_TenantID actor = None \<or> role \<noteq> RoleViewer \<or> tenantID = None \<or> tenantID \<noteq> pr_TenantID actor)
          then (db, Inl ErrForbidden)
        else if pr_Role actor \<noteq> RoleTenantAdmin \<and> pr_Role actor \<noteq> RoleSystemAdmin then (db, Inl ErrForbidden)
        else if (role = RoleSystemAdmin) \<noteq> (tenantID = None) \<or> (role \<noteq> RoleSystemAdmin \<and> role \<noteq> RoleTenantAdmin \<and> role \<noteq> RoleViewer)
          then (db, Inl ErrInvalidIdentity)
        else if (case tenantID of None \<Rightarrow> False
            | Some t \<Rightarrow> (case GetTenant env t db of Inl err \<Rightarrow> True | Inr tenant \<Rightarrow> tn_Status tenant \<noteq> UserStatusActive))
          then (db, Inl ErrInvalidIdentity)
        else case GetSecuritySettings env db of
          Inl err \<Rightarrow> (db, Inl err)
        | Inr settings \<Rightarrow> (case en_token env of
            Inl err \<Rightarrow> (db, Inl (StorageError err))
          | Inr code \<Rightarrow>
              (let expiresAt = en_now env + ss_ActivationLifetimeHours settings * 60 * minute
               in case CreateUserWithActivation env (new_user username role tenantID) (en_sha env code) expiresAt db of
                    Inl err \<Rightarrow> (db, Inl err)
                  | Inr (user, db') \<Rightarrow> (db', Inr (user, code, expiresAt)))))"

definition RegenerateActivation :: "id_env \<Rightarrow> Principal \<Rightarrow> int \<Rightarrow> identity_db \<Rightarrow> identity_db \<times> (service_error + string \<times> time)" where
  "RegenerateActivation env actor userID db = (case authorizedUser env actor userID db of
      Inl err \<Rightarrow> (db, Inl err)
    | Inr target \<Rightarrow>
        (if beyond_tenant_admin actor target then (db, Inl ErrForbidden)
         else if us_PasswordHash target \<noteq> '''' then (db, Inl ErrInvalidIdentity)
         else case GetSecuritySettings env db of
           Inl err \<Rightarrow> (db, Inl err)
         | Inr settings \<Rightarrow> (case en_token env of
             Inl err \<Rightarrow> (db, Inl (StorageError err))
           | Inr code \<Rightarrow>
               (let expiresAt = en_now env + ss_ActivationLifetimeHours settings * 60 * minute
                in case ReplaceActivationToken env (us_ID target) (en_sha env code) expiresAt (en_now env) db of
                     Inl err \<Rightarrow> (db, Inl err)
                   | Inr db' \<Rightarrow> (db', Inr (code, expiresAt))))))"

definition UnlockUser :: "id_env \<Rightarrow> Principal \<Rightarrow> int \<Rightarrow> identity_db \<Rightarrow> identity_db \<times> service_error option" where
  "UnlockUser env actor userID db = (case authorizedUser env actor userID db of
      Inl err \<Rightarrow> (db, Some err)
    | Inr target \<Rightarrow> if beyond_tenant_admin actor target then (db, Some ErrForbidden) else keep_db db (UnlockUserRow env userID db))"

definition ForceLogout :: "id_env \<Rightarrow> Principal \<Rightarrow> int \<Rightarrow> identity_db \<Rightarrow> identity_db \<times> service_error option" where
  "ForceLogout env actor userID db = (case authorizedUser env actor userID db of
      Inl err \<Rightarrow> (db, Some err)
    | Inr target \<Rightarrow> if beyond_tenant_admin actor target then (db, Some ErrForbidden) else keep_db db (RevokeUserSessions env userID db))"

definition ForcePasswordChange :: "id_env \<Rightarrow> Principal \<Rightarrow> int \<Rightarrow> identity_db \<Rightarrow> identity_db \<times> service_error option" where
  "ForcePasswordChange env actor userID db = (case authorizedUser env actor userID db of
      Inl err \<Rightarrow> (db, Some err)
    | Inr target \<Rightarrow>
        (if beyond_tenant_admin actor target then (db, Some ErrForbidden)
         else if us_PasswordHash target = '''' then (db, Some ErrInvalidIdentity)
         else keep_db db (RequirePasswordChange env userID db)))"

definition SetUserStatus :: "id_env \<Rightarrow> Principal \<Rightarrow> int \<Rightarrow> string \<Rightarrow> identity_db \<Rightarrow> identity_db \<times> service_error option" where
  "SetUserStatus env actor userID status db = (case authorizedUser env actor userID db of
      Inl err \<Rightarrow> (db, Some err)
    | Inr target \<Rightarrow>
        (if \<not> validStatus status then (db, Some ErrInvalidIdentity)
         else if beyond_tenant_admin actor target then (db, Some ErrForbidden)
         else keep_db db (SetUserStatusAndRevoke env userID status (en_now env) db)))"

definition ResetPassword :: "id_env \<Rightarrow> Principal \<Rightarrow> int \<Rightarrow> string \<Rightarrow> identity_db \<Rightarrow> identity_db \<times> service_error option" where
  "ResetPassword env actor userID password db = (case authorizedUser env actor userID db of
      Inl err \<Rightarrow> (db, Some err)
    | Inr target \<Rightarrow>
        (if int (length password) < MinimumPasswordLength then (db, Some ErrInvalidPassword)
         else if beyond_tenant_admin actor target then (db, Some ErrForbidden)
         else case en_hash env password of
           Inl err \<Rightarrow> (db, Some (StorageError err))
         | Inr hash \<Rightarrow> keep_db db (SetUserPasswordAndRevoke env userID hash (en_now env) db)))"

definition DeleteUser :: "id_env \<Rightarrow> Principal \<Rightarrow> int \<Rightarrow> identity_db \<Rightarrow> identity_db \<times> service_error option" where
  "DeleteUser env actor userID db = (case authorizedUser env actor userID db of
      Inl err \<Rightarrow> (db, Some err)
    | Inr target \<Rightarrow>
        (if us_Username target = ''admin'' then (db, Some ErrDefaultAdmin)
         else if beyond_tenant_admin actor target then (db, Some ErrForbidden)
         else keep_db db (DeleteUserAndRevoke env userID (en_now env) db)))"

definition validSecuritySettings :: "SecuritySettings \<Rightarrow> bool" where
  "validSecuritySettings v \<longleftrightarrow> ss_ActivationLifetimeHours v \<ge> 1 \<and> ss_ActivationLifetimeHours v \<le> 720 \<and>
     ss_PasswordLifetimeDays v \<ge> 0 \<and> ss_PasswordLifetimeDays v \<le> 3650 \<and>
     ss_PasswordMinLength v \<ge> 8 \<and> ss_PasswordMinLength v \<le> 128 \<and>
     ss_PasswordHistoryCount v \<ge> 0 \<and> ss_PasswordHistoryCount v \<le> 24 \<and>
     ss_MaxFailedLoginAttempts v \<ge> 1 \<and> ss_MaxFailedLoginAttempts v \<le> 100 \<and>
     ss_LockoutDurationMinutes v \<ge> 1 \<and> ss_LockoutDurationMinutes v \<le> 10080 \<and>
     ss_SessionIdleMinutes v \<ge> 1 \<and> ss_SessionIdleMinutes v \<le> 10080 \<and>
     ss_SessionAbsoluteMinutes v \<ge> 1 \<and> ss_SessionAbsoluteMinutes v \<le> 43200 \<and>
     ss_SessionIdleMinutes v \<le> ss_SessionAbsoluteMinutes v"

definition UpdateSettings :: "id_env \<Rightarrow> Principal \<Rightarrow> SecuritySettings \<Rightarrow> identity_db \<Rightarrow> identity_db \<times> service_error option" where
  "UpdateSettings env actor input db =
    (if pr_Role actor \<noteq> RoleSystemAdmin then (db, Some ErrForbidden)
     else if \<not> validSecuritySettings input then (db, Some ErrInvalidIdentity)
     else keep_db db (UpdateSecuritySettings env input db))"

section \<open>The console as a state machine\<close>

text \<open>What signing in does, and what a principal does to the accounts.\<close>

datatype auth_op =
    AInitialize string | ALogin string string string | AAuthenticate string | ALogout string
  | AActivate string string | AChangePassword Principal string string string

datatype manage_op =
    MCreateTenant string | MTenantStatus int string | MCreateUser string string "int option" | MActivation int
  | MUnlock int | MLogout int | MForceChange int | MStatus int string | MReset int string | MDelete int | MSettings SecuritySettings

fun auth_step :: "id_env \<Rightarrow> auth_op \<Rightarrow> identity_db \<Rightarrow> identity_db" where
  "auth_step env (AInitialize password) db = fst (InitializeAdmin env password db)"
| "auth_step env (ALogin username password ip) db = fst (Login env username password ip db)"
| "auth_step env (AAuthenticate token) db = fst (Authenticate env token db)"
| "auth_step env (ALogout token) db = fst (Logout env token db)"
| "auth_step env (AActivate code password) db = fst (Activate env code password db)"
| "auth_step env (AChangePassword p token current new) db = fst (ChangePassword env p token current new db)"

fun manage_step :: "id_env \<Rightarrow> Principal \<Rightarrow> manage_op \<Rightarrow> identity_db \<Rightarrow> identity_db" where
  "manage_step env actor (MCreateTenant name) db = fst (CreateTenantService env actor name db)"
| "manage_step env actor (MTenantStatus t status) db = fst (SetTenantStatus env actor t status db)"
| "manage_step env actor (MCreateUser name role t) db = fst (CreateUser env actor name role t db)"
| "manage_step env actor (MActivation u) db = fst (RegenerateActivation env actor u db)"
| "manage_step env actor (MUnlock u) db = fst (UnlockUser env actor u db)"
| "manage_step env actor (MLogout u) db = fst (ForceLogout env actor u db)"
| "manage_step env actor (MForceChange u) db = fst (ForcePasswordChange env actor u db)"
| "manage_step env actor (MStatus u status) db = fst (SetUserStatus env actor u status db)"
| "manage_step env actor (MReset u password) db = fst (ResetPassword env actor u password db)"
| "manage_step env actor (MDelete u) db = fst (DeleteUser env actor u db)"
| "manage_step env actor (MSettings s) db = fst (UpdateSettings env actor s db)"

section \<open>What every step keeps\<close>

named_theorems repo_defs

declare storage_def [repo_defs] first_row_def [repo_defs] keep_db_def [repo_defs] revoke_where_def [repo_defs] update_user_def [repo_defs]
  add_history_def [repo_defs] CreateTenant_def [repo_defs] SetTenantStatusAndRevoke_def [repo_defs] CreateUserWithActivation_def [repo_defs]
  ReplaceActivationToken_def [repo_defs] ActivateUser_def [repo_defs] RecordLoginFailure_def [repo_defs] LoginSucceeded_def [repo_defs]
  ChangePasswordRow_def [repo_defs] UpdateSecuritySettings_def [repo_defs] UnlockUserRow_def [repo_defs] RequirePasswordChange_def [repo_defs]
  InitializeAdminRow_def [repo_defs] TouchSession_def [repo_defs] RevokeSession_def [repo_defs] RevokeUserSessions_def [repo_defs]
  SetUserStatusAndRevoke_def [repo_defs] SetUserPasswordAndRevoke_def [repo_defs] DeleteUserAndRevoke_def [repo_defs]

text \<open>The schema's constraint on roles and tenants.\<close>

definition role_ok :: "string \<Rightarrow> int option \<Rightarrow> bool" where
  "role_ok role tenantID \<longleftrightarrow> (role = RoleSystemAdmin \<or> role = RoleTenantAdmin \<or> role = RoleViewer) \<and> (role = RoleSystemAdmin \<longleftrightarrow> tenantID = None)"

lemma role_okI:
  "\<not> ((role = RoleSystemAdmin) \<noteq> (tenantID = None) \<or> (role \<noteq> RoleSystemAdmin \<and> role \<noteq> RoleTenantAdmin \<and> role \<noteq> RoleViewer)) \<Longrightarrow> role_ok role tenantID"
  by (auto simp: role_ok_def)

text \<open>The writes one operation can make.\<close>

inductive repo_write :: "id_env \<Rightarrow> identity_db \<Rightarrow> identity_db \<Rightarrow> bool" for env where
  same: "repo_write env db db"
| tenant: "CreateTenant env name status db = Inr db' \<Longrightarrow> repo_write env db db'"
| tenant_status: "SetTenantStatusAndRevoke env t status at db = Inr db' \<Longrightarrow> repo_write env db db'"
| user: "CreateUserWithActivation env (new_user name role t) h e db = Inr (u, db') \<Longrightarrow> role_ok role t \<Longrightarrow> repo_write env db db'"
| token: "ReplaceActivationToken env u h e at db = Inr db' \<Longrightarrow> repo_write env db db'"
| activate: "ActivateUser env u h p at db = Inr db' \<Longrightarrow> en_hash env pw = Inr p \<Longrightarrow> repo_write env db db'"
| failure: "RecordLoginFailure env u m l at db = Inr db' \<Longrightarrow> repo_write env db db'"
| success: "LoginSucceeded env u h e at ip c db = Inr db' \<Longrightarrow> repo_write env db db'"
| change: "ChangePasswordRow env u p k at db = Inr db' \<Longrightarrow> en_hash env pw = Inr p \<Longrightarrow> repo_write env db db'"
| settings: "UpdateSecuritySettings env s db = Inr db' \<Longrightarrow> repo_write env db db'"
| unlock: "UnlockUserRow env u db = Inr db' \<Longrightarrow> repo_write env db db'"
| require: "RequirePasswordChange env u db = Inr db' \<Longrightarrow> repo_write env db db'"
| initialize: "InitializeAdminRow env p at db = Inr (w, db') \<Longrightarrow> en_hash env pw = Inr p \<Longrightarrow> repo_write env db db'"
| touch: "TouchSession env s at db = Inr db' \<Longrightarrow> repo_write env db db'"
| revoke: "RevokeSession env s at db = Inr db' \<Longrightarrow> repo_write env db db'"
| revoke_user: "RevokeUserSessions env u db = Inr db' \<Longrightarrow> repo_write env db db'"
| status: "SetUserStatusAndRevoke env u st at db = Inr db' \<Longrightarrow> validStatus st \<Longrightarrow> repo_write env db db'"
| password: "SetUserPasswordAndRevoke env u p at db = Inr db' \<Longrightarrow> en_hash env pw = Inr p \<Longrightarrow> repo_write env db db'"
| delete: "DeleteUserAndRevoke env u at db = Inr db' \<Longrightarrow> repo_write env db db'"

text \<open>Rules that follow the branches of an operation to its writes.\<close>

lemma write_if: "(P \<Longrightarrow> repo_write env db (fst x)) \<Longrightarrow> (\<not> P \<Longrightarrow> repo_write env db (fst y)) \<Longrightarrow> repo_write env db (fst (if P then x else y))"
  by simp

lemma write_sum:
  "(\<And>a. r = Inl a \<Longrightarrow> repo_write env db (fst (f a))) \<Longrightarrow> (\<And>b. r = Inr b \<Longrightarrow> repo_write env db (fst (g b))) \<Longrightarrow>
   repo_write env db (fst (case r of Inl a \<Rightarrow> f a | Inr b \<Rightarrow> g b))"
  by (cases r) auto

lemma write_option:
  "(r = None \<Longrightarrow> repo_write env db (fst x)) \<Longrightarrow> (\<And>b. r = Some b \<Longrightarrow> repo_write env db (fst (g b))) \<Longrightarrow>
   repo_write env db (fst (case r of None \<Rightarrow> x | Some b \<Rightarrow> g b))"
  by (cases r) auto

lemma write_prod:
  "(\<And>a b. r = (a, b) \<Longrightarrow> repo_write env db (fst (g a b))) \<Longrightarrow> repo_write env db (fst (case r of (a, b) \<Rightarrow> g a b))"
  by (cases r) auto

lemma write_pair: "repo_write env db db' \<Longrightarrow> repo_write env db (fst (db', r))"
  by simp

lemma write_try: "(\<And>db'. r = Inr db' \<Longrightarrow> repo_write env db db') \<Longrightarrow> repo_write env db (case r of Inl err \<Rightarrow> db | Inr db' \<Rightarrow> db')"
  by (cases r) (auto intro: repo_write.same)

lemma write_keep: "(\<And>db'. r = Inr db' \<Longrightarrow> repo_write env db db') \<Longrightarrow> repo_write env db (fst (keep_db db r))"
  by (auto simp: keep_db_def intro: repo_write.same split: sum.splits)

lemmas write_rules = write_if write_sum write_option write_prod write_pair write_try write_keep repo_write.same

lemma auth_step_write: "repo_write env db (auth_step env op db)"
proof (cases op)
  case (AInitialize password)
  then show ?thesis by (simp only: auth_step.simps InitializeAdmin_def) (intro write_rules; blast intro: repo_write.initialize)
next
  case (ALogin username password ip)
  then show ?thesis
    by (simp only: auth_step.simps Login_def Let_def) (intro write_rules; blast intro: repo_write.failure repo_write.success)
next
  case (AAuthenticate token)
  then show ?thesis
    by (simp only: auth_step.simps Authenticate_def) (intro write_rules; blast intro: repo_write.touch repo_write.revoke)
next
  case (ALogout token)
  then show ?thesis by (simp only: auth_step.simps Logout_def) (intro write_rules; blast intro: repo_write.revoke)
next
  case (AActivate code password)
  then show ?thesis by (simp only: auth_step.simps Activate_def) (intro write_rules; blast intro: repo_write.activate)
next
  case (AChangePassword p token current new)
  then show ?thesis by (simp only: auth_step.simps ChangePassword_def) (intro write_rules; blast intro: repo_write.change)
qed

lemma manage_step_write: "repo_write env db (manage_step env actor op db)"
proof (cases op)
  case (MCreateUser name role t)
  then show ?thesis by (simp only: manage_step.simps CreateUser_def Let_def) (intro write_rules; blast intro: repo_write.user role_okI)
next
  case (MActivation u)
  then show ?thesis by (simp only: manage_step.simps RegenerateActivation_def Let_def) (intro write_rules; blast intro: repo_write.token)
next
  case (MReset u password)
  then show ?thesis by (simp only: manage_step.simps ResetPassword_def) (intro write_rules; blast intro: repo_write.password)
qed (simp_all only: manage_step.simps CreateTenantService_def SetTenantStatus_def UnlockUser_def ForceLogout_def ForcePasswordChange_def
       SetUserStatus_def DeleteUser_def UpdateSettings_def,
     (intro write_rules; blast intro: repo_write.tenant repo_write.tenant_status repo_write.unlock repo_write.revoke_user
       repo_write.require repo_write.status repo_write.delete repo_write.settings)+)

subsection \<open>Sessions\<close>

text \<open>How a write treats the sessions: existing ones keep their identity and stay revoked, new ones have tokens of
  their own.\<close>

definition session_kept :: "Session \<Rightarrow> Session \<Rightarrow> bool" where
  "session_kept s s' \<longleftrightarrow> se_TokenHash s' = se_TokenHash s \<and> se_UserID s' = se_UserID s \<and> se_ID s' = se_ID s \<and> se_ExpiresAt s' = se_ExpiresAt s \<and>
     (se_RevokedAt s \<noteq> None \<longrightarrow> se_RevokedAt s' \<noteq> None)"

definition sessions_kept :: "Session list \<Rightarrow> Session list \<Rightarrow> bool" where
  "sessions_kept ss ss' \<longleftrightarrow> (\<exists>old new. ss' = old @ new \<and> list_all2 session_kept ss old \<and>
     list_all (\<lambda>s. se_TokenHash s \<notin> set (map se_TokenHash ss)) new \<and> distinct (map se_TokenHash new))"

lemma session_kept_refl [simp]: "session_kept s s" by (simp add: session_kept_def)

lemma list_all2_session_refl [simp]: "list_all2 session_kept ss ss"
  by (simp add: list_all2_refl)

lemma sessions_kept_refl [simp]: "sessions_kept ss ss"
  by (auto simp: sessions_kept_def intro: exI [of _ ss] exI [of _ "[]"])

lemma sessions_kept_map:
  assumes "\<And>s. session_kept s (f s)"
  shows "sessions_kept ss (update_where P f ss)"
  unfolding sessions_kept_def
  by (intro exI [of _ "update_where P f ss"] exI [of _ "[]"]) (auto simp: update_where_def list_all2_conv_all_nth assms)

lemma revoke_kept [simp]: "sessions_kept (db_sessions db) (db_sessions (revoke_where P at db))"
  unfolding revoke_where_def by (simp add: sessions_kept_map session_kept_def)

lemma session_row_simps [simp]:
  "db_sessions (update_user u f db) = db_sessions db" "db_sessions (add_history u p at db) = db_sessions db"
  "db_next (update_user u f db) = db_next db" "db_users (revoke_where P at db) = db_users db" "db_next (revoke_where P at db) = db_next db"
  "db_users (add_history u p at db) = db_users db" "db_tokens (revoke_where P at db) = db_tokens db" "db_tokens (update_user u f db) = db_tokens db"
  "db_tokens (add_history u p at db) = db_tokens db" "db_tenants (revoke_where P at db) = db_tenants db" "db_tenants (update_user u f db) = db_tenants db"
  "db_tenants (add_history u p at db) = db_tenants db" "db_settings (revoke_where P at db) = db_settings db"
  "db_settings (update_user u f db) = db_settings db" "db_settings (add_history u p at db) = db_settings db"
  by (simp_all add: update_user_def add_history_def revoke_where_def)

lemma storage_Inr: "storage env call x = Inr y \<longleftrightarrow> en_fail env call = None \<and> x = Inr y"
  by (auto simp: storage_def split: option.splits)

lemma first_row_Inr: "first_row P rows = Inr r \<longleftrightarrow> find P rows = Some r"
  by (auto simp: first_row_def split: option.splits)

lemma revoke_update_hashes: "map se_TokenHash (db_sessions (revoke_where P at db)) = map se_TokenHash (db_sessions db)"
  by (simp add: revoke_where_def update_where_def)

lemma revoke_list_all2: "list_all2 session_kept (db_sessions db) (db_sessions (revoke_where P at db))"
  by (auto simp: revoke_where_def update_where_def list_all2_conv_all_nth session_kept_def)

lemma LoginSucceeded_sessions:
  assumes "LoginSucceeded env u h e at ip c db = Inr db'"
  shows "sessions_kept (db_sessions db) (db_sessions db')"
proof -
  let ?old = "if c then db_sessions db else db_sessions (revoke_where (\<lambda>s. se_UserID s = u) at db)"
  obtain n where "db_sessions db' = ?old @ [n]" "se_TokenHash n \<notin> set (map se_TokenHash (db_sessions db))"
    using assms by (auto simp: LoginSucceeded_def storage_Inr Let_def split: sum.splits if_splits)
  moreover have "list_all2 session_kept (db_sessions db) ?old" using revoke_list_all2 by auto
  ultimately show ?thesis unfolding sessions_kept_def by (intro exI [of _ ?old] exI [of _ "[n]"]) simp
qed

lemma repo_write_sessions: "repo_write env db db' \<Longrightarrow> sessions_kept (db_sessions db) (db_sessions db')"
proof (induction rule: repo_write.induct)
  case (success u h e at ip c db db')
  then show ?case by (rule LoginSucceeded_sessions)
next
  case (activate u h p at db db' pw)
  then show ?case by (auto simp: ActivateUser_def storage_Inr Let_def add_history_def split: sum.splits if_splits)
next
  case (touch s at db db')
  then show ?case by (auto simp: TouchSession_def storage_Inr session_kept_def intro!: sessions_kept_map)
next
  case (revoke s at db db')
  then show ?case by (auto simp: RevokeSession_def storage_Inr session_kept_def intro!: sessions_kept_map)
next
  case (delete u at db db')
  then show ?case by (auto simp: DeleteUserAndRevoke_def storage_Inr Let_def split: sum.splits if_splits)
next
  case (tenant_status t status at db db')
  then show ?case by (auto simp: SetTenantStatusAndRevoke_def storage_Inr revoke_where_def session_kept_def split: if_splits intro!: sessions_kept_map)
next
  case (change u p k at db db' pw)
  then show ?case by (auto simp: ChangePasswordRow_def storage_Inr revoke_where_def session_kept_def intro!: sessions_kept_map)
next
  case (revoke_user u db db')
  then show ?case by (auto simp: RevokeUserSessions_def storage_Inr)
next
  case (status u st at db db')
  then show ?case by (auto simp: SetUserStatusAndRevoke_def storage_Inr revoke_where_def session_kept_def split: sum.splits if_splits intro!: sessions_kept_map)
next
  case (password u p at db db' pw)
  then show ?case by (auto simp: SetUserPasswordAndRevoke_def storage_Inr revoke_where_def session_kept_def split: if_splits intro!: sessions_kept_map)
qed (auto simp: CreateTenant_def CreateUserWithActivation_def ReplaceActivationToken_def RecordLoginFailure_def UpdateSecuritySettings_def
       UnlockUserRow_def RequirePasswordChange_def InitializeAdminRow_def storage_Inr Let_def split: sum.splits if_splits)

datatype identity_op = Auth auth_op | Manage Principal manage_op

fun identity_step :: "identity_db \<Rightarrow> id_env \<times> identity_op \<Rightarrow> identity_db" where
  "identity_step db (env, Auth op) = auth_step env op db"
| "identity_step db (env, Manage actor op) = manage_step env actor op db"

lemma identity_step_write: "repo_write (fst step) db (identity_step db step)"
  by (cases step; cases "snd step") (auto simp: auth_step_write manage_step_write)

lemma identity_run_induct:
  assumes "P db" "\<And>db step. step \<in> set steps \<Longrightarrow> P db \<Longrightarrow> P (identity_step db step)"
  shows "P (foldl identity_step db steps)"
  using assms by (induction steps arbitrary: db) auto

definition dead_token :: "string \<Rightarrow> identity_db \<Rightarrow> bool" where
  "dead_token h db \<longleftrightarrow> h \<in> set (map se_TokenHash (db_sessions db)) \<and>
     list_all (\<lambda>s. se_TokenHash s = h \<longrightarrow> se_RevokedAt s \<noteq> None) (db_sessions db)"

lemma dead_token_write:
  assumes "repo_write env db db'" "dead_token h db"
  shows "dead_token h db'"
proof -
  obtain old new where ss: "db_sessions db' = old @ new" "list_all2 session_kept (db_sessions db) old"
      "list_all (\<lambda>s. se_TokenHash s \<notin> set (map se_TokenHash (db_sessions db))) new"
    using repo_write_sessions [OF assms(1)] by (auto simp: sessions_kept_def)
  have "map se_TokenHash old = map se_TokenHash (db_sessions db)"
    using ss(2) by (induction rule: list_all2_induct) (auto simp: session_kept_def)
  moreover have "list_all (\<lambda>s. se_TokenHash s = h \<longrightarrow> se_RevokedAt s \<noteq> None) old"
    using ss(2) assms(2) unfolding dead_token_def list_all_iff list_all2_conv_all_nth session_kept_def
    by (metis in_set_conv_nth)
  moreover have "list_all (\<lambda>s. se_TokenHash s \<noteq> h) new"
    using ss(3) assms(2) by (auto simp: dead_token_def list_all_iff)
  moreover have "h \<in> set (map se_TokenHash (db_sessions db))" using assms(2) by (simp add: dead_token_def)
  ultimately show ?thesis unfolding dead_token_def ss(1) by (auto simp: list_all_iff)
qed

lemma dead_token_refused:
  assumes "dead_token (en_sha env token) db"
  shows "\<exists>err. snd (Authenticate env token db) = Inl err"
proof -
  have "find (\<lambda>s. se_TokenHash s = en_sha env token \<and> se_RevokedAt s = None \<and> se_ExpiresAt s > en_now env) (db_sessions db) = None"
    using assms by (auto simp: dead_token_def list_all_iff find_None_iff)
  then show ?thesis
    by (auto simp: Authenticate_def GetActiveSession_def first_row_def storage_def split: sum.splits option.splits)
qed

text \<open>The operations that end a user's sessions, when they succeed.\<close>

definition ends_sessions :: "id_env \<Rightarrow> Principal \<Rightarrow> manage_op \<Rightarrow> User \<Rightarrow> identity_db \<Rightarrow> bool" where
  "ends_sessions env actor op user db \<longleftrightarrow> (case op of
      MLogout u \<Rightarrow> u = us_ID user \<and> snd (ForceLogout env actor u db) = None
    | MStatus u status \<Rightarrow> u = us_ID user \<and> snd (SetUserStatus env actor u status db) = None
    | MReset u password \<Rightarrow> u = us_ID user \<and> snd (ResetPassword env actor u password db) = None
    | MDelete u \<Rightarrow> u = us_ID user \<and> snd (DeleteUser env actor u db) = None
    | MTenantStatus t status \<Rightarrow> us_TenantID user = Some t \<and> snd (SetTenantStatus env actor t status db) = None
    | _ \<Rightarrow> False)"

lemma keep_db_ok: "snd (keep_db db r) = None \<longleftrightarrow> r = Inr (fst (keep_db db r))"
  by (auto simp: keep_db_def split: sum.splits)

lemma revoke_where_dead:
  assumes "s \<in> set (db_sessions db)" "distinct (map se_TokenHash (db_sessions db))" "P s"
  shows "dead_token (se_TokenHash s) (revoke_where P at db)"
proof -
  have "s' = s" if "s' \<in> set (db_sessions db)" "se_TokenHash s' = se_TokenHash s" for s'
    using assms(1,2) that by (metis distinct_map inj_on_eq_iff)
  then show ?thesis using assms(1,3)
    by (auto simp: dead_token_def revoke_where_def update_where_def list_all_iff image_iff)
qed

lemma dead_token_users [simp]: "dead_token h (db\<lparr>db_users := us\<rparr>) = dead_token h db" "dead_token h (db\<lparr>db_tenants := ts\<rparr>) = dead_token h db"
  by (simp_all add: dead_token_def)

lemma ends_sessions_dead:
  assumes "ends_sessions env actor op user db" "user \<in> set (db_users db)" "s \<in> set (db_sessions db)" "se_UserID s = us_ID user"
    "distinct (map se_TokenHash (db_sessions db))"
  shows "dead_token (se_TokenHash s) (manage_step env actor op db)"
proof -
  have upd: "s \<in> set (db_sessions (update_user u f db))" "distinct (map se_TokenHash (db_sessions (update_user u f db)))" for u f
    using assms(3,5) by simp_all
  note dead = revoke_where_dead [OF upd] revoke_where_dead [OF assms(3,5)]
  show ?thesis
  proof (cases op)
    case (MTenantStatus t status)
    let ?db = "db\<lparr>db_tenants := update_where (\<lambda>x. tn_ID x = t) (\<lambda>x. x\<lparr>tn_Status := status\<rparr>) (db_tenants db)\<rparr>"
    have "dead_token (se_TokenHash s) (revoke_where (\<lambda>s. se_UserID s \<in> set (map us_ID (filter (\<lambda>u. us_TenantID u = Some t) (db_users db)))) (en_now env) ?db)"
      by (rule revoke_where_dead) (use assms MTenantStatus in \<open>auto simp: ends_sessions_def\<close>)
    then show ?thesis using assms(1) MTenantStatus
      by (auto simp: ends_sessions_def SetTenantStatus_def keep_db_def SetTenantStatusAndRevoke_def storage_def split: if_splits sum.splits option.splits)
  next
    case (MLogout u)
    then show ?thesis using assms(1,4) dead
      by (auto simp: ends_sessions_def ForceLogout_def keep_db_def RevokeUserSessions_def storage_def split: if_splits sum.splits option.splits)
  next
    case (MStatus u status)
    then show ?thesis using assms(1,4) dead
      by (auto simp: ends_sessions_def SetUserStatus_def keep_db_def SetUserStatusAndRevoke_def storage_def split: if_splits sum.splits option.splits)
  next
    case (MReset u password)
    then show ?thesis using assms(1,4) dead
      by (auto simp: ends_sessions_def ResetPassword_def keep_db_def SetUserPasswordAndRevoke_def storage_def split: if_splits sum.splits option.splits)
  next
    case (MDelete u)
    then show ?thesis using assms(1,4) dead
      by (auto simp: ends_sessions_def DeleteUser_def keep_db_def DeleteUserAndRevoke_def storage_def Let_def split: if_splits sum.splits option.splits)
  qed (use assms(1) in \<open>auto simp: ends_sessions_def\<close>)
qed

text \<open>C21: Ending a user's sessions is final. Once a user is signed out by an administrator, disabled, given a new
  password or deleted, or the user's tenant changes status, the token of any session the user had is
  refused, and stays refused after whatever is done next, by anyone: a session ends only once.\<close>

theorem ended_session_stays_out:
  assumes "ends_sessions env actor op user db" "user \<in> set (db_users db)" "s \<in> set (db_sessions db)" "se_UserID s = us_ID user"
    "distinct (map se_TokenHash (db_sessions db))" "en_sha env' token = se_TokenHash s"
  shows "\<exists>err. snd (Authenticate env' token (foldl identity_step db ((env, Manage actor op) # later))) = Inl err"
proof -
  have "dead_token (se_TokenHash s) (foldl identity_step (manage_step env actor op db) later)"
    by (rule identity_run_induct) (use ends_sessions_dead [OF assms(1-5)] dead_token_write identity_step_write in blast)+
  then show ?thesis using dead_token_refused [of env' token] assms(6) by simp
qed

subsection \<open>Administrators\<close>

definition enabled_admin :: "User \<Rightarrow> bool" where
  "enabled_admin u \<longleftrightarrow> us_Role u = RoleSystemAdmin \<and> us_Status u = UserStatusActive \<and> us_PasswordHash u \<noteq> ''''"

lemma enabled_admins_alt: "enabled_admins db = filter enabled_admin (db_users db)"
  by (simp add: enabled_admins_def enabled_admin_def [abs_def])

lemma no_admin: "enabled_admins db = [] \<longleftrightarrow> (\<forall>u \<in> set (db_users db). \<not> enabled_admin u)"
  by (simp add: enabled_admins_alt filter_empty_conv)

text \<open>The identifiers of the users are distinct and drawn from the counter.\<close>

definition users_ok :: "identity_db \<Rightarrow> bool" where
  "users_ok db \<longleftrightarrow> distinct (map us_ID (db_users db)) \<and> list_all (\<lambda>u. us_ID u < db_next db) (db_users db)"

text \<open>bcrypt never gives an empty hash.\<close>

definition bcrypt_ok :: "id_env \<Rightarrow> bool" where
  "bcrypt_ok env \<longleftrightarrow> (\<forall>pw h. en_hash env pw = Inr h \<longrightarrow> h \<noteq> '''')"

lemma users_update_ok:
  assumes "users_ok db" "\<And>u. us_ID (f u) = us_ID u" "db_users db' = update_where P f (db_users db)" "db_next db \<le> db_next db'"
  shows "users_ok db'"
proof -
  have "map us_ID (db_users db') = map us_ID (db_users db)" using assms(2,3) by (simp add: update_where_def)
  moreover have "list_all (\<lambda>u. us_ID u < db_next db') (db_users db')"
    using assms by (fastforce simp: users_ok_def update_where_def list_all_iff)
  ultimately show ?thesis using assms(1) by (simp add: users_ok_def)
qed

lemma users_same_ok: "users_ok db \<Longrightarrow> db_users db' = db_users db \<Longrightarrow> db_next db \<le> db_next db' \<Longrightarrow> users_ok db'"
  by (fastforce simp: users_ok_def list_all_iff)

lemma admins_update:
  assumes "enabled_admins db \<noteq> []" "db_users db' = update_where P f (db_users db)" "\<And>u. enabled_admin u \<Longrightarrow> enabled_admin (f u)"
  shows "enabled_admins db' \<noteq> []"
proof -
  obtain v where v: "v \<in> set (db_users db)" "enabled_admin v" using assms(1) by (auto simp: no_admin)
  then have "(if P v then f v else v) \<in> set (db_users db')" "enabled_admin (if P v then f v else v)"
    using assms(2,3) by (auto simp: update_where_def)
  then show ?thesis by (auto simp: no_admin)
qed

lemma admins_same: "enabled_admins db \<noteq> [] \<Longrightarrow> db_users db' = db_users db \<Longrightarrow> enabled_admins db' \<noteq> []"
  by (simp add: enabled_admins_def)

lemma another_admin:
  assumes "users_ok db" "\<not> length (enabled_admins db) \<le> 1"
  shows "\<exists>v \<in> set (db_users db). enabled_admin v \<and> us_ID v \<noteq> u"
proof (rule ccontr)
  assume none: "\<not> ?thesis"
  have "distinct (map us_ID (enabled_admins db))" using assms(1) by (simp add: users_ok_def enabled_admins_alt distinct_map_filter)
  moreover have "set (map us_ID (enabled_admins db)) \<subseteq> {u}" using none by (auto simp: enabled_admins_alt)
  ultimately have "length (map us_ID (enabled_admins db)) \<le> card {u}" by (metis card_mono distinct_card finite.emptyI finite_insert)
  then show False using assms(2) by simp
qed

lemma single_user: "users_ok db \<Longrightarrow> find (\<lambda>v. us_ID v = u) (db_users db) = Some w \<Longrightarrow> v \<in> set (db_users db) \<Longrightarrow> us_ID v = u \<Longrightarrow> v = w"
  by (metis (mono_tags, lifting) distinct_map find_Some_iff inj_on_eq_iff nth_mem users_ok_def)

text \<open>What a write does to the users: nothing, an update that keeps who they are, a new account, a change of status,
  or a deletion.\<close>

definition user_update :: "id_env \<Rightarrow> (User \<Rightarrow> User) \<Rightarrow> bool" where
  "user_update env f \<longleftrightarrow> (\<forall>u. us_ID (f u) = us_ID u \<and> us_Username (f u) = us_Username u \<and> us_Role (f u) = us_Role u \<and> us_TenantID (f u) = us_TenantID u \<and>
     us_Status (f u) = us_Status u \<and> (bcrypt_ok env \<longrightarrow> us_PasswordHash u \<noteq> '''' \<longrightarrow> us_PasswordHash (f u) \<noteq> ''''))"

inductive users_effect :: "id_env \<Rightarrow> identity_db \<Rightarrow> identity_db \<Rightarrow> bool" for env db db' where
  same: "db_users db' = db_users db \<Longrightarrow> db_next db \<le> db_next db' \<Longrightarrow> users_effect env db db'"
| updated: "db_users db' = update_where P f (db_users db) \<Longrightarrow> user_update env f \<Longrightarrow> db_next db \<le> db_next db' \<Longrightarrow> users_effect env db db'"
| created: "db_users db' = db_users db @ [u] \<Longrightarrow> us_ID u = db_next db \<Longrightarrow> us_Username u \<notin> set (map us_Username (db_users db)) \<Longrightarrow>
    role_ok (us_Role u) (us_TenantID u) \<Longrightarrow> db_next db < db_next db' \<Longrightarrow> users_effect env db db'"
| status: "db_users db' = update_where (\<lambda>v. us_ID v = u) (\<lambda>v. v\<lparr>us_Status := st\<rparr>) (db_users db) \<Longrightarrow> validStatus st \<Longrightarrow>
    find (\<lambda>v. us_ID v = u) (db_users db) = Some w \<Longrightarrow>
    \<not> (us_Role w = RoleSystemAdmin \<and> st = UserStatusDisabled \<and> length (enabled_admins db) \<le> 1) \<Longrightarrow> db_next db \<le> db_next db' \<Longrightarrow> users_effect env db db'"
| deleted: "db_users db' = filter (\<lambda>v. us_ID v \<noteq> u) (db_users db) \<Longrightarrow> find (\<lambda>v. us_ID v = u) (db_users db) = Some w \<Longrightarrow>
    \<not> (us_Role w = RoleSystemAdmin \<and> us_Status w = UserStatusActive \<and> length (enabled_admins db) \<le> 1) \<Longrightarrow> db_next db \<le> db_next db' \<Longrightarrow> users_effect env db db'"

lemma activated_update: "en_hash env pw = Inr p \<Longrightarrow> user_update env (activated p at)"
  by (auto simp: user_update_def activated_def bcrypt_ok_def)

lemma update_user_effect:
  "db_users db' = db_users (update_user u f db) \<Longrightarrow> user_update env f \<Longrightarrow> db_next db \<le> db_next db' \<Longrightarrow> users_effect env db db'"
  by (simp add: update_user_def users_effect.updated)

lemma repo_write_users: "repo_write env db db' \<Longrightarrow> users_effect env db db'"
proof (induction rule: repo_write.induct)
  case (user name role t h e db u db')
  then show ?case
    by (intro users_effect.created [of _ _ "(new_user name role t)\<lparr>us_ID := db_next db\<rparr>"])
      (auto simp: CreateUserWithActivation_def storage_Inr Let_def new_user_def split: if_splits)
next
  case (delete u at db db')
  then obtain w where "find (\<lambda>v. us_ID v = u) (db_users db) = Some w"
      "\<not> (us_Role w = RoleSystemAdmin \<and> us_Status w = UserStatusActive \<and> length (enabled_admins db) \<le> 1)"
    by (auto simp: DeleteUserAndRevoke_def storage_Inr first_row_Inr Let_def split: sum.splits if_splits)
  then show ?case
    using delete by (intro users_effect.deleted) (auto simp: DeleteUserAndRevoke_def storage_Inr Let_def split: sum.splits if_splits)
next
  case (status u st at db db')
  then obtain w where "find (\<lambda>v. us_ID v = u) (db_users db) = Some w"
      "\<not> (us_Role w = RoleSystemAdmin \<and> st = UserStatusDisabled \<and> length (enabled_admins db) \<le> 1)"
    by (auto simp: SetUserStatusAndRevoke_def storage_Inr first_row_Inr split: sum.splits if_splits)
  then show ?case
    using status by (intro users_effect.status) (auto simp: SetUserStatusAndRevoke_def storage_Inr update_user_def split: sum.splits if_splits)
next
  case (activate u h p at db db' pw)
  then show ?case
    by (intro users_effect.updated [OF _ activated_update])
      (auto simp: ActivateUser_def storage_Inr Let_def add_history_def split: sum.splits if_splits)
next
  case (change u p k at db db' pw)
  then show ?case
    by (intro update_user_effect [OF _ activated_update]) (auto simp: ChangePasswordRow_def storage_Inr add_history_def)
next
  case (password u p at db db' pw)
  then show ?case
    by (intro update_user_effect [of _ u "\<lambda>v. v\<lparr>us_PasswordHash := p\<rparr>"])
      (auto simp: SetUserPasswordAndRevoke_def storage_Inr user_update_def bcrypt_ok_def split: if_splits)
next
  case (initialize p at db w db' pw)
  then show ?case
    by (cases "db_users db' = db_users db")
      (auto simp: InitializeAdminRow_def storage_Inr user_update_def bcrypt_ok_def add_history_def split: if_splits sum.splits
        intro: users_effect.same update_user_effect)
next
  case (failure u m l at db db')
  then obtain w where w: "first_row (\<lambda>v. us_ID v = u) (db_users db) = Inr w"
    by (auto simp: RecordLoginFailure_def storage_Inr split: sum.splits)
  have "db' = update_user u (\<lambda>v. v\<lparr>us_FailedLoginCount := us_FailedLoginCount w + 1,
      us_LockedUntil := (if us_FailedLoginCount w + 1 \<ge> m then Some (at + l * minute) else us_LockedUntil v)\<rparr>) db"
    using failure w by (simp add: RecordLoginFailure_def storage_Inr Let_def)
  then show ?case by (intro update_user_effect) (auto simp: user_update_def)
next
  case (success u h e at ip c db db')
  then show ?case
    by (intro update_user_effect [of _ u "\<lambda>v. v\<lparr>us_LastLoginAt := Some at, us_LastLoginIP := ip, us_FailedLoginCount := 0, us_LockedUntil := None\<rparr>"])
      (auto simp: LoginSucceeded_def storage_Inr Let_def update_user_def user_update_def split: sum.splits if_splits)
next
  case (unlock u db db')
  then show ?case
    by (intro update_user_effect [of _ u "\<lambda>v. v\<lparr>us_FailedLoginCount := 0, us_LockedUntil := None\<rparr>"])
      (auto simp: UnlockUserRow_def storage_Inr user_update_def)
next
  case (require u db db')
  then show ?case
    by (intro update_user_effect [of _ u "\<lambda>v. v\<lparr>us_MustChangePassword := True\<rparr>"])
      (auto simp: RequirePasswordChange_def storage_Inr user_update_def)
qed (auto simp: CreateTenant_def SetTenantStatusAndRevoke_def ReplaceActivationToken_def UpdateSecuritySettings_def TouchSession_def
       RevokeSession_def RevokeUserSessions_def storage_Inr split: if_splits intro!: users_effect.same)

lemma users_effect_ok:
  assumes "users_effect env db db'" "users_ok db"
  shows "users_ok db'"
  using assms(1)
proof cases
  case same
  then show ?thesis using users_same_ok assms(2) by blast
next
  case (updated P f)
  then show ?thesis using users_update_ok assms(2) unfolding user_update_def by blast
next
  case (created u)
  then show ?thesis using assms(2) by (auto simp: users_ok_def list_all_iff)
next
  case (status u st w)
  then show ?thesis using users_update_ok [OF assms(2), of "\<lambda>v. v\<lparr>us_Status := st\<rparr>" db' "\<lambda>v. us_ID v = u"] by simp
next
  case (deleted u w)
  then show ?thesis using assms(2) by (auto simp: users_ok_def list_all_iff distinct_map_filter)
qed

lemma users_effect_admin:
  assumes "users_effect env db db'" "users_ok db" "bcrypt_ok env" "enabled_admins db \<noteq> []"
  shows "enabled_admins db' \<noteq> []"
  using assms(1)
proof cases
  case same
  then show ?thesis using admins_same assms(4) by blast
next
  case (updated P f)
  then show ?thesis using admins_update [OF assms(4)] assms(3) unfolding user_update_def enabled_admin_def by metis
next
  case (created u)
  then show ?thesis using assms(4) by (auto simp: enabled_admins_alt)
next
  case (status u st w)
  show ?thesis
  proof (cases "st = UserStatusActive \<or> us_Role w \<noteq> RoleSystemAdmin")
    case True
    obtain v where v: "v \<in> set (db_users db)" "enabled_admin v" using assms(4) by (auto simp: no_admin)
    let ?v = "if us_ID v = u then v\<lparr>us_Status := st\<rparr> else v"
    have "enabled_admin ?v" using True v single_user [OF assms(2) status(3), of v] by (auto simp: enabled_admin_def)
    moreover have "?v \<in> set (db_users db')" using v(1) status(1) by (auto simp: update_where_def)
    ultimately show ?thesis by (auto simp: no_admin)
  next
    case False
    then have "\<not> length (enabled_admins db) \<le> 1" using status(2,4) by (auto simp: validStatus_def)
    then obtain v where "v \<in> set (db_users db)" "enabled_admin v" "us_ID v \<noteq> u" using another_admin [OF assms(2)] by blast
    moreover from this have "v \<in> set (db_users db')" using status(1) by (force simp: update_where_def)
    ultimately show ?thesis by (auto simp: no_admin)
  qed
next
  case (deleted u w)
  obtain v where v: "v \<in> set (db_users db)" "enabled_admin v" using assms(4) by (auto simp: no_admin)
  have "\<exists>v \<in> set (db_users db). enabled_admin v \<and> us_ID v \<noteq> u"
  proof (cases "us_ID v = u")
    case True
    then have "v = w" using single_user [OF assms(2) deleted(2)] v by blast
    then have "\<not> length (enabled_admins db) \<le> 1" using deleted(3) v(2) by (auto simp: enabled_admin_def)
    then show ?thesis using another_admin [OF assms(2)] by blast
  qed (use v in blast)
  then show ?thesis using deleted(1) by (auto simp: no_admin)
qed

text \<open>C19: The console can never lock its operators out: from a database with an activated, enabled system
  administrator there is one after any sequence of operations by anyone, whatever fails in between.\<close>

theorem system_admin_remains:
  assumes "users_ok db" "enabled_admins db \<noteq> []" "list_all (\<lambda>step. bcrypt_ok (fst step)) steps"
  shows "enabled_admins (foldl identity_step db steps) \<noteq> []"
proof -
  have "users_ok (foldl identity_step db steps) \<and> enabled_admins (foldl identity_step db steps) \<noteq> []"
  proof (rule identity_run_induct)
    fix db step
    assume step: "step \<in> set steps" and inv: "users_ok db \<and> enabled_admins db \<noteq> []"
    have eff: "users_effect (fst step) db (identity_step db step)" by (rule repo_write_users [OF identity_step_write])
    have "bcrypt_ok (fst step)" using step assms(3) by (simp add: list_all_iff)
    then show "users_ok (identity_step db step) \<and> enabled_admins (identity_step db step) \<noteq> []"
      using users_effect_ok [OF eff] users_effect_admin [OF eff] inv by blast
  qed (use assms in simp)
  then show ?thesis by simp
qed

subsection \<open>Tenant administrators\<close>

definition tenant_scope :: "Principal \<Rightarrow> User \<Rightarrow> bool" where
  "tenant_scope actor u \<longleftrightarrow> us_Role u = RoleViewer \<and> pr_TenantID actor \<noteq> None \<and> us_TenantID u = pr_TenantID actor"

definition tenant_confined :: "Principal \<Rightarrow> identity_db \<Rightarrow> identity_db \<Rightarrow> bool" where
  "tenant_confined actor db db' \<longleftrightarrow>
     (\<forall>u \<in> set (db_users db). \<not> tenant_scope actor u \<longrightarrow> u \<in> set (db_users db')) \<and>
     (\<forall>u \<in> set (db_users db'). u \<in> set (db_users db) \<or> tenant_scope actor u) \<and>
     db_tenants db' = db_tenants db \<and> db_settings db' = db_settings db \<and>
     (\<forall>s \<in> set (db_sessions db). s \<in> set (db_sessions db') \<or> (\<exists>u \<in> set (db_users db). tenant_scope actor u \<and> us_ID u = se_UserID s))"

lemma tenant_confined_refl [simp]: "tenant_confined actor db db"
  by (simp add: tenant_confined_def)

lemma scope_target:
  assumes "authorizedUser env actor u db = Inr target" "\<not> beyond_tenant_admin actor target" "pr_Role actor = RoleTenantAdmin"
  shows "target \<in> set (db_users db)" "us_ID target = u" "tenant_scope actor target" "find (\<lambda>v. us_ID v = u) (db_users db) = Some target"
proof -
  have "find (\<lambda>v. us_ID v = u) (db_users db) = Some target"
    using assms(1) by (auto simp: authorizedUser_def GetUser_def storage_def first_row_def split: if_splits sum.splits option.splits)
  then show "find (\<lambda>v. us_ID v = u) (db_users db) = Some target" "target \<in> set (db_users db)" "us_ID target = u"
    by (auto simp: find_Some_iff)
  show "tenant_scope actor target"
    using assms by (auto simp: authorizedUser_def beyond_tenant_admin_def tenant_scope_def role_defs split: if_splits sum.splits)
qed

lemma tenant_confined_I:
  assumes "users_ok db" "target \<in> set (db_users db)" "us_ID target = u" "tenant_scope actor target"
    "\<And>v. v \<in> set (db_users db) \<Longrightarrow> us_ID v \<noteq> u \<Longrightarrow> v \<in> set (db_users db')"
    "\<And>v. v \<in> set (db_users db') \<Longrightarrow> v \<in> set (db_users db) \<or> tenant_scope actor v"
    "db_tenants db' = db_tenants db" "db_settings db' = db_settings db"
    "\<And>s. s \<in> set (db_sessions db) \<Longrightarrow> se_UserID s \<noteq> u \<Longrightarrow> s \<in> set (db_sessions db')"
  shows "tenant_confined actor db db'"
proof -
  have "v = target" if "v \<in> set (db_users db)" "us_ID v = u" for v
    using assms(1-3) that by (metis distinct_map inj_on_eq_iff users_ok_def)
  then show ?thesis using assms unfolding tenant_confined_def by metis
qed

lemma revoke_others: "s \<in> set (db_sessions db) \<Longrightarrow> \<not> P s \<Longrightarrow> s \<in> set (db_sessions (revoke_where P at db))"
  by (force simp: revoke_where_def update_where_def)

lemma tenant_confined_update:
  assumes "users_ok db" "authorizedUser env actor u db = Inr target" "\<not> beyond_tenant_admin actor target" "pr_Role actor = RoleTenantAdmin"
    "\<And>v. us_Role (f v) = us_Role v" "\<And>v. us_TenantID (f v) = us_TenantID v"
  shows "tenant_confined actor db (update_user u f db)" "tenant_confined actor db (revoke_where (\<lambda>s. se_UserID s = u) at (update_user u f db))"
proof -
  note t = scope_target [OF assms(2-4)]
  have keep: "v \<in> set (db_users (update_user u f db))" if "v \<in> set (db_users db)" "us_ID v \<noteq> u" for v
    using that by (force simp: update_user_def update_where_def)
  have new: "v \<in> set (db_users db) \<or> tenant_scope actor v" if "v \<in> set (db_users (update_user u f db))" for v
    using that t(3) single_user [OF assms(1) t(4)] assms(5,6) by (auto simp: update_user_def update_where_def tenant_scope_def split: if_splits)
  show "tenant_confined actor db (update_user u f db)" "tenant_confined actor db (revoke_where (\<lambda>s. se_UserID s = u) at (update_user u f db))"
    by (rule tenant_confined_I [OF assms(1) t(1-3)]; (rule keep new revoke_others; simp)?; simp add: keep new)+
qed


subsection \<open>Well-formedness\<close>

definition identity_wf :: "identity_db \<Rightarrow> bool" where
  "identity_wf db \<longleftrightarrow> users_ok db \<and> distinct (map us_Username (db_users db)) \<and>
     list_all (\<lambda>u. role_ok (us_Role u) (us_TenantID u)) (db_users db) \<and> distinct (map se_TokenHash (db_sessions db))"

lemma sessions_kept_distinct:
  assumes "sessions_kept ss ss'" "distinct (map se_TokenHash ss)"
  shows "distinct (map se_TokenHash ss')"
proof -
  obtain old new where ss: "ss' = old @ new" "list_all2 session_kept ss old" "list_all (\<lambda>s. se_TokenHash s \<notin> set (map se_TokenHash ss)) new"
      "distinct (map se_TokenHash new)" using assms(1) by (auto simp: sessions_kept_def)
  have "map se_TokenHash old = map se_TokenHash ss"
    using ss(2) by (induction rule: list_all2_induct) (auto simp: session_kept_def)
  moreover have "set (map se_TokenHash ss) \<inter> set (map se_TokenHash new) = {}"
    using ss(3) unfolding list_all_iff disjoint_iff set_map [of _ new] by blast
  ultimately show ?thesis using ss(1,4) assms(2) by simp
qed

lemma users_effect_names:
  assumes "users_effect env db db'" "distinct (map us_Username (db_users db))" "list_all (\<lambda>u. role_ok (us_Role u) (us_TenantID u)) (db_users db)"
  shows "distinct (map us_Username (db_users db')) \<and> list_all (\<lambda>u. role_ok (us_Role u) (us_TenantID u)) (db_users db')"
  using assms(1)
proof cases
  case (updated P f)
  have "map us_Username (db_users db') = map us_Username (db_users db)"
    unfolding updated(1) update_where_def using updated(2) by (simp add: user_update_def)
  moreover have "list_all (\<lambda>u. role_ok (us_Role u) (us_TenantID u)) (db_users db')"
    using assms(3) updated(2) unfolding updated(1) by (auto simp: update_where_def list_all_iff user_update_def)
  ultimately show ?thesis using assms(2) by simp
next
  case (status u st w)
  have "map us_Username (db_users db') = map us_Username (db_users db)"
    unfolding status(1) update_where_def by simp
  moreover have "list_all (\<lambda>u. role_ok (us_Role u) (us_TenantID u)) (db_users db')"
    using assms(3) unfolding status(1) by (auto simp: update_where_def list_all_iff)
  ultimately show ?thesis using assms(2) by simp
qed (use assms(2,3) in \<open>auto simp: list_all_iff distinct_map_filter\<close>)

text \<open>C20: The identity tables stay well-formed: whatever sequence of operations runs and whichever calls fail,
  identifiers, user names and session tokens stay distinct, new identifiers are fresh, and every account
  has a known role and belongs to a tenant exactly when it is not a system administrator.\<close>

theorem identity_well_formed:
  assumes "identity_wf db"
  shows "identity_wf (foldl identity_step db steps)"
proof (rule identity_run_induct)
  fix db step
  assume wf: "identity_wf db"
  have w: "repo_write (fst step) db (identity_step db step)" by (rule identity_step_write)
  show "identity_wf (identity_step db step)"
    using wf users_effect_ok [OF repo_write_users [OF w]] users_effect_names [OF repo_write_users [OF w]]
      sessions_kept_distinct [OF repo_write_sessions [OF w]] unfolding identity_wf_def by blast
qed (rule assms)

end
