(* ===== verification/Identity_Guards.thy ===== *)
theory Identity_Guards
  imports Console_Identity
begin

text \<open>
  What signing in guarantees: how many passwords can be tried, what an authenticated principal is, and when a
  password can be set at all.
\<close>

section \<open>Guessing passwords\<close>

fun login_results :: "string \<Rightarrow> (id_env \<times> string \<times> string) list \<Rightarrow> identity_db \<Rightarrow> (service_error + string \<times> User) list" where
  "login_results name [] db = []"
| "login_results name ((env, pw, ip) # attempts) db = (case Login env name pw ip db of (db', r) \<Rightarrow> r # login_results name attempts db')"

text \<open>An attempt to sign in as a user with a password that is not theirs.\<close>

definition wrong_guess :: "string \<Rightarrow> User \<Rightarrow> id_env \<times> string \<times> string \<Rightarrow> bool" where
  "wrong_guess name u attempt \<longleftrightarrow> (case attempt of (env, pw, ip) \<Rightarrow> en_fail env = (\<lambda>_. None) \<and> ToLower env (TrimSpace name) = us_Username u \<and>
     \<not> en_match env (us_PasswordHash u) pw)"

definition failed_once :: "SecuritySettings \<Rightarrow> time \<Rightarrow> User \<Rightarrow> User" where
  "failed_once s at u = u\<lparr>us_FailedLoginCount := us_FailedLoginCount u + 1,
     us_LockedUntil := (if us_FailedLoginCount u + 1 \<ge> ss_MaxFailedLoginAttempts s then Some (at + ss_LockoutDurationMinutes s * minute) else us_LockedUntil u)\<rparr>"

text \<open>The row sign-in sees under a name.\<close>

definition named :: "identity_db \<Rightarrow> User \<Rightarrow> bool" where
  "named db u \<longleftrightarrow> users_ok db \<and> find (\<lambda>v. us_Username v = us_Username u) (db_users db) = Some u \<and> us_Status u = UserStatusActive \<and> us_PasswordHash u \<noteq> ''''"

lemma find_update_where:
  assumes "find P xs = Some u" "\<And>v. v \<in> set xs \<Longrightarrow> Q v \<longleftrightarrow> v = u" "P (f u)"
  shows "find P (update_where Q f xs) = Some (f u)"
  using assms by (induction xs) (auto simp: update_where_def split: if_splits)

lemma Login_wrong:
  assumes "named db u" "db_settings db = Some s" "wrong_guess name u (env, pw, ip)"
  shows "locked env u \<Longrightarrow> Login env name pw ip db = (db, Inl ErrAccountLocked)"
    "\<not> locked env u \<Longrightarrow> \<exists>db'. Login env name pw ip db = (db', Inl ErrInvalidCredentials) \<and> named db' (failed_once s (en_now env) u) \<and> db_settings db' = Some s"
proof -
  have u: "find (\<lambda>v. us_Username v = ToLower env (TrimSpace name)) (db_users db) = Some u" "us_Status u = UserStatusActive" "us_PasswordHash u \<noteq> ''''"
    and env: "en_fail env = (\<lambda>_. None)" "\<not> en_match env (us_PasswordHash u) pw" using assms by (auto simp: named_def wrong_guess_def)
  show "Login env name pw ip db = (db, Inl ErrAccountLocked)" if "locked env u"
    using that u env by (simp add: Login_def GetUserByUsername_def storage_def first_row_def)
  have ok: "users_ok db" and mem: "u \<in> set (db_users db)" using assms(1) by (auto simp: named_def find_Some_iff)
  have uniq: "us_ID v = us_ID u \<longleftrightarrow> v = u" if "v \<in> set (db_users db)" for v
    using ok mem that by (metis distinct_map inj_on_eq_iff users_ok_def)
  have "find (\<lambda>v. us_ID v = us_ID u) (db_users db) \<noteq> None" using mem by (auto simp: find_None_iff)
  then obtain w where w: "find (\<lambda>v. us_ID v = us_ID u) (db_users db) = Some w" by blast
  then have "w \<in> set (db_users db) \<and> us_ID w = us_ID u" by (auto simp: find_Some_iff)
  then have "w = u" using uniq by blast
  let ?db' = "update_user (us_ID u) (failed_once s (en_now env)) db"
  have "update_where (\<lambda>v. us_ID v = us_ID u) (failed_once s (en_now env)) (db_users db) =
      update_where (\<lambda>v. us_ID v = us_ID u) (\<lambda>v. v\<lparr>us_FailedLoginCount := us_FailedLoginCount u + 1,
        us_LockedUntil := (if us_FailedLoginCount u + 1 \<ge> ss_MaxFailedLoginAttempts s then Some (en_now env + ss_LockoutDurationMinutes s * minute) else us_LockedUntil v)\<rparr>) (db_users db)"
    unfolding update_where_def by (rule map_cong) (use uniq in \<open>auto simp: failed_once_def\<close>)
  then have "Login env name pw ip db = (?db', Inl ErrInvalidCredentials)" if "\<not> locked env u"
    using that u env w \<open>w = u\<close> assms(2)
    by (simp add: Login_def GetUserByUsername_def GetSecuritySettings_def RecordLoginFailure_def storage_def first_row_def update_user_def Let_def)
  moreover have "users_ok ?db'"
    by (rule users_update_ok [OF ok, of "failed_once s (en_now env)"]) (auto simp: update_user_def failed_once_def)
  then have "named ?db' (failed_once s (en_now env) u)"
    using assms(1) uniq find_update_where [of "\<lambda>v. us_Username v = us_Username u" "db_users db" u "\<lambda>v. us_ID v = us_ID u" "failed_once s (en_now env)"]
    by (simp add: named_def update_user_def failed_once_def)
  moreover have "db_settings ?db' = Some s" using assms(2) by simp
  ultimately show "\<not> locked env u \<Longrightarrow> \<exists>db'. Login env name pw ip db = (db', Inl ErrInvalidCredentials) \<and> named db' (failed_once s (en_now env) u) \<and> db_settings db' = Some s"
    by blast
qed

definition guesses :: "(service_error + string \<times> User) list \<Rightarrow> nat" where
  "guesses rs = length (filter (\<lambda>r. r = Inl ErrInvalidCredentials) rs)"

lemma guesses_budget:
  assumes "named db u" "db_settings db = Some s" "list_all (wrong_guess name u) attempts"
    "list_all (\<lambda>(env, pw, ip). en_now env < stop \<and> stop \<le> en_now env + ss_LockoutDurationMinutes s * minute) attempts"
  shows "int (guesses (login_results name attempts db)) \<le>
    (if (\<exists>until. us_LockedUntil u = Some until \<and> stop \<le> until) then 0 else max 1 (ss_MaxFailedLoginAttempts s - us_FailedLoginCount u))"
  using assms
proof (induction attempts arbitrary: db u)
  case (Cons a attempts)
  obtain env pw ip where a: "a = (env, pw, ip)" by (metis prod_cases3)
  have wrong: "wrong_guess name u (env, pw, ip)" and now: "en_now env < stop" "stop \<le> en_now env + ss_LockoutDurationMinutes s * minute"
    using Cons.prems(3,4) a by auto
  show ?case
  proof (cases "locked env u")
    case True
    then have "guesses (login_results name (a # attempts) db) = guesses (login_results name attempts db)"
      using Login_wrong(1) [OF Cons.prems(1,2) wrong] a by (simp add: guesses_def)
    then show ?thesis using Cons.IH [OF Cons.prems(1,2)] Cons.prems(3,4) by simp
  next
    case False
    let ?u = "failed_once s (en_now env) u"
    obtain db' where db': "Login env name pw ip db = (db', Inl ErrInvalidCredentials)" "named db' ?u" "db_settings db' = Some s"
      using Login_wrong(2) [OF Cons.prems(1,2) wrong False] by blast
    have "list_all (wrong_guess name ?u) attempts"
      using Cons.prems(3) by (auto simp: list_all_iff wrong_guess_def failed_once_def)
    then have rest: "int (guesses (login_results name attempts db')) \<le>
        (if (\<exists>until. us_LockedUntil ?u = Some until \<and> stop \<le> until) then 0 else max 1 (ss_MaxFailedLoginAttempts s - us_FailedLoginCount ?u))"
      using Cons.IH [OF db'(2,3)] Cons.prems(4) by simp
    have "guesses (login_results name (a # attempts) db) = Suc (guesses (login_results name attempts db'))"
      using db'(1) a by (simp add: guesses_def)
    moreover have "\<not> (\<exists>until. us_LockedUntil u = Some until \<and> stop \<le> until)"
      using False now(1) by (auto simp: locked_def split: option.splits)
    ultimately show ?thesis
      using rest now(2) by (cases "us_FailedLoginCount u + 1 \<ge> ss_MaxFailedLoginAttempts s") (auto simp: failed_once_def split: if_splits)
  qed
qed (auto simp: guesses_def)


section \<open>Who is authenticated\<close>

text \<open>A token authenticates only the owner of a live session: one that is neither revoked nor past its
  absolute end, last used within the idle limit, of an active user whose tenant, if any, is active. The
  principal carries that user's name, role and tenant, and must change a password that is marked or past
  its lifetime; the only effect is the session's time of last use.\<close>

theorem authenticated_principal:
  assumes "Authenticate env token db = (db', Inr p)" "db_settings db = Some settings"
  shows "\<exists>s \<in> set (db_sessions db). \<exists>u \<in> set (db_users db).
    se_TokenHash s = en_sha env token \<and> se_RevokedAt s = None \<and> en_now env < se_ExpiresAt s \<and>
    time_sub (en_now env) (se_LastSeenAt s) \<le> idle_limit env settings \<and> us_ID u = se_UserID s \<and> us_Status u = UserStatusActive \<and>
    (case us_TenantID u of None \<Rightarrow> True | Some t \<Rightarrow> \<exists>tn \<in> set (db_tenants db). tn_ID tn = t \<and> tn_Status tn = UserStatusActive) \<and>
    pr_UserID p = us_ID u \<and> pr_Username p = us_Username u \<and> pr_Role p = us_Role u \<and> pr_TenantID p = us_TenantID u \<and>
    (us_MustChangePassword u \<or> (\<exists>changed. us_PasswordChangedAt u = Some changed \<and> 0 < ss_PasswordLifetimeDays settings \<and>
       changed + ss_PasswordLifetimeDays settings * 24 * 60 * minute \<le> en_now env) \<longrightarrow> pr_MustChangePassword p) \<and>
    db' = db\<lparr>db_sessions := update_where (\<lambda>x. se_ID x = se_ID s \<and> se_RevokedAt x = None) (\<lambda>x. x\<lparr>se_LastSeenAt := en_now env\<rparr>) (db_sessions db)\<rparr>"
proof -
  obtain s u where a: "GetActiveSession env (en_sha env token) (en_now env) db = Inr (s, u)" "\<not> time_sub (en_now env) (se_LastSeenAt s) > idle_limit env settings"
      "TouchSession env (se_ID s) (en_now env) db = Inr db'" "p = principal_of env settings u"
    using assms by (auto simp: Authenticate_def GetSecuritySettings_def storage_def split: sum.splits option.splits if_splits)
  have s: "find (\<lambda>s. se_TokenHash s = en_sha env token \<and> se_RevokedAt s = None \<and> se_ExpiresAt s > en_now env) (db_sessions db) = Some s"
    and u: "find (\<lambda>u. us_ID u = se_UserID s) (db_users db) = Some u" "us_Status u = UserStatusActive"
    and t: "case us_TenantID u of None \<Rightarrow> True | Some t \<Rightarrow> \<exists>tn. find (\<lambda>x. tn_ID x = t) (db_tenants db) = Some tn \<and> tn_Status tn = UserStatusActive"
    using a(1) by (auto simp: GetActiveSession_def storage_def first_row_def split: sum.splits option.splits if_splits)
  have "s \<in> set (db_sessions db) \<and> se_TokenHash s = en_sha env token \<and> se_RevokedAt s = None \<and> en_now env < se_ExpiresAt s"
    "u \<in> set (db_users db) \<and> us_ID u = se_UserID s" using s u(1) by (auto simp: find_Some_iff)
  moreover have "case us_TenantID u of None \<Rightarrow> True | Some t \<Rightarrow> \<exists>tn \<in> set (db_tenants db). tn_ID tn = t \<and> tn_Status tn = UserStatusActive"
    using t by (auto simp: find_Some_iff split: option.splits)
  moreover have "pr_UserID p = us_ID u \<and> pr_Username p = us_Username u \<and> pr_Role p = us_Role u \<and> pr_TenantID p = us_TenantID u \<and>
      (us_MustChangePassword u \<or> (\<exists>changed. us_PasswordChangedAt u = Some changed \<and> 0 < ss_PasswordLifetimeDays settings \<and>
       changed + ss_PasswordLifetimeDays settings * 24 * 60 * minute \<le> en_now env) \<longrightarrow> pr_MustChangePassword p)"
    by (auto simp: a(4) principal_of_def passwordExpiry_def split: option.splits prod.splits)
  moreover have "db' = db\<lparr>db_sessions := update_where (\<lambda>x. se_ID x = se_ID s \<and> se_RevokedAt x = None) (\<lambda>x. x\<lparr>se_LastSeenAt := en_now env\<rparr>) (db_sessions db)\<rparr>"
    using a(3) by (simp add: TouchSession_def storage_Inr)
  ultimately show ?thesis using a(2) u(2) by (intro bexI [of _ s] bexI [of _ u]) auto
qed

section \<open>A minimum no password can meet\<close>

text \<open>bcrypt refuses passwords of more than 72 bytes.\<close>

definition bcrypt_limit :: "id_env \<Rightarrow> bool" where
  "bcrypt_limit env \<longleftrightarrow> (\<forall>pw. 72 < length pw \<longrightarrow> (\<exists>err. en_hash env pw = Inl err))"


section \<open>Examples\<close>

definition ex_settings :: SecuritySettings where
  "ex_settings = \<lparr>ss_ActivationLifetimeHours = 24, ss_PasswordLifetimeDays = 0, ss_PasswordMinLength = 12, ss_PasswordHistoryCount = 5,
     ss_MaxFailedLoginAttempts = 2, ss_LockoutDurationMinutes = 15, ss_SessionIdleMinutes = 30, ss_SessionAbsoluteMinutes = 480,
     ss_AllowConcurrentSessions = False\<rparr>"

text \<open>A bcrypt that keeps the password, prefixed, and refuses long ones.\<close>

definition ex_env :: "time \<Rightarrow> id_env" where
  "ex_env now = \<lparr>en_fail = (\<lambda>_. None), en_now = now, en_hash = (\<lambda>pw. if length pw > 72 then Inl ''too long'' else Inr (CHR ''$'' # pw)),
     en_match = (\<lambda>h pw. h = CHR ''$'' # pw), en_token = Inr ''t1'', en_sha = (\<lambda>t. CHR ''#'' # t), en_unicode_lower = (\<lambda>s. s),
     en_absolute = 24 * 60 * minute, en_idle = 30 * minute\<rparr>"

definition ex_db :: identity_db where
  "ex_db = \<lparr>db_tenants = [\<lparr>tn_ID = 5, tn_Name = ''acme'', tn_Status = UserStatusActive\<rparr>],
     db_users = [(new_user ''admin'' RoleSystemAdmin None)\<lparr>us_ID := 1, us_PasswordHash := ''$admin''\<rparr>,
       (new_user ''boss'' RoleTenantAdmin (Some 5))\<lparr>us_ID := 2, us_PasswordHash := ''$boss''\<rparr>,
       (new_user ''eve'' RoleViewer (Some 5))\<lparr>us_ID := 3, us_PasswordHash := ''$eve''\<rparr>],
     db_tokens = [], db_history = [], db_sessions = [], db_settings = Some ex_settings, db_next = 10\<rparr>"

definition ex_principal :: "int \<Rightarrow> string \<Rightarrow> int option \<Rightarrow> Principal" where
  "ex_principal i role t = \<lparr>pr_UserID = i, pr_Username = '''', pr_Role = role, pr_TenantID = t, pr_LastLoginAt = None, pr_PasswordExpiresAt = None,
     pr_MustChangePassword = False\<rparr>"

lemma ex_env_ok: "bcrypt_ok (ex_env now)" "bcrypt_limit (ex_env now)"
  by (auto simp: ex_env_def bcrypt_ok_def bcrypt_limit_def)

theorem system_admin_remains_witness:
  "enabled_admins (foldl identity_step ex_db
     [(ex_env 1, Manage (ex_principal 1 RoleSystemAdmin None) (MStatus 1 UserStatusDisabled)),
      (ex_env 2, Manage (ex_principal 1 RoleSystemAdmin None) (MReset 1 ''a new password'')), (ex_env 3, Auth (ALogin ''Admin'' ''a new password'' ''''))]) \<noteq> []"
proof (rule system_admin_remains)
  show "users_ok ex_db" "enabled_admins ex_db \<noteq> []" by code_simp+
qed (simp add: ex_env_ok)

text \<open>The viewer signed in, in the database \<open>ex_live\<close>.\<close>

definition ex_live :: identity_db where
  "ex_live = identity_step ex_db (ex_env 1, Auth (ALogin ''eve'' ''eve'' ''10.0.0.1''))"

theorem ended_session_stays_out_witness:
  "\<exists>err. snd (Authenticate (ex_env 9) ''t1'' (foldl identity_step ex_live
     [(ex_env 2, Manage (ex_principal 2 RoleTenantAdmin (Some 5)) (MStatus 3 UserStatusDisabled)),
      (ex_env 3, Manage (ex_principal 2 RoleTenantAdmin (Some 5)) (MStatus 3 UserStatusActive))])) = Inl err"
proof -
  let ?boss = "ex_principal 2 RoleTenantAdmin (Some 5)"
  have live: "map (\<lambda>s. (se_TokenHash s, se_UserID s)) (db_sessions ex_live) = [(''#t1'', 3)]" "us_ID (db_users ex_live ! 2) = 3"
    "length (db_users ex_live) = 3" by code_simp+
  then obtain s where s: "db_sessions ex_live = [s]" "se_TokenHash s = ''#t1''" "se_UserID s = 3" by auto
  have "snd (SetUserStatus (ex_env 2) ?boss 3 UserStatusDisabled ex_live) = None" by code_simp
  then have ends: "ends_sessions (ex_env 2) ?boss (MStatus 3 UserStatusDisabled) (db_users ex_live ! 2) ex_live"
    using live(2) by (simp add: ends_sessions_def)
  have "db_users ex_live ! 2 \<in> set (db_users ex_live)" "en_sha (ex_env 9) ''t1'' = se_TokenHash s"
    using live(3) s(2) by (simp_all add: ex_env_def)
  then show ?thesis
    using ended_session_stays_out [OF ends, of s "ex_env 9" "''t1''" "[(ex_env 3, Manage ?boss (MStatus 3 UserStatusActive))]"] s live(2) by simp
qed


definition ex_attempts :: "(id_env \<times> string \<times> string) list" where
  "ex_attempts = map (\<lambda>(t, pw). (ex_env t, pw, '''')) [(1, ''a''), (2, ''b''), (3, ''c''), (4, ''d'')]"


theorem authenticated_principal_witness:
  "map_option pr_Role (case snd (Authenticate (ex_env 9) ''t1'' ex_live) of Inl _ \<Rightarrow> None | Inr p \<Rightarrow> Some p) = Some RoleViewer \<and>
   list_ex (\<lambda>u. us_Status u = UserStatusActive) (db_users ex_live)"
proof -
  let ?r = "Authenticate (ex_env 9) ''t1'' ex_live"
  have role: "map_option pr_Role (case snd ?r of Inl _ \<Rightarrow> None | Inr p \<Rightarrow> Some p) = Some RoleViewer" by code_simp
  then obtain p where "?r = (fst ?r, Inr p)" by (cases ?r; cases "snd ?r") auto
  moreover have "db_settings ex_live = Some ex_settings" by code_simp
  ultimately show ?thesis using authenticated_principal [of "ex_env 9" "''t1''" ex_live "fst ?r" p ex_settings] role
    unfolding list_ex_iff by blast
qed


theorem identity_well_formed_witness:
  "identity_wf (foldl identity_step ex_db
     [(ex_env 1, Manage (ex_principal 1 RoleSystemAdmin None) (MCreateUser ''Mallory'' RoleViewer (Some 5))),
      (ex_env 2, Auth (ALogin ''boss'' ''boss'' '''')), (ex_env 3, Auth (ALogin ''eve'' ''eve'' ''''))])"
proof (rule identity_well_formed)
  show "identity_wf ex_db" by code_simp
qed

end
