(* ===== verification/Install_Command.thy ===== *)
theory Install_Command
  imports Go_Runes Console_Access
begin

text \<open>
  The install command the console shows for a new cluster: the validation of its parameters, the command line
  (\<^verbatim>\<open>validateInstallParams\<close> and \<^verbatim>\<open>buildInstallCommand\<close> of \<^verbatim>\<open>internal/console/service/cluster.go\<close>) and Go's quoting verb
  \<open>%q\<close>. The command is read back with the word rules of a POSIX shell: whatever the parameters are, it is one
  command with the intended words, and printable parameters arrive unchanged.
\<close>

section \<open>Quoting\<close>

abbreviation dquote :: char where "dquote \<equiv> CHR 0x22"
abbreviation backslash :: char where "backslash \<equiv> CHR 0x5C"
abbreviation newline :: char where "newline \<equiv> CHR 0x0A"

definition hex_digit :: "int \<Rightarrow> char" where
  "hex_digit n = ''0123456789abcdef'' ! nat (n mod 16)"

fun hex_digits :: "nat \<Rightarrow> int \<Rightarrow> string" where
  "hex_digits 0 n = []"
| "hex_digits (Suc w) n = hex_digits w (n div 16) @ [hex_digit n]"

text \<open>\<^verbatim>\<open>strconv.IsPrint\<close>: the printable ASCII characters, and a table for the other runes.\<close>

definition IsPrint :: "(int \<Rightarrow> bool) \<Rightarrow> int \<Rightarrow> bool" where
  "IsPrint table r = (if r < 0x80 then 0x20 \<le> r \<and> r < 0x7F else table r)"

definition short_escapes :: "(int \<times> char) list" where
  "short_escapes = [(7, CHR ''a''), (8, CHR ''b''), (12, CHR ''f''), (10, CHR ''n''), (13, CHR ''r''), (9, CHR ''t''), (11, CHR ''v'')]"

definition escape_rune :: "(int \<Rightarrow> bool) \<Rightarrow> int \<Rightarrow> string" where
  "escape_rune table r =
    (if r = 0x22 \<or> r = 0x5C then backslash # encode_rune r
     else if IsPrint table r then encode_rune r
     else case map_of short_escapes r of
       Some c \<Rightarrow> [backslash, c]
     | None \<Rightarrow>
         if r < 0x20 \<or> r = 0x7F then [backslash, CHR ''x''] @ hex_digits 2 r
         else if r < 0x10000 then [backslash, CHR ''u''] @ hex_digits 4 r
         else [backslash, CHR ''U''] @ hex_digits 8 r)"

function quote_body :: "(int \<Rightarrow> bool) \<Rightarrow> string \<Rightarrow> string" where
  "quote_body table s = (if s = [] then []
     else (if decode_rune s = (rune_error, 1) then [backslash, CHR ''x''] @ hex_digits 2 (byte (hd s))
           else escape_rune table (fst (decode_rune s)))
       @ quote_body table (drop (snd (decode_rune s)) s))"
  by auto
termination
  by (relation "measure (length \<circ> snd)") (auto dest!: decode_rune_width simp: diff_less_iff_nonempty)

declare quote_body.simps [simp del]

definition Quote :: "(int \<Rightarrow> bool) \<Rightarrow> string \<Rightarrow> string" where
  "Quote table s = dquote # quote_body table s @ [dquote]"

section \<open>Parameters and command\<close>

record ClusterImageInput =
  im_Repository :: string
  im_Tag :: string
  im_PullPolicy :: string

record ClusterInstallInput =
  ip_Namespace :: string
  ip_WebhookImage :: ClusterImageInput
  ip_OperatorImage :: ClusterImageInput
  ip_HighAvailability :: bool
  ip_GatewayAddress :: string
  ip_GatewayTLSServerName :: string
  ip_GatewayCABundle :: string

text \<open>What the validation depends on: the name rule of the Kubernetes library (its complaints), the order in
  which a map of fields is visited, and the table of printable runes.\<close>

record install_env =
  ie_dns1123 :: "string \<Rightarrow> string list"
  ie_visit :: "(string \<times> string) list \<Rightarrow> (string \<times> string) list"
  ie_print :: "int \<Rightarrow> bool"

definition dangerousShellChars :: string where
  "dangerousShellChars = [CHR 0x60, CHR ''$'', backslash, dquote]"

definition ContainsAny :: "string \<Rightarrow> string \<Rightarrow> bool" where
  "ContainsAny s chars \<longleftrightarrow> list_ex (\<lambda>c. c \<in> set chars) s"

definition pull_policies :: "string list" where
  "pull_policies = [''Always'', ''IfNotPresent'', ''Never'']"

definition install_fields :: "ClusterInstallInput \<Rightarrow> (string \<times> string) list" where
  "install_fields p =
    [(''webhookImage.repository'', im_Repository (ip_WebhookImage p)), (''webhookImage.tag'', im_Tag (ip_WebhookImage p)),
     (''operatorImage.repository'', im_Repository (ip_OperatorImage p)), (''operatorImage.tag'', im_Tag (ip_OperatorImage p)),
     (''gatewayAddress'', ip_GatewayAddress p), (''gatewayTlsServerName'', ip_GatewayTLSServerName p),
     (''gatewayCaBundle'', ip_GatewayCABundle p)]"

definition validateInstallParams :: "install_env \<Rightarrow> ClusterInstallInput \<Rightarrow> service_error option" where
  "validateInstallParams env p =
    (let errs = ie_dns1123 env (ip_Namespace p)
     in if errs \<noteq> [] then Some (ValidationError (''invalid namespace: '' @ Join errs ''; ''))
        else if im_PullPolicy (ip_WebhookImage p) \<notin> set pull_policies \<or> im_PullPolicy (ip_OperatorImage p) \<notin> set pull_policies
        then Some (ValidationError ''pullPolicy must be one of Always, IfNotPresent, Never'')
        else case find (\<lambda>(name, v). ContainsAny v dangerousShellChars) (ie_visit env (install_fields p)) of
          Some (name, v) \<Rightarrow> Some (ValidationError (name @ '' contains an unsupported character (one of '' @
            Quote (ie_print env) dangerousShellChars @ '')''))
        | None \<Rightarrow>
            if im_Repository (ip_WebhookImage p) = '''' \<or> im_Tag (ip_WebhookImage p) = '''' \<or> im_Repository (ip_OperatorImage p) = ''''
              \<or> im_Tag (ip_OperatorImage p) = '''' \<or> ip_GatewayAddress p = ''''
            then Some (ValidationError ''webhookImage.repository/tag, operatorImage.repository/tag, and gatewayAddress are required'')
            else None)"

abbreviation continued :: string where "continued \<equiv> [CHR '' '', backslash, newline]"

definition set_line :: "string \<Rightarrow> string \<Rightarrow> string" where
  "set_line key v = ''  --set '' @ key @ ''='' @ v @ continued"

definition buildInstallCommand :: "(int \<Rightarrow> bool) \<Rightarrow> string \<Rightarrow> string \<Rightarrow> ClusterInstallInput \<Rightarrow> string" where
  "buildInstallCommand table clusterName token p =
     ''helm upgrade --install kubesentry charts/kubesentry'' @ continued @ ''  --namespace '' @ ip_Namespace p @ '' --create-namespace'' @ continued
     @ set_line ''webhook.image.repository'' (Quote table (im_Repository (ip_WebhookImage p)))
     @ set_line ''webhook.image.tag'' (Quote table (im_Tag (ip_WebhookImage p)))
     @ set_line ''webhook.image.pullPolicy'' (im_PullPolicy (ip_WebhookImage p))
     @ set_line ''operator.image.repository'' (Quote table (im_Repository (ip_OperatorImage p)))
     @ set_line ''operator.image.tag'' (Quote table (im_Tag (ip_OperatorImage p)))
     @ set_line ''operator.image.pullPolicy'' (im_PullPolicy (ip_OperatorImage p))
     @ (if ip_HighAvailability p
        then set_line ''webhook.highAvailability.enabled'' ''true'' @ set_line ''operator.highAvailability.enabled'' ''true'' else [])
     @ set_line ''gateway.address'' (Quote table (ip_GatewayAddress p))
     @ (if ip_GatewayTLSServerName p \<noteq> '''' then set_line ''gateway.tlsServerName'' (Quote table (ip_GatewayTLSServerName p)) else [])
     @ (if ip_GatewayCABundle p \<noteq> '''' then set_line ''gateway.caBundle'' (Quote table (ip_GatewayCABundle p)) else [])
     @ set_line ''gateway.clusterName'' (Quote table clusterName) @ set_line ''gateway.registrationToken'' (Quote table token)
     @ ''  --wait --timeout 5m'' @ [newline]"

section \<open>A shell reads the command\<close>

text \<open>The words of a simple command, by the rules of a POSIX shell: blanks separate words, double quotes keep
  everything but \<open>$\<close>, the backquote and the backslash, a backslash before a newline joins lines. Anything that could be
  an operator or an expansion gives no words at all, nor does a second command.\<close>

definition plain_char :: "char \<Rightarrow> bool" where
  "plain_char c \<longleftrightarrow> c \<in> set ''abcdefghijklmnopqrstuvwxyzABCDEFGHIJKLMNOPQRSTUVWXYZ0123456789-_./=:,@%+''"

definition grow :: "string option \<Rightarrow> string \<Rightarrow> string option" where
  "grow w s = Some (case w of None \<Rightarrow> s | Some x \<Rightarrow> x @ s)"

fun read_words :: "bool \<Rightarrow> string option \<Rightarrow> string \<Rightarrow> string list option" where
  "read_words quoted w [] = (if quoted then None else Some (case w of None \<Rightarrow> [] | Some x \<Rightarrow> [x]))"
| "read_words True w (c # cs) =
    (if c = dquote then read_words False w cs
     else if c = backslash then (case cs of [] \<Rightarrow> None
       | d # ds \<Rightarrow> if d \<in> set dangerousShellChars then read_words True (grow w [d]) ds
           else if d = newline then read_words True w ds else read_words True (grow w [c, d]) ds)
     else if c \<in> set dangerousShellChars then None
     else read_words True (grow w [c]) cs)"
| "read_words False w (c # cs) =
    (if c = dquote then read_words True (grow w []) cs
     else if c = backslash then (case cs of [] \<Rightarrow> None
       | d # ds \<Rightarrow> if d = newline then read_words False w ds else read_words False (grow w [d]) ds)
     else if c = CHR '' '' then (case w of None \<Rightarrow> read_words False None cs | Some x \<Rightarrow> map_option ((#) x) (read_words False None cs))
     else if c = newline then (if cs = [] then Some (case w of None \<Rightarrow> [] | Some x \<Rightarrow> [x]) else None)
     else if plain_char c then read_words False (grow w [c]) cs
     else None)"

definition shell_words :: "string \<Rightarrow> string list option" where
  "shell_words s = read_words False None s"

text \<open>The words meant; \<open>enc\<close> is what becomes of a quoted parameter.\<close>

definition set_word :: "string \<Rightarrow> string \<Rightarrow> string list" where
  "set_word key v = [''--set'', key @ ''='' @ v]"

definition install_words :: "(string \<Rightarrow> string) \<Rightarrow> string \<Rightarrow> string \<Rightarrow> ClusterInstallInput \<Rightarrow> string list" where
  "install_words enc clusterName token p =
     [''helm'', ''upgrade'', ''--install'', ''kubesentry'', ''charts/kubesentry'', ''--namespace'', ip_Namespace p, ''--create-namespace'']
     @ set_word ''webhook.image.repository'' (enc (im_Repository (ip_WebhookImage p)))
     @ set_word ''webhook.image.tag'' (enc (im_Tag (ip_WebhookImage p)))
     @ set_word ''webhook.image.pullPolicy'' (im_PullPolicy (ip_WebhookImage p))
     @ set_word ''operator.image.repository'' (enc (im_Repository (ip_OperatorImage p)))
     @ set_word ''operator.image.tag'' (enc (im_Tag (ip_OperatorImage p)))
     @ set_word ''operator.image.pullPolicy'' (im_PullPolicy (ip_OperatorImage p))
     @ (if ip_HighAvailability p then set_word ''webhook.highAvailability.enabled'' ''true'' @ set_word ''operator.highAvailability.enabled'' ''true'' else [])
     @ set_word ''gateway.address'' (enc (ip_GatewayAddress p))
     @ (if ip_GatewayTLSServerName p \<noteq> '''' then set_word ''gateway.tlsServerName'' (enc (ip_GatewayTLSServerName p)) else [])
     @ (if ip_GatewayCABundle p \<noteq> '''' then set_word ''gateway.caBundle'' (enc (ip_GatewayCABundle p)) else [])
     @ set_word ''gateway.clusterName'' (enc clusterName) @ set_word ''gateway.registrationToken'' (enc token)
     @ [''--wait'', ''--timeout'', ''5m'']"

section \<open>Reading what was written\<close>

lemma grow_grow [simp]: "grow (Some v) s = Some (v @ s)" "grow None s = Some s"
  by (simp_all add: grow_def)

lemma plain_char_special:
  "plain_char c \<Longrightarrow> c \<noteq> dquote \<and> c \<noteq> backslash \<and> c \<noteq> CHR '' '' \<and> c \<noteq> newline"
  by (auto simp: plain_char_def)

lemma read_plain:
  assumes "list_all plain_char s"
  shows "read_words False (Some v) (s @ x) = read_words False (Some (v @ s)) x"
  using assms
proof (induction s arbitrary: v)
  case (Cons c s)
  then show ?case using plain_char_special [of c] by simp
qed simp

lemma read_plain_word:
  assumes "list_all plain_char s" "s \<noteq> []"
  shows "read_words False None (s @ x) = read_words False (Some s) x"
  using assms read_plain [of "tl s" "[hd s]" x] plain_char_special [of "hd s"] by (cases s) simp_all

text \<open>A text that double quotes leave as it is.\<close>

definition literal :: "string \<Rightarrow> bool" where
  "literal u \<longleftrightarrow> (\<forall>v x. read_words True (Some v) (u @ x) = read_words True (Some (v @ u)) x)"

lemma literal_append: "literal u \<Longrightarrow> literal v \<Longrightarrow> literal (u @ v)"
  by (simp add: literal_def)

lemma literal_chars: "list_all (\<lambda>c. c \<notin> set dangerousShellChars) u \<Longrightarrow> literal u"
proof (induction u)
  case (Cons c u)
  then have "literal u" "c \<noteq> dquote" "c \<noteq> backslash" "c \<notin> set dangerousShellChars" by (auto simp: dangerousShellChars_def)
  then show ?case by (simp add: literal_def)
qed (simp add: literal_def)

lemma literal_escape: "d \<notin> set dangerousShellChars \<Longrightarrow> d \<noteq> newline \<Longrightarrow> literal [backslash, d]"
  by (simp add: literal_def)

lemma hex_digit_harmless: "hex_digit n \<notin> set dangerousShellChars"
proof -
  have "hex_digit n \<in> set ''0123456789abcdef''" unfolding hex_digit_def by (rule nth_mem) (simp add: nat_less_iff)
  then show ?thesis by (auto simp: dangerousShellChars_def)
qed

lemma hex_digits_harmless: "list_all (\<lambda>c. c \<notin> set dangerousShellChars) (hex_digits w n)"
  by (induction w arbitrary: n) (simp_all add: hex_digit_harmless)

lemma literal_hex: "d \<in> {CHR ''x'', CHR ''u'', CHR ''U''} \<Longrightarrow> literal ([backslash, d] @ hex_digits w n)"
  by (intro literal_append literal_escape literal_chars hex_digits_harmless) (auto simp: dangerousShellChars_def)

lemma byte_inject: "byte c = byte d \<longleftrightarrow> c = d"
  by simp

lemma decode_rune_high:
  assumes "0x80 \<le> byte a"
  shows "0x80 \<le> fst (decode_rune (a # s))"
proof -
  let ?x = "byte a"
  have two: "0x80 \<le> (?x - 0xC0) * 64 + (byte b - 0x80)" if "0xC2 \<le> ?x" "is_cont b" for b
    using that by (simp add: is_cont_def)
  have three: "0x80 \<le> (?x - 0xE0) * 4096 + (byte b - 0x80) * 64 + (byte c - 0x80)"
    if "0xE0 \<le> ?x" "is_cont b" "is_cont c" "?x = 0xE0 \<longrightarrow> 0xA0 \<le> byte b" for b c
    using that by (cases "?x = 0xE0") (simp_all add: is_cont_def)
  have four: "0x80 \<le> (?x - 0xF0) * 262144 + (byte b - 0x80) * 4096 + (byte c - 0x80) * 64 + (byte d - 0x80)"
    if "0xF0 \<le> ?x" "is_cont b" "is_cont c" "is_cont d" "?x = 0xF0 \<longrightarrow> 0x90 \<le> byte b" for b c d
    using that by (cases "?x = 0xF0") (simp_all add: is_cont_def)
  show ?thesis
    using assms two three four unfolding decode_rune.simps Let_def rune_error_def
    by (simp split: list.split)
qed

lemma decode_rune_low:
  assumes "s \<noteq> []" "fst (decode_rune s) < 0x80"
  shows "fst (decode_rune s) = byte (hd s)"
proof (cases s)
  case (Cons a s')
  then have "byte a < 0x80" using assms(2) decode_rune_high [of a s'] by fastforce
  then show ?thesis by (simp add: Cons decode_rune.simps)
qed (use assms in simp)

lemma high_byte: "0x80 \<le> n \<Longrightarrow> n < 256 \<Longrightarrow> 0x80 \<le> byte (char_of (n :: int))"
  by simp

lemma continuation_byte: "0x80 \<le> 0x80 + r mod 64 \<and> 0x80 + r mod 64 < (256 :: int)"
  using pos_mod_bound [of 64 r] pos_mod_sign [of 64 r] by linarith

lemma encode_rune_high:
  assumes "0x80 \<le> r"
  shows "list_all (\<lambda>c. 0x80 \<le> byte c) (encode_rune r)"
proof -
  have lead: "0x80 \<le> 0xC0 + r div 64 \<and> 0xC0 + r div 64 < 256" if "r < 0x800"
    using assms that zdiv_mono1 [of r "0x7FF" "64"] pos_imp_zdiv_nonneg_iff [of "64" r] by simp
  have lead3: "0x80 \<le> 0xE0 + r div 4096 \<and> 0xE0 + r div 4096 < 256" if "r < 0x10000"
    using assms that zdiv_mono1 [of r "0xFFFF" "4096"] pos_imp_zdiv_nonneg_iff [of "4096" r] by simp
  have lead4: "0x80 \<le> 0xF0 + r div 262144 \<and> 0xF0 + r div 262144 < 256" if "r \<le> 0x10FFFF"
    using assms that zdiv_mono1 [of r "0x10FFFF" "262144"] pos_imp_zdiv_nonneg_iff [of "262144" r] by simp
  show ?thesis
    unfolding encode_rune_def using assms lead lead3 lead4 continuation_byte
    by (simp del: of_char_of add: high_byte)
qed

lemma literal_high: "list_all (\<lambda>c. 0x80 \<le> byte c) u \<Longrightarrow> literal u"
  by (rule literal_chars) (auto simp: list_all_iff dangerousShellChars_def)

lemma short_escape_letters: "map_of short_escapes r = Some c \<Longrightarrow> literal [backslash, c]"
  by (rule literal_escape) (auto simp: short_escapes_def dangerousShellChars_def split: if_splits)

lemma escape_rune_literal:
  assumes "s \<noteq> []" "hd s \<notin> set dangerousShellChars"
  shows "literal (escape_rune table (fst (decode_rune s)))"
proof -
  let ?r = "fst (decode_rune s)"
  have low: "?r = byte (hd s)" if "?r < 0x80" using decode_rune_low [OF assms(1) that] .
  have "?r \<noteq> 0x22 \<and> ?r \<noteq> 0x5C"
  proof (rule ccontr)
    assume "\<not> ?thesis"
    then have "?r = byte dquote \<or> ?r = byte backslash" "?r < 0x80" by auto
    then have "hd s = dquote \<or> hd s = backslash" using low by (metis byte_inject)
    then show False using assms(2) by (auto simp: dangerousShellChars_def)
  qed
  moreover have "literal (encode_rune ?r)"
  proof (cases "?r < 0x80")
    case True
    then have "encode_rune ?r = [hd s]" using low [OF True] encode_ascii [of "hd s"] by simp
    then show ?thesis using assms(2) by (simp add: literal_chars)
  qed (use encode_rune_high literal_high in auto)
  ultimately show ?thesis
    using short_escape_letters literal_hex unfolding escape_rune_def by (simp split: option.split)
qed

lemma quote_body_literal:
  assumes "\<not> ContainsAny s dangerousShellChars"
  shows "literal (quote_body table s)"
  using assms
proof (induction table s rule: quote_body.induct)
  case (1 table s)
  show ?case
  proof (cases "s = []")
    case False
    let ?rest = "drop (snd (decode_rune s)) s"
    have "\<not> ContainsAny ?rest dangerousShellChars" "hd s \<notin> set dangerousShellChars"
      using 1(2) False by (auto simp: ContainsAny_def list_ex_iff dest: in_set_dropD)
    then have "literal (quote_body table ?rest)" "literal (escape_rune table (fst (decode_rune s)))"
      using 1(1) [OF False] escape_rune_literal [OF False] by blast+
    then show ?thesis
      unfolding quote_body.simps [of table s] by (simp only: False if_False split: if_split) (blast intro: literal_append literal_hex)
  qed (simp add: quote_body.simps literal_chars)
qed

lemma quote_body_printable:
  assumes "list_all (\<lambda>c. 0x20 \<le> byte c \<and> byte c < 0x7F) s" "\<not> ContainsAny s dangerousShellChars"
  shows "quote_body table s = s"
  using assms
proof (induction s)
  case (Cons c s)
  then have "decode_rune (c # s) = (byte c, 1)" "c \<noteq> dquote" "c \<noteq> backslash" "quote_body table s = s"
    by (auto simp: decode_rune.simps ContainsAny_def dangerousShellChars_def)
  moreover from this have "byte c \<noteq> byte dquote" "byte c \<noteq> byte backslash" by (simp_all only: byte_inject not_False_eq_True)
  ultimately show ?case
    using Cons.prems(1) by (simp add: quote_body.simps [of table "c # s"] rune_error_def escape_rune_def IsPrint_def encode_ascii)
qed (simp add: quote_body.simps)

section \<open>The command\<close>

lemma read_quoted:
  assumes "literal u"
  shows "read_words False (Some v) (dquote # u @ dquote # x) = read_words False (Some (v @ u)) x"
  using assms by (simp add: literal_def)

definition plain_word :: "string \<Rightarrow> bool" where
  "plain_word s \<longleftrightarrow> list_all plain_char s"

lemma read_option:
  assumes "plain_word key" "\<And>v x. read_words False (Some v) (w @ x) = read_words False (Some (v @ u)) x"
  shows "read_words False None (set_line key w @ x) = map_option ((@) (set_word key u)) (read_words False None x)"
proof -
  have "read_words False None (''--set'' @ y) = read_words False (Some ''--set'') y" for y
    by (rule read_plain_word) (simp_all add: plain_char_def)
  moreover have "read_words False None ((key @ ''='') @ w @ y) = read_words False (Some ((key @ ''='') @ u)) y" for y
    using assms by (subst read_plain_word) (simp_all add: plain_char_def plain_word_def)
  moreover have "(\<lambda>y. ''--set'' # (key @ ''='' @ u) # y) = (@) (set_word key u)" by (simp add: set_word_def fun_eq_iff)
  ultimately show ?thesis
    by (simp add: set_line_def option.map_comp comp_def)
qed

lemma read_option_quoted:
  assumes "plain_word key" "\<not> ContainsAny v dangerousShellChars"
  shows "read_words False None (set_line key (Quote table v) @ x) = map_option ((@) (set_word key (quote_body table v))) (read_words False None x)"
  using read_quoted [OF quote_body_literal [OF assms(2)], of _ table] by (intro read_option [OF assms(1)]) (simp add: Quote_def del: read_words.simps)

lemma read_option_plain:
  assumes "plain_word key" "plain_word v"
  shows "read_words False None (set_line key v @ x) = map_option ((@) (set_word key v)) (read_words False None x)"
  by (rule read_option [OF assms(1)]) (rule read_plain [OF assms(2) [unfolded plain_word_def]])

lemma read_word:
  assumes "list_all plain_char s" "s \<noteq> []"
  shows "read_words False None (s @ CHR '' '' # x) = map_option ((#) s) (read_words False None x)"
  using read_plain_word [OF assms, of "CHR '' '' # x"] by simp

text \<open>The rule of the Kubernetes library for names: lower-case letters, digits, \<open>-\<close> and \<open>.\<close>, and not empty.\<close>

abbreviation dns_alphabet :: string where "dns_alphabet \<equiv> ''abcdefghijklmnopqrstuvwxyz0123456789-.''"

definition dns_names :: "install_env \<Rightarrow> bool" where
  "dns_names env \<longleftrightarrow> (\<forall>s. ie_dns1123 env s = [] \<longrightarrow> s \<noteq> [] \<and> set s \<subseteq> set dns_alphabet)"

lemma alphabet_harmless:
  "list_all (\<lambda>c. plain_char c \<and> c \<notin> set dangerousShellChars \<and> 0x20 \<le> byte c \<and> byte c < 0x7F) dns_alphabet"
  by code_simp

lemma alphabet_plain:
  assumes "set s \<subseteq> set dns_alphabet"
  shows "list_all plain_char s" "\<not> ContainsAny s dangerousShellChars" "list_all (\<lambda>c. 0x20 \<le> byte c \<and> byte c < 0x7F) s"
  using assms alphabet_harmless unfolding list_all_iff ContainsAny_def list_ex_iff by blast+

lemma dns_plain:
  assumes "dns_names env" "ie_dns1123 env s = []"
  shows "s \<noteq> []" "list_all plain_char s" "\<not> ContainsAny s dangerousShellChars" "list_all (\<lambda>c. 0x20 \<le> byte c \<and> byte c < 0x7F) s"
proof -
  have "s \<noteq> []" "set s \<subseteq> set dns_alphabet" using assms unfolding dns_names_def by blast+
  then show "s \<noteq> []" "list_all plain_char s" "\<not> ContainsAny s dangerousShellChars" "list_all (\<lambda>c. 0x20 \<le> byte c \<and> byte c < 0x7F) s"
    using alphabet_plain by blast+
qed

lemma validated:
  assumes "validateInstallParams env p = None" "set (ie_visit env (install_fields p)) = set (install_fields p)"
  shows "ie_dns1123 env (ip_Namespace p) = []" "list_all plain_char (im_PullPolicy (ip_WebhookImage p))"
    "list_all plain_char (im_PullPolicy (ip_OperatorImage p))" "list_all (\<lambda>(k, v). \<not> ContainsAny v dangerousShellChars) (install_fields p)"
proof -
  have "ie_dns1123 env (ip_Namespace p) = []" "im_PullPolicy (ip_WebhookImage p) \<in> set pull_policies" "im_PullPolicy (ip_OperatorImage p) \<in> set pull_policies"
    "find (\<lambda>(name, v). ContainsAny v dangerousShellChars) (ie_visit env (install_fields p)) = None"
    using assms(1) by (auto simp: validateInstallParams_def Let_def split: if_splits option.splits)
  then show "ie_dns1123 env (ip_Namespace p) = []" "list_all plain_char (im_PullPolicy (ip_WebhookImage p))"
    "list_all plain_char (im_PullPolicy (ip_OperatorImage p))" "list_all (\<lambda>(k, v). \<not> ContainsAny v dangerousShellChars) (install_fields p)"
    using assms(2) by (auto simp: pull_policies_def plain_char_def find_None_iff list_all_iff)
qed

lemma install_keys_plain:
  "list_all plain_word [''webhook.image.repository'', ''webhook.image.tag'', ''webhook.image.pullPolicy'', ''operator.image.repository'',
     ''operator.image.tag'', ''operator.image.pullPolicy'', ''webhook.highAvailability.enabled'', ''operator.highAvailability.enabled'',
     ''gateway.address'', ''gateway.tlsServerName'', ''gateway.caBundle'', ''gateway.clusterName'', ''gateway.registrationToken'', ''true'']"
  by code_simp

definition spaced :: "string list \<Rightarrow> string" where
  "spaced ws = concat (map (\<lambda>s. s @ '' '') ws)"

lemma read_spaced:
  assumes "list_all (\<lambda>s. s \<noteq> [] \<and> list_all plain_char s) ws"
  shows "read_words False None (spaced ws @ x) = map_option ((@) ws) (read_words False None x)"
  using assms
proof (induction ws)
  case (Cons s ws)
  then show ?case using read_word [of s "spaced ws @ x"] by (simp add: spaced_def option.map_comp comp_def)
qed (simp add: spaced_def option.map_id0 [unfolded id_def] option.map_ident append_Nil [abs_def])

lemma read_blank [simp]:
  "read_words False None (backslash # newline # x) = read_words False None x" "read_words False None (CHR '' '' # x) = read_words False None x"
  by simp_all

definition command_end :: string where
  "command_end = ''  --wait --timeout 5m'' @ [newline]"

lemma command_parts:
  "buildInstallCommand table name token p = spaced [''helm'', ''upgrade'', ''--install'', ''kubesentry'', ''charts/kubesentry''] @ backslash # newline # ''  '' @
     spaced [''--namespace'', ip_Namespace p, ''--create-namespace''] @ backslash # newline #
     set_line ''webhook.image.repository'' (Quote table (im_Repository (ip_WebhookImage p)))
     @ set_line ''webhook.image.tag'' (Quote table (im_Tag (ip_WebhookImage p)))
     @ set_line ''webhook.image.pullPolicy'' (im_PullPolicy (ip_WebhookImage p))
     @ set_line ''operator.image.repository'' (Quote table (im_Repository (ip_OperatorImage p)))
     @ set_line ''operator.image.tag'' (Quote table (im_Tag (ip_OperatorImage p)))
     @ set_line ''operator.image.pullPolicy'' (im_PullPolicy (ip_OperatorImage p))
     @ (if ip_HighAvailability p
        then set_line ''webhook.highAvailability.enabled'' ''true'' @ set_line ''operator.highAvailability.enabled'' ''true'' else [])
     @ set_line ''gateway.address'' (Quote table (ip_GatewayAddress p))
     @ (if ip_GatewayTLSServerName p \<noteq> '''' then set_line ''gateway.tlsServerName'' (Quote table (ip_GatewayTLSServerName p)) else [])
     @ (if ip_GatewayCABundle p \<noteq> '''' then set_line ''gateway.caBundle'' (Quote table (ip_GatewayCABundle p)) else [])
     @ set_line ''gateway.clusterName'' (Quote table name) @ set_line ''gateway.registrationToken'' (Quote table token)
     @ command_end"
  by (simp add: buildInstallCommand_def spaced_def command_end_def)

lemma read_end: "read_words False None command_end = Some [''--wait'', ''--timeout'', ''5m'']"
  by code_simp

lemma read_command:
  assumes "list_all (\<lambda>(k, v). \<not> ContainsAny v dangerousShellChars) (install_fields p)" "ip_Namespace p \<noteq> []" "list_all plain_char (ip_Namespace p)"
    "list_all plain_char (im_PullPolicy (ip_WebhookImage p))" "list_all plain_char (im_PullPolicy (ip_OperatorImage p))"
    "\<not> ContainsAny name dangerousShellChars" "\<not> ContainsAny token dangerousShellChars"
  shows "shell_words (buildInstallCommand table name token p) = Some (install_words (quote_body table) name token p)"
proof -
  have fixed: "list_all (\<lambda>s. s \<noteq> [] \<and> list_all plain_char s) [''helm'', ''upgrade'', ''--install'', ''kubesentry'', ''charts/kubesentry'']"
    "list_all (\<lambda>s. s \<noteq> [] \<and> list_all plain_char s) [''--namespace'', ''--create-namespace'']" by code_simp+
  then have ns: "list_all (\<lambda>s. s \<noteq> [] \<and> list_all plain_char s) [''--namespace'', ip_Namespace p, ''--create-namespace'']"
    using assms(2,3) by simp
  have vals: "list_all plain_word [im_PullPolicy (ip_WebhookImage p), im_PullPolicy (ip_OperatorImage p)]"
    using assms(4,5) by (simp add: plain_word_def)
  show ?thesis
    unfolding shell_words_def command_parts
    using assms(1,6,7) vals install_keys_plain
    by (simp only: install_fields_def list.pred_inject prod.case read_spaced [OF fixed(1)] read_spaced [OF ns] read_blank append_Cons append_Nil
        read_option_quoted read_option_plain append_assoc read_end not_False_eq_True split: if_split)
      (simp add: install_words_def)
qed

definition printable :: "string \<Rightarrow> bool" where
  "printable s \<longleftrightarrow> list_all (\<lambda>c. 0x20 \<le> byte c \<and> byte c < 0x7F) s"

lemma install_words_cong:
  assumes "list_all (\<lambda>(k, v). enc v = v) (install_fields p)" "enc name = name" "enc token = token"
  shows "install_words enc name token p = install_words id name token p"
  using assms by (simp add: install_words_def install_fields_def)

text \<open>C11: The install command carries its parameters and nothing else. For every accepted set of parameters, a POSIX
  shell reads the command as one command whose words are the intended ones: no parameter ends a word early,
  starts another command or is expanded. A parameter of printable ASCII characters arrives unchanged, any
  other in the escaped form of \<open>%q\<close>.\<close>

theorem install_command_words:
  assumes "validateInstallParams env p = None" "ie_dns1123 env name = []" "dns_names env"
    "set (ie_visit env (install_fields p)) = set (install_fields p)" "set token \<subseteq> set ''0123456789abcdef''"
  shows "shell_words (buildInstallCommand (ie_print env) name token p) = Some (install_words (quote_body (ie_print env)) name token p) \<and>
    (list_all (\<lambda>(k, v). printable v) (install_fields p) \<longrightarrow>
      shell_words (buildInstallCommand (ie_print env) name token p) = Some (install_words id name token p))"
proof -
  have "set ''0123456789abcdef'' \<subseteq> set dns_alphabet" by simp
  then have "set token \<subseteq> set dns_alphabet" using assms(5) by blast
  note token = alphabet_plain [OF this]
  note name = dns_plain [OF assms(3,2)] and v = validated [OF assms(1,4)]
  have words: "shell_words (buildInstallCommand (ie_print env) name token p) = Some (install_words (quote_body (ie_print env)) name token p)"
    using read_command [OF v(4) dns_plain(1,2) [OF assms(3) v(1)] v(2,3) name(3) token(2)] .
  moreover have "install_words (quote_body (ie_print env)) name token p = install_words id name token p"
    if "list_all (\<lambda>(k, v). printable v) (install_fields p)"
  proof (rule install_words_cong)
    show "list_all (\<lambda>(k, v). quote_body (ie_print env) v = v) (install_fields p)"
      using that v(4) quote_body_printable unfolding list_all_iff printable_def by fastforce
  qed (simp_all add: quote_body_printable name(3,4) token(2,3))
  ultimately show ?thesis by simp
qed

text \<open>A line break passes the validation and does not survive the quoting.\<close>

lemma newline_not_delivered: "\<not> ContainsAny [newline] dangerousShellChars" "shell_words (Quote table [newline]) = Some [[backslash, CHR ''n'']]"
  by (simp_all add: ContainsAny_def dangerousShellChars_def shell_words_def Quote_def quote_body.simps [of table "[newline]"] quote_body.simps [of table "[]"]
      decode_rune.simps rune_error_def escape_rune_def IsPrint_def short_escapes_def)

section \<open>Witness\<close>

definition ex_install :: ClusterInstallInput where
  "ex_install = \<lparr>ip_Namespace = ''kubesentry'', ip_WebhookImage = \<lparr>im_Repository = ''reg/web hook'', im_Tag = ''v1;reboot'', im_PullPolicy = ''Always''\<rparr>,
     ip_OperatorImage = \<lparr>im_Repository = ''reg/operator'', im_Tag = ''v1'', im_PullPolicy = ''Never''\<rparr>, ip_HighAvailability = False,
     ip_GatewayAddress = ''gw:443'', ip_GatewayTLSServerName = '''', ip_GatewayCABundle = ''''\<rparr>"

definition ex_install_env :: install_env where
  "ex_install_env = \<lparr>ie_dns1123 = (\<lambda>s. if s \<noteq> [] \<and> set s \<subseteq> set dns_alphabet then [] else [''bad name'']), ie_visit = rev, ie_print = (\<lambda>_. True)\<rparr>"

theorem install_command_words_witness:
  "shell_words (buildInstallCommand (ie_print ex_install_env) ''c1'' ''0af3'' ex_install) = Some (install_words id ''c1'' ''0af3'' ex_install)"
proof -
  have "dns_names ex_install_env" by (simp add: dns_names_def ex_install_env_def)
  moreover have "set (ie_visit ex_install_env (install_fields ex_install)) = set (install_fields ex_install)" by (simp add: ex_install_env_def)
  moreover have "validateInstallParams ex_install_env ex_install = None" "ie_dns1123 ex_install_env ''c1'' = []" by code_simp+
  moreover have "list_all (\<lambda>(k, v). printable v) (install_fields ex_install)" by code_simp
  moreover have "set ''0af3'' \<subseteq> set ''0123456789abcdef''" by simp
  ultimately show ?thesis using install_command_words [THEN conjunct2, THEN mp] by blast
qed

end
