(* ===== verification/Cluster_Lifecycle.thy ===== *)
theory Cluster_Lifecycle
  imports Gateway_Status Identity_Store Install_Command
begin

text \<open>
  The life of a member cluster: created in the console with a one-time registration token, registered at the
  gateway, uninstalled by a durable task and removed. The console side is
  \<^verbatim>\<open>internal/console/service/cluster.go\<close>, the tasks are \<^verbatim>\<open>internal/database/repository/uninstall_task_repo.go\<close> with the
  schema's index of one unfinished task per cluster, the gateway side is \<^verbatim>\<open>Register\<close>, \<^verbatim>\<open>validateSyncAuth\<close> and
  \<^verbatim>\<open>handleUninstallTaskReport\<close> of \<^verbatim>\<open>internal/gateway/server.go\<close>. Tables hold the live rows. A transaction changes the
  database only when every call of it succeeds.
\<close>

section \<open>Uninstall tasks\<close>

definition UninstallTaskPending :: string where "UninstallTaskPending = ''Pending''"
definition UninstallTaskReceived :: string where "UninstallTaskReceived = ''Received''"
definition UninstallTaskRunning :: string where "UninstallTaskRunning = ''Running''"
definition UninstallTaskSucceeded :: string where "UninstallTaskSucceeded = ''Succeeded''"
definition UninstallTaskFailed :: string where "UninstallTaskFailed = ''Failed''"

lemmas task_defs = UninstallTaskPending_def UninstallTaskReceived_def UninstallTaskRunning_def UninstallTaskSucceeded_def UninstallTaskFailed_def

record uninstall_task =
  tk_ID :: int
  tk_ClusterID :: int
  tk_Status :: string
  tk_RequestedAt :: time
  tk_ReceivedAt :: "time option"
  tk_CompletedAt :: "time option"
  tk_Error :: string
  tk_Attempts :: int
  tk_CreatedAt :: time

record ClusterInstallRecord =
  rec_ClusterName :: string
  rec_Namespace :: string
  rec_WebhookRepository :: string
  rec_WebhookTag :: string
  rec_WebhookPullPolicy :: string
  rec_OperatorRepository :: string
  rec_OperatorTag :: string
  rec_OperatorPullPolicy :: string
  rec_HighAvailability :: bool
  rec_GatewayAddress :: string
  rec_GatewayTLSServerName :: string
  rec_GatewayCABundle :: string
  rec_CreatedAt :: time

record lifecycle_db =
  lc_clusters :: cluster_table
  lc_tasks :: "uninstall_task list"
  lc_records :: "ClusterInstallRecord list"
  lc_next :: int

definition active_task :: "uninstall_task \<Rightarrow> bool" where
  "active_task t \<longleftrightarrow> tk_Status t \<in> set [UninstallTaskPending, UninstallTaskReceived, UninstallTaskRunning]"

text \<open>The partial unique index of the schema, checked by every write to the table.\<close>

definition one_active :: "uninstall_task list \<Rightarrow> bool" where
  "one_active tasks \<longleftrightarrow> distinct (map tk_ClusterID (filter active_task tasks))"

definition write_tasks :: "uninstall_task list \<Rightarrow> lifecycle_db \<Rightarrow> service_error + lifecycle_db" where
  "write_tasks tasks db = (if one_active tasks then Inr (db\<lparr>lc_tasks := tasks\<rparr>) else Inl ErrUniqueViolation)"

definition CreateTask :: "id_env \<Rightarrow> uninstall_task \<Rightarrow> lifecycle_db \<Rightarrow> service_error + uninstall_task \<times> lifecycle_db" where
  "CreateTask env task db =
    (let t1 = (if tk_RequestedAt task = 0 then task\<lparr>tk_RequestedAt := en_now env\<rparr> else task);
         t2 = (if tk_Status t1 = '''' then t1\<lparr>tk_Status := UninstallTaskPending\<rparr> else t1);
         t3 = (if tk_Attempts t2 = 0 then t2\<lparr>tk_Attempts := 1\<rparr> else t2);
         t4 = t3\<lparr>tk_ID := lc_next db, tk_CreatedAt := en_now env\<rparr>
     in storage env ''UninstallTasks.Create'' (case write_tasks (lc_tasks db @ [t4]) (db\<lparr>lc_next := lc_next db + 1\<rparr>) of
          Inl err \<Rightarrow> Inl err | Inr db' \<Rightarrow> Inr (t4, db')))"

definition GetTask :: "id_env \<Rightarrow> int \<Rightarrow> lifecycle_db \<Rightarrow> service_error + uninstall_task" where
  "GetTask env i db = storage env ''UninstallTasks.GetByID'' (first_row (\<lambda>t. tk_ID t = i) (lc_tasks db))"

definition HasActive :: "id_env \<Rightarrow> int \<Rightarrow> lifecycle_db \<Rightarrow> service_error + bool" where
  "HasActive env clusterID db = storage env ''UninstallTasks.HasActive''
     (Inr (list_ex (\<lambda>t. tk_ClusterID t = clusterID \<and> active_task t) (lc_tasks db)))"

definition ListActiveByClusterID :: "id_env \<Rightarrow> int \<Rightarrow> lifecycle_db \<Rightarrow> service_error + uninstall_task list" where
  "ListActiveByClusterID env clusterID db = storage env ''UninstallTasks.ListActive''
     (Inr (order_by tk_CreatedAt False (filter (\<lambda>t. tk_ClusterID t = clusterID \<and> active_task t) (lc_tasks db))))"

definition transition_fields :: "string \<Rightarrow> string \<Rightarrow> time \<Rightarrow> uninstall_task \<Rightarrow> uninstall_task" where
  "transition_fields next message at t =
    (let t1 = t\<lparr>tk_Status := next, tk_Error := message\<rparr>;
         t2 = (if next = UninstallTaskReceived then t1\<lparr>tk_ReceivedAt := Some at\<rparr> else t1)
     in if next = UninstallTaskSucceeded \<or> next = UninstallTaskFailed then t2\<lparr>tk_CompletedAt := Some at\<rparr> else t2)"

definition Transition :: "id_env \<Rightarrow> int \<Rightarrow> string \<Rightarrow> string \<Rightarrow> string \<Rightarrow> time \<Rightarrow> lifecycle_db \<Rightarrow> service_error + lifecycle_db" where
  "Transition env i expected next message at db = storage env ''UninstallTasks.Transition''
    (if \<not> list_ex (\<lambda>t. tk_ID t = i \<and> tk_Status t = expected) (lc_tasks db) then Inl ErrConflict
     else write_tasks (update_where (\<lambda>t. tk_ID t = i \<and> tk_Status t = expected) (transition_fields next message at) (lc_tasks db)) db)"

definition retried :: "time \<Rightarrow> uninstall_task \<Rightarrow> uninstall_task" where
  "retried at t = t\<lparr>tk_Status := UninstallTaskPending, tk_Error := '''', tk_RequestedAt := at, tk_ReceivedAt := None, tk_CompletedAt := None,
     tk_Attempts := tk_Attempts t + 1\<rparr>"

definition RetryTask :: "id_env \<Rightarrow> int \<Rightarrow> time \<Rightarrow> lifecycle_db \<Rightarrow> service_error + lifecycle_db" where
  "RetryTask env i at db = storage env ''UninstallTasks.Retry''
    (if \<not> list_ex (\<lambda>t. tk_ID t = i \<and> tk_Status t = UninstallTaskFailed) (lc_tasks db) then Inl ErrConflict
     else write_tasks (update_where (\<lambda>t. tk_ID t = i \<and> tk_Status t = UninstallTaskFailed) (retried at) (lc_tasks db)) db)"

section \<open>The console's operations on clusters\<close>

definition on_clusters :: "(cluster_table \<Rightarrow> cluster_table) \<Rightarrow> lifecycle_db \<Rightarrow> lifecycle_db" where
  "on_clusters f db = db\<lparr>lc_clusters := f (lc_clusters db)\<rparr>"

definition GetByName :: "id_env \<Rightarrow> string \<Rightarrow> lifecycle_db \<Rightarrow> service_error + cluster_row" where
  "GetByName env name db = storage env ''Clusters.GetByName'' (first_row (\<lambda>c. cr_Name c = name) (lc_clusters db))"

definition GetByNameForTenant :: "id_env \<Rightarrow> int \<Rightarrow> string \<Rightarrow> lifecycle_db \<Rightarrow> service_error + cluster_row" where
  "GetByNameForTenant env tenantID name db = storage env ''Clusters.GetByNameForTenant''
     (first_row (\<lambda>c. cr_TenantID c = Some tenantID \<and> cr_Name c = name) (lc_clusters db))"

definition clusterForActor :: "id_env \<Rightarrow> Principal option \<Rightarrow> string \<Rightarrow> lifecycle_db \<Rightarrow> service_error + cluster_row" where
  "clusterForActor env ctx name db =
    (let principal = requestPrincipal ctx
     in if pr_Role principal = RoleSystemAdmin then GetByName env name db
        else case pr_TenantID principal of None \<Rightarrow> Inl ErrRecordNotFound
          | Some tenantID \<Rightarrow> GetByNameForTenant env tenantID name db)"

text \<open>The prologue most operations share: only a system administrator, and the cluster must exist.\<close>

definition admin_cluster :: "id_env \<Rightarrow> Principal option \<Rightarrow> string \<Rightarrow> lifecycle_db \<Rightarrow> service_error + cluster_row" where
  "admin_cluster env ctx name db = (case requireSystemAdmin ctx of
      Some err \<Rightarrow> Inl err
    | None \<Rightarrow> (case GetByName env name db of
        Inl err \<Rightarrow> Inl (if err = ErrRecordNotFound then ErrNotFound else err)
      | Inr c \<Rightarrow> Inr c))"

definition new_cluster :: "int \<Rightarrow> string \<Rightarrow> labels \<Rightarrow> string \<Rightarrow> cluster_row" where
  "new_cluster i name ls regTokenHash = \<lparr>cr_ID = i, cr_TenantID = None, cr_Name = name, cr_ClusterUID = '''', cr_Labels = ls,
     cr_Phase = ClusterPhaseRegistering, cr_OperatorVersion = '''', cr_KubernetesVersion = '''', cr_APIServerAddress = '''',
     cr_NodeCount = 0, cr_ReadyNodeCount = 0, cr_LastHeartbeatAt = None, cr_ObservabilityOnboardedAt = None,
     cr_RegTokenHash = regTokenHash, cr_AuthTokenHash = ''''\<rparr>"

definition installRecord :: "time \<Rightarrow> string \<Rightarrow> ClusterInstallInput \<Rightarrow> ClusterInstallRecord" where
  "installRecord now clusterName p = \<lparr>rec_ClusterName = clusterName, rec_Namespace = ip_Namespace p,
     rec_WebhookRepository = im_Repository (ip_WebhookImage p), rec_WebhookTag = im_Tag (ip_WebhookImage p),
     rec_WebhookPullPolicy = im_PullPolicy (ip_WebhookImage p), rec_OperatorRepository = im_Repository (ip_OperatorImage p),
     rec_OperatorTag = im_Tag (ip_OperatorImage p), rec_OperatorPullPolicy = im_PullPolicy (ip_OperatorImage p),
     rec_HighAvailability = ip_HighAvailability p, rec_GatewayAddress = ip_GatewayAddress p,
     rec_GatewayTLSServerName = ip_GatewayTLSServerName p, rec_GatewayCABundle = ip_GatewayCABundle p, rec_CreatedAt = now\<rparr>"

definition CreateCluster ::
  "id_env \<Rightarrow> install_env \<Rightarrow> Principal option \<Rightarrow> string \<Rightarrow> labels \<Rightarrow> ClusterInstallInput \<Rightarrow> lifecycle_db \<Rightarrow> service_error + string \<times> lifecycle_db" where
  "CreateCluster env ienv ctx name ls p db = (case requireSystemAdmin ctx of
      Some err \<Rightarrow> Inl err
    | None \<Rightarrow>
        (let errs = ie_dns1123 ienv name in if errs \<noteq> [] then Inl (ValidationError (''invalid name: '' @ Join errs ''; ''))
         else (case validateInstallParams ienv p of
           Some err \<Rightarrow> Inl err
         | None \<Rightarrow> (case en_token env of
             Inl err \<Rightarrow> Inl (StorageError err)
           | Inr token \<Rightarrow>
               storage env ''Clusters.Create''
                 (if list_ex (\<lambda>c. cr_Name c = name) (lc_clusters db) then Inl (ConflictError (''cluster '' @ name @ '' already exists''))
                  else storage env ''InstallRecords.Create'' (storage env ''commit''
                    (Inr (buildInstallCommand (ie_print ienv) name token p,
                       db\<lparr>lc_clusters := lc_clusters db @ [new_cluster (lc_next db) name ls (en_sha env token)],
                          lc_records := lc_records db @ [installRecord (en_now env) name p], lc_next := lc_next db + 1\<rparr>))))))))"

definition UpdateClusterLabels :: "id_env \<Rightarrow> Principal option \<Rightarrow> string \<Rightarrow> labels \<Rightarrow> lifecycle_db \<Rightarrow> service_error + lifecycle_db" where
  "UpdateClusterLabels env ctx name ls db = (case admin_cluster env ctx name db of
      Inl err \<Rightarrow> Inl err
    | Inr c \<Rightarrow> storage env ''Clusters.UpdateLabels'' (Inr (on_clusters (UpdateLabels (cr_ID c) ls) db)))"

definition DeleteCluster :: "id_env \<Rightarrow> Principal option \<Rightarrow> string \<Rightarrow> lifecycle_db \<Rightarrow> service_error + lifecycle_db" where
  "DeleteCluster env ctx name db = (case admin_cluster env ctx name db of
      Inl err \<Rightarrow> Inl err
    | Inr c \<Rightarrow>
        if cr_Phase c = ClusterPhaseOnline \<or> cr_Phase c = ClusterPhaseUninstalling
        then Inl (ConflictError ''online or uninstalling cluster cannot be deleted from here'')
        else storage env ''Clusters.Delete'' (Inr (on_clusters (filter (\<lambda>r. cr_ID r \<noteq> cr_ID c)) db)))"

definition ReissueToken ::
  "id_env \<Rightarrow> install_env \<Rightarrow> Principal option \<Rightarrow> string \<Rightarrow> ClusterInstallInput \<Rightarrow> lifecycle_db \<Rightarrow> service_error + string \<times> lifecycle_db" where
  "ReissueToken env ienv ctx name p db = (case requireSystemAdmin ctx of
      Some err \<Rightarrow> Inl err
    | None \<Rightarrow> (case validateInstallParams ienv p of
        Some err \<Rightarrow> Inl err
      | None \<Rightarrow> (case admin_cluster env ctx name db of
          Inl err \<Rightarrow> Inl err
        | Inr c \<Rightarrow>
            if cr_Phase c \<noteq> ClusterPhaseRegistering then Inl (ConflictError ''token can only be reissued while the cluster is Registering'')
            else (case en_token env of
              Inl err \<Rightarrow> Inl (StorageError err)
            | Inr token \<Rightarrow>
                storage env ''Clusters.UpdateRegToken'' (storage env ''InstallRecords.Create'' (storage env ''commit''
                  (Inr (buildInstallCommand (ie_print ienv) (cr_Name c) token p,
                    (on_clusters (UpdateRegToken (cr_ID c) (en_sha env token)) db)\<lparr>lc_records := lc_records db @ [installRecord (en_now env) (cr_Name c) p]\<rparr>))))))))"

definition CreateUninstall :: "id_env \<Rightarrow> Principal option \<Rightarrow> string \<Rightarrow> lifecycle_db \<Rightarrow> service_error + uninstall_task \<times> lifecycle_db" where
  "CreateUninstall env ctx name db = (case admin_cluster env ctx name db of
      Inl err \<Rightarrow> Inl err
    | Inr c \<Rightarrow>
        if cr_Phase c \<noteq> ClusterPhaseOnline then Inl (ConflictError ''only an online cluster can be uninstalled'')
        else (case HasActive env (cr_ID c) db of
          Inl err \<Rightarrow> Inl err
        | Inr active \<Rightarrow>
            if active then Inl (ConflictError ''cluster already has an active uninstall task'')
            else (case CreateTask env \<lparr>tk_ID = 0, tk_ClusterID = cr_ID c, tk_Status = '''', tk_RequestedAt = 0, tk_ReceivedAt = None,
                tk_CompletedAt = None, tk_Error = '''', tk_Attempts = 0, tk_CreatedAt = 0\<rparr> db of
              Inl err \<Rightarrow> Inl err
            | Inr (task, db') \<Rightarrow> storage env ''Clusters.UpdatePhase'' (storage env ''commit''
                (Inr (task, on_clusters (UpdatePhase (cr_ID c) ClusterPhaseUninstalling) db'))))))"

definition RetryUninstall :: "id_env \<Rightarrow> Principal option \<Rightarrow> string \<Rightarrow> int \<Rightarrow> lifecycle_db \<Rightarrow> service_error + lifecycle_db" where
  "RetryUninstall env ctx name taskID db = (case admin_cluster env ctx name db of
      Inl err \<Rightarrow> Inl err
    | Inr c \<Rightarrow> (case GetTask env taskID db of
        Inl err \<Rightarrow> Inl ErrNotFound
      | Inr task \<Rightarrow>
          if tk_ClusterID task \<noteq> cr_ID c then Inl ErrNotFound
          else (case RetryTask env taskID (en_now env) db of
            Inl err \<Rightarrow> Inl (if err = ErrConflict then ConflictError ''only a failed uninstall task can be retried'' else err)
          | Inr db' \<Rightarrow> storage env ''Clusters.UpdatePhase'' (storage env ''commit''
              (Inr (on_clusters (UpdatePhase (cr_ID c) ClusterPhaseUninstalling) db'))))))"

text \<open>\<open>tenants\<close> are the tenants the identity tables know.\<close>

definition AssignClusterTenant :: "id_env \<Rightarrow> int list \<Rightarrow> Principal option \<Rightarrow> string \<Rightarrow> int option \<Rightarrow> lifecycle_db \<Rightarrow> service_error + lifecycle_db" where
  "AssignClusterTenant env tenants ctx name tenantID db = (case admin_cluster env ctx name db of
      Inl err \<Rightarrow> Inl err
    | Inr c \<Rightarrow>
        if (case tenantID of None \<Rightarrow> False | Some i \<Rightarrow> i \<notin> set tenants \<or> en_fail env ''GetTenant'' \<noteq> None) then Inl ErrNotFound
        else storage env ''Clusters.AssignTenant'' (Inr (on_clusters (AssignTenant (cr_ID c) tenantID) db)))"

section \<open>Registration at the gateway\<close>

datatype rpc_error = InvalidArgument | NotFound | FailedPrecondition | PermissionDenied | AlreadyExists string | Internal

record RegisterRequest =
  rq_ClusterName :: string
  rq_RegistrationToken :: string
  rq_ClusterUid :: string
  rq_OperatorVersion :: string

text \<open>\<open>Register\<close> reads the row, checks the token against its hash and the UID against every other row, and then saves
  the whole row it read. The two halves are separate so that other writes can come between them.\<close>

definition register_check :: "id_env \<Rightarrow> RegisterRequest \<Rightarrow> lifecycle_db \<Rightarrow> rpc_error + cluster_row" where
  "register_check env req db =
    (if rq_ClusterName req = '''' \<or> rq_RegistrationToken req = '''' \<or> rq_ClusterUid req = '''' then Inl InvalidArgument
     else (case GetByName env (rq_ClusterName req) db of
       Inl err \<Rightarrow> Inl (if err = ErrRecordNotFound then NotFound else Internal)
     | Inr cl \<Rightarrow>
         if cr_Phase cl = ClusterPhaseUninstalling \<or> cr_Phase cl = ClusterPhaseUninstalled then Inl FailedPrecondition
         else if cr_RegTokenHash cl \<noteq> en_sha env (rq_RegistrationToken req) then Inl PermissionDenied
         else if en_fail env ''Clusters.List'' \<noteq> None then Inl Internal
         else (case find (\<lambda>other. cr_Name other \<noteq> rq_ClusterName req \<and> cr_ClusterUID other = rq_ClusterUid req) (lc_clusters db) of
           Some other \<Rightarrow> Inl (AlreadyExists (cr_Name other))
         | None \<Rightarrow>
             if cr_ClusterUID cl \<noteq> '''' \<and> cr_ClusterUID cl \<noteq> rq_ClusterUid req then Inl PermissionDenied else Inr cl)))"

definition registered_row :: "id_env \<Rightarrow> string \<Rightarrow> RegisterRequest \<Rightarrow> cluster_row \<Rightarrow> cluster_row" where
  "registered_row env token req cl =
    (let c1 = cl\<lparr>cr_AuthTokenHash := en_sha env token, cr_ClusterUID := rq_ClusterUid req, cr_OperatorVersion := rq_OperatorVersion req\<rparr>;
         c2 = (if cr_Phase c1 = '''' \<or> cr_Phase c1 = ClusterPhaseRegistering then c1\<lparr>cr_Phase := ClusterPhaseRegistering\<rparr> else c1)
     in c2\<lparr>cr_RegTokenHash := ''''\<rparr>)"

definition SaveCluster :: "cluster_row \<Rightarrow> cluster_table \<Rightarrow> cluster_table" where
  "SaveCluster cl t = update_row (cr_ID cl) (\<lambda>_. cl) t"

definition register_save :: "id_env \<Rightarrow> RegisterRequest \<Rightarrow> cluster_row \<Rightarrow> lifecycle_db \<Rightarrow> rpc_error + string \<times> lifecycle_db" where
  "register_save env req cl db = (case en_token env of
      Inl err \<Rightarrow> Inl Internal
    | Inr token \<Rightarrow>
        if en_fail env ''Clusters.Update'' \<noteq> None then Inl Internal
        else Inr (token, on_clusters (SaveCluster (registered_row env token req cl)) db))"

definition Register :: "id_env \<Rightarrow> RegisterRequest \<Rightarrow> lifecycle_db \<Rightarrow> rpc_error + string \<times> lifecycle_db" where
  "Register env req db = (case register_check env req db of Inl err \<Rightarrow> Inl err | Inr cl \<Rightarrow> register_save env req cl db)"

definition validateSyncAuth :: "id_env \<Rightarrow> string \<Rightarrow> string \<Rightarrow> lifecycle_db \<Rightarrow> string option" where
  "validateSyncAuth env clusterName token db = (case GetByName env clusterName db of
      Inl err \<Rightarrow> Some ''cluster not registered''
    | Inr cl \<Rightarrow> if cr_AuthTokenHash cl \<noteq> en_sha env token then Some ''invalid cluster token'' else None)"

section \<open>Reports about uninstall tasks\<close>

datatype report_state = RECEIVED | SUCCEEDED | FAILED | UNSPECIFIED

record UninstallTaskReport =
  ur_TaskId :: int
  ur_State :: report_state
  ur_Error :: string

fun report_edge :: "report_state \<Rightarrow> (string \<times> string) option" where
  "report_edge RECEIVED = Some (UninstallTaskPending, UninstallTaskReceived)"
| "report_edge SUCCEEDED = Some (UninstallTaskReceived, UninstallTaskSucceeded)"
| "report_edge FAILED = Some (UninstallTaskReceived, UninstallTaskFailed)"
| "report_edge UNSPECIFIED = None"

definition report_phase :: "id_env \<Rightarrow> int \<Rightarrow> string \<Rightarrow> lifecycle_db \<Rightarrow> lifecycle_db" where
  "report_phase env clusterID next db =
    (if en_fail env ''Clusters.UpdatePhase'' \<noteq> None then db
     else if next = UninstallTaskSucceeded then on_clusters (UpdatePhase clusterID ClusterPhaseUninstalled) db
     else if next = UninstallTaskFailed then on_clusters (UpdatePhase clusterID ClusterPhaseOnline) db
     else db)"

definition handleUninstallTaskReport :: "id_env \<Rightarrow> string \<Rightarrow> UninstallTaskReport \<Rightarrow> lifecycle_db \<Rightarrow> lifecycle_db \<times> bool" where
  "handleUninstallTaskReport env clusterName report db =
    (if ur_TaskId report = 0 then (db, False)
     else (case GetByName env clusterName db of
       Inl err \<Rightarrow> (db, False)
     | Inr cluster \<Rightarrow> (case GetTask env (ur_TaskId report) db of
         Inl err \<Rightarrow> (db, False)
       | Inr task \<Rightarrow>
           if tk_ClusterID task \<noteq> cr_ID cluster then (db, False)
           else (case report_edge (ur_State report) of
             None \<Rightarrow> (db, False)
           | Some (expected, next) \<Rightarrow>
               (case Transition env (tk_ID task) expected next (ur_Error report) (en_now env) db of
                  Inl err \<Rightarrow> (db, False)
                | Inr db' \<Rightarrow> (report_phase env (cr_ID cluster) next db', True))))))"

end
