(* ===== verification/Lifecycle_Guarantees.thy ===== *)
theory Lifecycle_Guarantees
  imports Cluster_Lifecycle
begin

text \<open>
  What holds over any sequence of operations on clusters: console requests, registrations, task reports and
  heartbeat flushes, each with calls that may fail. Every operation is one of a few writes to the tables
  (\<open>lifecycle_write\<close>); the invariants are proved for the writes.
\<close>

section \<open>Runs\<close>

datatype lifecycle_op =
    OpCreate install_env "Principal option" string labels ClusterInstallInput
  | OpLabels "Principal option" string labels
  | OpDelete "Principal option" string
  | OpReissue install_env "Principal option" string ClusterInstallInput
  | OpUninstall "Principal option" string
  | OpRetry "Principal option" string int
  | OpAssign "int list" "Principal option" string "int option"
  | OpRegister RegisterRequest
  | OpReport string UninstallTaskReport
  | OpFlush "int \<Rightarrow> bool" "int \<Rightarrow> bool" duration HeartbeatTracker

definition keep :: "lifecycle_db \<Rightarrow> 'e + 'a \<Rightarrow> ('a \<Rightarrow> lifecycle_db) \<Rightarrow> lifecycle_db" where
  "keep db r f = (case r of Inl _ \<Rightarrow> db | Inr x \<Rightarrow> f x)"

fun lifecycle_step :: "lifecycle_db \<Rightarrow> id_env \<times> lifecycle_op \<Rightarrow> lifecycle_db" where
  "lifecycle_step db (env, OpCreate ienv ctx name ls p) = keep db (CreateCluster env ienv ctx name ls p db) snd"
| "lifecycle_step db (env, OpLabels ctx name ls) = keep db (UpdateClusterLabels env ctx name ls db) id"
| "lifecycle_step db (env, OpDelete ctx name) = keep db (DeleteCluster env ctx name db) id"
| "lifecycle_step db (env, OpReissue ienv ctx name p) = keep db (ReissueToken env ienv ctx name p db) snd"
| "lifecycle_step db (env, OpUninstall ctx name) = keep db (CreateUninstall env ctx name db) snd"
| "lifecycle_step db (env, OpRetry ctx name taskID) = keep db (RetryUninstall env ctx name taskID db) id"
| "lifecycle_step db (env, OpAssign tenants ctx name tenantID) = keep db (AssignClusterTenant env tenants ctx name tenantID db) id"
| "lifecycle_step db (env, OpRegister req) = keep db (Register env req db) snd"
| "lifecycle_step db (env, OpReport clusterName report) = fst (handleUninstallTaskReport env clusterName report db)"
| "lifecycle_step db (env, OpFlush hb_ok inv_ok offlineAfter snap) =
     on_clusters (\<lambda>t. fst (flushOnce hb_ok inv_ok (en_now env) offlineAfter snap t t)) db"

section \<open>The writes\<close>

text \<open>A write to columns outside the uninstall: the row keeps its identity and credential, its registration token
  is kept or replaced by a fresh one, and the uninstall phases are neither entered nor left.\<close>

definition column_write :: "id_env \<Rightarrow> cluster_row \<Rightarrow> cluster_row \<Rightarrow> bool" where
  "column_write env r r' \<longleftrightarrow> cr_ID r' = cr_ID r \<and> cr_Name r' = cr_Name r \<and> cr_ClusterUID r' = cr_ClusterUID r \<and>
     cr_AuthTokenHash r' = cr_AuthTokenHash r \<and> (cr_RegTokenHash r' = cr_RegTokenHash r \<or> (\<exists>token. en_token env = Inr token \<and> cr_RegTokenHash r' = en_sha env token)) \<and>
     (if uninstall_owned r then cr_Phase r' = cr_Phase r else \<not> uninstall_owned r')"

definition new_task :: "id_env \<Rightarrow> int \<Rightarrow> int \<Rightarrow> uninstall_task" where
  "new_task env i clusterID = \<lparr>tk_ID = i, tk_ClusterID = clusterID, tk_Status = UninstallTaskPending, tk_RequestedAt = en_now env, tk_ReceivedAt = None,
     tk_CompletedAt = None, tk_Error = '''', tk_Attempts = 1, tk_CreatedAt = en_now env\<rparr>"

inductive lifecycle_write :: "id_env \<Rightarrow> lifecycle_db \<Rightarrow> lifecycle_db \<Rightarrow> bool" for env db where
  unchanged: "lifecycle_write env db db"
| created: "\<forall>c \<in> set (lc_clusters db). cr_Name c \<noteq> name \<Longrightarrow> en_token env = Inr token \<Longrightarrow>
    lifecycle_write env db (db\<lparr>lc_clusters := lc_clusters db @ [new_cluster (lc_next db) name ls (en_sha env token)],
      lc_records := rs, lc_next := lc_next db + 1\<rparr>)"
| columns: "list_all2 (column_write env) (lc_clusters db) t \<Longrightarrow> lifecycle_write env db (db\<lparr>lc_clusters := t, lc_records := rs\<rparr>)"
| deleted: "c \<in> set (lc_clusters db) \<Longrightarrow> cr_Phase c \<noteq> ClusterPhaseUninstalling \<Longrightarrow>
    lifecycle_write env db (on_clusters (filter (\<lambda>r. cr_ID r \<noteq> cr_ID c)) db)"
| started: "c \<in> set (lc_clusters db) \<Longrightarrow> cr_Phase c = ClusterPhaseOnline \<Longrightarrow> one_active (lc_tasks db @ [new_task env (lc_next db) (cr_ID c)]) \<Longrightarrow>
    lifecycle_write env db (on_clusters (UpdatePhase (cr_ID c) ClusterPhaseUninstalling)
      (db\<lparr>lc_next := lc_next db + 1, lc_tasks := lc_tasks db @ [new_task env (lc_next db) (cr_ID c)]\<rparr>))"
| requeued: "c \<in> set (lc_clusters db) \<Longrightarrow> task \<in> set (lc_tasks db) \<Longrightarrow> tk_Status task = UninstallTaskFailed \<Longrightarrow> tk_ClusterID task = cr_ID c \<Longrightarrow>
    tasks = update_where (\<lambda>t. tk_ID t = tk_ID task \<and> tk_Status t = UninstallTaskFailed) (retried (en_now env)) (lc_tasks db) \<Longrightarrow> one_active tasks \<Longrightarrow>
    lifecycle_write env db (on_clusters (UpdatePhase (cr_ID c) ClusterPhaseUninstalling) (db\<lparr>lc_tasks := tasks\<rparr>))"
| registered: "register_check env req db = Inr cl \<Longrightarrow> en_token env = Inr token \<Longrightarrow>
    lifecycle_write env db (on_clusters (SaveCluster (registered_row env token req cl)) db)"
| reported: "c \<in> set (lc_clusters db) \<Longrightarrow> task \<in> set (lc_tasks db) \<Longrightarrow> tk_ClusterID task = cr_ID c \<Longrightarrow> tk_Status task = expected \<Longrightarrow>
    report_edge state = Some (expected, next) \<Longrightarrow>
    tasks = update_where (\<lambda>t. tk_ID t = tk_ID task \<and> tk_Status t = expected) (transition_fields next message (en_now env)) (lc_tasks db) \<Longrightarrow>
    one_active tasks \<Longrightarrow> lifecycle_write env db (report_phase env (cr_ID c) next (db\<lparr>lc_tasks := tasks\<rparr>))"

section \<open>Every operation is one of the writes\<close>

lemma storage_Inr_iff: "storage env call x = Inr y \<longleftrightarrow> en_fail env call = None \<and> x = Inr y"
  by (simp add: storage_def split: option.split)

lemma first_row_found: "first_row P rows = Inr r \<Longrightarrow> r \<in> set rows \<and> P r"
  by (auto simp: first_row_def find_Some_iff split: option.splits)

lemma write_tasks_Inr: "write_tasks tasks db = Inr db' \<longleftrightarrow> one_active tasks \<and> db' = db\<lparr>lc_tasks := tasks\<rparr>"
  by (auto simp: write_tasks_def)

lemma GetByName_Inr: "GetByName env name db = Inr c \<Longrightarrow> c \<in> set (lc_clusters db) \<and> cr_Name c = name"
  by (auto simp: GetByName_def storage_Inr_iff dest!: first_row_found)

lemma GetTask_Inr: "GetTask env i db = Inr t \<Longrightarrow> t \<in> set (lc_tasks db) \<and> tk_ID t = i"
  by (auto simp: GetTask_def storage_Inr_iff dest!: first_row_found)

lemma admin_cluster_Inr: "admin_cluster env ctx name db = Inr c \<Longrightarrow> c \<in> set (lc_clusters db) \<and> cr_Name c = name"
  by (auto simp: admin_cluster_def dest: GetByName_Inr split: option.splits sum.splits)

lemma update_row_columns:
  assumes "\<And>r. column_write env r (f r)"
  shows "list_all2 (column_write env) t (update_row i f t)"
proof -
  have "column_write env r r" for r by (auto simp: column_write_def)
  then show ?thesis using assms by (simp add: update_row_def list_all2_map2 list.rel_refl)
qed

lemma columns_on:
  assumes "\<And>t. list_all2 (column_write env) t (f t)"
  shows "lifecycle_write env db (on_clusters f db)"
  using lifecycle_write.columns [OF assms, of db "lc_records db"] by (simp add: on_clusters_def)

lemma update_write:
  assumes "\<And>r. column_write env r (f r)"
  shows "lifecycle_write env db (on_clusters (update_row i f) db)"
  by (rule columns_on) (rule update_row_columns [OF assms])

lemma phase_words:
  "ClusterPhaseOnline \<noteq> ClusterPhaseUninstalling" "ClusterPhaseOnline \<noteq> ClusterPhaseUninstalled" "ClusterPhaseOffline \<noteq> ClusterPhaseUninstalling"
  "ClusterPhaseOffline \<noteq> ClusterPhaseUninstalled" "ClusterPhaseRegistering \<noteq> ClusterPhaseUninstalling"
  "ClusterPhaseRegistering \<noteq> ClusterPhaseUninstalled" "ClusterPhaseUninstalled \<noteq> ClusterPhaseUninstalling"
  by (simp_all add: ClusterPhaseOnline_def ClusterPhaseOffline_def ClusterPhaseRegistering_def ClusterPhaseUninstalling_def ClusterPhaseUninstalled_def)

lemma flush_columns_phase:
  "\<not> uninstall_owned r \<Longrightarrow> \<not> uninstall_owned (flush_columns hb_ok inv_ok now off snap r r)"
  by (auto simp: flush_columns_def flush_phase_def uninstall_owned_def inventory_columns_def Let_def phase_words split: option.split prod.split)

lemma flush_write:
  assumes "distinct (map cr_ID (lc_clusters db))"
  shows "lifecycle_write env db (on_clusters (\<lambda>t. fst (flushOnce hb_ok inv_ok now off snap t t)) db)"
proof -
  let ?t = "lc_clusters db"
  let ?t' = "fst (flushOnce hb_ok inv_ok now off snap ?t ?t)"
  have rows: "list_all2 heartbeat_columns_only ?t ?t'" by (rule flushOnce_columns)
  have "column_write env (?t ! i) (?t' ! i)" if "i < length ?t" for i
  proof -
    have "heartbeat_columns_only (?t ! i) (?t' ! i)" using rows that by (simp add: list_all2_conv_all_nth)
    moreover have "if uninstall_owned (?t ! i) then ?t' ! i = ?t ! i else \<not> uninstall_owned (?t' ! i)"
      using flushOnce_current(1) [OF assms that, of hb_ok inv_ok now off snap] flush_columns_phase flush_columns_owned by auto
    ultimately show ?thesis
      unfolding column_write_def heartbeat_columns_only_def
      by (cases "?t ! i"; cases "?t' ! i") (simp split: if_splits)
  qed
  then have "list_all2 (column_write env) ?t ?t'" using rows by (simp add: list_all2_conv_all_nth)
  then show ?thesis using lifecycle_write.columns [of env db ?t' "lc_records db"] by (simp add: on_clusters_def)
qed

lemma CreateCluster_write:
  assumes "CreateCluster env ienv ctx name ls p db = Inr (cmd, db')"
  shows "lifecycle_write env db db'"
  using assms by (auto simp: CreateCluster_def Let_def storage_Inr_iff list_ex_iff intro!: lifecycle_write.created split: option.splits if_splits sum.splits)

lemma ReissueToken_write:
  assumes "ReissueToken env ienv ctx name p db = Inr (cmd, db')"
  shows "lifecycle_write env db db'"
proof -
  have "lifecycle_write env db ((on_clusters (UpdateRegToken i (en_sha env token)) db)\<lparr>lc_records := rs\<rparr>)" if "en_token env = Inr token" for i token rs
    using that unfolding on_clusters_def UpdateRegToken_def
    by (auto intro!: lifecycle_write.columns update_row_columns simp: column_write_def uninstall_owned_def)
  then show ?thesis using assms by (auto simp: ReissueToken_def storage_Inr_iff split: option.splits if_splits sum.splits)
qed

lemma column_updates:
  "lifecycle_write env db (on_clusters (UpdateLabels i ls) db)" "lifecycle_write env db (on_clusters (AssignTenant i tenantID) db)"
  unfolding UpdateLabels_def [abs_def] AssignTenant_def [abs_def]
  by (rule update_write; simp add: column_write_def uninstall_owned_def)+

lemma console_update_write:
  "UpdateClusterLabels env ctx name ls db = Inr db' \<Longrightarrow> lifecycle_write env db db'"
  "AssignClusterTenant env tenants ctx name tenantID db = Inr db' \<Longrightarrow> lifecycle_write env db db'"
  by (auto simp: UpdateClusterLabels_def AssignClusterTenant_def storage_Inr_iff column_updates split: sum.splits if_splits)

lemma DeleteCluster_write:
  assumes "DeleteCluster env ctx name db = Inr db'"
  shows "lifecycle_write env db db'"
  using assms by (auto simp: DeleteCluster_def storage_Inr_iff intro!: lifecycle_write.deleted dest!: admin_cluster_Inr split: sum.splits if_splits)

lemma CreateUninstall_write:
  assumes "CreateUninstall env ctx name db = Inr (task, db')"
  shows "lifecycle_write env db db'"
proof -
  obtain c where c: "c \<in> set (lc_clusters db)" "cr_Phase c = ClusterPhaseOnline"
    and t: "one_active (lc_tasks db @ [new_task env (lc_next db) (cr_ID c)])"
    and db': "db' = on_clusters (UpdatePhase (cr_ID c) ClusterPhaseUninstalling)
      (db\<lparr>lc_next := lc_next db + 1, lc_tasks := lc_tasks db @ [new_task env (lc_next db) (cr_ID c)]\<rparr>)"
    using assms
    by (auto simp: CreateUninstall_def CreateTask_def Let_def storage_Inr_iff write_tasks_Inr new_task_def dest!: admin_cluster_Inr split: sum.splits if_splits)
  then show ?thesis using lifecycle_write.started [OF c t] by simp
qed

lemma task_by_id: "distinct (map tk_ID tasks) \<Longrightarrow> t \<in> set tasks \<Longrightarrow> t' \<in> set tasks \<Longrightarrow> tk_ID t = tk_ID t' \<Longrightarrow> t = t'"
  by (auto simp: distinct_map dest: inj_onD)

lemma RetryUninstall_write:
  assumes "RetryUninstall env ctx name taskID db = Inr db'" "distinct (map tk_ID (lc_tasks db))"
  shows "lifecycle_write env db db'"
proof -
  let ?tasks = "update_where (\<lambda>t. tk_ID t = taskID \<and> tk_Status t = UninstallTaskFailed) (retried (en_now env)) (lc_tasks db)"
  obtain c task where c: "c \<in> set (lc_clusters db)" and task: "GetTask env taskID db = Inr task" "tk_ClusterID task = cr_ID c"
    and r: "list_ex (\<lambda>t. tk_ID t = taskID \<and> tk_Status t = UninstallTaskFailed) (lc_tasks db)" and t: "one_active ?tasks"
    and db': "db' = on_clusters (UpdatePhase (cr_ID c) ClusterPhaseUninstalling) (db\<lparr>lc_tasks := ?tasks\<rparr>)"
    using assms(1)
    by (auto simp: RetryUninstall_def RetryTask_def storage_Inr_iff write_tasks_Inr dest!: admin_cluster_Inr split: sum.splits if_splits)
  have "task \<in> set (lc_tasks db)" "tk_ID task = taskID" using GetTask_Inr [OF task(1)] by auto
  moreover from this have "tk_Status task = UninstallTaskFailed" using r task_by_id [OF assms(2)] by (auto simp: list_ex_iff)
  ultimately show ?thesis using lifecycle_write.requeued [OF c _ _ task(2), of ?tasks env] t db' by simp
qed

lemma report_write:
  assumes "distinct (map tk_ID (lc_tasks db))"
  shows "lifecycle_write env db (fst (handleUninstallTaskReport env clusterName report db))"
proof -
  have "lifecycle_write env db (report_phase env (cr_ID c) next (db\<lparr>lc_tasks := tasks\<rparr>))"
    if "GetByName env clusterName db = Inr c" "GetTask env i db = Inr task" "tk_ClusterID task = cr_ID c" "report_edge st = Some (expected, next)"
      "list_ex (\<lambda>t. tk_ID t = tk_ID task \<and> tk_Status t = expected) (lc_tasks db)" "one_active tasks"
      "tasks = update_where (\<lambda>t. tk_ID t = tk_ID task \<and> tk_Status t = expected) (transition_fields next message (en_now env)) (lc_tasks db)"
    for c task i st expected "next" message tasks
  proof -
    have "task \<in> set (lc_tasks db)" using GetTask_Inr [OF that(2)] by simp
    moreover from this have "tk_Status task = expected" using that(5) task_by_id [OF assms] by (auto simp: list_ex_iff)
    ultimately show ?thesis
      using lifecycle_write.reported [of c db task expected st "next" tasks message env] GetByName_Inr [OF that(1)] that(3,4,6,7) by blast
  qed
  then show ?thesis
    by (auto simp: handleUninstallTaskReport_def Transition_def storage_Inr_iff write_tasks_Inr intro: lifecycle_write.unchanged split: sum.split option.split)
qed

lemma Register_write:
  assumes "Register env req db = Inr (token, db')"
  shows "lifecycle_write env db db'"
  using assms by (auto simp: Register_def register_save_def intro: lifecycle_write.registered split: sum.splits if_splits)

lemma lifecycle_step_write:
  assumes "distinct (map cr_ID (lc_clusters db))" "distinct (map tk_ID (lc_tasks db))"
  shows "lifecycle_write env db (lifecycle_step db (env, op))"
proof (cases op)
  case OpFlush
  then show ?thesis by (simp add: flush_write [OF assms(1)])
next
  case OpReport
  then show ?thesis by (simp add: report_write [OF assms(2)])
next
  case OpRetry
  then show ?thesis by (auto simp: keep_def intro: lifecycle_write.unchanged RetryUninstall_write [OF _ assms(2)] split: sum.split)
qed (auto simp: keep_def intro: lifecycle_write.unchanged CreateCluster_write ReissueToken_write console_update_write DeleteCluster_write
    CreateUninstall_write Register_write split: sum.split)

section \<open>The invariant\<close>

definition ids_wf :: "lifecycle_db \<Rightarrow> bool" where
  "ids_wf db \<longleftrightarrow> distinct (map cr_ID (lc_clusters db)) \<and> distinct (map cr_Name (lc_clusters db)) \<and> distinct (map tk_ID (lc_tasks db)) \<and>
     list_all (\<lambda>i. i < lc_next db) (map cr_ID (lc_clusters db) @ map tk_ID (lc_tasks db) @ map tk_ClusterID (lc_tasks db))"

text \<open>The columns of a task fit its status.\<close>

definition task_wf :: "uninstall_task \<Rightarrow> bool" where
  "task_wf t \<longleftrightarrow> tk_Attempts t \<ge> 1 \<and>
     (if tk_Status t = UninstallTaskPending then tk_ReceivedAt t = None \<and> tk_CompletedAt t = None \<and> tk_Error t = ''''
      else if tk_Status t = UninstallTaskReceived then tk_ReceivedAt t \<noteq> None \<and> tk_CompletedAt t = None
      else tk_Status t \<in> {UninstallTaskSucceeded, UninstallTaskFailed} \<and> tk_ReceivedAt t \<noteq> None \<and> tk_CompletedAt t \<noteq> None)"

text \<open>A cluster with an unfinished task is there, in the phase Uninstalling.\<close>

definition active_wf :: "lifecycle_db \<Rightarrow> bool" where
  "active_wf db \<longleftrightarrow> list_all (\<lambda>t. active_task t \<longrightarrow>
     list_ex (\<lambda>c. cr_ID c = tk_ClusterID t \<and> cr_Phase c = ClusterPhaseUninstalling) (lc_clusters db)) (lc_tasks db)"

definition unique_uids :: "(int \<times> string) list \<Rightarrow> bool" where
  "unique_uids ps \<longleftrightarrow> list_all (\<lambda>(i, u). list_all (\<lambda>(i', u'). u = u' \<and> u \<noteq> '''' \<longrightarrow> i = i') ps) ps"

definition uid_wf :: "lifecycle_db \<Rightarrow> bool" where
  "uid_wf db \<longleftrightarrow> unique_uids (map (\<lambda>c. (cr_ID c, cr_ClusterUID c)) (lc_clusters db))"

definition lifecycle_wf :: "lifecycle_db \<Rightarrow> bool" where
  "lifecycle_wf db \<longleftrightarrow> ids_wf db \<and> list_all task_wf (lc_tasks db) \<and> one_active (lc_tasks db) \<and> active_wf db \<and> uid_wf db"

text \<open>The columns identifiers, names and UIDs decide the first and the last part of the invariant.\<close>

definition same_keys :: "cluster_table \<Rightarrow> cluster_table \<Rightarrow> bool" where
  "same_keys t t' \<longleftrightarrow> map (\<lambda>c. (cr_ID c, cr_Name c, cr_ClusterUID c)) t' = map (\<lambda>c. (cr_ID c, cr_Name c, cr_ClusterUID c)) t"

lemma same_keys_maps:
  assumes "same_keys t t'"
  shows "map cr_ID t' = map cr_ID t" "map cr_Name t' = map cr_Name t" "map (\<lambda>c. (cr_ID c, cr_ClusterUID c)) t' = map (\<lambda>c. (cr_ID c, cr_ClusterUID c)) t"
proof -
  note eq = assms [unfolded same_keys_def]
  show "map cr_ID t' = map cr_ID t" using arg_cong [OF eq, of "map fst"] by (simp add: comp_def)
  show "map cr_Name t' = map cr_Name t" using arg_cong [OF eq, of "map (fst \<circ> snd)"] by (simp add: comp_def)
  show "map (\<lambda>c. (cr_ID c, cr_ClusterUID c)) t' = map (\<lambda>c. (cr_ID c, cr_ClusterUID c)) t"
    using arg_cong [OF eq, of "map (\<lambda>(i, n, u). (i, u))"] by (simp add: comp_def)
qed

lemma columns_keys: "list_all2 (column_write env) t t' \<Longrightarrow> same_keys t t'"
  unfolding same_keys_def by (induction rule: list_all2_induct) (simp_all add: column_write_def)

lemma phase_keys: "same_keys t (UpdatePhase i ph t)"
  by (simp add: UpdatePhase_def same_keys_def update_row_def)

lemma update_where_same:
  assumes "\<And>r. f (g r) = f r"
  shows "map f (update_where P g rows) = map f rows"
  using assms by (simp add: update_where_def)

lemma task_fields_keep [simp]:
  "tk_ID (transition_fields next message at t) = tk_ID t" "tk_ClusterID (transition_fields next message at t) = tk_ClusterID t"
  "tk_Status (transition_fields next message at t) = next" "tk_ID (retried at t) = tk_ID t" "tk_ClusterID (retried at t) = tk_ClusterID t"
  "tk_Status (retried at t) = UninstallTaskPending"
  by (simp_all add: transition_fields_def retried_def Let_def)

lemma tasks_keys [simp]:
  "map tk_ID (update_where P (transition_fields next message at) rows) = map tk_ID rows"
  "map tk_ClusterID (update_where P (transition_fields next message at) rows) = map tk_ClusterID rows"
  "map tk_ID (update_where P (retried at) rows) = map tk_ID rows" "map tk_ClusterID (update_where P (retried at) rows) = map tk_ClusterID rows"
  by (rule update_where_same, simp)+

lemma report_phase_keys:
  "same_keys (lc_clusters db) (lc_clusters (report_phase env i next db))" "lc_tasks (report_phase env i next db) = lc_tasks db"
  "lc_next (report_phase env i next db) = lc_next db"
  using phase_keys [of "lc_clusters db" i] by (simp_all add: report_phase_def on_clusters_def same_keys_def)

lemma wf_same:
  assumes "same_keys (lc_clusters db) (lc_clusters db')" "map tk_ID (lc_tasks db') = map tk_ID (lc_tasks db)"
    "map tk_ClusterID (lc_tasks db') = map tk_ClusterID (lc_tasks db)" "lc_next db' = lc_next db"
  shows "ids_wf db' = ids_wf db" "uid_wf db' = uid_wf db"
  unfolding ids_wf_def uid_wf_def assms(2-4) same_keys_maps [OF assms(1)] by simp_all

lemma row_by_id: "distinct (map cr_ID t) \<Longrightarrow> r \<in> set t \<Longrightarrow> r' \<in> set t \<Longrightarrow> cr_ID r = cr_ID r' \<Longrightarrow> r = r'"
  by (auto simp: distinct_map dest: inj_onD)

lemma row_by_name: "distinct (map cr_Name t) \<Longrightarrow> r \<in> set t \<Longrightarrow> r' \<in> set t \<Longrightarrow> cr_Name r = cr_Name r' \<Longrightarrow> r = r'"
  by (auto simp: distinct_map dest: inj_onD)

lemma register_check_Inr:
  assumes "register_check env req db = Inr cl"
  shows "cl \<in> set (lc_clusters db)" "cr_Name cl = rq_ClusterName req" "\<not> uninstall_owned cl" "cr_RegTokenHash cl = en_sha env (rq_RegistrationToken req)"
    "rq_ClusterUid req \<noteq> ''''" "\<forall>r \<in> set (lc_clusters db). cr_Name r \<noteq> rq_ClusterName req \<longrightarrow> cr_ClusterUID r \<noteq> rq_ClusterUid req"
    "cr_ClusterUID cl \<in> {'''', rq_ClusterUid req}"
  using assms by (auto simp: register_check_def uninstall_owned_def find_None_iff dest!: GetByName_Inr split: if_splits sum.splits option.splits)

lemma registered_row_simps [simp]:
  "cr_ID (registered_row env token req cl) = cr_ID cl" "cr_Name (registered_row env token req cl) = cr_Name cl"
  "cr_ClusterUID (registered_row env token req cl) = rq_ClusterUid req" "cr_RegTokenHash (registered_row env token req cl) = ''''"
  "cr_AuthTokenHash (registered_row env token req cl) = en_sha env token"
  by (simp_all add: registered_row_def Let_def)

lemma SaveCluster_rows:
  assumes "distinct (map cr_ID t)" "cl \<in> set t" "cr_ID cl' = cr_ID cl"
  shows "SaveCluster cl' t = map (\<lambda>r. if r = cl then cl' else r) t"
  using assms row_by_id [OF assms(1) _ assms(2)] by (auto simp: SaveCluster_def update_row_def)

lemma registered_ids:
  assumes "ids_wf db" "register_check env req db = Inr cl"
  shows "ids_wf (on_clusters (SaveCluster (registered_row env token req cl)) db)"
proof -
  note cl = register_check_Inr [OF assms(2)]
  have d: "distinct (map cr_ID (lc_clusters db))" using assms(1) by (simp add: ids_wf_def)
  have "map f (SaveCluster (registered_row env token req cl) (lc_clusters db)) = map f (lc_clusters db)"
    if "f (registered_row env token req cl) = f cl" for f :: "cluster_row \<Rightarrow> 'x"
    using that SaveCluster_rows [OF d cl(1), of "registered_row env token req cl"] by simp
  from this [of cr_ID] this [of cr_Name] show ?thesis using assms(1) by (simp add: ids_wf_def on_clusters_def)
qed

lemma write_ids:
  assumes "lifecycle_write env db db'" "ids_wf db"
  shows "ids_wf db'"
  using assms
proof cases
  case (created name token ls rs)
  then show ?thesis using assms(2) by (fastforce simp: ids_wf_def new_cluster_def list_all_iff ball_Un)
next
  case (columns t rs)
  then show ?thesis using wf_same(1) [of db db'] columns_keys [OF columns(2)] assms(2) by simp
next
  case (deleted c)
  then show ?thesis using assms(2) by (auto simp: ids_wf_def on_clusters_def list_all_iff distinct_map_filter)
next
  case (started c)
  then have "cr_ID c < lc_next db" using assms(2) by (auto simp: ids_wf_def list_all_iff)
  then show ?thesis
    using started assms(2) same_keys_maps [OF phase_keys [of "lc_clusters db" "cr_ID c" ClusterPhaseUninstalling]]
    by (fastforce simp: ids_wf_def on_clusters_def new_task_def list_all_iff ball_Un)
next
  case (requeued c task tasks)
  then show ?thesis using wf_same(1) [of db db'] phase_keys assms(2) by (simp add: on_clusters_def)
next
  case (registered req cl token)
  then show ?thesis using registered_ids [OF assms(2)] by simp
next
  case (reported c task expected state "next" tasks message)
  then show ?thesis using wf_same(1) [of db db'] report_phase_keys [where db = "db\<lparr>lc_tasks := tasks\<rparr>"] assms(2) by simp
qed simp

lemma task_status_words [simp]:
  "UninstallTaskPending \<noteq> UninstallTaskReceived" "UninstallTaskPending \<noteq> UninstallTaskRunning" "UninstallTaskPending \<noteq> UninstallTaskSucceeded"
  "UninstallTaskPending \<noteq> UninstallTaskFailed" "UninstallTaskReceived \<noteq> UninstallTaskRunning" "UninstallTaskReceived \<noteq> UninstallTaskSucceeded"
  "UninstallTaskReceived \<noteq> UninstallTaskFailed" "UninstallTaskSucceeded \<noteq> UninstallTaskFailed" "UninstallTaskRunning \<noteq> UninstallTaskSucceeded"
  "UninstallTaskRunning \<noteq> UninstallTaskFailed"
  by (simp_all add: task_defs)

lemmas task_status_words_sym [simp] = task_status_words [symmetric]

lemma update_where_all:
  assumes "list_all P rows" "\<And>r. r \<in> set rows \<Longrightarrow> P r \<Longrightarrow> Q r \<Longrightarrow> P (f r)"
  shows "list_all P (update_where Q f rows)"
  using assms by (auto simp: update_where_def list_all_iff)

lemma write_tasks_wf:
  assumes "lifecycle_write env db db'" "list_all task_wf (lc_tasks db)"
  shows "list_all task_wf (lc_tasks db')"
  using assms(1)
proof cases
  case (started c)
  then show ?thesis using assms(2) by (simp add: on_clusters_def new_task_def task_wf_def)
next
  case (requeued c task tasks)
  then show ?thesis using assms(2) by (auto simp: on_clusters_def retried_def task_wf_def intro!: update_where_all)
next
  case (reported c task expected state "next" tasks message)
  moreover have "task_wf (transition_fields next message at t)" if "task_wf t" "tk_Status t = expected" for at t
    using that reported(6) by (cases state) (auto simp: task_wf_def transition_fields_def Let_def)
  ultimately show ?thesis using assms(2) by (auto simp: report_phase_keys(2) intro!: update_where_all)
qed (use assms(2) in \<open>simp_all add: on_clusters_def\<close>)

lemma write_one_active: "lifecycle_write env db db' \<Longrightarrow> one_active (lc_tasks db) \<Longrightarrow> one_active (lc_tasks db')"
  by (cases rule: lifecycle_write.cases) (auto simp: on_clusters_def report_phase_keys(2))

definition uninstalling :: "cluster_table \<Rightarrow> int set" where
  "uninstalling t = {i. \<exists>c \<in> set t. cr_ID c = i \<and> cr_Phase c = ClusterPhaseUninstalling}"

lemma active_wf_iff: "active_wf db \<longleftrightarrow> (\<forall>t \<in> set (lc_tasks db). active_task t \<longrightarrow> tk_ClusterID t \<in> uninstalling (lc_clusters db))"
  by (simp add: active_wf_def uninstalling_def list_all_iff list_ex_iff)

lemma uninstalling_Cons: "uninstalling (c # t) = (if cr_Phase c = ClusterPhaseUninstalling then insert (cr_ID c) (uninstalling t) else uninstalling t)"
  by (auto simp: uninstalling_def)

lemma column_write_uninstalling:
  "column_write env r r' \<Longrightarrow> cr_ID r' = cr_ID r \<and> (cr_Phase r' = ClusterPhaseUninstalling \<longleftrightarrow> cr_Phase r = ClusterPhaseUninstalling)"
  by (auto simp: column_write_def uninstall_owned_def split: if_splits)

lemma uninstalling_columns: "list_all2 (column_write env) t t' \<Longrightarrow> uninstalling t' = uninstalling t"
  by (induction rule: list_all2_induct) (auto simp: uninstalling_Cons dest: column_write_uninstalling)

lemma uninstalling_phase:
  "j \<in> uninstalling (UpdatePhase i ph t) \<longleftrightarrow> (if j = i then ph = ClusterPhaseUninstalling \<and> i \<in> cr_ID ` set t else j \<in> uninstalling t)"
proof -
  have eq: "j \<in> uninstalling (UpdatePhase i ph t) \<longleftrightarrow> (\<exists>c \<in> set t. cr_ID c = j \<and> (if cr_ID c = i then ph else cr_Phase c) = ClusterPhaseUninstalling)"
    unfolding uninstalling_def UpdatePhase_def update_row_def set_map mem_Collect_eq bex_simps by (rule bex_cong) simp_all
  show ?thesis unfolding eq unfolding uninstalling_def mem_Collect_eq image_iff by metis
qed

lemma uninstalling_filter: "uninstalling (filter (\<lambda>r. cr_ID r \<noteq> i) t) = uninstalling t - {i}"
  by (auto simp: uninstalling_def)

lemma uninstalling_other:
  assumes "distinct (map cr_ID t)" "c \<in> set t" "cr_Phase c \<noteq> ClusterPhaseUninstalling"
  shows "cr_ID c \<notin> uninstalling t"
  using assms row_by_id [OF assms(1) _ assms(2)] by (auto simp: uninstalling_def)

lemma uninstalling_save:
  assumes "distinct (map cr_ID t)" "cl \<in> set t" "cr_ID cl' = cr_ID cl" "cr_Phase cl \<noteq> ClusterPhaseUninstalling" "cr_Phase cl' \<noteq> ClusterPhaseUninstalling"
  shows "uninstalling (SaveCluster cl' t) = uninstalling t"
  using assms(4,5) unfolding SaveCluster_rows [OF assms(1-3)] by (auto simp: uninstalling_def)

lemma active_report_edges:
  assumes "report_edge state = Some (expected, next)"
  shows "expected \<in> {UninstallTaskPending, UninstallTaskReceived}"
    "next = UninstallTaskReceived \<or> (expected = UninstallTaskReceived \<and> next \<in> {UninstallTaskSucceeded, UninstallTaskFailed})"
  using assms by (cases state; auto)+

lemma one_active_unique:
  assumes "one_active tasks" "t \<in> set tasks" "t' \<in> set tasks" "active_task t" "active_task t'" "tk_ClusterID t = tk_ClusterID t'"
  shows "t = t'"
  using assms by (auto simp: one_active_def distinct_map dest: inj_onD)

lemma uninstalling_report:
  assumes "next \<in> {UninstallTaskReceived, UninstallTaskSucceeded, UninstallTaskFailed}"
  shows "uninstalling (lc_clusters db) - (if next = UninstallTaskReceived then {} else {i}) \<subseteq> uninstalling (lc_clusters (report_phase env i next db))"
  using assms by (auto simp: report_phase_def on_clusters_def uninstalling_phase split: if_splits)

lemma reported_active:
  assumes "lifecycle_wf db" "task \<in> set (lc_tasks db)" "tk_ClusterID task = cr_ID c" "tk_Status task = expected"
    "report_edge state = Some (expected, next)"
    "tasks = update_where (\<lambda>t. tk_ID t = tk_ID task \<and> tk_Status t = expected) (transition_fields next message at) (lc_tasks db)"
  shows "active_wf (report_phase env (cr_ID c) next (db\<lparr>lc_tasks := tasks\<rparr>))"
proof -
  have d: "distinct (map tk_ID (lc_tasks db))" "one_active (lc_tasks db)" and act: "active_wf db" using assms(1) by (simp_all add: lifecycle_wf_def ids_wf_def)
  note edge = active_report_edges [OF assms(5)]
  have active: "active_task task" using edge(1) assms(4) by (auto simp: active_task_def)
  have "tk_ClusterID t \<in> uninstalling (lc_clusters db) - (if next = UninstallTaskReceived then {} else {cr_ID c})"
    if t: "t \<in> set tasks" "active_task t" for t
  proof (cases "\<exists>t0 \<in> set (lc_tasks db). tk_ID t0 = tk_ID task \<and> t = transition_fields next message at t0")
    case True
    then have t_is: "t = transition_fields next message at task" using task_by_id [OF d(1) _ assms(2)] by blast
    then have "next = UninstallTaskReceived" using t(2) edge(2) by (auto simp: active_task_def)
    then show ?thesis using t_is active act assms(2) by (simp add: active_wf_iff)
  next
    case False
    then have old: "t \<in> set (lc_tasks db)" "tk_ID t \<noteq> tk_ID task"
      using t(1) assms(2,4,6) task_by_id [OF d(1) _ assms(2)] by (auto simp: update_where_def split: if_splits)
    then have "tk_ClusterID t \<noteq> cr_ID c" using one_active_unique [OF d(2) old(1) assms(2) t(2) active] assms(3) by auto
    then show ?thesis using old(1) act t(2) by (simp add: active_wf_iff)
  qed
  then show ?thesis
    using uninstalling_report [of "next" "db\<lparr>lc_tasks := tasks\<rparr>" "cr_ID c" env] edge(2) unfolding active_wf_iff report_phase_keys(2) by auto
qed

lemma write_active:
  assumes "lifecycle_write env db db'" "lifecycle_wf db"
  shows "active_wf db'"
proof -
  have act: "active_wf db" and d: "distinct (map cr_ID (lc_clusters db))" using assms(2) by (simp_all add: lifecycle_wf_def ids_wf_def)
  from assms(1) show ?thesis
  proof cases
    case (created name token ls rs)
    then show ?thesis using act by (auto simp: active_wf_iff uninstalling_def)
  next
    case (columns t rs)
    then show ?thesis using act uninstalling_columns [OF columns(2)] by (simp add: active_wf_iff)
  next
    case (deleted c)
    then show ?thesis using act uninstalling_other [OF d deleted(2,3)] by (auto simp: active_wf_iff on_clusters_def uninstalling_filter)
  next
    case (started c)
    then show ?thesis using act by (auto simp: active_wf_iff on_clusters_def uninstalling_phase new_task_def)
  next
    case (requeued c task tasks)
    have ids: "distinct (map tk_ID (lc_tasks db))" using assms(2) by (simp add: lifecycle_wf_def ids_wf_def)
    have "tk_ClusterID t = cr_ID c \<or> tk_ClusterID t \<in> uninstalling (lc_clusters db)" if "t \<in> set tasks" "active_task t" for t
    proof -
      obtain t0 where "t0 \<in> set (lc_tasks db)" "t = t0 \<or> tk_ID t0 = tk_ID task \<and> t = retried (en_now env) t0"
        using \<open>t \<in> set tasks\<close> unfolding requeued(6) update_where_def by auto
      then show ?thesis using act that(2) task_by_id [OF ids _ requeued(3)] requeued(5) by (metis active_wf_iff task_fields_keep(5))
    qed
    then show ?thesis using requeued(1,2) by (auto simp: active_wf_iff on_clusters_def uninstalling_phase)
  next
    case (registered req cl token)
    note cl = register_check_Inr [OF registered(2)]
    have "cr_Phase (registered_row env token req cl) \<noteq> ClusterPhaseUninstalling" "cr_Phase cl \<noteq> ClusterPhaseUninstalling"
      using cl(3) by (auto simp: registered_row_def Let_def uninstall_owned_def phase_words)
    then show ?thesis using registered(1) act uninstalling_save [OF d cl(1)] by (simp add: active_wf_iff on_clusters_def)
  next
    case (reported c task expected state "next" tasks message)
    then show ?thesis using reported_active [OF assms(2)] by blast
  qed (use act in simp)
qed

lemma uid_wf_iff:
  "uid_wf db \<longleftrightarrow> (\<forall>c \<in> set (lc_clusters db). \<forall>c' \<in> set (lc_clusters db). cr_ClusterUID c = cr_ClusterUID c' \<and> cr_ClusterUID c \<noteq> '''' \<longrightarrow> cr_ID c = cr_ID c')"
  by (simp add: uid_wf_def unique_uids_def list_all_iff)

lemma write_uids:
  assumes "lifecycle_write env db db'" "ids_wf db" "uid_wf db"
  shows "uid_wf db'"
  using assms(1)
proof cases
  case (created name token ls rs)
  then show ?thesis using assms(3) unfolding uid_wf_iff by (simp add: new_cluster_def)
next
  case (columns t rs)
  then show ?thesis using wf_same(2) [of db db'] columns_keys [OF columns(2)] assms(3) by simp
next
  case (deleted c)
  then have "set (lc_clusters db') \<subseteq> set (lc_clusters db)" by (auto simp: on_clusters_def)
  then show ?thesis using assms(3) unfolding uid_wf_iff by blast
next
  case (started c)
  then show ?thesis using same_keys_maps(3) [OF phase_keys [of "lc_clusters db"]] assms(3) by (simp add: uid_wf_def on_clusters_def)
next
  case (requeued c task tasks)
  then show ?thesis using wf_same(2) [of db db'] phase_keys assms(3) by (simp add: on_clusters_def)
next
  case (registered req cl token)
  note cl = register_check_Inr [OF registered(2)]
  have d: "distinct (map cr_ID (lc_clusters db))" "distinct (map cr_Name (lc_clusters db))" using assms(2) by (simp_all add: ids_wf_def)
  let ?f = "\<lambda>r. if r = cl then registered_row env token req cl else r"
  have other: "cr_ClusterUID r \<noteq> rq_ClusterUid req" if "r \<in> set (lc_clusters db)" "r \<noteq> cl" for r
    using cl(2,6) that row_by_name [OF d(2) that(1) cl(1)] by auto
  have same: "cr_ID (?f r) = cr_ID (?f r')"
    if "r \<in> set (lc_clusters db)" "r' \<in> set (lc_clusters db)" "cr_ClusterUID (?f r) = cr_ClusterUID (?f r')" "cr_ClusterUID (?f r) \<noteq> ''''" for r r'
  proof -
    have "cr_ClusterUID r = cr_ClusterUID r' \<and> cr_ClusterUID r \<noteq> '''' \<longrightarrow> cr_ID r = cr_ID r'" using assms(3) that(1,2) unfolding uid_wf_iff by blast
    then show ?thesis using that(3,4) other [OF that(1)] other [OF that(2)] by (cases "r = cl"; cases "r' = cl") auto
  qed
  have rows: "lc_clusters db' = map ?f (lc_clusters db)"
    unfolding registered(1) on_clusters_def using SaveCluster_rows [OF d(1) cl(1), of "registered_row env token req cl"] by simp
  show ?thesis
    unfolding uid_wf_iff rows set_map
  proof (intro ballI impI, elim imageE conjE)
    fix c c' r r'
    assume "cr_ClusterUID c = cr_ClusterUID c'" "cr_ClusterUID c \<noteq> ''''" "c = ?f r" "r \<in> set (lc_clusters db)" "c' = ?f r'" "r' \<in> set (lc_clusters db)"
    then show "cr_ID c = cr_ID c'" using same by blast
  qed
next
  case (reported c task expected state "next" tasks message)
  then show ?thesis using wf_same(2) [of db db'] report_phase_keys [where db = "db\<lparr>lc_tasks := tasks\<rparr>"] assms(3) by simp
qed (use assms(3) in simp)

lemma step_lifecycle_wf: "lifecycle_wf db \<Longrightarrow> lifecycle_wf (lifecycle_step db step)"
proof -
  assume wf: "lifecycle_wf db"
  obtain env op where step: "step = (env, op)" by (cases step)
  have "lifecycle_write env db (lifecycle_step db step)"
    unfolding step by (rule lifecycle_step_write) (use wf in \<open>simp_all add: lifecycle_wf_def ids_wf_def\<close>)
  then show ?thesis
    using wf write_ids write_tasks_wf write_one_active write_active write_uids unfolding lifecycle_wf_def by blast
qed


section \<open>Completion of an uninstall\<close>

definition calls_succeed :: "id_env \<Rightarrow> bool" where
  "calls_succeed env \<longleftrightarrow> (\<forall>call. en_fail env call = None)"

lemma succeeding_storage [simp]: "calls_succeed env \<Longrightarrow> storage env call x = x" "calls_succeed env \<Longrightarrow> en_fail env call = None"
  by (simp_all add: calls_succeed_def storage_def)

lemma find_by_key:
  assumes "distinct (map f xs)" "x \<in> set xs"
  shows "find (\<lambda>y. f y = f x) xs = Some x"
  using assms by (induction xs) auto

lemma first_row_key: "distinct (map f xs) \<Longrightarrow> x \<in> set xs \<Longrightarrow> first_row (\<lambda>y. f y = f x) xs = Inr x"
  by (simp add: first_row_def find_by_key)

lemma lookups:
  assumes "lifecycle_wf db" "en_fail env ''Clusters.GetByName'' = None" "en_fail env ''UninstallTasks.GetByID'' = None"
  shows "c \<in> set (lc_clusters db) \<Longrightarrow> GetByName env (cr_Name c) db = Inr c" "t \<in> set (lc_tasks db) \<Longrightarrow> GetTask env (tk_ID t) db = Inr t"
  using assms first_row_key [of cr_Name "lc_clusters db"] first_row_key [of tk_ID "lc_tasks db"]
  by (auto simp: GetByName_def GetTask_def storage_Inr_iff lifecycle_wf_def ids_wf_def)

lemma update_active_subset:
  assumes "\<And>t. tk_ClusterID (f t) = tk_ClusterID t" "\<forall>t \<in> set tasks. P t \<longrightarrow> active_task t"
  shows "set (map tk_ClusterID (filter active_task (update_where P f tasks))) \<subseteq> set (map tk_ClusterID (filter active_task tasks))"
  using assms by (auto simp: update_where_def)

lemma update_one_active:
  assumes "one_active tasks" "\<And>t. tk_ClusterID (f t) = tk_ClusterID t" "\<forall>t \<in> set tasks. P t \<longrightarrow> active_task t"
  shows "one_active (update_where P f tasks)"
  using assms(1,3)
proof (induction tasks)
  case (Cons t tasks)
  then have "one_active tasks" "one_active (update_where P f tasks)" by (simp_all add: one_active_def split: if_splits)
  moreover have "set (map tk_ClusterID (filter active_task (update_where P f tasks))) \<subseteq> set (map tk_ClusterID (filter active_task tasks))"
    by (rule update_active_subset) (use assms(2) Cons.prems(2) in simp_all)
  ultimately show ?case
    using Cons.prems assms(2) by (cases "P t") (auto simp: one_active_def update_where_def)
qed (simp add: one_active_def update_where_def)

lemma report_effect:
  assumes "lifecycle_wf db" "c \<in> set (lc_clusters db)" "t \<in> set (lc_tasks db)" "tk_ClusterID t = cr_ID c" "tk_ID t \<noteq> 0"
    "report_edge (ur_State r) = Some (expected, next)" "ur_TaskId r = tk_ID t"
    "en_fail env ''Clusters.GetByName'' = None" "en_fail env ''UninstallTasks.GetByID'' = None" "en_fail env ''UninstallTasks.Transition'' = None"
  shows "handleUninstallTaskReport env (cr_Name c) r db =
    (if tk_Status t = expected
     then (report_phase env (cr_ID c) next (db\<lparr>lc_tasks := update_where (\<lambda>t'. tk_ID t' = tk_ID t \<and> tk_Status t' = expected)
        (transition_fields next (ur_Error r) (en_now env)) (lc_tasks db)\<rparr>), True) else (db, False))"
proof -
  have d: "distinct (map tk_ID (lc_tasks db))" "one_active (lc_tasks db)" using assms(1) by (simp_all add: lifecycle_wf_def ids_wf_def)
  have "list_ex (\<lambda>t'. tk_ID t' = tk_ID t \<and> tk_Status t' = expected) (lc_tasks db) \<longleftrightarrow> tk_Status t = expected"
    using assms(3) task_by_id [OF d(1) _ assms(3)] by (auto simp: list_ex_iff)
  moreover have "one_active (update_where (\<lambda>t'. tk_ID t' = tk_ID t \<and> tk_Status t' = expected) (transition_fields next (ur_Error r) (en_now env)) (lc_tasks db))"
    by (rule update_one_active [OF d(2)]) (use active_report_edges(1) [OF assms(6)] in \<open>auto simp: active_task_def\<close>)
  ultimately show ?thesis
    using lookups [OF assms(1,8,9)] assms(2-7,10)
    by (simp add: handleUninstallTaskReport_def Transition_def storage_def write_tasks_def)
qed

abbreviation task_report :: "int \<Rightarrow> report_state \<Rightarrow> string \<Rightarrow> UninstallTaskReport" where
  "task_report i st msg \<equiv> \<lparr>ur_TaskId = i, ur_State = st, ur_Error = msg\<rparr>"

lemma wf_status:
  assumes "lifecycle_wf db" "t \<in> set (lc_tasks db)" "active_task t"
  shows "tk_Status t = UninstallTaskPending \<or> tk_Status t = UninstallTaskReceived"
  using assms by (auto simp: lifecycle_wf_def list_all_iff task_wf_def active_task_def)

lemma received_step:
  assumes "lifecycle_wf db" "c \<in> set (lc_clusters db)" "t \<in> set (lc_tasks db)" "tk_ClusterID t = cr_ID c" "tk_ID t \<noteq> 0" "active_task t" "calls_succeed env"
  defines "db1 \<equiv> lifecycle_step db (env, OpReport (cr_Name c) (task_report (tk_ID t) RECEIVED ''''))"
  shows "lc_clusters db1 = lc_clusters db \<and> (\<exists>t1 \<in> set (lc_tasks db1). tk_ID t1 = tk_ID t \<and> tk_ClusterID t1 = tk_ClusterID t \<and> tk_Status t1 = UninstallTaskReceived
    \<and> tk_Attempts t1 = tk_Attempts t)"
proof (cases "tk_Status t = UninstallTaskPending")
  case True
  have "transition_fields UninstallTaskReceived '''' (en_now env) t
    \<in> set (update_where (\<lambda>t'. tk_ID t' = tk_ID t \<and> tk_Status t' = UninstallTaskPending) (transition_fields UninstallTaskReceived '''' (en_now env)) (lc_tasks db))"
    using assms(3) True by (force simp: update_where_def)
  then show ?thesis
    using report_effect [OF assms(1-5), of "task_report (tk_ID t) RECEIVED ''''" UninstallTaskPending UninstallTaskReceived env] assms(7) True
    by (auto simp: db1_def report_phase_def intro!: bexI [of _ "transition_fields UninstallTaskReceived '''' (en_now env) t"])
      (simp add: transition_fields_def Let_def)
next
  case False
  then show ?thesis
    using report_effect [OF assms(1-5), of "task_report (tk_ID t) RECEIVED ''''" UninstallTaskPending UninstallTaskReceived env] assms(3,7) wf_status [OF assms(1,3,6)]
    by (auto simp: db1_def)
qed

lemma phase_row: "c \<in> set t \<Longrightarrow> \<exists>c' \<in> set (UpdatePhase (cr_ID c) ph t). cr_ID c' = cr_ID c \<and> cr_Phase c' = ph"
  by (rule bexI [of _ "c\<lparr>cr_Phase := ph\<rparr>"]) (force simp: UpdatePhase_def update_row_def)+

lemma finished_step:
  fixes msg
  assumes "lifecycle_wf db" "c \<in> set (lc_clusters db)" "t \<in> set (lc_tasks db)" "tk_ClusterID t = cr_ID c" "tk_ID t \<noteq> 0" "tk_Status t = UninstallTaskReceived" "calls_succeed env"
    "report_edge st = Some (UninstallTaskReceived, next)"
  defines "db1 \<equiv> lifecycle_step db (env, OpReport (cr_Name c) (task_report (tk_ID t) st msg))"
  shows "lc_clusters db1 = UpdatePhase (cr_ID c) (if next = UninstallTaskSucceeded then ClusterPhaseUninstalled else ClusterPhaseOnline) (lc_clusters db) \<and>
    lc_tasks db1 = update_where (\<lambda>t'. tk_ID t' = tk_ID t \<and> tk_Status t' = UninstallTaskReceived) (transition_fields next msg (en_now env)) (lc_tasks db)"
  using report_effect [OF assms(1-5), of "task_report (tk_ID t) st msg" UninstallTaskReceived "next" env] assms(6-8) active_report_edges(2) [OF assms(8)]
  by (cases st) (auto simp: db1_def report_phase_def on_clusters_def)

text \<open>C13: An interrupted uninstall can always be completed. In any state in which a cluster has an unfinished task,
  however far an earlier run got before it broke off, the two reports of one complete run settle it: the
  task ends with the reported outcome, the cluster becomes Uninstalled after a success and Online again
  after a failure, and no unfinished task of the cluster is left to be sent.\<close>

theorem uninstall_completes:
  assumes "lifecycle_wf db" "c \<in> set (lc_clusters db)" "t \<in> set (lc_tasks db)" "tk_ClusterID t = cr_ID c" "tk_ID t \<noteq> 0" "active_task t" "calls_succeed env" "calls_succeed env'"
    "report_edge st = Some (UninstallTaskReceived, next)"
    "db' = foldl lifecycle_step db [(env, OpReport (cr_Name c) (task_report (tk_ID t) RECEIVED '''')), (env', OpReport (cr_Name c) (task_report (tk_ID t) st msg))]"
  shows "(\<exists>t' \<in> set (lc_tasks db'). tk_ID t' = tk_ID t \<and> tk_Status t' = next \<and> tk_Error t' = msg \<and> tk_Attempts t' = tk_Attempts t) \<and>
    (\<exists>c' \<in> set (lc_clusters db'). cr_ID c' = cr_ID c \<and> cr_Phase c' = (if st = SUCCEEDED then ClusterPhaseUninstalled else ClusterPhaseOnline)) \<and>
    ListActiveByClusterID env' (cr_ID c) db' = Inr []"
proof -
  let ?db1 = "lifecycle_step db (env, OpReport (cr_Name c) (task_report (tk_ID t) RECEIVED ''''))"
  have wf1: "lifecycle_wf ?db1" by (rule step_lifecycle_wf [OF assms(1)])
  obtain t1 where t1: "t1 \<in> set (lc_tasks ?db1)" "tk_ID t1 = tk_ID t" "tk_ClusterID t1 = cr_ID c" "tk_Status t1 = UninstallTaskReceived" "tk_Attempts t1 = tk_Attempts t"
    and same: "lc_clusters ?db1 = lc_clusters db"
    using received_step [OF assms(1-7)] assms(4) by metis
  let ?P = "\<lambda>t'. tk_ID t' = tk_ID t \<and> tk_Status t' = UninstallTaskReceived" and ?f = "transition_fields next msg (en_now env')"
  have db': "lc_tasks db' = update_where ?P ?f (lc_tasks ?db1)"
    "lc_clusters db' = UpdatePhase (cr_ID c) (if next = UninstallTaskSucceeded then ClusterPhaseUninstalled else ClusterPhaseOnline) (lc_clusters db)"
    using finished_step [OF wf1 _ t1(1,3) _ t1(4) assms(8,9), where msg = msg] assms(2,5,10) same t1(2) by simp_all
  have "?f t1 \<in> set (lc_tasks db')" using t1 unfolding db' by (force simp: update_where_def)
  moreover have "tk_Error (?f t1) = msg" "tk_Attempts (?f t1) = tk_Attempts t" using t1(5) by (simp_all add: transition_fields_def Let_def)
  moreover have "st = SUCCEEDED \<longleftrightarrow> next = UninstallTaskSucceeded" using assms(9) by (cases st) auto
  moreover have "\<not> active_task t'" if mem: "t' \<in> set (lc_tasks db')" and own: "tk_ClusterID t' = cr_ID c" for t'
  proof
    assume a: "active_task t'"
    have one: "one_active (lc_tasks ?db1)" using wf1 by (simp add: lifecycle_wf_def)
    obtain t0 where t0: "t0 \<in> set (lc_tasks ?db1)" "t' = (if ?P t0 then ?f t0 else t0)" using mem unfolding db' update_where_def by auto
    have "\<not> active_task (?f t0)" using assms(9) by (cases st) (auto simp: active_task_def)
    then have "t' = t0" using a t0(2) by (auto split: if_splits)
    then have "t0 = t1" using one_active_unique [OF one t0(1) t1(1)] a own t1(3,4) by (simp add: active_task_def)
    then show False using t0(2) \<open>t' = t0\<close> a \<open>\<not> active_task (?f t0)\<close> t1(2,4) by auto
  qed
  ultimately show ?thesis
    using t1(2) assms(8) unfolding db'(2)
    by (auto simp: ListActiveByClusterID_def order_by_def filter_empty_conv phase_row [OF assms(2)] intro!: bexI [of _ "?f t1"])
qed

section \<open>A cluster whose last phase write is lost\<close>

text \<open>No task of the cluster can still finish or be retried.\<close>

definition stranded :: "int \<Rightarrow> lifecycle_db \<Rightarrow> bool" where
  "stranded i db \<longleftrightarrow> i \<in> uninstalling (lc_clusters db) \<and> (\<forall>t \<in> set (lc_tasks db). tk_ClusterID t = i \<longrightarrow> tk_Status t = UninstallTaskSucceeded)"

lemma write_stranded:
  assumes "lifecycle_write env db db'" "ids_wf db" "stranded i db"
  shows "stranded i db'"
proof -
  have d: "distinct (map cr_ID (lc_clusters db))" using assms(2) by (simp add: ids_wf_def)
  have not_i: "cr_ID c \<noteq> i" if "c \<in> set (lc_clusters db)" "cr_Phase c \<noteq> ClusterPhaseUninstalling" for c
    using uninstalling_other [OF d that] assms(3) by (auto simp: stranded_def)
  have task_i: "tk_ClusterID t \<noteq> i" if "t \<in> set (lc_tasks db)" "tk_Status t \<noteq> UninstallTaskSucceeded" for t
    using that assms(3) by (auto simp: stranded_def)
  from assms(1) show ?thesis
  proof cases
    case (created name token ls rs)
    then show ?thesis using assms(3) by (auto simp: stranded_def uninstalling_def)
  next
    case (columns t rs)
    then show ?thesis using assms(3) uninstalling_columns [OF columns(2)] by (simp add: stranded_def)
  next
    case (deleted c)
    then show ?thesis using assms(3) not_i [OF deleted(2,3)] by (auto simp: stranded_def on_clusters_def uninstalling_filter)
  next
    case (started c)
    then have "cr_ID c \<noteq> i" using not_i [of c] by (simp add: phase_words)
    then show ?thesis using started(1) assms(3) by (auto simp: stranded_def on_clusters_def uninstalling_phase new_task_def)
  next
    case (requeued c task tasks)
    then have "cr_ID c \<noteq> i" using task_i [of task] by auto
    then show ?thesis using requeued(1,6) assms(3) by (auto simp: stranded_def on_clusters_def uninstalling_phase update_where_def)
  next
    case (registered req cl token)
    note cl = register_check_Inr [OF registered(2)]
    have "cr_Phase (registered_row env token req cl) \<noteq> ClusterPhaseUninstalling" "cr_Phase cl \<noteq> ClusterPhaseUninstalling"
      using cl(3) by (auto simp: registered_row_def Let_def uninstall_owned_def phase_words)
    then show ?thesis using registered(1) assms(3) uninstalling_save [OF d cl(1)] by (simp add: stranded_def on_clusters_def)
  next
    case (reported c task expected state "next" tasks message)
    then have c: "cr_ID c \<noteq> i" using task_i [of task] active_report_edges(1) [OF reported(6)] by auto
    have "next \<in> {UninstallTaskReceived, UninstallTaskSucceeded, UninstallTaskFailed}" using active_report_edges(2) [OF reported(6)] by auto
    from uninstalling_report [OF this, of "db\<lparr>lc_tasks := tasks\<rparr>" "cr_ID c" env] have "i \<in> uninstalling (lc_clusters db')"
      using reported(1) assms(3) c by (auto simp: stranded_def split: if_splits)
    moreover have "tk_Status t = UninstallTaskSucceeded" if "t \<in> set (lc_tasks db')" "tk_ClusterID t = i" for t
      using that assms(3) active_report_edges(1) [OF reported(6)] unfolding reported(1,7) report_phase_keys(2)
      by (auto simp: stranded_def update_where_def)
    ultimately show ?thesis by (simp add: stranded_def)
  qed (use assms(3) in simp)
qed

lemma run_stranded:
  assumes "lifecycle_wf db" "stranded i db"
  shows "stranded i (foldl lifecycle_step db steps)"
  using assms
proof (induction steps arbitrary: db)
  case (Cons step steps)
  obtain env op where step: "step = (env, op)" by (cases step)
  have "ids_wf db" using Cons.prems(1) by (simp add: lifecycle_wf_def)
  moreover from this have "lifecycle_write env db (lifecycle_step db step)"
    unfolding step by (intro lifecycle_step_write) (simp_all add: ids_wf_def)
  ultimately show ?case using Cons step_lifecycle_wf write_stranded by simp
qed simp

text \<open>C14: A lost phase write strands a cluster for good. When the report of a successful uninstall is recorded in the
  task but the write of the cluster's phase fails, and the cluster has no failed task to retry, then the
  cluster stays Uninstalling through every later operation: it can be neither deleted, uninstalled again,
  registered again nor revived by heartbeats.\<close>

theorem lost_phase_write_strands:
  assumes "lifecycle_wf db" "c \<in> set (lc_clusters db)" "t \<in> set (lc_tasks db)" "tk_ClusterID t = cr_ID c" "tk_ID t \<noteq> 0" "tk_Status t = UninstallTaskReceived"
    "list_all (\<lambda>t'. tk_ClusterID t' = cr_ID c \<longrightarrow> t' = t \<or> tk_Status t' = UninstallTaskSucceeded) (lc_tasks db)"
    "en_fail env = (\<lambda>call. if call = ''Clusters.UpdatePhase'' then Some err else None)"
  shows "\<exists>c' \<in> set (lc_clusters (foldl lifecycle_step db ((env, OpReport (cr_Name c) (task_report (tk_ID t) SUCCEEDED msg)) # steps))).
    cr_ID c' = cr_ID c \<and> cr_Phase c' = ClusterPhaseUninstalling"
proof -
  let ?db1 = "lifecycle_step db (env, OpReport (cr_Name c) (task_report (tk_ID t) SUCCEEDED msg))"
  have d: "distinct (map tk_ID (lc_tasks db))" using assms(1) by (simp add: lifecycle_wf_def ids_wf_def)
  have "?db1 = db\<lparr>lc_tasks := update_where (\<lambda>t'. tk_ID t' = tk_ID t \<and> tk_Status t' = UninstallTaskReceived)
      (transition_fields UninstallTaskSucceeded msg (en_now env)) (lc_tasks db)\<rparr>"
    using report_effect [OF assms(1-5), of "task_report (tk_ID t) SUCCEEDED msg" UninstallTaskReceived UninstallTaskSucceeded env] assms(6,8)
    by (simp add: report_phase_def)
  moreover have "cr_ID c \<in> uninstalling (lc_clusters db)"
    using assms(1,3,4,6) by (auto simp: lifecycle_wf_def active_wf_iff active_task_def)
  ultimately have "stranded (cr_ID c) ?db1"
    using assms(6,7) by (auto simp: stranded_def update_where_def list_all_iff)
  from run_stranded [OF step_lifecycle_wf [OF assms(1)] this, of steps] show ?thesis
    by (simp add: stranded_def uninstalling_def)
qed

section \<open>Registration tokens\<close>

definition token_gone :: "string \<Rightarrow> lifecycle_db \<Rightarrow> bool" where
  "token_gone h db \<longleftrightarrow> (\<forall>c \<in> set (lc_clusters db). cr_RegTokenHash c \<noteq> h)"

definition issues_other :: "string \<Rightarrow> id_env \<Rightarrow> bool" where
  "issues_other h env = (case en_token env of Inl _ \<Rightarrow> True | Inr token \<Rightarrow> en_sha env token \<noteq> h)"

lemma report_phase_tokens: "map cr_RegTokenHash (lc_clusters (report_phase env i next db)) = map cr_RegTokenHash (lc_clusters db)"
  by (simp add: report_phase_def on_clusters_def UpdatePhase_def update_row_def)

lemma token_gone_same: "map cr_RegTokenHash (lc_clusters db') = map cr_RegTokenHash (lc_clusters db) \<Longrightarrow> token_gone h db' = token_gone h db"
proof -
  assume "map cr_RegTokenHash (lc_clusters db') = map cr_RegTokenHash (lc_clusters db)"
  then have "cr_RegTokenHash ` set (lc_clusters db') = cr_RegTokenHash ` set (lc_clusters db)" by (metis list.set_map)
  moreover have "token_gone h x \<longleftrightarrow> h \<notin> cr_RegTokenHash ` set (lc_clusters x)" for x by (auto simp: token_gone_def)
  ultimately show ?thesis by simp
qed

lemma write_token_gone:
  assumes "lifecycle_write env db db'" "token_gone h db" "issues_other h env" "h \<noteq> ''''"
  shows "token_gone h db'"
  using assms(1)
proof cases
  case (created name token ls rs)
  then show ?thesis using assms(2-4) by (auto simp: token_gone_def issues_other_def new_cluster_def)
next
  case (columns t rs)
  have "cr_RegTokenHash c \<noteq> h" if c: "c \<in> set t" for c
  proof -
    obtain r where "r \<in> set (lc_clusters db)" "column_write env r c" using columns(2) c unfolding list_all2_conv_all_nth by (metis in_set_conv_nth)
    then show ?thesis using assms(2,3) by (auto simp: token_gone_def issues_other_def column_write_def)
  qed
  then show ?thesis using columns(1) by (simp add: token_gone_def)
next
  case (deleted c)
  then show ?thesis using assms(2) by (auto simp: token_gone_def on_clusters_def)
next
  case (started c)
  then show ?thesis using assms(2) token_gone_same [of db' db] by (simp add: on_clusters_def UpdatePhase_def update_row_def)
next
  case (requeued c task tasks)
  then show ?thesis using assms(2) token_gone_same [of db' db] by (simp add: on_clusters_def UpdatePhase_def update_row_def)
next
  case (registered req cl token)
  then show ?thesis using assms(2,4) by (auto simp: token_gone_def on_clusters_def SaveCluster_def update_row_def)
next
  case (reported c task expected state "next" tasks message)
  then show ?thesis using assms(2) token_gone_same [of db' db] report_phase_tokens by simp
qed (use assms(2) in simp)

lemma run_token_gone:
  assumes "lifecycle_wf db" "token_gone h db" "list_all (\<lambda>(env, op). issues_other h env) steps" "h \<noteq> ''''"
  shows "token_gone h (foldl lifecycle_step db steps)"
  using assms
proof (induction steps arbitrary: db)
  case (Cons step steps)
  obtain env op where step: "step = (env, op)" by (cases step)
  have "lifecycle_write env db (lifecycle_step db step)"
    unfolding step by (rule lifecycle_step_write) (use Cons.prems(1) in \<open>simp_all add: lifecycle_wf_def ids_wf_def\<close>)
  then show ?case using Cons step step_lifecycle_wf write_token_gone [of env db "lifecycle_step db step" h] by simp
qed simp

text \<open>The token of a cluster opens only that cluster's row.\<close>

definition token_unique :: "lifecycle_db \<Rightarrow> bool" where
  "token_unique db \<longleftrightarrow> list_all (\<lambda>c. list_all (\<lambda>c'. cr_RegTokenHash c = cr_RegTokenHash c' \<and> cr_RegTokenHash c \<noteq> '''' \<longrightarrow> cr_ID c = cr_ID c') (lc_clusters db)) (lc_clusters db)"


section \<open>Examples\<close>

definition ex_lc_env :: "time \<Rightarrow> string \<Rightarrow> id_env" where
  "ex_lc_env now token = \<lparr>en_fail = (\<lambda>_. None), en_now = now, en_hash = (\<lambda>_. Inl ''''), en_match = (\<lambda>_ _. False), en_token = Inr token,
     en_sha = (\<lambda>s. CHR ''h'' # s), en_unicode_lower = id, en_absolute = 0, en_idle = 0\<rparr>"

definition ex_lc_task :: uninstall_task where
  "ex_lc_task = \<lparr>tk_ID = 3, tk_ClusterID = 2, tk_Status = UninstallTaskReceived, tk_RequestedAt = 1, tk_ReceivedAt = Some 2, tk_CompletedAt = None,
     tk_Error = '''', tk_Attempts = 1, tk_CreatedAt = 1\<rparr>"

definition ex_lc_db :: lifecycle_db where
  "ex_lc_db = \<lparr>lc_clusters = [new_cluster 1 ''c1'' [] ''hT1'', (new_cluster 2 ''c2'' [] '''')\<lparr>cr_ClusterUID := ''u2'', cr_Phase := ClusterPhaseUninstalling\<rparr>],
     lc_tasks = [ex_lc_task], lc_records = [], lc_next = 4\<rparr>"

definition ex_request :: RegisterRequest where
  "ex_request = \<lparr>rq_ClusterName = ''c1'', rq_RegistrationToken = ''T1'', rq_ClusterUid = ''u1'', rq_OperatorVersion = ''v1''\<rparr>"

definition ex_lc_steps :: "(id_env \<times> lifecycle_op) list" where
  "ex_lc_steps = [(ex_lc_env 5 ''k1'', OpRegister ex_request),
     (ex_lc_env 6 '''', OpFlush (\<lambda>_. True) (\<lambda>_. True) 10 [(''c1'', \<lparr>hb_LastSeen = 6, hb_OperatorVersion = ''v1'', hb_Summary = None, hb_Inventory = None\<rparr>)]),
     (ex_lc_env 7 '''', OpUninstall None ''c1''), (ex_lc_env 8 '''', OpUninstall None ''c1''),
     (ex_lc_env 9 '''', OpReport ''c1'' (task_report 4 RECEIVED '''')), (ex_lc_env 9 '''', OpReport ''c1'' (task_report 4 FAILED ''boom'')),
     (ex_lc_env 10 '''', OpRetry None ''c1'' 4)]"

lemma ex_lc_wf: "lifecycle_wf ex_lc_db"
  by code_simp


theorem uninstall_completes_witness:
  "list_ex (\<lambda>c. cr_ID c = 2 \<and> cr_Phase c = ClusterPhaseUninstalled) (lc_clusters (foldl lifecycle_step ex_lc_db
     [(ex_lc_env 5 '''', OpReport ''c2'' (task_report 3 RECEIVED '''')), (ex_lc_env 6 '''', OpReport ''c2'' (task_report 3 SUCCEEDED ''''))]))"
proof -
  have "lc_clusters ex_lc_db ! 1 \<in> set (lc_clusters ex_lc_db)" "ex_lc_task \<in> set (lc_tasks ex_lc_db)" by (simp_all add: ex_lc_db_def)
  moreover have "calls_succeed (ex_lc_env now token)" for now token by (simp add: calls_succeed_def ex_lc_env_def)
  moreover have "active_task ex_lc_task" by (simp add: active_task_def ex_lc_task_def)
  ultimately show ?thesis
    using uninstall_completes [OF ex_lc_wf, of "lc_clusters ex_lc_db ! 1" ex_lc_task "ex_lc_env 5 ''''" "ex_lc_env 6 ''''" SUCCEEDED UninstallTaskSucceeded _ "''''"]
    by (simp add: list_ex_iff ex_lc_db_def ex_lc_task_def new_cluster_def del: lifecycle_step.simps)
qed

theorem lost_phase_write_strands_witness:
  "list_ex (\<lambda>c. cr_ID c = 2 \<and> cr_Phase c = ClusterPhaseUninstalling) (lc_clusters (foldl lifecycle_step ex_lc_db
     [((ex_lc_env 5 '''')\<lparr>en_fail := \<lambda>call. if call = ''Clusters.UpdatePhase'' then Some ''down'' else None\<rparr>, OpReport ''c2'' (task_report 3 SUCCEEDED '''')),
      (ex_lc_env 6 '''', OpDelete None ''c2''), (ex_lc_env 7 '''', OpRetry None ''c2'' 3)]))"
proof -
  have "lc_clusters ex_lc_db ! 1 \<in> set (lc_clusters ex_lc_db)" "ex_lc_task \<in> set (lc_tasks ex_lc_db)" by (simp_all add: ex_lc_db_def)
  then show ?thesis
    using lost_phase_write_strands [OF ex_lc_wf, of "lc_clusters ex_lc_db ! 1" ex_lc_task "(ex_lc_env 5 '''')\<lparr>en_fail := \<lambda>call. if call = ''Clusters.UpdatePhase'' then Some ''down'' else None\<rparr>"
        "''down''" "''''" "[(ex_lc_env 6 '''', OpDelete None ''c2''), (ex_lc_env 7 '''', OpRetry None ''c2'' 3)]"]
    by (simp add: list_ex_iff ex_lc_db_def ex_lc_task_def new_cluster_def del: lifecycle_step.simps)
qed


text \<open>Two registrations that both read the row before either saves it both succeed with the one token, and the
  credential of the first is void. A change of the labels between the two halves is lost.\<close>

lemma concurrent_registrations:
  "(case register_check (ex_lc_env 5 ''k1'') ex_request ex_lc_db of Inl _ \<Rightarrow> None
    | Inr cl \<Rightarrow> (case register_save (ex_lc_env 5 ''k1'') ex_request cl ex_lc_db of Inl _ \<Rightarrow> None
      | Inr (k, db1) \<Rightarrow> (case register_save (ex_lc_env 6 ''k2'') ex_request cl db1 of Inl _ \<Rightarrow> None
        | Inr (k', db2) \<Rightarrow> Some (k, k', validateSyncAuth (ex_lc_env 7 '''') ''c1'' k db2))))
   = Some (''k1'', ''k2'', Some ''invalid cluster token'')"
  by code_simp

lemma stale_save_reverts_labels:
  "(case register_check (ex_lc_env 5 ''k1'') ex_request ex_lc_db of Inl _ \<Rightarrow> None
    | Inr cl \<Rightarrow> (case register_save (ex_lc_env 5 ''k1'') ex_request cl (lifecycle_step ex_lc_db (ex_lc_env 5 '''', OpLabels None ''c1'' [(''env'', ''prod'')])) of
        Inl _ \<Rightarrow> None | Inr (k, db1) \<Rightarrow> Some (map cr_Labels (lc_clusters db1)))) = Some [[], []]"
  by code_simp

end
