(* ===== verification/Policy_Rows.thy ===== *)
theory Policy_Rows
  imports Gateway_Render Console_Access
begin

text \<open>
  The rows of policies, groups, exceptions and distributions (\<^verbatim>\<open>internal/database/repository/models.go\<close>), each with
  its owner, and their conversion to what the snapshot is rendered from (\<^verbatim>\<open>internal/gateway/convert.go\<close>). A column of
  JSON type is its value.
\<close>

record policy_row =
  pw_ID :: int
  pw_OwnerType :: string
  pw_TenantID :: "int option"
  pw_Name :: string
  pw_Description :: string
  pw_Rego :: string
  pw_EnforcementMode :: string
  pw_Match :: PolicyMatch
  pw_Labels :: "labels option"
  pw_Annotations :: "labels option"

record group_row =
  gw_ID :: int
  gw_OwnerType :: string
  gw_TenantID :: "int option"
  gw_Name :: string
  gw_Spec :: PolicyGroupSpec
  gw_Labels :: "labels option"
  gw_Annotations :: "labels option"
  gw_UpdatedAt :: time

record exception_row =
  xw_ID :: int
  xw_OwnerType :: string
  xw_TenantID :: "int option"
  xw_Name :: string
  xw_Spec :: PolicyExceptionSpec
  xw_ExpiresAt :: "time option"
  xw_Labels :: "labels option"
  xw_Annotations :: "labels option"

record distribution_row =
  dw_ID :: int
  dw_TenantID :: "int option"
  dw_ResourceOwnerType :: string
  dw_Name :: string
  dw_Spec :: PolicyDistributionSpec
  dw_Managed :: bool
  dw_OwnerType :: string
  dw_OwnerName :: string

definition object_meta :: "string \<Rightarrow> labels option \<Rightarrow> labels option \<Rightarrow> ObjectMeta" where
  "object_meta name ls annotations = \<lparr>om_Name = name, om_UID = '''', om_Labels = ls, om_Annotations = annotations, om_Generation = 0,
     om_CreationTimestamp = 0, om_DeletionTimestamp = None, om_Finalizers = [], om_ResourceVersion = '''', om_OwnerReferences = []\<rparr>"

definition toV1alpha1Policies :: "policy_row list \<Rightarrow> Policy list" where
  "toV1alpha1Policies rows = map (\<lambda>p.
     \<lparr>pol_Meta = object_meta (pw_Name p) (pw_Labels p) (pw_Annotations p),
      pol_Spec = \<lparr>ps_Match = pw_Match p, ps_EnforcementMode = pw_EnforcementMode p, ps_Rego = pw_Rego p, ps_Description = pw_Description p,
        ps_RollbackTo = None\<rparr>,
      pol_Status = \<lparr>pst_Phase = '''', pst_Message = '''', pst_CurrentVersion = 0, pst_ObservedGeneration = 0, pst_LastSyncTime = None,
        pst_VersionHistory = [], pst_ReferencedBy = []\<rparr>\<rparr>) rows"

definition toV1alpha1Groups :: "group_row list \<Rightarrow> PolicyGroup list" where
  "toV1alpha1Groups rows = map (\<lambda>g.
     \<lparr>grp_Meta = object_meta (gw_Name g) (gw_Labels g) (gw_Annotations g), grp_Spec = gw_Spec g,
      grp_Status = \<lparr>gst_Phase = '''', gst_ObservedGeneration = 0, gst_ResolvedCount = 0, gst_ResolvedPolicies = [], gst_Conditions = []\<rparr>\<rparr>) rows"

definition toGatewayDists :: "distribution_row list \<Rightarrow> PolicyDistribution list" where
  "toGatewayDists rows = map (\<lambda>d. \<lparr>dist_Meta = object_meta (dw_Name d) None None, dist_Spec = dw_Spec d\<rparr>) rows"

definition toV1alpha1Exceptions :: "exception_row list \<Rightarrow> PolicyException list" where
  "toV1alpha1Exceptions rows = map (\<lambda>e.
     \<lparr>pex_Meta = object_meta (xw_Name e) (xw_Labels e) (xw_Annotations e), pex_Spec = xw_Spec e,
      pex_Status = \<lparr>xst_Phase = '''', xst_Message = '''', xst_EffectiveAt = None, xst_ExpiresAt = None, xst_ObservedGeneration = 0\<rparr>\<rparr>) rows"

text \<open>The distributions that concern a cluster: the system's and those of the cluster's tenant.\<close>

definition distributionsForCluster :: "distribution_row list \<Rightarrow> int option \<Rightarrow> distribution_row list" where
  "distributionsForCluster distributions tenantID = filter (\<lambda>d. dw_ResourceOwnerType d = ownerSystem
     \<or> (tenantID \<noteq> None \<and> dw_TenantID d \<noteq> None \<and> dw_TenantID d = tenantID)) distributions"

lemma grp_Name_toV1alpha1: "map grp_Name (toV1alpha1Groups rows) = map gw_Name rows"
  by (simp add: toV1alpha1Groups_def object_meta_def)

lemma distributionsForCluster_own:
  assumes "d \<in> set (distributionsForCluster distributions tenantID)" "dw_ResourceOwnerType d \<noteq> ownerSystem"
  shows "dw_TenantID d = tenantID"
  using assms by (auto simp: distributionsForCluster_def)

end
