(* ===== verification/Gateway_Push.thy ===== *)
theory Gateway_Push
  imports Policy_Rows Cluster_Lifecycle Event_Store
begin

text \<open>
  How a change reaches a connected member: the change notifier (\<^verbatim>\<open>internal/gateway/notifier.go\<close>), the rendering of one
  cluster's snapshot from the database (\<^verbatim>\<open>renderFor\<close>, \<^verbatim>\<open>withAdmissionEventConfig\<close>) and the push loop of a session
  (\<^verbatim>\<open>pushLoop\<close> of \<^verbatim>\<open>internal/gateway/server.go\<close>). The loop runs beside the writers of the database: its reads, its turns and
  the commits and notifications of others interleave as steps of one relation.
\<close>

section \<open>The notifier\<close>

text \<open>Channels are numbered as they are made; those before the current one are closed.\<close>

record Notifier =
  nf_ch :: nat
  nf_traceID :: string

definition NewNotifier :: Notifier where
  "NewNotifier = \<lparr>nf_ch = 0, nf_traceID = ''''\<rparr>"

definition Notify :: "Notifier \<Rightarrow> Notifier" where
  "Notify n = n\<lparr>nf_ch := Suc (nf_ch n)\<rparr>"

definition stash_trace :: "string \<Rightarrow> Notifier \<Rightarrow> Notifier" where
  "stash_trace traceID n = n\<lparr>nf_traceID := traceID\<rparr>"

definition NotifyWithTrace :: "string \<Rightarrow> Notifier \<Rightarrow> Notifier" where
  "NotifyWithTrace traceID n = Notify (stash_trace traceID n)"

definition lastTraceID :: "Notifier \<Rightarrow> string" where
  "lastTraceID n = nf_traceID n"

definition Wait :: "Notifier \<Rightarrow> nat" where
  "Wait n = nf_ch n"

definition closed :: "Notifier \<Rightarrow> nat \<Rightarrow> bool" where
  "closed n ch \<longleftrightarrow> ch < nf_ch n"

section \<open>Rendering from the database\<close>

record gateway_config = AdmissionEventConfig +
  gc_Priorities :: "int list"
  gc_DefaultRetentionDays :: int
  gc_PlatformObservationEnabled :: bool

record rendered =
  rd_Result :: RenderResult
  rd_Tasks :: "UninstallTask list"
  rd_Config :: "gateway_config option"

record gateway_tables =
  gt_life :: lifecycle_db
  gt_dists :: "distribution_row list"
  gt_groups :: "group_row list"
  gt_policies :: "policy_row list"
  gt_exceptions :: "exception_row list"
  gt_settings :: AdmissionEventSettings
  gt_storage :: "AdmissionStoragePolicy list"
  gt_platform :: bool

record server_flags =
  sf_admissionObservation :: bool
  sf_platformObservation :: bool
  sf_tracker :: Tracker

text \<open>What rendering depends on besides the database.\<close>

record push_env =
  pe_codec :: codec
  pe_config :: "gateway_config \<Rightarrow> string"
  pe_selector :: as_selector
  pe_cluster :: string

definition wire_int32 :: "int \<Rightarrow> int" where
  "wire_int32 x = sint (word_of_int x :: 32 word)"

definition SetAdmissionObservationEnabled :: "bool \<Rightarrow> server_flags \<Rightarrow> server_flags" where
  "SetAdmissionObservationEnabled enabled fl =
     fl\<lparr>sf_admissionObservation := enabled, sf_tracker := (if enabled then sf_tracker fl else Reset (sf_tracker fl))\<rparr>"

definition SetPlatformObservationEnabled :: "bool \<Rightarrow> server_flags \<Rightarrow> server_flags" where
  "SetPlatformObservationEnabled enabled fl = fl\<lparr>sf_platformObservation := enabled\<rparr>"

definition event_config :: "AdmissionEventSettings \<Rightarrow> AdmissionStoragePolicy list \<Rightarrow> bool \<Rightarrow> gateway_config" where
  "event_config settings policies platform =
    \<lparr>ec_Version = Itoa (as_StoragePolicyVersion settings),
     ec_StoragePolicies = map (\<lambda>p. Some \<lparr>rl_MatchMode = sp_MatchMode p, rl_Verdicts = nil_list (sp_Verdicts p), rl_Clusters = nil_list (sp_Clusters p),
       rl_GVKs = nil_list (sp_GVKs p), rl_Namespaces = nil_list (sp_Namespaces p)\<rparr>) policies,
     ec_RetryEnabled = as_RetryEnabled settings, ec_MaxRetryAttempts = wire_int32 (as_MaxRetryAttempts settings),
     ec_QueueCapacity = wire_int32 (as_QueueCapacity settings), ec_ObservationEnabled = as_ObservationEnabled settings,
     gc_Priorities = map (wire_int32 \<circ> sp_Priority) policies, gc_DefaultRetentionDays = wire_int32 (as_DefaultRetentionDays settings),
     gc_PlatformObservationEnabled = platform\<rparr>"

definition withAdmissionEventConfig ::
  "push_env \<Rightarrow> (string \<Rightarrow> string option) \<Rightarrow> gateway_tables \<Rightarrow> rendered \<Rightarrow> server_flags \<Rightarrow> server_flags \<times> (string + rendered)" where
  "withAdmissionEventConfig E fail db res fl =
    (case fail ''Admission.GetSettings'' of
       Some err \<Rightarrow> (fl, Inl err)
     | None \<Rightarrow> (case fail ''Admission.ListPolicies'' of
         Some err \<Rightarrow> (fl, Inl err)
       | None \<Rightarrow>
           (let fl1 = SetAdmissionObservationEnabled (as_ObservationEnabled (gt_settings db)) fl
            in case fail ''Platform.GetSettings'' of
                 Some err \<Rightarrow> (fl1, Inl err)
               | None \<Rightarrow>
                   (let config = event_config (gt_settings db) (gt_storage db) (gt_platform db);
                        r = rd_Result res
                    in (SetPlatformObservationEnabled (gt_platform db) fl1,
                        Inr (res\<lparr>rd_Config := Some config,
                          rd_Result := r\<lparr>rr_Hash := hashWithAdmissionEventConfig (pe_codec E) (pe_config E) (rr_Hash r) (Some config)\<rparr>\<rparr>))))))"

definition toGatewayCluster :: "cluster_row \<Rightarrow> Cluster" where
  "toGatewayCluster c = \<lparr>clu_Name = cr_Name c, clu_DisplayName = '''', clu_Labels = Some (cr_Labels c)\<rparr>"

definition ToProtoUninstallTasks :: "uninstall_task list \<Rightarrow> UninstallTask list" where
  "ToProtoUninstallTasks tasks = map (\<lambda>t. \<lparr>ut_TaskId = tk_ID t, ut_Attempt = wire_int32 (tk_Attempts t)\<rparr>) tasks"

text \<open>A cluster that is not there renders as one without labels and tenant, and gets no tasks.\<close>

definition renderFor ::
  "push_env \<Rightarrow> time \<Rightarrow> (string \<Rightarrow> string option) \<Rightarrow> gateway_tables \<Rightarrow> server_flags \<Rightarrow> server_flags \<times> (string + rendered)" where
  "renderFor E now fail db fl =
    (case map_option fail (find (\<lambda>call. fail call \<noteq> None)
        [''Clusters.GetByName'', ''Distributions.List'', ''Groups.List'', ''Policies.List'', ''Exceptions.List'']) of
       Some err \<Rightarrow> (fl, Inl (the err))
     | None \<Rightarrow>
         (let row = find (\<lambda>c. cr_Name c = pe_cluster E) (lc_clusters (gt_life db));
              cluster = (case row of None \<Rightarrow> \<lparr>clu_Name = pe_cluster E, clu_DisplayName = '''', clu_Labels = None\<rparr> | Some c \<Rightarrow> toGatewayCluster c);
              tenant = Option.bind row cr_TenantID;
              res = RenderWithExceptions (pe_codec E) (pe_selector E) now cluster (toGatewayDists (distributionsForCluster (gt_dists db) tenant))
                (toV1alpha1Groups (gt_groups db)) (toV1alpha1Policies (gt_policies db)) (toV1alpha1Exceptions (gt_exceptions db))
          in case row of
               None \<Rightarrow> withAdmissionEventConfig E fail db \<lparr>rd_Result = res, rd_Tasks = [], rd_Config = None\<rparr> fl
             | Some c \<Rightarrow>
                 (case fail ''UninstallTasks.ListActive'' of
                    Some err \<Rightarrow> (fl, Inl err)
                  | None \<Rightarrow>
                      (let tasks = ToProtoUninstallTasks (order_by tk_CreatedAt False
                             (filter (\<lambda>t. tk_ClusterID t = cr_ID c \<and> active_task t) (lc_tasks (gt_life db))))
                       in withAdmissionEventConfig E fail db
                            \<lparr>rd_Result = res\<lparr>rr_Hash := hashWithUninstallTasks (pe_codec E) (rr_Hash res) tasks\<rparr>, rd_Tasks = tasks, rd_Config = None\<rparr> fl))))"

section \<open>The push loop\<close>

record push_locals =
  pl_waitCh :: nat
  pl_traceID :: string
  pl_forceSend :: bool
  pl_wokeByNotify :: bool

record desired_message =
  dm_VersionHash :: string
  dm_Objects :: "ManagedObject list"
  dm_TraceId :: string
  dm_UninstallTasks :: "UninstallTask list"
  dm_AdmissionEventConfig :: "gateway_config option"

text \<open>One turn after the render: the message sent if any, the session's last snapshot, the snapshot whose statuses
  \<^verbatim>\<open>markPushed\<close> writes, and whether the loop goes on.\<close>

definition push_turn ::
  "bool \<Rightarrow> push_locals \<Rightarrow> string + rendered \<Rightarrow> rendered option \<Rightarrow> desired_message option \<times> rendered option \<times> rendered option \<times> bool" where
  "push_turn send_ok l res recent = (case res of
      Inl _ \<Rightarrow> (None, recent, None, True)
    | Inr r \<Rightarrow>
        (let changed = (case recent of None \<Rightarrow> True | Some p \<Rightarrow> rr_Hash (rd_Result p) \<noteq> rr_Hash (rd_Result r))
         in if changed \<or> pl_forceSend l then
              (if send_ok
               then (Some \<lparr>dm_VersionHash = rr_Hash (rd_Result r), dm_Objects = rr_Objects (rd_Result r),
                       dm_TraceId = (if pl_wokeByNotify l \<and> changed then pl_traceID l else ''''),
                       dm_UninstallTasks = rd_Tasks r, dm_AdmissionEventConfig = rd_Config r\<rparr>, Some r, Some r, True)
               else (None, recent, None, False))
            else (None, recent, Some r, True)))"

text \<open>The loop beside the rest of the system. \<open>sy_dirty\<close> says that a change is committed whose notification has not
  been raised yet; the reads of a render are separate steps.\<close>

datatype table_name = Life | Dists | Groups | Policies | Exceptions | Settings | Storage | Platform

definition all_tables :: "table_name list" where
  "all_tables = [Life, Dists, Groups, Policies, Exceptions, Settings, Storage, Platform]"

fun read_table :: "table_name \<Rightarrow> gateway_tables \<Rightarrow> gateway_tables \<Rightarrow> gateway_tables" where
  "read_table Life db view = view\<lparr>gt_life := gt_life db\<rparr>"
| "read_table Dists db view = view\<lparr>gt_dists := gt_dists db\<rparr>"
| "read_table Groups db view = view\<lparr>gt_groups := gt_groups db\<rparr>"
| "read_table Policies db view = view\<lparr>gt_policies := gt_policies db\<rparr>"
| "read_table Exceptions db view = view\<lparr>gt_exceptions := gt_exceptions db\<rparr>"
| "read_table Settings db view = view\<lparr>gt_settings := gt_settings db\<rparr>"
| "read_table Storage db view = view\<lparr>gt_storage := gt_storage db\<rparr>"
| "read_table Platform db view = view\<lparr>gt_platform := gt_platform db\<rparr>"

datatype loop_pc = Reading "table_name list" | Selecting | Ended

record push_system =
  sy_db :: gateway_tables
  sy_dirty :: bool
  sy_notifier :: Notifier
  sy_pc :: loop_pc
  sy_locals :: push_locals
  sy_view :: gateway_tables
  sy_flags :: server_flags
  sy_last :: "rendered option"
  sy_sent :: "desired_message list"
  sy_ok :: bool

definition begin_turn :: "bool \<Rightarrow> bool \<Rightarrow> push_system \<Rightarrow> push_system" where
  "begin_turn force woke s = s\<lparr>sy_pc := Reading all_tables, sy_locals := \<lparr>pl_waitCh = Wait (sy_notifier s), pl_traceID = lastTraceID (sy_notifier s),
     pl_forceSend = force, pl_wokeByNotify = woke\<rparr>\<rparr>"

definition end_turn :: "push_env \<Rightarrow> time \<Rightarrow> (string \<Rightarrow> string option) \<Rightarrow> bool \<Rightarrow> push_system \<Rightarrow> push_system" where
  "end_turn E now fail send_ok s =
    (case renderFor E now fail (sy_view s) (sy_flags s) of (fl, res) \<Rightarrow>
       (case push_turn send_ok (sy_locals s) res (sy_last s) of (msg, recent, pushed, continue) \<Rightarrow>
          s\<lparr>sy_pc := (if continue then Selecting else Ended), sy_flags := fl, sy_last := recent,
            sy_sent := sy_sent s @ (case msg of None \<Rightarrow> [] | Some m \<Rightarrow> [m]), sy_ok := (case res of Inl _ \<Rightarrow> False | Inr _ \<Rightarrow> True)\<rparr>))"

inductive loop_step :: "push_env \<Rightarrow> push_system \<Rightarrow> push_system \<Rightarrow> bool" for E s where
  reads: "sy_pc s = Reading (n # ns) \<Longrightarrow> loop_step E s (s\<lparr>sy_view := read_table n (sy_db s) (sy_view s), sy_pc := Reading ns\<rparr>)"
| turns: "sy_pc s = Reading [] \<Longrightarrow> loop_step E s (end_turn E now fail send_ok s)"
| woken: "sy_pc s = Selecting \<Longrightarrow> closed (sy_notifier s) (pl_waitCh (sy_locals s)) \<Longrightarrow> loop_step E s (begin_turn False True s)"
| ticked: "sy_pc s = Selecting \<Longrightarrow> loop_step E s (begin_turn True False s)"
| cancelled: "sy_pc s = Selecting \<Longrightarrow> loop_step E s (s\<lparr>sy_pc := Ended\<rparr>)"

inductive world_step :: "push_system \<Rightarrow> push_system \<Rightarrow> bool" for s where
  commits: "world_step s (s\<lparr>sy_db := db', sy_dirty := True\<rparr>)"
| stashes: "world_step s (s\<lparr>sy_notifier := stash_trace traceID (sy_notifier s)\<rparr>)"
| notifies: "world_step s (s\<lparr>sy_notifier := Notify (sy_notifier s), sy_dirty := False\<rparr>)"

inductive reachable_push :: "push_env \<Rightarrow> push_system \<Rightarrow> bool" for E where
  starts: "sy_last s = None \<Longrightarrow> sy_sent s = [] \<Longrightarrow> \<not> sy_ok s \<Longrightarrow> reachable_push E (begin_turn False False s)"
| loops: "reachable_push E s \<Longrightarrow> loop_step E s s' \<Longrightarrow> reachable_push E s'"
| others: "reachable_push E s \<Longrightarrow> world_step s s' \<Longrightarrow> reachable_push E s'"

section \<open>No change is missed\<close>

text \<open>As long as the captured channel is open and nothing is unannounced, every table read so far is current.\<close>

fun same_table :: "table_name \<Rightarrow> gateway_tables \<Rightarrow> gateway_tables \<Rightarrow> bool" where
  "same_table Life db view = (gt_life view = gt_life db)"
| "same_table Dists db view = (gt_dists view = gt_dists db)"
| "same_table Groups db view = (gt_groups view = gt_groups db)"
| "same_table Policies db view = (gt_policies view = gt_policies db)"
| "same_table Exceptions db view = (gt_exceptions view = gt_exceptions db)"
| "same_table Settings db view = (gt_settings view = gt_settings db)"
| "same_table Storage db view = (gt_storage view = gt_storage db)"
| "same_table Platform db view = (gt_platform view = gt_platform db)"

lemma same_table_read: "same_table m db (read_table n db view) \<longleftrightarrow> m = n \<or> same_table m db view"
  by (cases m; cases n) simp_all

lemma same_tables: "(\<And>m. same_table m db view) \<Longrightarrow> view = db"
  using same_table.simps by (metis (full_types) gateway_tables.equality old.unit.exhaust)

fun reads_current :: "loop_pc \<Rightarrow> gateway_tables \<Rightarrow> gateway_tables \<Rightarrow> bool" where
  "reads_current (Reading ns) db view = (\<forall>m. m \<notin> set ns \<longrightarrow> same_table m db view)"
| "reads_current Selecting db view = (view = db)"
| "reads_current Ended db view = True"

definition current :: "push_system \<Rightarrow> bool" where
  "current s \<longleftrightarrow> pl_waitCh (sy_locals s) \<le> nf_ch (sy_notifier s) \<and>
    (pl_waitCh (sy_locals s) = nf_ch (sy_notifier s) \<and> \<not> sy_dirty s \<longrightarrow> reads_current (sy_pc s) (sy_db s) (sy_view s))"

text \<open>The session's last snapshot is the last message's; after a successful turn it is the snapshot of what was read.\<close>

definition delivered :: "rendered option \<Rightarrow> desired_message list \<Rightarrow> bool" where
  "delivered recent sent = (case recent of None \<Rightarrow> True | Some p \<Rightarrow> sent \<noteq> [] \<and> dm_VersionHash (last sent) = rr_Hash (rd_Result p))"

definition matches :: "push_env \<Rightarrow> gateway_tables \<Rightarrow> rendered option \<Rightarrow> bool" where
  "matches E db recent \<longleftrightarrow> (\<exists>p r now fl. recent = Some p \<and> snd (renderFor E now (\<lambda>_. None) db fl) = Inr r \<and> rr_Hash (rd_Result r) = rr_Hash (rd_Result p))"

definition announced :: "push_env \<Rightarrow> push_system \<Rightarrow> bool" where
  "announced E s \<longleftrightarrow> delivered (sy_last s) (sy_sent s) \<and> (sy_pc s = Selecting \<and> sy_ok s \<longrightarrow> matches E (sy_view s) (sy_last s))"

lemma all_tables_complete: "n \<in> set all_tables"
  by (cases n) (simp_all add: all_tables_def)

lemma begin_current: "current (begin_turn force woke s)"
  by (simp add: current_def begin_turn_def Wait_def all_tables_complete)

lemma config_Inr:
  "snd (withAdmissionEventConfig E fail db res fl) = Inr r \<Longrightarrow> snd (withAdmissionEventConfig E (\<lambda>_. None) db res fl') = Inr r"
  by (auto simp: withAdmissionEventConfig_def Let_def split: option.splits)

lemma renderFor_Inr:
  assumes "snd (renderFor E now fail db fl) = Inr r"
  shows "snd (renderFor E now (\<lambda>_. None) db fl') = Inr r"
  using assms by (auto simp: renderFor_def Let_def config_Inr split: option.splits)

lemma renderFor_succeeds: "\<exists>r. snd (renderFor E now (\<lambda>_. None) db fl) = Inr r"
  by (auto simp: renderFor_def withAdmissionEventConfig_def Let_def split: option.split)

lemma end_turn_frame:
  "sy_db (end_turn E now fail send_ok s) = sy_db s" "sy_dirty (end_turn E now fail send_ok s) = sy_dirty s"
  "sy_notifier (end_turn E now fail send_ok s) = sy_notifier s" "sy_locals (end_turn E now fail send_ok s) = sy_locals s"
  "sy_view (end_turn E now fail send_ok s) = sy_view s" "sy_pc (end_turn E now fail send_ok s) \<in> {Selecting, Ended}"
  by (simp_all add: end_turn_def split: prod.split)

lemma push_turn_announced:
  assumes "push_turn send_ok l res recent = (msg, recent', pushed, continue)" "delivered recent sent"
  shows "delivered recent' (sent @ (case msg of None \<Rightarrow> [] | Some m \<Rightarrow> [m]))"
    "continue \<Longrightarrow> res = Inr r \<Longrightarrow> \<exists>p. recent' = Some p \<and> rr_Hash (rd_Result r) = rr_Hash (rd_Result p)"
  using assms by (auto simp: push_turn_def delivered_def Let_def split: sum.splits option.splits if_splits)

lemma end_turn_announced:
  assumes "announced E s"
  shows "announced E (end_turn E now fail send_ok s)"
proof -
  obtain fl res where r: "renderFor E now fail (sy_view s) (sy_flags s) = (fl, res)" by force
  obtain msg recent pushed continue where t: "push_turn send_ok (sy_locals s) res (sy_last s) = (msg, recent, pushed, continue)" by (metis prod_cases4)
  note turn = push_turn_announced [OF t, of "sy_sent s"]
  have "matches E (sy_view s) recent" if ok: "continue" "res = Inr x" for x
  proof -
    obtain p where "recent = Some p" "rr_Hash (rd_Result x) = rr_Hash (rd_Result p)" using turn(2) [OF _ ok] assms by (auto simp: announced_def)
    then show ?thesis using renderFor_Inr [of E now fail "sy_view s" "sy_flags s" x] r ok(2) by (auto simp: matches_def)
  qed
  then show ?thesis
    using turn(1) assms unfolding announced_def end_turn_def r prod.case t by (cases res) auto
qed

lemma loop_step_invariants:
  assumes "loop_step E s s'" "current s" "announced E s"
  shows "current s'" "announced E s'"
proof -
  from assms(1) have "current s' \<and> announced E s'"
  proof cases
    case (reads n ns)
    then show ?thesis using assms(2,3) by (auto simp: current_def announced_def same_table_read)
  next
    case (turns now fail send_ok)
    have "current s'"
      using assms(2) turns same_tables [of "sy_db s" "sy_view s"] end_turn_frame(6) [of E now fail send_ok s] by (auto simp: current_def end_turn_frame)
    then show ?thesis using end_turn_announced [OF assms(3)] turns by simp
  next
    case woken
    then show ?thesis using begin_current assms(3) by (auto simp: announced_def begin_turn_def)
  next
    case ticked
    then show ?thesis using begin_current assms(3) by (auto simp: announced_def begin_turn_def)
  next
    case cancelled
    then show ?thesis using assms(2,3) by (auto simp: current_def announced_def)
  qed
  then show "current s'" "announced E s'" by simp_all
qed

lemma world_step_invariants:
  assumes "world_step s s'" "current s" "announced E s"
  shows "current s'" "announced E s'"
  using assms by (auto simp: current_def announced_def stash_trace_def Notify_def elim!: world_step.cases)

lemma reachable_invariants:
  assumes "reachable_push E s"
  shows "current s \<and> announced E s"
  using assms
proof induction
  case (starts s)
  then show ?case using begin_current by (auto simp: announced_def begin_turn_def delivered_def)
next
  case (loops s s')
  then show ?case using loop_step_invariants by blast
next
  case (others s s')
  then show ?case using world_step_invariants by blast
qed

text \<open>C9: The push loop misses no change. Whatever commits, notifications and reads interleave with it, whenever the loop
  waits after a turn whose render succeeded, with its channel still open and no committed change left
  unannounced, the last snapshot sent to the member is the one the database renders to.\<close>

theorem push_loop_misses_nothing:
  assumes "reachable_push E s" "sy_pc s = Selecting" "sy_ok s" "\<not> closed (sy_notifier s) (pl_waitCh (sy_locals s))" "\<not> sy_dirty s"
  shows "\<exists>now fl r. snd (renderFor E now (\<lambda>_. None) (sy_db s) fl) = Inr r \<and> sy_sent s \<noteq> [] \<and> dm_VersionHash (last (sy_sent s)) = rr_Hash (rd_Result r)"
proof -
  note inv = reachable_invariants [OF assms(1)]
  have "pl_waitCh (sy_locals s) = nf_ch (sy_notifier s)" using inv assms(4) by (auto simp: current_def closed_def)
  then have "sy_view s = sy_db s" using inv assms(2,5) by (simp add: current_def)
  moreover obtain p r now fl where "sy_last s = Some p" "snd (renderFor E now (\<lambda>_. None) (sy_view s) fl) = Inr r" "rr_Hash (rd_Result r) = rr_Hash (rd_Result p)"
    using inv assms(2,3) unfolding announced_def matches_def by blast
  moreover from this have "sy_sent s \<noteq> []" "dm_VersionHash (last (sy_sent s)) = rr_Hash (rd_Result p)" using inv by (simp_all add: announced_def delivered_def)
  ultimately show ?thesis by metis
qed

lemma loop_runs_reachable: "reachable_push E s \<Longrightarrow> (loop_step E)\<^sup>*\<^sup>* s s' \<Longrightarrow> reachable_push E s'"
  by (rotate_tac 1, induction rule: rtranclp_induct) (auto intro: reachable_push.loops)

lemma reads_finish:
  assumes "sy_pc s = Reading ns"
  shows "\<exists>s'. (loop_step E)\<^sup>*\<^sup>* s s' \<and> sy_pc s' = Reading [] \<and> sy_db s' = sy_db s \<and> (\<forall>m. m \<in> set ns \<or> same_table m (sy_db s) (sy_view s) \<longrightarrow> same_table m (sy_db s) (sy_view s'))"
  using assms
proof (induction ns arbitrary: s)
  case (Cons n ns)
  let ?s1 = "s\<lparr>sy_view := read_table n (sy_db s) (sy_view s), sy_pc := Reading ns\<rparr>"
  have "loop_step E s ?s1" using Cons.prems by (rule loop_step.reads)
  moreover obtain s' where "(loop_step E)\<^sup>*\<^sup>* ?s1 s'" "sy_pc s' = Reading []" "sy_db s' = sy_db s"
    "\<forall>m. m \<in> set ns \<or> same_table m (sy_db s) (read_table n (sy_db s) (sy_view s)) \<longrightarrow> same_table m (sy_db s) (sy_view s')"
    using Cons.IH [of ?s1] by auto
  ultimately show ?case
    by (intro exI [of _ s'] conjI converse_rtranclp_into_rtranclp [of "loop_step E" s ?s1]) (auto simp: same_table_read)
qed auto

lemma turn_finishes:
  assumes "sy_pc s = Reading ns"
  shows "\<exists>s'. (loop_step E)\<^sup>*\<^sup>* s s' \<and> sy_pc s' = Selecting \<and> sy_ok s' \<and> sy_db s' = sy_db s \<and> (set ns = set all_tables \<longrightarrow> sy_view s' = sy_db s)"
proof -
  obtain s1 where s1: "(loop_step E)\<^sup>*\<^sup>* s s1" "sy_pc s1 = Reading []" "sy_db s1 = sy_db s"
    "\<forall>m. m \<in> set ns \<or> same_table m (sy_db s) (sy_view s) \<longrightarrow> same_table m (sy_db s) (sy_view s1)"
    using reads_finish [OF assms] by blast
  let ?s2 = "end_turn E 0 (\<lambda>_. None) True s1"
  obtain r where r: "snd (renderFor E 0 (\<lambda>_. None) (sy_view s1) (sy_flags s1)) = Inr r" using renderFor_succeeds by blast
  have "loop_step E s1 ?s2" by (rule loop_step.turns [OF s1(2)])
  moreover have "sy_pc ?s2 = Selecting" "sy_ok ?s2"
    using r by (auto simp: end_turn_def push_turn_def Let_def split: prod.splits if_splits)
  moreover have "sy_view s1 = sy_db s" if "set ns = set all_tables"
    using s1(4) that all_tables_complete by (intro same_tables) simp
  moreover have "sy_db ?s2 = sy_db s1" "sy_view ?s2 = sy_view s1" by (rule end_turn_frame)+
  ultimately show ?thesis using s1(1,3) by (intro exI [of _ ?s2]) simp
qed


text \<open>The notifier keeps the stashed identifier: a later plain notification hands it on, so that the message of an
  unrelated change carries the trace of an earlier one.\<close>

lemma plain_notify_keeps_trace: "lastTraceID (Notify (NotifyWithTrace traceID n)) = traceID"
  by (simp add: lastTraceID_def Notify_def NotifyWithTrace_def stash_trace_def)

lemma trace_of_unrelated_change:
  assumes "pl_traceID l = traceID" "pl_wokeByNotify l" "rr_Hash (rd_Result r) \<noteq> rr_Hash (rd_Result p)"
  shows "map_option dm_TraceId (fst (push_turn True l (Inr r) (Some p))) = Some traceID"
  using assms by (auto simp: push_turn_def)

section \<open>A run of the loop\<close>

definition ex_tables :: gateway_tables where
  "ex_tables = \<lparr>gt_life = \<lparr>lc_clusters = [new_cluster 1 ''c1'' [] ''h''], lc_tasks = [], lc_records = [], lc_next = 2\<rparr>, gt_dists = [], gt_groups = [],
     gt_policies = [], gt_exceptions = [],
     gt_settings = \<lparr>as_DefaultRetentionDays = 7, as_RetryEnabled = True, as_MaxRetryAttempts = 3, as_QueueCapacity = 10, as_IncidentRetentionDays = 7,
       as_StoragePolicyVersion = 1, as_ObservationEnabled = True\<rparr>, gt_storage = [], gt_platform = False\<rparr>"

definition ex_push_env :: push_env where
  "ex_push_env = \<lparr>pe_codec = ex_codec, pe_config = ec_Version, pe_selector = ex_asSelector, pe_cluster = ''c1''\<rparr>"

definition ex_start :: push_system where
  "ex_start = \<lparr>sy_db = ex_tables, sy_dirty = False, sy_notifier = NewNotifier, sy_pc = Selecting,
     sy_locals = \<lparr>pl_waitCh = 0, pl_traceID = '''', pl_forceSend = False, pl_wokeByNotify = False\<rparr>, sy_view = ex_tables,
     sy_flags = \<lparr>sf_admissionObservation = True, sf_platformObservation = False, sf_tracker = ex_tracker\<rparr>, sy_last = None, sy_sent = [], sy_ok = False\<rparr>"

definition ex_push_waiting :: push_system where
  "ex_push_waiting = end_turn ex_push_env 0 (\<lambda>_. None) True ((begin_turn False False ex_start)\<lparr>sy_pc := Reading []\<rparr>)"

lemma reads_idle:
  "sy_pc s = Reading ns \<Longrightarrow> sy_view s = sy_db s \<Longrightarrow> (loop_step E)\<^sup>*\<^sup>* s (s\<lparr>sy_pc := Reading []\<rparr>)"
proof (induction ns arbitrary: s)
  case Nil
  then have "s\<lparr>sy_pc := Reading []\<rparr> = s" by (cases s) simp
  then show ?case by simp
next
  case (Cons n ns)
  have "read_table n (sy_db s) (sy_view s) = sy_db s" using Cons.prems(2) by (cases n) simp_all
  then have "loop_step E s (s\<lparr>sy_pc := Reading ns\<rparr>)"
    using loop_step.reads [OF Cons.prems(1), of E] Cons.prems(2) by (metis push_system.surjective push_system.update_convs(6))
  moreover have "(loop_step E)\<^sup>*\<^sup>* (s\<lparr>sy_pc := Reading ns\<rparr>) (s\<lparr>sy_pc := Reading []\<rparr>)"
    using Cons.IH [of "s\<lparr>sy_pc := Reading ns\<rparr>"] Cons.prems(2) by simp
  ultimately show ?case by (rule converse_rtranclp_into_rtranclp)
qed

lemma ex_push_waiting_reachable: "reachable_push ex_push_env ex_push_waiting"
proof -
  let ?s = "begin_turn False False ex_start"
  have "reachable_push ex_push_env ?s" by (rule reachable_push.starts) (simp_all add: ex_start_def)
  then have "reachable_push ex_push_env (?s\<lparr>sy_pc := Reading []\<rparr>)"
    using reads_idle [of ?s all_tables] loop_runs_reachable by (simp add: begin_turn_def ex_start_def)
  then show ?thesis unfolding ex_push_waiting_def by (rule reachable_push.loops) (simp add: loop_step.turns)
qed

lemma ex_push_waiting_state:
  "sy_pc ex_push_waiting = Selecting" "sy_ok ex_push_waiting" "\<not> closed (sy_notifier ex_push_waiting) (pl_waitCh (sy_locals ex_push_waiting))" "\<not> sy_dirty ex_push_waiting"
  "length (sy_sent ex_push_waiting) = 1"
  by code_simp+

theorem push_loop_misses_nothing_witness:
  "length (sy_sent ex_push_waiting) = 1 \<and> (\<exists>now fl r. snd (renderFor ex_push_env now (\<lambda>_. None) (sy_db ex_push_waiting) fl) = Inr r \<and>
     dm_VersionHash (last (sy_sent ex_push_waiting)) = rr_Hash (rd_Result r))"
  using push_loop_misses_nothing [OF ex_push_waiting_reachable ex_push_waiting_state(1-4)] ex_push_waiting_state(5) by blast

text \<open>A change of the storage policy version that nobody announces.\<close>

definition ex_unannounced :: push_system where
  "ex_unannounced = ex_push_waiting\<lparr>sy_db := ex_tables\<lparr>gt_settings := (gt_settings ex_tables)\<lparr>as_StoragePolicyVersion := 2\<rparr>\<rparr>, sy_dirty := True\<rparr>"


end
