(* ===== verification/Spec2Isabelle.thy ===== *)
theory Spec2Isabelle
  imports Storage_Policy Event_Report Policy_Reconcile Group_Reconcile Webhook_Config Gateway_Render Gateway_Sessions Gateway_Status
    Link_Incidents Member_Uninstall Event_Store Incident_Store Identity_Guards Lifecycle_Guarantees Gateway_Push
begin

text \<open>
  KubeSentry distributes admission policies to member clusters. A console lets administrators edit policies, groups,
  exceptions and clusters in a database; a gateway renders what each cluster should have and pushes it over a stream;
  an operator in each member applies the snapshot as custom resources and reconciles them; a webhook judges every
  admission request by them and reports its verdicts back through the operator and the gateway to the console. The
  development follows a policy along this path and an event along the way back.

  \<^bold>\<open>Shared ground.\<close> \<^verbatim>\<open>KS_Prelude\<close> has the shapes every component uses: Go maps as association lists whose order stands for
  the order of a range loop, maps written by loops, and the locale of machines that lifts a preserved predicate to every
  run. \<^verbatim>\<open>Go_Strings\<close>, \<^verbatim>\<open>Go_Time\<close> and \<^verbatim>\<open>Go_Runes\<close> are the parts of the Go library the program uses (trimming and splitting,
  decimal printing and \<^verbatim>\<open>ParseDuration\<close> with its 64-bit overflow checks, UTF-8). \<^verbatim>\<open>Kube_Api\<close> has the errors of the Kubernetes
  client and the retry on conflicts. \<^verbatim>\<open>Api_Types\<close> has the custom resources of \<^verbatim>\<open>api/kubesentry/v1alpha1\<close> as records.

  \<^bold>\<open>The webhook\<close> (\<^verbatim>\<open>internal/webhook\<close>, \<^verbatim>\<open>internal/groupresolve\<close>). \<^verbatim>\<open>Group_Resolve\<close> computes the members of a group and
  refines a statement about one name. \<^verbatim>\<open>Policy_Cache\<close>, \<^verbatim>\<open>Exception_Cache\<close> and \<^verbatim>\<open>Namespace_Cache\<close> are the in-memory stores; their
  indexes are shown to follow from their contents and their fast lookups to equal a plain search. \<^verbatim>\<open>Admission_Handler\<close>
  sees them through locales and is shown to deny exactly when some enforced policy that applies and is not exempted is
  violated. \<^verbatim>\<open>Event_Report\<close> and \<^verbatim>\<open>Event_References\<close> are the reporter of verdicts: bounded delivery, no silent loss, and the
  round trip of the references in an event's text.

  \<^bold>\<open>The operator\<close> (\<^verbatim>\<open>internal/operator\<close>). \<^verbatim>\<open>Policy_Reconcile\<close>, \<^verbatim>\<open>Group_Reconcile\<close>, \<^verbatim>\<open>Exception_Lifecycle\<close> and \<^verbatim>\<open>Webhook_Config\<close>
  are the reconcilers: passes as functions of what the API server answers, with invariants of the stored objects, a step
  relation for the life of an exception and the termination of its collection. \<^verbatim>\<open>Desired_State\<close> applies a snapshot;
  the locale of object kinds is interpreted for the three kinds, and applying converges and leaves unmanaged objects
  alone. \<^verbatim>\<open>Event_Queue\<close> and \<^verbatim>\<open>Link_Incidents\<close> are the queues towards the gateway; every event and incident is accounted
  for. \<^verbatim>\<open>Member_Uninstall\<close> removes the installation.

  \<^bold>\<open>The gateway\<close> (\<^verbatim>\<open>internal/gateway\<close>). \<^verbatim>\<open>Gateway_Render\<close> renders the snapshot and is shown equal to a reference that names
  each object's contributors; this theory joins it to \<^verbatim>\<open>Desired_State\<close>. \<^verbatim>\<open>Policy_Rows\<close> and \<^verbatim>\<open>Gateway_Push\<close> render from the
  database and model the push loop beside the writers of the tables as one step relation in which reads, turns,
  commits and notifications interleave: no change is missed, and the loop catches up by its own steps.
  \<^verbatim>\<open>Gateway_Sessions\<close> has the registries of streams and their single leader, \<^verbatim>\<open>Gateway_Status\<close> the heartbeats, the columns of the
  clusters table and the status of distributions, \<^verbatim>\<open>Event_Store\<close>, \<^verbatim>\<open>Incident_Store\<close> and \<^verbatim>\<open>Storage_Policy\<close> the ingestion,
  storage and cleanup of events and incidents, \<^verbatim>\<open>Incident_Tracker\<close> the tracker of link incidents that webhook, operator
  and gateway share, whose index panic is unreachable.

  \<^bold>\<open>The console\<close> (\<^verbatim>\<open>internal/console/service\<close>, \<^verbatim>\<open>internal/database/repository\<close>). \<^verbatim>\<open>Console_Access\<close> has principals, ownership and
  paging. \<^verbatim>\<open>Identity_Store\<close>, \<^verbatim>\<open>Console_Identity\<close> and \<^verbatim>\<open>Identity_Guards\<close> are accounts and sessions, with invariants over any
  sequence of operations: an administrator remains, tenant administrators stay within their tenant, a lockout
  bounds the guesses. \<^verbatim>\<open>Install_Command\<close> is the generated install command, read back by the rules of a POSIX shell.
  \<^verbatim>\<open>Cluster_Lifecycle\<close> and \<^verbatim>\<open>Lifecycle_Guarantees\<close> are the life of a cluster across console and gateway: creation,
  registration, uninstall tasks and their reports.

  \<^bold>\<open>Conventions.\<close> A call that can fail returns a sum with the error on the left, or the error as an option beside the
  state it leaves; which calls of a database or an API server fail is a parameter (\<open>en_fail\<close>, \<open>fail\<close>, the environments'
  fields), and theorems hold for every choice unless they say otherwise. A transaction changes nothing when one of its
  calls fails; writes outside one are kept. Tables hold the live rows in the order in which they are listed. Times are
  nanoseconds since the epoch as integers. What a mutex protects is one step. Operators of the schema that code relies
  on (unique indexes, checks) are part of the operations on the tables. Code outside the repository is a parameter:
  label selectors, Rego compilation and evaluation, JSON encoding, SHA-256, bcrypt, random identities, the map
  order of the runtime and the HTTP exchanges.

  \<^bold>\<open>Bounds and fuel.\<close> The only numeric bounds are the program's own: the attempts of a conflict retry and of the
  search for a version number are arguments that the code's constants instantiate, queue capacities are fields of the
  state. Loops that the code bounds by its data are structural recursions or have a termination proof; the one loop
  that runs for ever, the push loop, is a step relation. The requeue loop of an exception (\<open>drive\<close>) takes the number of
  passes as fuel, and \<open>exception_is_collected\<close> shows that four are always enough.

  \<^bold>\<open>Not modelled.\<close> HTTP routing, handlers, request decoding and cookies of the console, gRPC streams and TLS set-up,
  process start-up, logging, migrations, generated code (protobuf, deep copies) and the browser application are I/O or
  glue around what is modelled. Platform observability samples the Go runtime and aggregates by SQL. The console's
  services for policies, exceptions and unmanaged distributions are forms over rows whose meaning is modelled where the
  gateway renders them.
\<close>

section \<open>From the platform to a member\<close>

lemma reference_keys_distinct:
  "distinct (map object_key (reference_objects cd asSelector now cluster dists groups policies exceptions))"
  by (auto simp: reference_objects_def Let_def policy_object_def reference_group_def exception_object_def comp_def distinct_map inj_on_def)

lemma listed_groups_finite [simp]: "finite {n. \<exists>d \<in> set dists. \<exists>g. lists_group asSelector cluster groups d n g}"
  by (rule finite_subset [of _ "set (concat (map (\<lambda>d. pd_PolicyGroups (dist_Spec d)) dists))"]) (auto simp: lists_group_def)

lemma reference_groups:
  assumes "modes_ok (all_events asSelector now cluster groups policies dists)" "d \<in> set dists" "lists_group asSelector cluster groups d n g"
  shows "reference_group cd groups (contributes asSelector now cluster groups policies dists n) n
    \<in> set (reference_objects cd asSelector now cluster dists groups policies exceptions)"
  using assms(2,3) by (auto simp: reference_objects_def Let_def)

lemma reference_names:
  assumes "n \<in> set (snapshot_names (reference_objects cd asSelector now cluster dists groups policies exceptions) ''PolicyGroup'')"
  shows "\<exists>d \<in> set dists. \<exists>g. lists_group asSelector cluster groups d n g"
  using assms by (auto simp: snapshot_names_def reference_objects_def Let_def policy_object_def reference_group_def exception_object_def)

text \<open>The snapshot a member is sent.\<close>

abbreviation rendered_state ::
  "codec \<Rightarrow> as_selector \<Rightarrow> time \<Rightarrow> Cluster \<Rightarrow> PolicyDistribution list \<Rightarrow> PolicyGroup list \<Rightarrow> Policy list \<Rightarrow> PolicyException list \<Rightarrow> string \<Rightarrow> DesiredState" where
  "rendered_state cd asSelector now cluster dists groups policies exceptions tr \<equiv>
     \<lparr>ds_Version = rr_Hash (RenderWithExceptions cd asSelector now cluster dists groups policies exceptions), ds_TraceId = tr,
      ds_Objects = rr_Objects (RenderWithExceptions cd asSelector now cluster dists groups policies exceptions)\<rparr>"

text \<open>C8: What the platform distributes is what the member has. When a member applies the snapshot rendered for
  its cluster without error, every enabled group that a distribution targeting the cluster lists is there,
  with exactly the policies the targeting distributions contribute, each in the strictest contributed
  mode; and every managed group still there is one that such a distribution lists, or is being deleted.\<close>

theorem distribution_reaches_member:
  assumes "modes_ok (all_events asSelector now cluster groups policies dists)" "wf_member mc" "honest_delete env"
    "applyDesiredState env (rendered_state cd asSelector now cluster dists groups policies exceptions tr) mc = (mc', None)"
    "d \<in> set dists" "lists_group asSelector cluster groups d n g"
    "spec = reference_spec (grp_Spec g) (contributes asSelector now cluster groups policies dists n)"
    "ap_group_spec env (enc_group cd spec) = Inr spec"
  shows "(\<exists>m s. entry mc' ''PolicyGroup'' n = Some (m, OfGroup s) \<and> groupSpecsEqual s spec) \<and>
    (\<forall>n' m s. entry mc' ''PolicyGroup'' n' = Some (m, s) \<and> has_managed_label m \<longrightarrow>
      (\<exists>d' \<in> set dists. \<exists>g'. lists_group asSelector cluster groups d' n' g') \<or> om_DeletionTimestamp m \<noteq> None)"
proof -
  let ?ds = "rendered_state cd asSelector now cluster dists groups policies exceptions tr"
  let ?ref = "reference_objects cd asSelector now cluster dists groups policies exceptions"
  let ?obj = "reference_group cd groups (contributes asSelector now cluster groups policies dists n) n"
  have objs: "ds_Objects ?ds = ?ref" using render_objects [OF assms(1)] by simp
  note applied = applied_snapshot [OF assms(2,3), of ?ds, unfolded objs, OF reference_keys_distinct]
  have ok: "snd (applyDesiredState env ?ds mc) = None" "fst (applyDesiredState env ?ds mc) = mc'" using assms(4) by simp_all
  have "map_of (index_by grp_Name id groups) n = Some g" using assms(6) by (simp add: lists_group_def)
  then have "decode_object env ?obj = Inr (OfGroup spec)" "mo_Kind ?obj = ''PolicyGroup''" "mo_Name ?obj = n"
    using assms(7,8) by (simp_all add: reference_group_def Let_def decode_object_def)
  moreover have "satisfied env ?obj mc'" using applied(1) [OF ok(1) reference_groups [OF assms(1,5,6)]] ok(2) by simp
  ultimately obtain m s where "entry mc' ''PolicyGroup'' n = Some (m, s)" "spec_equal s (OfGroup spec)" by (auto simp: satisfied_def)
  then have "\<exists>m s. entry mc' ''PolicyGroup'' n = Some (m, OfGroup s) \<and> groupSpecsEqual s spec" by (cases s) auto
  moreover have "n' \<in> set (snapshot_names ?ref ''PolicyGroup'') \<or> om_DeletionTimestamp m \<noteq> None"
    if "entry mc' ''PolicyGroup'' n' = Some (m, s)" "has_managed_label m" for n' m s
    using applied(2) [OF ok(1), of "''PolicyGroup''" n' m s] that ok(2) by simp
  ultimately show ?thesis using reference_names by blast
qed

section \<open>Witness\<close>

definition ex_sent_spec :: PolicyGroupSpec where
  "ex_sent_spec = ex_group_spec\<lparr>gs_Policies := \<lparr>pgp_ByName = [\<lparr>ref_Name = ''limits'', ref_EnforcementMode = ''audit''\<rparr>,
     \<lparr>ref_Name = ''probes'', ref_EnforcementMode = ''enforce''\<rparr>], pgp_BySelector = None, pgp_Exclude = []\<rparr>,
     gs_SelectorEnforcementMode := ''''\<rparr>"

definition ex_member_env :: apply_env where
  "ex_member_env = ex_apply_env\<lparr>ap_policy_spec := \<lambda>_. Inr (pol_Spec (hd ex_policies)), ap_group_spec := \<lambda>_. Inr ex_sent_spec\<rparr>"

abbreviation ex_rendered :: DesiredState where
  "ex_rendered \<equiv> rendered_state ex_codec ex_asSelector 0 ex_cluster ex_dists ex_groups ex_policies [] ''t1''"

lemma ex_contributes:
  "contributes ex_asSelector 0 ex_cluster ex_groups ex_policies ex_dists ''base''
   = (\<lambda>p m. (p, m) \<in> {(''limits'', ''audit''), (''probes'', ''audit''), (''probes'', ''enforce'')})"
proof -
  let ?row = "\<lambda>e. case e of Touch n g \<Rightarrow> (n, None) | Member n g p m \<Rightarrow> (n, Some (p, m))"
  have "map ?row (all_events ex_asSelector 0 ex_cluster ex_groups ex_policies ex_dists)
    = [(''base'', None), (''base'', Some (''limits'', ''audit'')), (''base'', Some (''probes'', ''audit'')),
       (''base'', None), (''base'', Some (''limits'', ''audit'')), (''base'', Some (''probes'', ''enforce''))]" by code_simp
  note rows = arg_cong [OF this, of set, unfolded set_map]
  have "contributes ex_asSelector 0 ex_cluster ex_groups ex_policies ex_dists ''base'' p m
    \<longleftrightarrow> (''base'', Some (p, m)) \<in> ?row ` set (all_events ex_asSelector 0 ex_cluster ex_groups ex_policies ex_dists)" for p m
  proof -
    have "?row e = (''base'', Some (p, m)) \<longleftrightarrow> (\<exists>g. e = Member ''base'' g p m)" for e by (cases e) auto
    then show ?thesis unfolding Member_in_events [symmetric] image_iff by metis
  qed
  then show ?thesis unfolding rows by (intro ext) auto
qed

lemma ex_sent:
  "reference_spec ex_group_spec (contributes ex_asSelector 0 ex_cluster ex_groups ex_policies ex_dists ''base'') = ex_sent_spec"
proof -
  have "{p. \<exists>m. (p, m) \<in> {(''limits'', ''audit''), (''probes'', ''audit''), (''probes'', ''enforce'')}} = set [''limits'', ''probes'']" by auto
  then show ?thesis
    unfolding reference_spec_def ex_contributes ex_sent_spec_def
    by (simp only: sorted_list_of_set_sort_remdups) (simp add: reference_mode_def ModeEnforce_def ModeAudit_def)
qed

theorem distribution_reaches_member_witness:
  "\<exists>m s. entry (fst (applyDesiredState ex_member_env ex_rendered ex_member)) ''PolicyGroup'' ''base'' = Some (m, OfGroup s) \<and> groupSpecsEqual s ex_sent_spec"
proof -
  have "applyDesiredState ex_member_env ex_rendered ex_member = (fst (applyDesiredState ex_member_env ex_rendered ex_member), None)"
    by (rule prod_eqI; simp) code_simp
  moreover have "wf_member ex_member" "honest_delete ex_member_env"
    using ex_apply_env_ok by (simp_all add: honest_delete_def ex_member_env_def)
  moreover have "lists_group ex_asSelector ex_cluster ex_groups (hd ex_dists) ''base'' (hd ex_groups)" by code_simp
  moreover have "ap_group_spec ex_member_env (enc_group ex_codec ex_sent_spec) = Inr ex_sent_spec" by (simp add: ex_member_env_def)
  ultimately show ?thesis
    using distribution_reaches_member [OF ex_modes_ok, of ex_member ex_member_env ex_codec "[]" "''t1''" _ "hd ex_dists" "''base''" "hd ex_groups" ex_sent_spec]
      ex_sent by (simp add: ex_dists_def ex_groups_def)
qed

end
